(* ===== verification/Prelude.thy ===== *)
theory Prelude
  imports Complex_Main "HOL-Library.AList"
begin

text \<open>
  Shared vocabulary of the development: the collections of rewrite rules, insertion-ordered
  association lists (the JavaScript object and \<open>Map\<close>: overwriting keeps a key's place, a new
  key goes last), the JavaScript string primitives the sources use, and the generic lemmas on
  lists and closures that several components need.

  Text is kept as \<^typ>\<open>string\<close>, one 8-bit character per code unit, read in Windows-1252, which
  covers the typographic characters of the user interface.
\<close>

named_theorems ob_simps \<open>lookup, update, spread and key lists of ordered objects\<close>

section \<open>Ordered objects\<close>

declare map_of_eq_Some_iff [simp del] Some_eq_map_of_iff [simp del] map_of_append [simp del]

type_synonym 'v ordered = "(string \<times> 'v) list"

abbreviation ob_keys :: "('k \<times> 'v) list \<Rightarrow> 'k list" where
  "ob_keys ob \<equiv> map fst ob"

abbreviation ob_get :: "('k \<times> 'v) list \<Rightarrow> 'k \<Rightarrow> 'v option" where
  "ob_get \<equiv> map_of"

text \<open>Property assignment \<open>ob[k] = v\<close> (and \<open>Map.set\<close>): in place for an old key, last for a new one.\<close>

abbreviation ob_set :: "('k \<times> 'v) list \<Rightarrow> 'k \<Rightarrow> 'v \<Rightarrow> ('k \<times> 'v) list" where
  "ob_set ob k v \<equiv> AList.update k v ob"

text \<open>The object spread \<open>{ ...a, ...b }\<close>.\<close>

definition spread :: "('k \<times> 'v) list \<Rightarrow> ('k \<times> 'v) list \<Rightarrow> ('k \<times> 'v) list" where
  "spread a b = fold (\<lambda>(k, v) ob. ob_set ob k v) b a"

lemma get_set [ob_simps]: "ob_get (ob_set ob k v) k' = (if k' = k then Some v else ob_get ob k')"
  by (simp add: AList.update_conv)

lemma keys_set [ob_simps]: "ob_keys (ob_set ob k v) = (if k \<in> set (ob_keys ob) then ob_keys ob else ob_keys ob @ [k])"
  by (induction ob) auto

lemma distinct_keys_set [ob_simps]: "distinct (ob_keys (ob_set ob k v)) \<longleftrightarrow> distinct (ob_keys ob)"
  by (simp add: keys_set)

lemma spread_Nil [ob_simps]: "spread a [] = a"
  by (simp add: spread_def)

lemma spread_Cons [ob_simps]: "spread a (p # b) = spread (ob_set a (fst p) (snd p)) b"
  by (cases p) (simp add: spread_def)

lemma get_spread:
  "distinct (ob_keys b) \<Longrightarrow>
    ob_get (spread a b) k = (case ob_get b k of Some v \<Rightarrow> Some v | None \<Rightarrow> ob_get a k)"
proof (induction b arbitrary: a)
  case (Cons p b)
  then have "ob_get b (fst p) = None" by (simp add: map_of_eq_None_iff)
  with Cons show ?case by (cases p) (auto simp: ob_simps split: option.splits)
qed (simp add: ob_simps)

lemma keys_spread:
  "distinct (ob_keys b) \<Longrightarrow>
    ob_keys (spread a b) = ob_keys a @ filter (\<lambda>k. k \<notin> set (ob_keys a)) (ob_keys b)"
proof (induction b arbitrary: a)
  case (Cons p b)
  let ?a = "ob_set a (fst p) (snd p)"
  have "filter (\<lambda>k. k \<notin> set (ob_keys ?a)) (ob_keys b)
      = filter (\<lambda>k. k \<notin> set (ob_keys a)) (ob_keys b)"
    using Cons.prems by (intro filter_cong) (auto simp: keys_set rev_image_eqI)
  moreover have "ob_keys (spread ?a b) = ob_keys ?a @ filter (\<lambda>k. k \<notin> set (ob_keys ?a)) (ob_keys b)"
    using Cons by (simp del: set_map)
  ultimately show ?case by (simp add: spread_Cons keys_set)
qed (simp add: ob_simps)

lemma distinct_keys_spread:
  "distinct (ob_keys a) \<Longrightarrow> distinct (ob_keys (spread a b))"
  by (induction b arbitrary: a) (auto simp: ob_simps)

text \<open>Two objects with the same keys in the same order and the same values are the same object.\<close>

lemma ob_ext:
  assumes "ob_keys a = ob_keys b" and "distinct (ob_keys a)"
    and "\<And>k. k \<in> set (ob_keys a) \<Longrightarrow> ob_get a k = ob_get b k"
  shows "a = b"
  using assms
proof (induction a arbitrary: b)
  case (Cons p a)
  then obtain q b' where b: "b = q # b'" by (cases b) auto
  have q: "fst q = fst p" and keys: "ob_keys a = ob_keys b'"
    using Cons.prems(1) b by auto
  have "snd p = snd q"
    using Cons.prems(3) [of "fst p"] b q by (cases p; cases q) simp
  moreover have "a = b'"
  proof (rule Cons.IH [OF keys])
    show "distinct (ob_keys a)" using Cons.prems(2) by simp
    show "ob_get a k = ob_get b' k" if "k \<in> set (ob_keys a)" for k
    proof -
      have "k \<noteq> fst p" using that Cons.prems(2) by (metis distinct.simps(2) list.simps(9))
      then show ?thesis
        using Cons.prems(3) [of k] that b q by (cases p; cases q) auto
    qed
  qed
  ultimately show ?case using b q by (simp add: prod_eq_iff)
qed simp

lemma get_in_keys: "ob_get ob k = Some v \<Longrightarrow> k \<in> set (ob_keys ob)"
  by (metis domI dom_map_of_conv_image_fst list.set_map)

lemma get_in_fst: "ob_get ob k = Some v \<Longrightarrow> k \<in> fst ` set ob"
  by (drule get_in_keys) simp

lemma set_same: "distinct (ob_keys ob) \<Longrightarrow> ob_get ob k = Some v \<Longrightarrow> ob_set ob k v = ob"
  by (rule ob_ext) (simp_all add: ob_simps get_in_fst [of ob k v])

lemma set_new: "k \<notin> set (ob_keys ob) \<Longrightarrow> ob_set ob k v = ob @ [(k, v)]"
  by (induction ob) auto

lemma in_keys_set: "x \<in> set (ob_keys (ob_set ob k v)) \<longleftrightarrow> x = k \<or> x \<in> set (ob_keys ob)"
  unfolding keys_set by auto

lemma in_keys_spread: "k \<in> set (ob_keys (spread a b)) \<longleftrightarrow> k \<in> set (ob_keys a) \<or> k \<in> set (ob_keys b)"
  by (induction b arbitrary: a) (auto simp: ob_simps in_keys_set [simplified])

lemma fold_set_spread: "fold (\<lambda>d m. ob_set m d (f d)) ds m = spread m (map (\<lambda>d. (d, f d)) ds)"
  by (induction ds arbitrary: m) (auto simp: ob_simps)

lemma get_append: "ob_get (a @ b) k = (case ob_get a k of Some v \<Rightarrow> Some v | None \<Rightarrow> ob_get b k)"
  by (simp add: map_of_append map_add_def split: option.splits)

lemma get_disjoint_None: "set (ob_keys ob) \<inter> K = {} \<Longrightarrow> k \<in> K \<Longrightarrow> ob_get ob k = None"
  by (auto simp: map_of_eq_None_iff)

lemma get_filter_keys:
  "ob_get (filter (\<lambda>p. P (fst p)) ob) k = (if P k then ob_get ob k else None)"
  by (induction ob) auto

section \<open>Strings\<close>

text \<open>JavaScript white space among the 8-bit characters: tab, line feed, vertical tab, form feed,
  carriage return, space and no-break space.\<close>

definition is_ws :: "char \<Rightarrow> bool" where
  "is_ws c \<longleftrightarrow> c \<in> set [CHR 0x09, CHR 0x0A, CHR 0x0B, CHR 0x0C, CHR 0x0D, CHR 0x20, CHR 0xA0]"

definition trim :: "string \<Rightarrow> string" where
  "trim s = rev (dropWhile is_ws (rev (dropWhile is_ws s)))"

definition is_digit :: "char \<Rightarrow> bool" where
  "is_digit c \<longleftrightarrow> c \<in> set ''0123456789''"

text \<open>\<open>s.replace(/\D/g, '')\<close>.\<close>

abbreviation digits_of :: "string \<Rightarrow> string" where
  "digits_of s \<equiv> filter is_digit s"

definition startsWith :: "string \<Rightarrow> string \<Rightarrow> bool" where
  "startsWith s p \<longleftrightarrow> take (length p) s = p"

text \<open>\<open>xs.join(sep)\<close>, and a whole number in a template string.\<close>

fun join :: "string \<Rightarrow> string list \<Rightarrow> string" where
  "join sep [] = []"
| "join sep [x] = x"
| "join sep (x # xs) = x @ sep @ join sep xs"

definition digit_char :: "nat \<Rightarrow> char" where
  "digit_char d = ''0123456789'' ! (d mod 10)"

fun nat_str :: "nat \<Rightarrow> string" where
  "nat_str n = (if n < 10 then [digit_char n] else nat_str (n div 10) @ [digit_char n])"

declare nat_str.simps [simp del]

text \<open>\<open>Number(s)\<close> of a text of decimal digits.\<close>

definition digit_val :: "char \<Rightarrow> nat" where
  "digit_val c = of_char c - 48"

definition digits_val :: "string \<Rightarrow> nat" where
  "digits_val s = foldl (\<lambda>n c. 10 * n + digit_val c) 0 s"

lemma startsWith_append [simp]: "startsWith (p @ s) p"
  by (simp add: startsWith_def)

lemma trim_no_ws: "\<forall>c \<in> set s. \<not> is_ws c \<Longrightarrow> trim s = s"
proof -
  assume a: "\<forall>c \<in> set s. \<not> is_ws c"
  then have "\<forall>c \<in> set (rev s). \<not> is_ws c" by simp
  with a have "dropWhile is_ws s = s" "dropWhile is_ws (rev s) = rev s"
    by (simp_all only: dropWhile_eq_self_iff) (metis list.set_sel(1))+
  then show ?thesis by (simp add: trim_def)
qed

lemma set_trim: "set (trim s) \<subseteq> set s"
  by (auto simp: trim_def dest!: set_dropWhileD)

lemma trim_trim [simp]: "trim (trim s) = trim s"
proof -
  let ?d = "dropWhile is_ws"
  define t where "t = ?d s"
  define u where "u = ?d (rev t)"
  have t0: "t = [] \<or> \<not> is_ws (hd t)" unfolding t_def using hd_dropWhile by blast
  have u0: "u = [] \<or> \<not> is_ws (hd u)" unfolding u_def using hd_dropWhile by blast
  obtain w where w: "rev t = w @ u" unfolding u_def by (metis takeWhile_dropWhile_id)
  then have "t = rev u @ rev w" by (metis rev_append rev_rev_ident)
  then have "rev u = [] \<or> \<not> is_ws (hd (rev u))" using t0 by (cases "rev u") auto
  then have "?d (rev u) = rev u" by (cases "rev u") auto
  moreover have "?d u = u" using u0 by (cases u) auto
  ultimately show ?thesis by (simp add: trim_def t_def [symmetric] u_def [symmetric])
qed

section \<open>Lists, options and closures\<close>

lemma find_Some_in: "List.find P xs = Some x \<Longrightarrow> x \<in> set xs \<and> P x"
  by (metis find_Some_iff nth_mem)

lemma find_None_all: "List.find P xs = None \<longleftrightarrow> (\<forall>x \<in> set xs. \<not> P x)"
  by (auto simp: find_None_iff)

text \<open>\<open>new Map(xs.map(x => [f(x), x]))\<close> looked up: the last element with the key.\<close>

definition last_by :: "('a \<Rightarrow> 'k) \<Rightarrow> 'a list \<Rightarrow> 'k \<Rightarrow> 'a option" where
  "last_by f xs k = List.find (\<lambda>x. f x = k) (rev xs)"

lemma last_by_Some: "last_by f xs k = Some x \<Longrightarrow> x \<in> set xs \<and> f x = k"
  unfolding last_by_def using find_Some_in by fastforce

lemma last_by_None: "last_by f xs k = None \<longleftrightarrow> k \<notin> f ` set xs"
  by (auto simp: last_by_def find_None_all)

lemma last_by_distinct:
  assumes "distinct (map f xs)" "x \<in> set xs"
  shows "last_by f xs (f x) = Some x"
proof -
  obtain y where y: "last_by f xs (f x) = Some y"
    using last_by_None [of f xs "f x"] assms(2) by fastforce
  then have "y \<in> set xs" "f y = f x" using last_by_Some by metis+
  with assms have "y = x" by (auto simp: distinct_map dest: inj_onD)
  with y show ?thesis by simp
qed

lemma last_by_map: "(\<And>x. f (g x) = f x) \<Longrightarrow> last_by f (map g xs) k = map_option g (last_by f xs k)"
proof -
  assume a: "\<And>x. f (g x) = f x"
  have "List.find (\<lambda>x. f x = k) (map g ys) = map_option g (List.find (\<lambda>x. f x = k) ys)" for ys
    by (induction ys) (simp_all add: a)
  then show ?thesis by (simp add: last_by_def rev_map)
qed

lemma card_Diff_insert_less: "finite A \<Longrightarrow> i \<in> A \<Longrightarrow> i \<notin> S \<Longrightarrow> card (A - insert i S) < card (A - S)"
  by (rule psubset_card_mono) auto

text \<open>\<open>n\<close> steps of a partial operation.\<close>

fun iter_opt :: "('a \<Rightarrow> 'a option) \<Rightarrow> nat \<Rightarrow> 'a \<Rightarrow> 'a option" where
  "iter_opt f 0 x = Some x"
| "iter_opt f (Suc n) x = (case f x of None \<Rightarrow> None | Some y \<Rightarrow> iter_opt f n y)"

text \<open>A set closed under a relation holds everything reachable from inside it.\<close>

lemma closed_rtrancl:
  assumes "\<And>x y. x \<in> S \<Longrightarrow> (x, y) \<in> r \<Longrightarrow> y \<in> S" and "(a, b) \<in> r\<^sup>*" and "a \<in> S"
  shows "b \<in> S"
  using assms(2,3) by induction (auto intro: assms(1))

lemma acyclic_insert_iff: "acyclic (insert (a, b) r) \<longleftrightarrow> acyclic r \<and> (b, a) \<notin> r\<^sup>*"
  by (rule acyclic_insert)

lemma in_map_filter: "x \<in> set (List.map_filter f xs) \<longleftrightarrow> (\<exists>y \<in> set xs. f y = Some x)"
  by (induction xs) (auto simp: map_filter_simps split: option.splits)

lemma find_distinct: "distinct (map f xs) \<Longrightarrow> x \<in> set xs \<Longrightarrow> f x = k \<Longrightarrow> List.find (\<lambda>y. f y = k) xs = Some x"
  by (induction xs) auto

end
