(* ===== verification/JS_Values.thy ===== *)
theory JS_Values
  imports Prelude
begin

text \<open>
  The untyped values the portal receives from its API (TypeScript's \<open>unknown\<close>): numbers, JSON
  values, and the guards \<open>src/docker/ui/app/src/flow/model/graph.ts\<close> reads them with. An absent
  property is \<^term>\<open>None\<close>, JavaScript's \<open>undefined\<close>. Finite numbers are exact rationals; the
  binary rounding of a double is not modelled.
\<close>

section \<open>Numbers and JSON values\<close>

datatype jsnum = Fin rat | PosInf | NegInf | NaN

datatype json =
    JNull
  | JBool bool
  | JNum jsnum
  | JStr string
  | JArr "json list"
  | JObj "(string \<times> json) list"

type_synonym obj = "json ordered"

fun isFinite :: "jsnum \<Rightarrow> bool" where
  "isFinite (Fin _) = True"
| "isFinite _ = False"

fun isInteger :: "jsnum \<Rightarrow> bool" where
  "isInteger (Fin r) = (of_int \<lfloor>r\<rfloor> = r)"
| "isInteger _ = False"

text \<open>\<open>Math.round\<close>: to the nearest integer, halves upwards; infinities and NaN stay.\<close>

definition round_half_up :: "rat \<Rightarrow> int" where
  "round_half_up r = \<lfloor>r + 1 / 2\<rfloor>"

fun js_round :: "jsnum \<Rightarrow> jsnum" where
  "js_round (Fin r) = Fin (of_int (round_half_up r))"
| "js_round n = n"

fun js_scale :: "rat \<Rightarrow> jsnum \<Rightarrow> jsnum" where
  "js_scale c (Fin r) = Fin (c * r)"
| "js_scale c n = n"

abbreviation jint :: "int \<Rightarrow> json" where
  "jint i \<equiv> JNum (Fin (of_int i))"

lemma round_half_up_int [simp]: "round_half_up (of_int i) = i"
  unfolding round_half_up_def by linarith

lemma js_round_idem [simp]: "js_round (js_round n) = js_round n"
  by (cases n) auto

section \<open>Guards\<close>

fun isRecord :: "json \<Rightarrow> bool" where
  "isRecord (JObj _) = True"
| "isRecord _ = False"

text \<open>\<open>isRecord(v) ? v : {}\<close> and \<open>Array.isArray(v) ? v : []\<close>.\<close>

definition record_or_empty :: "json option \<Rightarrow> obj" where
  "record_or_empty v = (case v of Some (JObj ob) \<Rightarrow> ob | _ \<Rightarrow> [])"

definition array_or_empty :: "json option \<Rightarrow> json list" where
  "array_or_empty v = (case v of Some (JArr xs) \<Rightarrow> xs | _ \<Rightarrow> [])"

definition is_array :: "json option \<Rightarrow> bool" where
  "is_array v = (case v of Some (JArr xs) \<Rightarrow> True | _ \<Rightarrow> False)"

fun as_string :: "json \<Rightarrow> string option" where
  "as_string (JStr s) = Some s"
| "as_string _ = None"

text \<open>\<open>typeof v === 'string' ? v : dflt\<close>.\<close>

definition str_or :: "string \<Rightarrow> json option \<Rightarrow> string" where
  "str_or dflt v = (case v of Some (JStr s) \<Rightarrow> s | _ \<Rightarrow> dflt)"

fun is_id_number :: "json \<Rightarrow> bool" where
  "is_id_number (JNum n) = isInteger n"
| "is_id_number _ = False"

fun is_string :: "json \<Rightarrow> bool" where
  "is_string (JStr _) = True"
| "is_string _ = False"

definition num :: "json option \<Rightarrow> rat \<Rightarrow> rat" where
  "num v fallback = (case v of Some (JNum (Fin r)) \<Rightarrow> r | _ \<Rightarrow> fallback)"

definition ids :: "json option \<Rightarrow> json list" where
  "ids v = filter is_id_number (array_or_empty v)"

definition strs :: "json option \<Rightarrow> string list" where
  "strs v = List.map_filter as_string (array_or_empty v)"

definition pick :: "obj \<Rightarrow> string list \<Rightarrow> obj option" where
  "pick ob known =
     (let out = filter (\<lambda>p. fst p \<notin> set known) ob
      in if out = [] then None else Some out)"

section \<open>Well-formed values\<close>

text \<open>A JSON object read by JavaScript has each key once.\<close>

fun wf_json :: "json \<Rightarrow> bool" where
  "wf_json (JArr xs) = list_all wf_json xs"
| "wf_json (JObj ob) = (distinct (map fst ob) \<and> list_all (\<lambda>p. wf_json (snd p)) ob)"
| "wf_json _ = True"

abbreviation wf_obj :: "obj \<Rightarrow> bool" where
  "wf_obj ob \<equiv> wf_json (JObj ob)"

lemma wf_get: "wf_obj ob \<Longrightarrow> ob_get ob k = Some v \<Longrightarrow> wf_json v"
  by (auto simp: list_all_iff dest!: map_of_SomeD)

lemma wf_record_or_empty:
  "(\<And>v. x = Some v \<Longrightarrow> wf_json v) \<Longrightarrow> wf_obj (record_or_empty x)"
  by (cases x) (auto simp: record_or_empty_def split: json.splits)

lemma wf_record_get: "wf_obj ob \<Longrightarrow> wf_obj (record_or_empty (ob_get ob k))"
  by (rule wf_record_or_empty) (blast intro: wf_get)

lemma wf_array_get: "wf_obj ob \<Longrightarrow> list_all wf_json (array_or_empty (ob_get ob k))"
  using wf_get [of ob k] by (cases "ob_get ob k") (auto simp: array_or_empty_def split: json.splits)

lemma wf_set: "wf_obj ob \<Longrightarrow> wf_json v \<Longrightarrow> wf_obj (ob_set ob k v)"
proof -
  assume a: "wf_obj ob" "wf_json v"
  have "list_all (\<lambda>p. wf_json (snd p)) (ob_set ob k v)"
    using a by (induction ob) auto
  then show ?thesis using a by (simp add: distinct_keys_set)
qed

lemma wf_spread: "wf_obj a \<Longrightarrow> wf_obj b \<Longrightarrow> wf_obj (spread a b)"
proof (induction b arbitrary: a)
  case (Cons p b)
  then show ?case by (simp only: spread_Cons) (auto intro!: Cons.IH wf_set [simplified])
qed (simp add: ob_simps)

section \<open>Laws of the guards\<close>

lemma num_num [simp]: "num (Some (JNum (Fin (num v d)))) d' = num v d"
  by (simp add: num_def)

lemma array_ids [simp]: "ids (Some (JArr (ids v))) = ids v"
  by (simp add: ids_def array_or_empty_def)

lemma wf_ids: "wf_json (JArr (ids v))"
proof -
  have "wf_json x" if "is_id_number x" for x using that by (cases x) auto
  then show ?thesis by (auto simp: ids_def list_all_iff)
qed

lemma map_filter_as_string [simp]: "List.map_filter as_string (map JStr xs) = xs"
  by (induction xs) (auto simp: map_filter_def)

lemma strs_JStr [simp]: "strs (Some (JArr (map JStr xs))) = xs"
  by (simp add: strs_def array_or_empty_def)

lemma wf_JStr_list [simp]: "list_all wf_json (map JStr xs)"
  by (induction xs) auto

lemma str_or_JStr [simp]: "str_or d (Some (JStr s)) = s"
  by (simp add: str_or_def)

lemma pick_None_iff: "pick ob known = None \<longleftrightarrow> set (ob_keys ob) \<subseteq> set known"
  by (auto simp: pick_def Let_def filter_empty_conv)

lemma pick_append:
  "set (ob_keys b) \<subseteq> set known \<Longrightarrow> pick (a @ b) known = pick a known"
  by (auto simp: pick_def Let_def filter_empty_conv)

lemma pick_idem [simp]: "pick ob known = Some out \<Longrightarrow> pick out known = Some out"
  by (auto simp: pick_def Let_def split: if_splits)

lemma wf_pick: "wf_obj ob \<Longrightarrow> pick ob known = Some out \<Longrightarrow> wf_obj out"
  by (auto simp: pick_def Let_def list_all_iff distinct_map_filter split: if_splits)

lemma pick_keys: "pick ob known = Some out \<Longrightarrow> set (ob_keys out) \<inter> set known = {}"
  by (auto simp: pick_def Let_def split: if_splits)

end
