(* ===== verification/Blocks.thy ===== *)
theory Blocks
  imports JS_Values
begin

text \<open>
  The block catalogue (\<open>flow/model/blocks.ts\<close>) and the shapes of the draft graph it speaks of
  (\<open>types/ivr.ts\<close>): the nine block types, the keypad, days, time zones and limits, the default
  configuration of each type, and the exits a block offers, the vocabulary every other part of
  the builder shares. A block's configuration stays an untyped object, as the code passes it.
\<close>

section \<open>Types, keys, days, time zones\<close>

datatype IvrNodeType =
  Entry | Play | Menu | Schedule | Condition | Dial | Voicemail | Goto | Hangup

fun type_name :: "IvrNodeType \<Rightarrow> string" where
  "type_name Entry = ''entry''"
| "type_name Play = ''play''"
| "type_name Menu = ''menu''"
| "type_name Schedule = ''schedule''"
| "type_name Condition = ''condition''"
| "type_name Dial = ''dial''"
| "type_name Voicemail = ''voicemail''"
| "type_name Goto = ''goto''"
| "type_name Hangup = ''hangup''"

definition all_types :: "IvrNodeType list" where
  "all_types = [Entry, Play, Menu, Schedule, Condition, Dial, Voicemail, Goto, Hangup]"

record BlockMeta =
  bm_type :: IvrNodeType
  bm_label :: string
  bm_terminal :: bool

definition BLOCKS :: "IvrNodeType \<Rightarrow> BlockMeta" where
  "BLOCKS t = (case t of
     Entry \<Rightarrow> \<lparr>bm_type = Entry, bm_label = ''Start'', bm_terminal = False\<rparr>
   | Play \<Rightarrow> \<lparr>bm_type = Play, bm_label = ''Play message'', bm_terminal = False\<rparr>
   | Menu \<Rightarrow> \<lparr>bm_type = Menu, bm_label = ''Menu'', bm_terminal = False\<rparr>
   | Schedule \<Rightarrow> \<lparr>bm_type = Schedule, bm_label = ''Business hours'', bm_terminal = False\<rparr>
   | Condition \<Rightarrow> \<lparr>bm_type = Condition, bm_label = ''Caller check'', bm_terminal = False\<rparr>
   | Dial \<Rightarrow> \<lparr>bm_type = Dial, bm_label = ''Transfer'', bm_terminal = False\<rparr>
   | Voicemail \<Rightarrow> \<lparr>bm_type = Voicemail, bm_label = ''Voicemail'', bm_terminal = True\<rparr>
   | Goto \<Rightarrow> \<lparr>bm_type = Goto, bm_label = ''Go to'', bm_terminal = True\<rparr>
   | Hangup \<Rightarrow> \<lparr>bm_type = Hangup, bm_label = ''Hang up'', bm_terminal = True\<rparr>)"

datatype PaletteId = Talk | Decide | Connect | Finish

definition PALETTE_GROUPS :: "(PaletteId \<times> IvrNodeType list) list" where
  "PALETTE_GROUPS =
     [(Talk, [Play, Menu]), (Decide, [Schedule, Condition]),
      (Connect, [Dial, Voicemail]), (Finish, [Goto, Hangup])]"

definition PALETTE_TYPES :: "IvrNodeType list" where
  "PALETTE_TYPES = concat (map snd PALETTE_GROUPS)"

text \<open>The guard \<open>isIvrNodeType\<close>, returning the type it narrows to.\<close>

definition isIvrNodeType :: "json option \<Rightarrow> IvrNodeType option" where
  "isIvrNodeType v = (case v of
     Some (JStr s) \<Rightarrow> List.find (\<lambda>t. type_name t = s) all_types
   | _ \<Rightarrow> None)"

definition blockLabel :: "IvrNodeType \<Rightarrow> string" where
  "blockLabel t = bm_label (BLOCKS t)"

type_synonym MenuDigit = string

definition DIGIT_ORDER :: "MenuDigit list" where
  "DIGIT_ORDER = [''1'', ''2'', ''3'', ''4'', ''5'', ''6'', ''7'', ''8'', ''9'', ''0'', ''*'', ''#'']"

definition isMenuDigit :: "string \<Rightarrow> bool" where
  "isMenuDigit s \<longleftrightarrow> s \<in> set DIGIT_ORDER"

definition sortDigits :: "string list \<Rightarrow> MenuDigit list" where
  "sortDigits digits = filter (\<lambda>d. d \<in> set digits) DIGIT_ORDER"

definition DAY_KEYS :: "string list" where
  "DAY_KEYS = [''mon'', ''tue'', ''wed'', ''thu'', ''fri'', ''sat'', ''sun'']"

definition DAY_LABELS :: "(string \<times> (string \<times> string)) list" where
  "DAY_LABELS =
     [(''mon'', (''Mon'', ''Monday'')), (''tue'', (''Tue'', ''Tuesday'')),
      (''wed'', (''Wed'', ''Wednesday'')), (''thu'', (''Thu'', ''Thursday'')),
      (''fri'', (''Fri'', ''Friday'')), (''sat'', (''Sat'', ''Saturday'')),
      (''sun'', (''Sun'', ''Sunday''))]"

definition TIMEZONES :: "(string \<times> string) list" where
  "TIMEZONES =
     [(''America/New_York'', ''Eastern (New York)''),
      (''America/Detroit'', ''Eastern (Detroit)''),
      (''America/Chicago'', ''Central (Chicago)''),
      (''America/Denver'', ''Mountain (Denver)''),
      (''America/Phoenix'', ''Arizona (Phoenix, no daylight saving)''),
      (''America/Los_Angeles'', ''Pacific (Los Angeles)''),
      (''America/Anchorage'', ''Alaska (Anchorage)''),
      (''Pacific/Honolulu'', ''Hawaii (Honolulu)''),
      (''America/Puerto_Rico'', ''Atlantic (Puerto Rico, no daylight saving)'')]"

definition isIvrTimezone :: "string \<Rightarrow> bool" where
  "isIvrTimezone s = list_ex (\<lambda>t. fst t = s) TIMEZONES"

definition timezoneLabel :: "string \<Rightarrow> string" where
  "timezoneLabel tz = (case List.find (\<lambda>t. fst t = tz) TIMEZONES of Some t \<Rightarrow> snd t | None \<Rightarrow> tz)"

record Limits =
  promptsPerBlock :: nat
  digitsMin :: nat
  digitsMax :: nat
  timeoutSec_min :: rat
  timeoutSec_max :: rat
  retries_min :: rat
  retries_max :: rat
  ringTimeoutSec_min :: rat
  ringTimeoutSec_max :: rat
  conditionValues_min :: nat
  conditionValues_max :: nat
  rangesPerDay :: nat
  limit_blocks :: nat

definition LIMITS :: Limits where
  "LIMITS = \<lparr>promptsPerBlock = 10, digitsMin = 1, digitsMax = 12,
     timeoutSec_min = 1, timeoutSec_max = 30, retries_min = 0, retries_max = 5,
     ringTimeoutSec_min = 5, ringTimeoutSec_max = 120,
     conditionValues_min = 1, conditionValues_max = 50, rangesPerDay = 4, limit_blocks = 200\<rparr>"

section \<open>Default configurations\<close>

definition WEEKDAY :: json where
  "WEEKDAY = JArr [JArr [JStr ''09:00'', JStr ''17:00'']]"

definition default_weekly :: obj where
  "default_weekly =
     [(''mon'', WEEKDAY), (''tue'', WEEKDAY), (''wed'', WEEKDAY), (''thu'', WEEKDAY),
      (''fri'', WEEKDAY), (''sat'', JArr []), (''sun'', JArr [])]"

fun defaultConfig :: "IvrNodeType \<Rightarrow> obj" where
  "defaultConfig Entry = []"
| "defaultConfig Play = [(''prompts'', JArr [])]"
| "defaultConfig Menu =
     [(''prompts'', JArr []), (''digits'', JArr [JStr ''1'', JStr ''2'']),
      (''timeoutSec'', jint 5), (''retries'', jint 2)]"
| "defaultConfig Schedule =
     [(''tz'', JStr ''America/New_York''), (''weekly'', JObj default_weekly), (''closedDates'', JArr [])]"
| "defaultConfig Condition = [(''mode'', JStr ''prefix''), (''values'', JArr [])]"
| "defaultConfig Dial =
     [(''target'', JObj [(''kind'', JStr ''own''), (''did'', JStr '''')]),
      (''passCallerId'', JBool True), (''ringTimeoutSec'', jint 30)]"
| "defaultConfig Voicemail = [(''did'', JStr '''')]"
| "defaultConfig Goto = [(''targetNodeId'', JStr '''')]"
| "defaultConfig Hangup = []"

section \<open>Exits\<close>

datatype HandleKind = KNext | KDigit | KPositive | KNegative | KFallback

record OutHandle =
  oh_id :: string
  oh_label :: string
  oh_kind :: HandleKind
  oh_digit :: "MenuDigit option"

abbreviation NEXT :: string where "NEXT \<equiv> ''next''"
abbreviation NO_INPUT :: string where "NO_INPUT \<equiv> ''noInput''"
abbreviation NO_MATCH :: string where "NO_MATCH \<equiv> ''noMatch''"
abbreviation OPEN :: string where "OPEN \<equiv> ''open''"
abbreviation CLOSED :: string where "CLOSED \<equiv> ''closed''"
abbreviation MATCH :: string where "MATCH \<equiv> ''match''"
abbreviation NO_ANSWER :: string where "NO_ANSWER \<equiv> ''noAnswer''"

definition digitHandle :: "MenuDigit \<Rightarrow> string" where
  "digitHandle d = ''d:'' @ d"

definition digitOfHandle :: "string option \<Rightarrow> MenuDigit option" where
  "digitOfHandle handle = (case handle of
     None \<Rightarrow> None
   | Some h \<Rightarrow>
       if h = '''' \<or> \<not> startsWith h ''d:'' then None
       else (let d = drop 2 h in if isMenuDigit d then Some d else None))"

definition handle :: "string \<Rightarrow> string \<Rightarrow> HandleKind \<Rightarrow> OutHandle" where
  "handle i l k = \<lparr>oh_id = i, oh_label = l, oh_kind = k, oh_digit = None\<rparr>"

fun outHandles :: "IvrNodeType \<Rightarrow> obj \<Rightarrow> OutHandle list" where
  "outHandles Entry cfg = [handle NEXT ''First'' KNext]"
| "outHandles Play cfg = [handle NEXT ''Then'' KNext]"
| "outHandles Menu cfg =
     map (\<lambda>d. \<lparr>oh_id = digitHandle d, oh_label = ''Press '' @ d, oh_kind = KDigit, oh_digit = Some d\<rparr>)
         (sortDigits (strs (ob_get cfg ''digits'')))
     @ [handle NO_INPUT ''No key pressed'' KFallback, handle NO_MATCH ''Wrong key'' KFallback]"
| "outHandles Schedule cfg = [handle OPEN ''Open'' KPositive, handle CLOSED ''Closed'' KNegative]"
| "outHandles Condition cfg =
     [handle MATCH ''Matches'' KPositive,
      handle NO_MATCH (''Doesn'' @ [CHR 0x92] @ ''t match'') KNegative]"
| "outHandles Dial cfg = [handle NO_ANSWER ''No answer or busy'' KFallback]"
| "outHandles Voicemail cfg = []"
| "outHandles Goto cfg = []"
| "outHandles Hangup cfg = []"

abbreviation exit_ids :: "IvrNodeType \<Rightarrow> obj \<Rightarrow> string list" where
  "exit_ids t cfg \<equiv> map oh_id (outHandles t cfg)"

definition handleLabel :: "IvrNodeType \<Rightarrow> obj \<Rightarrow> string \<Rightarrow> string" where
  "handleLabel t cfg h =
     (case List.find (\<lambda>x. oh_id x = h) (outHandles t cfg) of Some x \<Rightarrow> oh_label x | None \<Rightarrow> h)"

section \<open>Laws of the catalogue\<close>

lemma type_name_inject [simp]: "type_name t = type_name u \<longleftrightarrow> t = u"
  by (cases t; cases u; simp)

lemma isIvrNodeType_name [simp]: "isIvrNodeType (Some (JStr (type_name t))) = Some t"
  by (cases t) (simp_all add: isIvrNodeType_def all_types_def)

lemma isIvrNodeType_Some: "isIvrNodeType v = Some t \<longleftrightarrow> v = Some (JStr (type_name t))"
proof
  assume "isIvrNodeType v = Some t"
  then show "v = Some (JStr (type_name t))"
    by (auto simp: isIvrNodeType_def split: option.splits json.splits dest!: find_Some_in)
qed simp

lemma distinct_DIGIT_ORDER [simp]: "distinct DIGIT_ORDER"
  by (simp add: DIGIT_ORDER_def)

lemma set_sortDigits: "set (sortDigits ds) = {d \<in> set ds. isMenuDigit d}"
  by (auto simp: sortDigits_def isMenuDigit_def)

lemma distinct_sortDigits [simp]: "distinct (sortDigits ds)"
  by (simp add: sortDigits_def)

lemma sortDigits_cong: "{d \<in> set ds. isMenuDigit d} = {d \<in> set es. isMenuDigit d} \<Longrightarrow> sortDigits ds = sortDigits es"
  unfolding sortDigits_def isMenuDigit_def by (rule filter_cong) auto

lemma sortDigits_idem [simp]: "sortDigits (sortDigits ds) = sortDigits ds"
  by (rule sortDigits_cong) (auto simp: set_sortDigits)

lemma sortDigits_filter [simp]: "sortDigits (filter isMenuDigit ds) = sortDigits ds"
  by (rule sortDigits_cong) auto

lemma length_sortDigits: "length (sortDigits ds) \<le> 12"
  unfolding sortDigits_def using length_filter_le [of _ DIGIT_ORDER] by (simp add: DIGIT_ORDER_def)

lemma digitOfHandle_digitHandle [simp]: "isMenuDigit d \<Longrightarrow> digitOfHandle (Some (digitHandle d)) = Some d"
  by (simp add: digitOfHandle_def digitHandle_def startsWith_def)

lemma digitHandle_inject [simp]: "digitHandle d = digitHandle e \<longleftrightarrow> d = e"
  by (simp add: digitHandle_def)

lemma digitOfHandle_Some: "digitOfHandle (Some h) = Some d \<longleftrightarrow> isMenuDigit d \<and> h = digitHandle d"
proof
  assume a: "digitOfHandle (Some h) = Some d"
  then have "startsWith h ''d:''" "isMenuDigit (drop 2 h)" "d = drop 2 h"
    by (auto simp: digitOfHandle_def Let_def split: if_splits)
  moreover from this have t: "take 2 h = ''d:''" by (simp add: startsWith_def numeral_2_eq_2)
  have "h = take 2 h @ drop 2 h" by (rule append_take_drop_id [symmetric])
  then have "h = ''d:'' @ drop 2 h" by (simp only: t)
  ultimately show "isMenuDigit d \<and> h = digitHandle d" by (simp only: digitHandle_def)
qed simp

lemma exits_Menu:
  "exit_ids Menu cfg = map digitHandle (sortDigits (strs (ob_get cfg ''digits''))) @ [NO_INPUT, NO_MATCH]"
  by (simp add: handle_def)

lemma digitHandle_not_fixed [simp]:
  "digitHandle d \<noteq> NO_INPUT" "digitHandle d \<noteq> NO_MATCH" "digitHandle d \<noteq> NEXT"
  "NO_INPUT \<noteq> digitHandle d" "NO_MATCH \<noteq> digitHandle d" "NEXT \<noteq> digitHandle d"
  by (simp_all add: digitHandle_def)

lemma distinct_exits: "distinct (exit_ids t cfg)"
proof (cases t)
  case Menu
  have "inj_on digitHandle A" for A by (simp add: inj_on_def)
  then show ?thesis unfolding Menu exits_Menu by (auto simp: distinct_map)
qed (simp_all add: handle_def)

lemma terminal_no_exits: "bm_terminal (BLOCKS t) \<longleftrightarrow> outHandles t cfg = []"
  by (cases t) (simp_all add: BLOCKS_def)

text \<open>The exits of a menu are exactly one \<open>d:<key>\<close> exit per valid key of its \<open>digits\<close>, in
  keypad order and without repetition, then the no-key and the wrong-key exit; reading a digit
  exit back gives its key, and an exit id that is no digit exit of the menu reads as no key of
  it.\<close>

theorem menu_exits:
  "exit_ids Menu cfg =
     map digitHandle (filter (\<lambda>d. d \<in> set (strs (ob_get cfg ''digits''))) DIGIT_ORDER) @ [NO_INPUT, NO_MATCH]
   \<and> distinct (exit_ids Menu cfg)
   \<and> (\<forall>d. digitHandle d \<in> set (exit_ids Menu cfg) \<longleftrightarrow>
          d \<in> set (strs (ob_get cfg ''digits'')) \<and> digitOfHandle (Some (digitHandle d)) = Some d)"
proof (intro conjI allI)
  show "distinct (exit_ids Menu cfg)" by (rule distinct_exits)
  show "exit_ids Menu cfg =
      map digitHandle (filter (\<lambda>d. d \<in> set (strs (ob_get cfg ''digits''))) DIGIT_ORDER) @ [NO_INPUT, NO_MATCH]"
    by (simp only: exits_Menu sortDigits_def)
  show "digitHandle d \<in> set (exit_ids Menu cfg) \<longleftrightarrow>
      d \<in> set (strs (ob_get cfg ''digits'')) \<and> digitOfHandle (Some (digitHandle d)) = Some d" for d
    unfolding exits_Menu by (auto simp: set_sortDigits digitOfHandle_Some)
qed

end
