(* ===== verification/Graph.thy ===== *)
theory Graph
  imports Blocks
begin

text \<open>
  The draft graph and the builder's working graph (\<open>flow/model/graph.ts\<close>): reading any JSON
  value the server may hold into well-formed nodes and edges, and writing them back with every
  field the builder does not know kept. The identifier source \<open>nanoid\<close> is third-party code: it
  is the parameter \<open>nano\<close>, the string its n-th call returns, and the call counter is passed along.
\<close>

section \<open>Data\<close>

record BlockData =
  bd_label :: "string option"
  bd_config :: obj
  bd_keepNode :: "obj option"
  bd_keepData :: "obj option"

record Position =
  pos_x :: rat
  pos_y :: rat

record NodeInput =
  n_id :: string
  n_type :: IvrNodeType
  n_pos :: Position
  n_data :: BlockData

record WorkNode = NodeInput +
  n_deletable :: "bool option"

record WorkEdge =
  e_id :: string
  e_source :: string
  e_sourceHandle :: string
  e_target :: string
  e_keep :: "obj option"

record IvrViewport =
  vp_x :: jsnum
  vp_y :: jsnum
  vp_zoom :: jsnum

record WorkGraph =
  wg_nodes :: "WorkNode list"
  wg_edges :: "WorkEdge list"
  wg_viewport :: "IvrViewport option"
  wg_keepGraph :: obj
  wg_foreignNodes :: "obj list"

text \<open>A node of the stored graph: a block this builder knows, or one it only carries along.\<close>

datatype IvrNode =
    Known (known_node: NodeInput)
  | Foreign (foreign_obj: obj)

record IvrGraph =
  g_nodes :: "IvrNode list"
  g_edges :: "WorkEdge list"
  g_viewport :: "IvrViewport option"
  g_keep :: obj

abbreviation n_config :: "('a NodeInput_scheme) \<Rightarrow> obj" where
  "n_config n \<equiv> bd_config (n_data n)"

abbreviation node_exits :: "('a NodeInput_scheme) \<Rightarrow> string list" where
  "node_exits n \<equiv> exit_ids (n_type n) (n_config n)"

section \<open>Identifiers\<close>

definition is_id_char :: "char \<Rightarrow> bool" where
  "is_id_char c \<longleftrightarrow>
     c \<in> set ''ABCDEFGHIJKLMNOPQRSTUVWXYZabcdefghijklmnopqrstuvwxyz0123456789_-''"

text \<open>\<open>ID_RE\<close>: 1 to 40 letters, digits, underscores or hyphens.\<close>

definition ID_RE :: "string \<Rightarrow> bool" where
  "ID_RE s \<longleftrightarrow> 1 \<le> length s \<and> length s \<le> 40 \<and> list_all is_id_char s"

definition newNodeId :: "(nat \<Rightarrow> string) \<Rightarrow> nat \<Rightarrow> string" where
  "newNodeId nano k = ''n_'' @ nano k"

definition newEdgeId :: "(nat \<Rightarrow> string) \<Rightarrow> nat \<Rightarrow> string" where
  "newEdgeId nano k = ''e_'' @ nano k"

text \<open>The key of an exit, the template string of source, a NUL character and the handle.\<close>

definition slotKey :: "string \<Rightarrow> string \<Rightarrow> string" where
  "slotKey source hdl = source @ [CHR 0x00] @ hdl"

section \<open>Configurations made safe to edit\<close>

fun is_time_range :: "json \<Rightarrow> bool" where
  "is_time_range (JArr [JStr a, JStr b]) = True"
| "is_time_range _ = False"

definition day_ranges :: "json option \<Rightarrow> string \<Rightarrow> json list" where
  "day_ranges weekly_src day =
     (let weekly = record_or_empty weekly_src in
      case ob_get weekly day of
        Some (JArr rs) \<Rightarrow> rs
      | _ \<Rightarrow> (case weekly_src of
                 Some (JObj _) \<Rightarrow> []
               | _ \<Rightarrow> array_or_empty (ob_get default_weekly day)))"

definition normalize_weekly :: "json option \<Rightarrow> obj" where
  "normalize_weekly weekly_src =
     fold (\<lambda>day merged. ob_set merged day (JArr (filter is_time_range (day_ranges weekly_src day))))
       (ob_keys default_weekly) (record_or_empty weekly_src)"

definition normalize_target :: "json option \<Rightarrow> obj" where
  "normalize_target v =
     (let t = record_or_empty v in
      if ob_get t ''kind'' = Some (JStr ''external'')
      then ob_set (ob_set t ''kind'' (JStr ''external'')) ''number'' (JStr (str_or '''' (ob_get t ''number'')))
      else ob_set (ob_set t ''kind'' (JStr ''own'')) ''did'' (JStr (str_or '''' (ob_get t ''did''))))"

definition normalize_mode :: "json option \<Rightarrow> json" where
  "normalize_mode v =
     (if v = Some (JStr ''equals'') \<or> v = Some (JStr ''anonymous'') then the v else JStr ''prefix'')"

definition bool_or :: "bool \<Rightarrow> json option \<Rightarrow> bool" where
  "bool_or d v = (case v of Some (JBool b) \<Rightarrow> b | _ \<Rightarrow> d)"

text \<open>\<open>if (src[k] !== undefined) out[k] = ids(src[k])\<close>.\<close>

definition set_optional_ids :: "obj \<Rightarrow> string \<Rightarrow> obj \<Rightarrow> obj" where
  "set_optional_ids src k out =
     (case ob_get src k of None \<Rightarrow> out | Some v \<Rightarrow> ob_set out k (JArr (ids (Some v))))"

fun normalize_fields :: "IvrNodeType \<Rightarrow> obj \<Rightarrow> obj \<Rightarrow> obj" where
  "normalize_fields Play src out = ob_set out ''prompts'' (JArr (ids (ob_get src ''prompts'')))"
| "normalize_fields Menu src out =
     (let out = ob_set out ''prompts'' (JArr (ids (ob_get src ''prompts'')));
          out = ob_set out ''digits''
                  (if is_array (ob_get src ''digits'')
                   then JArr (map JStr (sortDigits (filter isMenuDigit (strs (ob_get src ''digits'')))))
                   else JArr [JStr ''1'', JStr ''2'']);
          out = ob_set out ''timeoutSec'' (JNum (Fin (num (ob_get src ''timeoutSec'') 5)));
          out = ob_set out ''retries'' (JNum (Fin (num (ob_get src ''retries'') 2)));
          out = set_optional_ids src ''invalidPrompts'' out
      in set_optional_ids src ''noInputPrompts'' out)"
| "normalize_fields Schedule src out =
     (let out = ob_set out ''weekly'' (JObj (normalize_weekly (ob_get src ''weekly'')));
          out = ob_set out ''tz'' (JStr (str_or ''America/New_York'' (ob_get src ''tz'')))
      in ob_set out ''closedDates'' (JArr (map JStr (strs (ob_get src ''closedDates'')))))"
| "normalize_fields Condition src out =
     (let out = ob_set out ''mode'' (normalize_mode (ob_get src ''mode''))
      in ob_set out ''values'' (JArr (map JStr (strs (ob_get src ''values'')))))"
| "normalize_fields Dial src out =
     (let out = ob_set out ''target'' (JObj (normalize_target (ob_get src ''target'')));
          out = ob_set out ''passCallerId'' (JBool (bool_or True (ob_get src ''passCallerId'')))
      in ob_set out ''ringTimeoutSec'' (JNum (Fin (num (ob_get src ''ringTimeoutSec'') 30))))"
| "normalize_fields Voicemail src out = ob_set out ''did'' (JStr (str_or '''' (ob_get src ''did'')))"
| "normalize_fields Goto src out = ob_set out ''targetNodeId'' (JStr (str_or '''' (ob_get src ''targetNodeId'')))"
| "normalize_fields Hangup src out = set_optional_ids src ''prompts'' out"
| "normalize_fields Entry src out = out"

definition normalizeConfig :: "IvrNodeType \<Rightarrow> json option \<Rightarrow> obj" where
  "normalizeConfig t raw =
     (let src = record_or_empty raw in normalize_fields t src (spread (defaultConfig t) src))"

section \<open>Server graph to working graph\<close>

definition NODE_KEYS :: "string list" where
  "NODE_KEYS = [''id'', ''type'', ''position'', ''data'']"

definition DATA_KEYS :: "string list" where
  "DATA_KEYS = [''label'', ''config'']"

definition EDGE_KEYS :: "string list" where
  "EDGE_KEYS = [''id'', ''source'', ''sourceHandle'', ''target'']"

definition GRAPH_KEYS :: "string list" where
  "GRAPH_KEYS = [''schemaVersion'', ''nodes'', ''edges'', ''viewport'']"

definition read_label :: "json option \<Rightarrow> string option" where
  "read_label v = (case v of Some (JStr s) \<Rightarrow> if s = '''' then None else Some s | _ \<Rightarrow> None)"

definition read_node :: "string \<Rightarrow> IvrNodeType \<Rightarrow> obj \<Rightarrow> WorkNode" where
  "read_node i t raw =
     (let pos = record_or_empty (ob_get raw ''position'');
          data = record_or_empty (ob_get raw ''data'')
      in \<lparr>n_id = i, n_type = t,
          n_pos = \<lparr>pos_x = num (ob_get pos ''x'') 0, pos_y = num (ob_get pos ''y'') 0\<rparr>,
          n_data = \<lparr>bd_label = read_label (ob_get data ''label''),
                    bd_config = normalizeConfig t (ob_get data ''config''),
                    bd_keepNode = pick raw NODE_KEYS,
                    bd_keepData = pick data DATA_KEYS\<rparr>,
          n_deletable = None\<rparr>)"

text \<open>The loop over the raw nodes: \<open>seen\<close> holds the ids met so far.\<close>

fun read_nodes :: "string list \<Rightarrow> json list \<Rightarrow> WorkNode list \<times> obj list" where
  "read_nodes seen [] = ([], [])"
| "read_nodes seen (JObj ob # rest) =
     (let i = str_or '''' (ob_get ob ''id'') in
      if i = '''' \<or> i \<in> set seen then read_nodes seen rest
      else case isIvrNodeType (ob_get ob ''type'') of
             None \<Rightarrow> (let (ns, fs) = read_nodes (i # seen) rest in (ns, ob # fs))
           | Some t \<Rightarrow> (let (ns, fs) = read_nodes (i # seen) rest in (read_node i t ob # ns, fs)))"
| "read_nodes seen (_ # rest) = read_nodes seen rest"

fun mark_first_entry :: "WorkNode list \<Rightarrow> WorkNode list" where
  "mark_first_entry [] = []"
| "mark_first_entry (n # ns) =
     (if n_type n = Entry then n\<lparr>n_deletable := Some False\<rparr> # ns else n # mark_first_entry ns)"

definition start_node :: "string \<Rightarrow> WorkNode" where
  "start_node i =
     \<lparr>n_id = i, n_type = Entry, n_pos = \<lparr>pos_x = 0, pos_y = 0\<rparr>,
      n_data = \<lparr>bd_label = None, bd_config = [], bd_keepNode = None, bd_keepData = None\<rparr>,
      n_deletable = Some False\<rparr>"

definition ensure_start :: "(nat \<Rightarrow> string) \<Rightarrow> nat \<Rightarrow> WorkNode list \<Rightarrow> WorkNode list \<times> nat" where
  "ensure_start nano k ns =
     (if \<exists>n \<in> set ns. n_type n = Entry then (mark_first_entry ns, k)
      else (start_node (newNodeId nano k) # ns, Suc k))"

definition raw_handle :: "obj \<Rightarrow> string" where
  "raw_handle raw = (let h = str_or '''' (ob_get raw ''sourceHandle'') in if h = '''' then ''next'' else h)"

text \<open>The edge's own id, or a new one where it has none or it is taken.\<close>

definition take_edge_id :: "(nat \<Rightarrow> string) \<Rightarrow> string list \<Rightarrow> nat \<Rightarrow> string \<Rightarrow> string \<times> nat" where
  "take_edge_id nano eids k i0 =
     (let (i1, k1) = (if i0 \<noteq> '''' then (i0, k) else (newEdgeId nano k, Suc k))
      in if i1 \<in> set eids then (newEdgeId nano k1, Suc k1) else (i1, k1))"

text \<open>One turn of the loop over the raw edges: \<open>used\<close> holds the exits and \<open>eids\<close> the edge ids
  taken so far; \<^term>\<open>None\<close> skips the edge.\<close>

definition read_edge :: "(nat \<Rightarrow> string) \<Rightarrow> WorkNode list \<Rightarrow> string list \<Rightarrow> string list \<Rightarrow> nat \<Rightarrow> obj
    \<Rightarrow> (WorkEdge \<times> nat) option" where
  "read_edge nano ns used eids k ob =
     (let source = str_or '''' (ob_get ob ''source'');
          target = str_or '''' (ob_get ob ''target'');
          hdl = raw_handle ob
      in case (last_by n_id ns source, last_by n_id ns target) of
           (Some s, Some t) \<Rightarrow>
             if n_type t = Entry \<or> slotKey source hdl \<in> set used then None
             else
               (let (i, k2) = take_edge_id nano eids k (str_or '''' (ob_get ob ''id''))
                in Some (\<lparr>e_id = i, e_source = source, e_sourceHandle = hdl, e_target = target,
                          e_keep = pick ob EDGE_KEYS\<rparr>, k2))
         | _ \<Rightarrow> None)"

fun read_edges :: "(nat \<Rightarrow> string) \<Rightarrow> WorkNode list \<Rightarrow> string list \<Rightarrow> string list \<Rightarrow> nat \<Rightarrow> json list
    \<Rightarrow> WorkEdge list \<times> nat" where
  "read_edges nano ns used eids k [] = ([], k)"
| "read_edges nano ns used eids k (JObj ob # rest) =
     (case read_edge nano ns used eids k ob of
        None \<Rightarrow> read_edges nano ns used eids k rest
      | Some (e, k1) \<Rightarrow>
          (let (es, k2) = read_edges nano ns (slotKey (e_source e) (e_sourceHandle e) # used)
                            (e_id e # eids) k1 rest
           in (e # es, k2)))"
| "read_edges nano ns used eids k (_ # rest) = read_edges nano ns used eids k rest"

definition read_viewport :: "json option \<Rightarrow> IvrViewport option" where
  "read_viewport v = (case v of
     Some (JObj ob) \<Rightarrow>
       (case (ob_get ob ''x'', ob_get ob ''y'', ob_get ob ''zoom'') of
          (Some (JNum x), Some (JNum y), Some (JNum z)) \<Rightarrow> Some \<lparr>vp_x = x, vp_y = y, vp_zoom = z\<rparr>
        | _ \<Rightarrow> None)
   | _ \<Rightarrow> None)"

definition fromGraph :: "(nat \<Rightarrow> string) \<Rightarrow> nat \<Rightarrow> json option \<Rightarrow> WorkGraph \<times> nat" where
  "fromGraph nano k input =
     (let g = record_or_empty input;
          (ns0, foreign) = read_nodes [] (array_or_empty (ob_get g ''nodes''));
          (ns, k1) = ensure_start nano k ns0;
          (es, k2) = read_edges nano ns [] [] k1 (array_or_empty (ob_get g ''edges''))
      in (\<lparr>wg_nodes = ns, wg_edges = es, wg_viewport = read_viewport (ob_get g ''viewport''),
           wg_keepGraph = (case pick g GRAPH_KEYS of Some ob \<Rightarrow> ob | None \<Rightarrow> []),
           wg_foreignNodes = foreign\<rparr>, k2))"

section \<open>Working graph to stored graph\<close>

definition round_pos :: "Position \<Rightarrow> Position" where
  "round_pos p = \<lparr>pos_x = of_int (round_half_up (pos_x p)), pos_y = of_int (round_half_up (pos_y p))\<rparr>"

definition drop_empty_label :: "BlockData \<Rightarrow> BlockData" where
  "drop_empty_label d = d\<lparr>bd_label := (case bd_label d of Some l \<Rightarrow> if l = '''' then None else Some l | None \<Rightarrow> None)\<rparr>"

definition round_viewport :: "IvrViewport \<Rightarrow> IvrViewport" where
  "round_viewport v =
     \<lparr>vp_x = js_round (vp_x v), vp_y = js_round (vp_y v),
      vp_zoom = js_scale (1 / 1000) (js_round (js_scale 1000 (vp_zoom v)))\<rparr>"

text \<open>The nodes and edges of the result; \<^term>\<open>Known\<close> and \<^term>\<open>Foreign\<close> tell the re-emitted
  foreign objects from the blocks built here. The object literals that lay the result out as
  JSON are \<open>node_json\<close>, \<open>edge_json\<close> and \<open>graph_json\<close>.\<close>

definition stored_node :: "('a NodeInput_scheme) \<Rightarrow> NodeInput" where
  "stored_node n =
     \<lparr>n_id = n_id n, n_type = n_type n, n_pos = round_pos (n_pos n), n_data = drop_empty_label (n_data n)\<rparr>"

definition toGraph :: "('a NodeInput_scheme) list \<Rightarrow> WorkEdge list \<Rightarrow> IvrViewport option \<Rightarrow> obj \<Rightarrow> obj list \<Rightarrow> IvrGraph" where
  "toGraph nodes edges viewport keepGraph foreign =
     \<lparr>g_nodes = map (\<lambda>n. Known (stored_node n)) nodes @ map Foreign foreign,
      g_edges = edges, g_viewport = map_option round_viewport viewport, g_keep = keepGraph\<rparr>"

definition data_json :: "BlockData \<Rightarrow> obj" where
  "data_json d =
     (let ob = (case bd_keepData d of Some ob \<Rightarrow> ob | None \<Rightarrow> []);
          ob = (case bd_label d of Some l \<Rightarrow> ob_set ob ''label'' (JStr l) | None \<Rightarrow> ob)
      in ob_set ob ''config'' (JObj (bd_config d)))"

definition block_json :: "NodeInput \<Rightarrow> obj" where
  "block_json n =
     (let ob = (case bd_keepNode (n_data n) of Some ob \<Rightarrow> ob | None \<Rightarrow> []);
          ob = ob_set ob ''id'' (JStr (n_id n));
          ob = ob_set ob ''type'' (JStr (type_name (n_type n)));
          ob = ob_set ob ''position''
                 (JObj [(''x'', JNum (Fin (pos_x (n_pos n)))), (''y'', JNum (Fin (pos_y (n_pos n))))])
      in ob_set ob ''data'' (JObj (data_json (n_data n))))"

fun node_json :: "IvrNode \<Rightarrow> json" where
  "node_json (Known n) = JObj (block_json n)"
| "node_json (Foreign ob) = JObj ob"

definition edge_json :: "WorkEdge \<Rightarrow> json" where
  "edge_json e =
     (let ob = (case e_keep e of Some ob \<Rightarrow> ob | None \<Rightarrow> []);
          ob = ob_set ob ''id'' (JStr (e_id e));
          ob = ob_set ob ''source'' (JStr (e_source e));
          ob = ob_set ob ''sourceHandle'' (JStr (e_sourceHandle e))
      in JObj (ob_set ob ''target'' (JStr (e_target e))))"

definition viewport_json :: "IvrViewport \<Rightarrow> json" where
  "viewport_json v = JObj [(''x'', JNum (vp_x v)), (''y'', JNum (vp_y v)), (''zoom'', JNum (vp_zoom v))]"

definition graph_json :: "IvrGraph \<Rightarrow> json" where
  "graph_json g =
     (let ob = ob_set (g_keep g) ''schemaVersion'' (jint 1);
          ob = ob_set ob ''nodes'' (JArr (map node_json (g_nodes g)));
          ob = ob_set ob ''edges'' (JArr (map edge_json (g_edges g)))
      in JObj (case g_viewport g of Some v \<Rightarrow> ob_set ob ''viewport'' (viewport_json v) | None \<Rightarrow> ob))"

definition emptyGraph :: "(nat \<Rightarrow> string) \<Rightarrow> nat \<Rightarrow> IvrGraph \<times> nat" where
  "emptyGraph nano k =
     (\<lparr>g_nodes = [Known \<lparr>n_id = newNodeId nano k, n_type = Entry, n_pos = \<lparr>pos_x = 0, pos_y = 0\<rparr>,
         n_data = \<lparr>bd_label = None, bd_config = [], bd_keepNode = None, bd_keepData = None\<rparr>\<rparr>],
       g_edges = [], g_viewport = None, g_keep = []\<rparr>, Suc k)"

section \<open>The declared configuration types\<close>

text \<open>What \<open>types/ivr.ts\<close> declares of each block's configuration.\<close>

definition is_ids :: "json option \<Rightarrow> bool" where
  "is_ids v = (case v of Some (JArr xs) \<Rightarrow> list_all is_id_number xs | _ \<Rightarrow> False)"

definition is_strs :: "json option \<Rightarrow> bool" where
  "is_strs v = (case v of Some (JArr xs) \<Rightarrow> list_all is_string xs | _ \<Rightarrow> False)"

definition is_num :: "json option \<Rightarrow> bool" where
  "is_num v = (case v of Some (JNum (Fin _)) \<Rightarrow> True | _ \<Rightarrow> False)"

definition is_str :: "json option \<Rightarrow> bool" where
  "is_str v = (case v of Some (JStr _) \<Rightarrow> True | _ \<Rightarrow> False)"

definition is_ranges :: "json option \<Rightarrow> bool" where
  "is_ranges v = (case v of Some (JArr xs) \<Rightarrow> list_all is_time_range xs | _ \<Rightarrow> False)"

definition is_weekly :: "json option \<Rightarrow> bool" where
  "is_weekly v = (case v of Some (JObj w) \<Rightarrow> list_all (\<lambda>d. is_ranges (ob_get w d)) DAY_KEYS | _ \<Rightarrow> False)"

definition is_target :: "json option \<Rightarrow> bool" where
  "is_target v = (case v of
     Some (JObj t) \<Rightarrow>
       (ob_get t ''kind'' = Some (JStr ''own'') \<and> is_str (ob_get t ''did''))
       \<or> (ob_get t ''kind'' = Some (JStr ''external'') \<and> is_str (ob_get t ''number''))
   | _ \<Rightarrow> False)"

fun typed_config :: "IvrNodeType \<Rightarrow> obj \<Rightarrow> bool" where
  "typed_config Entry c = True"
| "typed_config Play c = is_ids (ob_get c ''prompts'')"
| "typed_config Menu c =
     (is_ids (ob_get c ''prompts'')
      \<and> is_strs (ob_get c ''digits'') \<and> list_all isMenuDigit (strs (ob_get c ''digits''))
      \<and> is_num (ob_get c ''timeoutSec'') \<and> is_num (ob_get c ''retries'')
      \<and> (ob_get c ''invalidPrompts'' \<noteq> None \<longrightarrow> is_ids (ob_get c ''invalidPrompts''))
      \<and> (ob_get c ''noInputPrompts'' \<noteq> None \<longrightarrow> is_ids (ob_get c ''noInputPrompts'')))"
| "typed_config Schedule c =
     (is_str (ob_get c ''tz'') \<and> is_weekly (ob_get c ''weekly'') \<and> is_strs (ob_get c ''closedDates''))"
| "typed_config Condition c =
     (ob_get c ''mode'' \<in> {Some (JStr ''prefix''), Some (JStr ''equals''), Some (JStr ''anonymous'')}
      \<and> is_strs (ob_get c ''values''))"
| "typed_config Dial c =
     (is_target (ob_get c ''target'')
      \<and> ob_get c ''passCallerId'' \<in> {Some (JBool True), Some (JBool False)}
      \<and> is_num (ob_get c ''ringTimeoutSec''))"
| "typed_config Voicemail c = is_str (ob_get c ''did'')"
| "typed_config Goto c = is_str (ob_get c ''targetNodeId'')"
| "typed_config Hangup c = (ob_get c ''prompts'' \<noteq> None \<longrightarrow> is_ids (ob_get c ''prompts''))"

text \<open>What a normalised configuration holds under a key, in terms of what the source held there.\<close>

definition field_value :: "IvrNodeType \<Rightarrow> string \<Rightarrow> json option \<Rightarrow> json option" where
  "field_value t k v =
     (case t of
        Play \<Rightarrow> if k = ''prompts'' then Some (JArr (ids v)) else v
      | Menu \<Rightarrow>
          if k = ''prompts'' then Some (JArr (ids v))
          else if k = ''digits'' then
            Some (if is_array v then JArr (map JStr (sortDigits (strs v))) else JArr [JStr ''1'', JStr ''2''])
          else if k = ''timeoutSec'' then Some (JNum (Fin (num v 5)))
          else if k = ''retries'' then Some (JNum (Fin (num v 2)))
          else if k = ''invalidPrompts'' \<or> k = ''noInputPrompts'' then map_option (\<lambda>w. JArr (ids (Some w))) v
          else v
      | Schedule \<Rightarrow>
          if k = ''weekly'' then Some (JObj (normalize_weekly v))
          else if k = ''tz'' then Some (JStr (str_or ''America/New_York'' v))
          else if k = ''closedDates'' then Some (JArr (map JStr (strs v))) else v
      | Condition \<Rightarrow>
          if k = ''mode'' then Some (normalize_mode v)
          else if k = ''values'' then Some (JArr (map JStr (strs v))) else v
      | Dial \<Rightarrow>
          if k = ''target'' then Some (JObj (normalize_target v))
          else if k = ''passCallerId'' then Some (JBool (bool_or True v))
          else if k = ''ringTimeoutSec'' then Some (JNum (Fin (num v 30))) else v
      | Voicemail \<Rightarrow> if k = ''did'' then Some (JStr (str_or '''' v)) else v
      | Goto \<Rightarrow> if k = ''targetNodeId'' then Some (JStr (str_or '''' v)) else v
      | Hangup \<Rightarrow> if k = ''prompts'' then map_option (\<lambda>w. JArr (ids (Some w))) v else v
      | Entry \<Rightarrow> v)"

section \<open>Laws of the configuration reader\<close>

lemma keys_defaults [simp]: "distinct (ob_keys (defaultConfig t))"
  by (cases t) simp_all

lemma get_set_optional_ids:
  "ob_get (set_optional_ids src k out) k' =
     (if k' = k \<and> ob_get src k \<noteq> None then Some (JArr (ids (ob_get src k))) else ob_get out k')"
  by (auto simp: set_optional_ids_def ob_simps split: option.splits)

lemma keys_set_optional_ids:
  "set (ob_keys src) \<subseteq> set (ob_keys out) \<Longrightarrow> ob_keys (set_optional_ids src k out) = ob_keys out"
  by (cases "ob_get src k") (auto simp: set_optional_ids_def keys_set dest: get_in_fst)

lemma keys_normalize_fields:
  "ob_keys (normalize_fields t src (spread (defaultConfig t) src)) = ob_keys (spread (defaultConfig t) src)"
  by (cases t)
    (simp_all add: Let_def keys_set keys_set_optional_ids in_keys_spread subset_iff del: set_map)

lemma keys_normalizeConfig:
  "distinct (ob_keys (record_or_empty raw)) \<Longrightarrow> ob_keys (normalizeConfig t raw) =
     ob_keys (defaultConfig t) @ filter (\<lambda>k. k \<notin> set (ob_keys (defaultConfig t))) (ob_keys (record_or_empty raw))"
  unfolding normalizeConfig_def Let_def keys_normalize_fields by (rule keys_spread)

lemma distinct_normalizeConfig:
  "distinct (ob_keys (record_or_empty raw)) \<Longrightarrow> distinct (ob_keys (normalizeConfig t raw))"
  by (auto simp: keys_normalizeConfig simp del: set_map)

lemma record_or_empty_obj [simp]: "record_or_empty (Some (JObj ob)) = ob"
  by (simp add: record_or_empty_def)


lemma normalize_weekly_spread:
  "normalize_weekly w = spread (record_or_empty w)
     (map (\<lambda>d. (d, JArr (filter is_time_range (day_ranges w d)))) DAY_KEYS)"
  unfolding normalize_weekly_def fold_set_spread by (simp add: default_weekly_def DAY_KEYS_def)

lemma distinct_DAY_KEYS [simp]: "distinct DAY_KEYS"
  by (simp add: DAY_KEYS_def)

lemma keys_normalize_weekly:
  "ob_keys (normalize_weekly w) = ob_keys (record_or_empty w) @ filter (\<lambda>k. k \<notin> set (ob_keys (record_or_empty w))) DAY_KEYS"
  unfolding normalize_weekly_spread by (subst keys_spread) (simp_all add: comp_def)

lemma get_normalize_weekly:
  "ob_get (normalize_weekly w) d =
     (if d \<in> set DAY_KEYS then Some (JArr (filter is_time_range (day_ranges w d)))
      else ob_get (record_or_empty w) d)"
  unfolding normalize_weekly_spread
  by (subst get_spread) (auto simp: comp_def map_of_map_restrict restrict_map_def split: option.splits)

lemma normalize_weekly_idem:
  assumes "distinct (ob_keys (record_or_empty w))"
  shows "normalize_weekly (Some (JObj (normalize_weekly w))) = normalize_weekly w"
proof (rule ob_ext)
  have d: "distinct (ob_keys (normalize_weekly w))"
    using assms by (auto simp: keys_normalize_weekly simp del: set_map)
  have days: "set DAY_KEYS \<subseteq> set (ob_keys (normalize_weekly w))"
    by (auto simp: keys_normalize_weekly simp del: set_map)
  show k: "ob_keys (normalize_weekly (Some (JObj (normalize_weekly w)))) = ob_keys (normalize_weekly w)"
    using days by (auto simp: keys_normalize_weekly [of "Some _"] filter_empty_conv simp del: set_map)
  show "distinct (ob_keys (normalize_weekly (Some (JObj (normalize_weekly w)))))"
    using d k by simp
  show "ob_get (normalize_weekly (Some (JObj (normalize_weekly w)))) x = ob_get (normalize_weekly w) x" for x
    by (simp add: get_normalize_weekly day_ranges_def)
qed

lemma normalize_target_idem:
  "distinct (ob_keys (record_or_empty v)) \<Longrightarrow>
     normalize_target (Some (JObj (normalize_target v))) = normalize_target v"
  by (simp add: normalize_target_def Let_def ob_simps set_same)

lemma normalize_mode_idem [simp]: "normalize_mode (Some (normalize_mode v)) = normalize_mode v"
  by (auto simp: normalize_mode_def)

lemma bool_or_idem [simp]: "bool_or d (Some (JBool b)) = b"
  by (simp add: bool_or_def)

lemma default_digits [simp]:
  "strs (Some (JArr [JStr ''1'', JStr ''2''])) = [''1'', ''2'']" "sortDigits [''1'', ''2''] = [''1'', ''2'']"
  by (simp_all add: strs_def array_or_empty_def map_filter_def sortDigits_def DIGIT_ORDER_def)

lemma is_array_JArr [simp]: "is_array (Some (JArr xs))"
  by (simp add: is_array_def)

lemma get_normalizeConfig:
  assumes "distinct (ob_keys (record_or_empty raw))"
  shows "ob_get (normalizeConfig t raw) k = field_value t k (ob_get (record_or_empty raw) k)"
  using assms
  by (cases t) (auto simp: normalizeConfig_def Let_def field_value_def ob_simps get_spread
      get_set_optional_ids split: option.splits)

lemma field_value_idem:
  assumes "\<And>w. v = Some (JObj w) \<Longrightarrow> distinct (ob_keys w)"
  shows "field_value t k (field_value t k v) = field_value t k v"
proof -
  have "distinct (ob_keys (record_or_empty v))"
    using assms by (auto simp: record_or_empty_def split: option.splits json.splits)
  then show ?thesis
    by (cases t) (simp_all add: field_value_def normalize_weekly_idem normalize_target_idem option.map_comp comp_def)
qed

lemma normalizeConfig_idem:
  assumes "\<And>v. raw = Some v \<Longrightarrow> wf_json v"
  shows "normalizeConfig t (Some (JObj (normalizeConfig t raw))) = normalizeConfig t raw"
proof (rule ob_ext)
  let ?out = "normalizeConfig t raw"
  have wf: "wf_obj (record_or_empty raw)" by (rule wf_record_or_empty) (rule assms)
  then have d: "distinct (ob_keys (record_or_empty raw))" by simp
  have do: "distinct (ob_keys ?out)" using d by (rule distinct_normalizeConfig)
  then have do': "distinct (ob_keys (record_or_empty (Some (JObj ?out))))" by simp
  show "ob_keys (normalizeConfig t (Some (JObj ?out))) = ob_keys ?out"
    unfolding keys_normalizeConfig [OF do'] using keys_normalizeConfig [OF d, of t]
    by (auto simp: filter_empty_conv simp del: set_map)
  then show "distinct (ob_keys (normalizeConfig t (Some (JObj ?out))))" using do by simp
  show "ob_get (normalizeConfig t (Some (JObj ?out))) k = ob_get ?out k" for k
    unfolding get_normalizeConfig [OF do'] record_or_empty_obj get_normalizeConfig [OF d]
    by (rule field_value_idem) (use wf_get [OF wf] in fastforce)
qed

lemma is_ids_ids [simp]: "is_ids (Some (JArr (ids v)))"
  by (simp add: is_ids_def ids_def list_all_iff)

lemma is_strs_map [simp]: "is_strs (Some (JArr (map JStr xs)))"
  by (simp add: is_strs_def list_all_iff)

lemma is_target_normalize [simp]: "is_target (Some (JObj (normalize_target v)))"
  by (simp add: is_target_def normalize_target_def Let_def ob_simps is_str_def)

lemma is_weekly_normalize [simp]: "is_weekly (Some (JObj (normalize_weekly v)))"
  by (simp add: is_weekly_def list_all_iff get_normalize_weekly is_ranges_def)

lemma normalize_typed:
  assumes "distinct (ob_keys (record_or_empty raw))"
  shows "typed_config t (normalizeConfig t raw)"
proof (cases t)
  case Menu
  show ?thesis unfolding Menu typed_config.simps get_normalizeConfig [OF assms] field_value_def
    by (auto simp: is_num_def list_all_iff set_sortDigits isMenuDigit_def DIGIT_ORDER_def)
       (auto simp: is_strs_def)
qed (auto simp: get_normalizeConfig [OF assms] field_value_def is_num_def is_str_def normalize_mode_def)

end
