(* ===== verification/Graph_Laws.thy ===== *)
theory Graph_Laws
  imports Graph
begin

text \<open>
  What \<open>fromGraph\<close> and \<open>toGraph\<close> promise: any JSON value is read into a graph that satisfies the
  builder's invariant, a stored graph is read back to the graph it was written from (on whole
  pixels), and what the builder does not know is kept. The identifiers \<open>nanoid\<close> makes are assumed
  not to repeat ids in use (\<open>fresh_ids\<close>), its documented behaviour.
\<close>

section \<open>Nodes read well-formed\<close>

definition keep_ok :: "string list \<Rightarrow> obj option \<Rightarrow> bool" where
  "keep_ok known v = (case v of None \<Rightarrow> True | Some ob \<Rightarrow> distinct (ob_keys ob) \<and> pick ob known = Some ob)"

definition foreign_id :: "obj \<Rightarrow> string" where
  "foreign_id ob = str_or '''' (ob_get ob ''id'')"

definition node_ok :: "('a NodeInput_scheme) \<Rightarrow> bool" where
  "node_ok n \<longleftrightarrow> n_id n \<noteq> '''' \<and> bd_label (n_data n) \<noteq> Some ''''
     \<and> normalizeConfig (n_type n) (Some (JObj (n_config n))) = n_config n
     \<and> typed_config (n_type n) (n_config n)
     \<and> keep_ok NODE_KEYS (bd_keepNode (n_data n)) \<and> keep_ok DATA_KEYS (bd_keepData (n_data n))"

definition foreign_ok :: "obj \<Rightarrow> bool" where
  "foreign_ok ob \<longleftrightarrow> foreign_id ob \<noteq> '''' \<and> isIvrNodeType (ob_get ob ''type'') = None"

definition raw_ids :: "json list \<Rightarrow> string set" where
  "raw_ids raws = {foreign_id ob | ob. JObj ob \<in> set raws}"

lemma keep_ok_pick: "wf_obj ob \<Longrightarrow> keep_ok known (pick ob known)"
  using wf_pick [of ob known] by (auto simp: keep_ok_def split: option.splits)

lemma read_node_ok:
  assumes "wf_obj raw" "i \<noteq> ''''"
  shows "node_ok (read_node i t raw) \<and> n_deletable (read_node i t raw) = None \<and> n_id (read_node i t raw) = i
    \<and> n_type (read_node i t raw) = t"
proof -
  let ?data = "record_or_empty (ob_get raw ''data'')"
  have d: "wf_obj ?data" using assms(1) by (rule wf_record_get)
  have c: "distinct (ob_keys (record_or_empty (ob_get ?data ''config'')))"
    using wf_record_get [OF d, of "''config''"] by simp
  have "normalizeConfig t (Some (JObj (normalizeConfig t (ob_get ?data ''config''))))
      = normalizeConfig t (ob_get ?data ''config'')"
    by (rule normalizeConfig_idem) (rule wf_get [OF d])
  moreover have "read_label v \<noteq> Some ''''" for v
    by (auto simp: read_label_def split: option.splits json.splits)
  ultimately show ?thesis
    using keep_ok_pick [OF assms(1)] keep_ok_pick [OF d] assms(2) normalize_typed [OF c, of t]
    by (simp add: read_node_def Let_def node_ok_def)
qed

lemma raw_ids_Cons [simp]:
  "raw_ids (JObj ob # raws) = insert (foreign_id ob) (raw_ids raws)"
  "raw_ids [] = {}"
  by (auto simp: raw_ids_def)

lemma raw_ids_mono: "raw_ids raws \<subseteq> raw_ids (r # raws)"
  by (auto simp: raw_ids_def)

definition nodes_ok :: "string list \<Rightarrow> json list \<Rightarrow> WorkNode list \<Rightarrow> obj list \<Rightarrow> bool" where
  "nodes_ok seen raws ns fs \<longleftrightarrow>
     (\<forall>n \<in> set ns. node_ok n \<and> n_deletable n = None) \<and> (\<forall>f \<in> set fs. foreign_ok f)
     \<and> distinct (map n_id ns @ map foreign_id fs)
     \<and> set (map n_id ns @ map foreign_id fs) \<subseteq> raw_ids raws - set seen"

lemma read_nodes_ok:
  "list_all wf_json raws \<Longrightarrow> read_nodes seen raws = (ns, fs) \<Longrightarrow> nodes_ok seen raws ns fs"
proof (induction seen raws arbitrary: ns fs rule: read_nodes.induct)
  case (2 seen ob rest)
  let ?i = "foreign_id ob"
  have wf: "wf_obj ob" "list_all wf_json rest" using "2.prems"(1) by auto
  show ?case
  proof (cases "?i = '''' \<or> ?i \<in> set seen")
    case True
    then have "read_nodes seen rest = (ns, fs)" using "2.prems"(2) by (simp add: foreign_id_def)
    with True "2.IH"(1) wf(2) have "nodes_ok seen rest ns fs" by (simp add: foreign_id_def)
    then show ?thesis by (auto simp: nodes_ok_def)
  next
    case False
    obtain ns' fs' where r: "read_nodes (?i # seen) rest = (ns', fs')" by (cases "read_nodes (?i # seen) rest")
    show ?thesis
    proof (cases "isIvrNodeType (ob_get ob ''type'')")
      case None
      with False r "2.IH"(2) wf(2) have ok: "nodes_ok (?i # seen) rest ns' fs'" by (simp add: foreign_id_def)
      have "ns = ns'" "fs = ob # fs'"
        using "2.prems"(2) False None r by (simp_all add: foreign_id_def Let_def)
      then show ?thesis using ok False None by (auto simp: nodes_ok_def foreign_ok_def)
    next
      case (Some t)
      with False r "2.IH"(3) wf(2) have ok: "nodes_ok (?i # seen) rest ns' fs'" by (simp add: foreign_id_def)
      have "ns = read_node ?i t ob # ns'" "fs = fs'"
        using "2.prems"(2) False Some r by (simp_all add: foreign_id_def Let_def)
      then show ?thesis using ok False read_node_ok [OF wf(1), of ?i t] by (auto simp: nodes_ok_def)
    qed
  qed
qed (auto simp: nodes_ok_def raw_ids_def)

section \<open>Edges read back well-formed\<close>

abbreviation slots :: "('b WorkEdge_scheme) list \<Rightarrow> string list" where
  "slots es \<equiv> map (\<lambda>e. slotKey (e_source e) (e_sourceHandle e)) es"

definition edge_ends :: "('a NodeInput_scheme) list \<Rightarrow> ('b WorkEdge_scheme) \<Rightarrow> bool" where
  "edge_ends ns e \<longleftrightarrow> last_by n_id ns (e_source e) \<noteq> None
     \<and> (case last_by n_id ns (e_target e) of None \<Rightarrow> False | Some t \<Rightarrow> n_type t \<noteq> Entry)"

definition edge_ok :: "('a NodeInput_scheme) list \<Rightarrow> WorkEdge \<Rightarrow> bool" where
  "edge_ok ns e \<longleftrightarrow> edge_ends ns e \<and> e_sourceHandle e \<noteq> '''' \<and> e_id e \<noteq> '''' \<and> keep_ok EDGE_KEYS (e_keep e)"

text \<open>What the builder relies on of \<open>nanoid\<close>: from call \<open>k\<close> on, no identifier repeats an earlier
  one or one of the given ids.\<close>

definition fresh_edge_ids :: "(nat \<Rightarrow> string) \<Rightarrow> nat \<Rightarrow> string set \<Rightarrow> bool" where
  "fresh_edge_ids nano k taken \<longleftrightarrow>
     (\<forall>i \<ge> k. newEdgeId nano i \<notin> taken) \<and> (\<forall>i j. k \<le> i \<longrightarrow> i < j \<longrightarrow> newEdgeId nano i \<noteq> newEdgeId nano j)"

lemma take_edge_id:
  assumes "take_edge_id nano eids k i0 = (i, k')"
  shows "k \<le> k'" "i \<noteq> ''''"
    "i = i0 \<or> (\<exists>j. k \<le> j \<and> j < k' \<and> i = newEdgeId nano j)"
    "i \<notin> set eids \<or> (\<exists>j. k \<le> j \<and> j < k' \<and> i = newEdgeId nano j)"
  using assms by (auto simp: take_edge_id_def newEdgeId_def Let_def split: if_splits intro: exI [of _ k] exI [of _ "Suc k"])

lemma read_edge_Some:
  assumes "read_edge nano ns used eids k ob = Some (e, k')"
  shows "edge_ends ns e" "slotKey (e_source e) (e_sourceHandle e) \<notin> set used"
    "e_sourceHandle e \<noteq> ''''" "e_keep e = pick ob EDGE_KEYS"
    "take_edge_id nano eids k (foreign_id ob) = (e_id e, k')"
  using assms
  by (auto simp: read_edge_def Let_def edge_ends_def raw_handle_def foreign_id_def
      split: option.splits if_splits prod.splits)

lemma fresh_edge_ids_step:
  assumes "fresh_edge_ids nano k (insert x taken)" "k \<le> k1"
    and "i = x \<or> (\<exists>j. k \<le> j \<and> j < k1 \<and> i = newEdgeId nano j)"
  shows "fresh_edge_ids nano k1 (insert i taken)"
  unfolding fresh_edge_ids_def
proof (intro conjI allI impI)
  fix m assume m: "k1 \<le> m"
  have "newEdgeId nano m \<noteq> i"
    using assms(3)
  proof
    assume "i = x"
    with assms(1,2) m show ?thesis by (auto simp: fresh_edge_ids_def)
  next
    assume "\<exists>j. k \<le> j \<and> j < k1 \<and> i = newEdgeId nano j"
    then obtain j where "k \<le> j" "j < m" "i = newEdgeId nano j" using m by auto
    with assms(1) show ?thesis unfolding fresh_edge_ids_def by metis
  qed
  with assms(1,2) m show "newEdgeId nano m \<notin> insert i taken" by (auto simp: fresh_edge_ids_def)
qed (use assms(1,2) in \<open>auto simp: fresh_edge_ids_def\<close>)

definition edges_ok :: "('a NodeInput_scheme) list \<Rightarrow> string list \<Rightarrow> WorkEdge list \<Rightarrow> bool" where
  "edges_ok ns used es \<longleftrightarrow> (\<forall>e \<in> set es. edge_ok ns e) \<and> distinct (slots es) \<and> set (slots es) \<inter> set used = {}"

lemma read_edges_ok:
  "list_all wf_json raws \<Longrightarrow> read_edges nano ns used eids k raws = (es, k') \<Longrightarrow> edges_ok ns used es \<and> k \<le> k'"
proof (induction nano ns used eids k raws arbitrary: es k' rule: read_edges.induct)
  case (2 nano ns used eids k ob rest)
  show ?case
  proof (cases "read_edge nano ns used eids k ob")
    case None
    with 2 show ?thesis by simp
  next
    case (Some a)
    obtain e k1 where a: "a = (e, k1)" by (cases a)
    let ?used = "slotKey (e_source e) (e_sourceHandle e) # used"
    obtain es' k2 where r: "read_edges nano ns ?used (e_id e # eids) k1 rest = (es', k2)"
      by (cases "read_edges nano ns ?used (e_id e # eids) k1 rest")
    have es: "es = e # es'" "k' = k2" using "2.prems"(2) Some a r by simp_all
    have "edges_ok ns ?used es' \<and> k1 \<le> k2" using "2.IH"(2) [OF Some a [symmetric]] r "2.prems"(1) by simp
    moreover note read_edge_Some [OF Some [unfolded a]] take_edge_id [OF read_edge_Some(5) [OF Some [unfolded a]]]
    moreover have "keep_ok EDGE_KEYS (pick ob EDGE_KEYS)" using "2.prems"(1) by (intro keep_ok_pick) simp
    ultimately show ?thesis by (auto simp: edges_ok_def edge_ok_def es)
  qed
qed (auto simp: edges_ok_def)

lemma read_edges_ids:
  "read_edges nano ns used eids k raws = (es, k') \<Longrightarrow> fresh_edge_ids nano k (raw_ids raws \<union> set eids) \<Longrightarrow>
    distinct (map e_id es) \<and> set (map e_id es) \<inter> set eids = {}"
proof (induction nano ns used eids k raws arbitrary: es k' rule: read_edges.induct)
  case (2 nano ns used eids k ob rest)
  show ?case
  proof (cases "read_edge nano ns used eids k ob")
    case None
    with 2 show ?thesis by (simp add: fresh_edge_ids_def)
  next
    case (Some a)
    obtain e k1 where a: "a = (e, k1)" by (cases a)
    let ?used = "slotKey (e_source e) (e_sourceHandle e) # used"
    obtain es' k2 where r: "read_edges nano ns ?used (e_id e # eids) k1 rest = (es', k2)"
      by (cases "read_edges nano ns ?used (e_id e # eids) k1 rest")
    have es: "es = e # es'" "k' = k2" using "2.prems"(1) Some a r by simp_all
    note E = take_edge_id [OF read_edge_Some(5) [OF Some [unfolded a]]]
    have "fresh_edge_ids nano k1 (insert (e_id e) (raw_ids rest \<union> set eids))"
      by (rule fresh_edge_ids_step [OF _ E(1,3)]) (use "2.prems"(2) in simp)
    then have "fresh_edge_ids nano k1 (raw_ids rest \<union> set (e_id e # eids))" by simp
    with "2.IH"(2) [OF Some a [symmetric]] r
    have "distinct (map e_id es') \<and> set (map e_id es') \<inter> set (e_id e # eids) = {}" by simp
    moreover have "e_id e \<notin> set eids" using E(4) "2.prems"(2) by (auto simp: fresh_edge_ids_def)
    ultimately show ?thesis by (auto simp: es)
  qed
qed (auto simp: raw_ids_def)

section \<open>The working graph's invariant\<close>

lemma mark_first_entry_ids [simp]: "map n_id (mark_first_entry ns) = map n_id ns"
  by (induction ns) auto

lemma mark_first_entry_types [simp]: "map n_type (mark_first_entry ns) = map n_type ns"
  by (induction ns) auto

lemma mark_first_entry_data [simp]: "map n_data (mark_first_entry ns) = map n_data ns"
  by (induction ns) auto

definition unmark :: "WorkNode \<Rightarrow> WorkNode" where
  "unmark n = n\<lparr>n_deletable := None\<rparr>"

lemma unmark_simps [simp]: "n_id (unmark n) = n_id n" "n_type (unmark n) = n_type n" "n_data (unmark n) = n_data n"
  "n_pos (unmark n) = n_pos n" "n_deletable (unmark n) = None"
  by (simp_all add: unmark_def)

lemma unmark_same: "n_deletable n = None \<Longrightarrow> unmark n = n"
  by (simp add: unmark_def)

lemma mark_unmark: "\<forall>n \<in> set ns. n_deletable n = None \<Longrightarrow> map unmark (mark_first_entry ns) = ns"
  by (induction ns) (auto simp: unmark_def map_idI)

lemma in_mark: "n \<in> set (mark_first_entry ns) \<Longrightarrow> \<exists>m \<in> set ns. n = m \<or> n = m\<lparr>n_deletable := Some False\<rparr>"
  by (induction ns) (auto split: if_splits)

lemma node_ok_update [simp]: "node_ok (n\<lparr>n_deletable := d\<rparr>) = node_ok n"
  by (simp add: node_ok_def)

text \<open>The invariant of the working graph.\<close>

definition wf_work :: "WorkGraph \<Rightarrow> bool" where
  "wf_work w \<longleftrightarrow>
     (\<forall>n \<in> set (wg_nodes w). node_ok n)
     \<and> (\<forall>f \<in> set (wg_foreignNodes w). foreign_ok f)
     \<and> distinct (map n_id (wg_nodes w) @ map foreign_id (wg_foreignNodes w))
     \<and> (\<exists>n \<in> set (wg_nodes w). n_type n = Entry)
     \<and> mark_first_entry (map unmark (wg_nodes w)) = wg_nodes w
     \<and> edges_ok (wg_nodes w) [] (wg_edges w)
     \<and> distinct (map e_id (wg_edges w))
     \<and> distinct (ob_keys (wg_keepGraph w)) \<and> set (ob_keys (wg_keepGraph w)) \<inter> set GRAPH_KEYS = {}"

lemma keepGraph_ok:
  assumes "wf_obj g"
  shows "distinct (ob_keys (case pick g GRAPH_KEYS of Some ob \<Rightarrow> ob | None \<Rightarrow> []))"
    "set (ob_keys (case pick g GRAPH_KEYS of Some ob \<Rightarrow> ob | None \<Rightarrow> [])) \<inter> set GRAPH_KEYS = {}"
  using wf_pick [OF assms, of GRAPH_KEYS] pick_keys [of g GRAPH_KEYS] by (cases "pick g GRAPH_KEYS"; simp)+

lemma ensure_start_ok:
  assumes ok: "nodes_ok [] raws ns0 fs" and fresh: "newNodeId nano k \<notin> raw_ids raws"
    and e: "ensure_start nano k ns0 = (ns, k1)"
  shows "\<forall>n \<in> set ns. node_ok n" "distinct (map n_id ns @ map foreign_id fs)"
    "\<exists>n \<in> set ns. n_type n = Entry" "mark_first_entry (map unmark ns) = ns" "k \<le> k1"
proof -
  have del: "\<forall>n \<in> set ns0. n_deletable n = None" using ok by (simp add: nodes_ok_def)
  have start: "node_ok (start_node (newNodeId nano k))"
    by (simp add: node_ok_def start_node_def newNodeId_def keep_ok_def normalizeConfig_def spread_def)
  have "(\<forall>n \<in> set ns. node_ok n) \<and> distinct (map n_id ns @ map foreign_id fs)
    \<and> (\<exists>n \<in> set ns. n_type n = Entry) \<and> mark_first_entry (map unmark ns) = ns \<and> k \<le> k1"
  proof (cases "\<exists>n \<in> set ns0. n_type n = Entry")
    case True
    then have ns: "ns = mark_first_entry ns0" "k1 = k" using e by (auto simp: ensure_start_def)
    have "\<exists>n \<in> set ns. n_type n = Entry"
    proof -
      have "Entry \<in> set (map n_type ns)" unfolding ns mark_first_entry_types using True by force
      then show ?thesis by (metis (mono_tags, lifting) image_iff list.set_map)
    qed
    moreover have "\<forall>n \<in> set ns. node_ok n" using ok ns by (auto simp: nodes_ok_def dest!: in_mark)
    ultimately show ?thesis using ok ns by (simp add: nodes_ok_def mark_unmark [OF del] del: set_map)
  next
    case False
    then have ns: "ns = start_node (newNodeId nano k) # ns0" "k1 = Suc k" using e by (auto simp: ensure_start_def)
    have "map unmark ns0 = ns0" using del by (simp add: unmark_same map_idI)
    then have "mark_first_entry (map unmark ns) = ns" by (simp add: ns start_node_def unmark_def)
    then show ?thesis using ok ns start fresh by (auto simp: nodes_ok_def start_node_def)
  qed
  then show "\<forall>n \<in> set ns. node_ok n" "distinct (map n_id ns @ map foreign_id fs)"
    "\<exists>n \<in> set ns. n_type n = Entry" "mark_first_entry (map unmark ns) = ns" "k \<le> k1" by auto
qed

text \<open>The ids the raw graph uses, and the freshness \<open>nanoid\<close> gives against them.\<close>

definition fresh_ids :: "(nat \<Rightarrow> string) \<Rightarrow> nat \<Rightarrow> json option \<Rightarrow> bool" where
  "fresh_ids nano k input \<longleftrightarrow>
     newNodeId nano k \<notin> raw_ids (array_or_empty (ob_get (record_or_empty input) ''nodes''))
     \<and> fresh_edge_ids nano k (raw_ids (array_or_empty (ob_get (record_or_empty input) ''edges'')))"

lemma fresh_edge_ids_mono: "fresh_edge_ids nano k A \<Longrightarrow> k \<le> k1 \<Longrightarrow> fresh_edge_ids nano k1 A"
  by (simp add: fresh_edge_ids_def)

lemma fromGraph_wf:
  assumes wf: "\<And>v. input = Some v \<Longrightarrow> wf_json v" and fresh: "fresh_ids nano k input"
    and r: "fromGraph nano k input = (w, k')"
  shows "wf_work w"
proof -
  let ?g = "record_or_empty input"
  let ?rn = "array_or_empty (ob_get ?g ''nodes'')" and ?re = "array_or_empty (ob_get ?g ''edges'')"
  have g: "wf_obj ?g" by (rule wf_record_or_empty) (rule wf)
  obtain ns0 fs where n0: "read_nodes [] ?rn = (ns0, fs)" by (cases "read_nodes [] ?rn")
  obtain ns k1 where n1: "ensure_start nano k ns0 = (ns, k1)" by (cases "ensure_start nano k ns0")
  obtain es k2 where e: "read_edges nano ns [] [] k1 ?re = (es, k2)" by (cases "read_edges nano ns [] [] k1 ?re")
  have ok: "nodes_ok [] ?rn ns0 fs" using wf_array_get [OF g] n0 by (rule read_nodes_ok)
  have "newNodeId nano k \<notin> raw_ids ?rn" using fresh by (simp add: fresh_ids_def)
  note S = ensure_start_ok [OF ok this n1]
  have "edges_ok ns [] es" using read_edges_ok [OF wf_array_get [OF g] e] by simp
  moreover have "fresh_edge_ids nano k1 (raw_ids ?re \<union> set [])"
    using fresh S(5) by (auto simp: fresh_ids_def intro: fresh_edge_ids_mono)
  then have "distinct (map e_id es)" using read_edges_ids [OF e] by simp
  moreover have "w = \<lparr>wg_nodes = ns, wg_edges = es, wg_viewport = read_viewport (ob_get ?g ''viewport''),
      wg_keepGraph = (case pick ?g GRAPH_KEYS of Some ob \<Rightarrow> ob | None \<Rightarrow> []), wg_foreignNodes = fs\<rparr>"
    using r n0 n1 e by (simp add: fromGraph_def Let_def)
  ultimately show ?thesis
    using S ok keepGraph_ok [OF g] by (simp add: wf_work_def nodes_ok_def)
qed

section \<open>Writing and reading back\<close>

definition round_node :: "WorkNode \<Rightarrow> WorkNode" where
  "round_node n = n\<lparr>n_pos := round_pos (n_pos n)\<rparr>"

definition round_work :: "WorkGraph \<Rightarrow> WorkGraph" where
  "round_work w = w\<lparr>wg_nodes := map round_node (wg_nodes w), wg_viewport := map_option round_viewport (wg_viewport w)\<rparr>"

abbreviation stored :: "WorkGraph \<Rightarrow> IvrGraph" where
  "stored w \<equiv> toGraph (wg_nodes w) (wg_edges w) (wg_viewport w) (wg_keepGraph w) (wg_foreignNodes w)"

lemma keep_ok_cases:
  assumes "keep_ok known v"
  obtains "v = None" | ob where "v = Some ob" "distinct (ob_keys ob)" "pick ob known = Some ob" "set (ob_keys ob) \<inter> set known = {}"
  using assms pick_keys by (cases v) (fastforce simp: keep_ok_def)+

lemma block_json_eq:
  assumes "keep_ok NODE_KEYS (bd_keepNode (n_data n))"
  shows "block_json n = (case bd_keepNode (n_data n) of Some ob \<Rightarrow> ob | None \<Rightarrow> []) @
     [(''id'', JStr (n_id n)), (''type'', JStr (type_name (n_type n))),
      (''position'', JObj [(''x'', JNum (Fin (pos_x (n_pos n)))), (''y'', JNum (Fin (pos_y (n_pos n))))]),
      (''data'', JObj (data_json (n_data n)))]"
  using assms by (rule keep_ok_cases) (auto simp: block_json_def Let_def NODE_KEYS_def set_new)

lemma data_json_eq:
  assumes "keep_ok DATA_KEYS (bd_keepData d)"
  shows "data_json d = (case bd_keepData d of Some ob \<Rightarrow> ob | None \<Rightarrow> [])
     @ (case bd_label d of Some l \<Rightarrow> [(''label'', JStr l)] | None \<Rightarrow> []) @ [(''config'', JObj (bd_config d))]"
  using assms by (rule keep_ok_cases) (auto simp: data_json_def Let_def DATA_KEYS_def set_new split: option.splits)

lemma drop_empty_label_same: "bd_label d \<noteq> Some '''' \<Longrightarrow> drop_empty_label d = d"
  by (cases "bd_label d") (auto simp: drop_empty_label_def)

lemma pick_keep:
  assumes "keep_ok known v" "set (ob_keys b) \<subseteq> set known"
  shows "pick ((case v of Some ob \<Rightarrow> ob | None \<Rightarrow> []) @ b) known = v"
  unfolding pick_append [OF assms(2)] using assms(1) by (rule keep_ok_cases) (simp_all add: pick_def)

lemma get_keep:
  assumes "keep_ok known v" "k \<in> set known"
  shows "ob_get ((case v of Some ob \<Rightarrow> ob | None \<Rightarrow> []) @ b) k = ob_get b k"
  using assms(1)
proof (rule keep_ok_cases)
  fix ob assume "v = Some ob" "set (ob_keys ob) \<inter> set known = {}"
  then show ?thesis using get_disjoint_None [of ob "set known" k] assms(2) by (simp only: get_append option.case)
qed simp

lemma stored_node_json:
  assumes "node_ok n"
  shows "block_json (stored_node n) = (case bd_keepNode (n_data n) of Some ob \<Rightarrow> ob | None \<Rightarrow> []) @
     [(''id'', JStr (n_id n)), (''type'', JStr (type_name (n_type n))),
      (''position'', JObj [(''x'', JNum (Fin (pos_x (round_pos (n_pos n))))), (''y'', JNum (Fin (pos_y (round_pos (n_pos n)))))]),
      (''data'', JObj (data_json (n_data n)))]"
proof -
  have "keep_ok NODE_KEYS (bd_keepNode (n_data n))" and "drop_empty_label (n_data n) = n_data n"
    using assms by (auto simp: node_ok_def intro: drop_empty_label_same)
  then show ?thesis using block_json_eq [of "stored_node n"] by (simp add: stored_node_def)
qed

lemma stored_node_get:
  assumes "node_ok n"
  shows "ob_get (block_json (stored_node n)) ''id'' = Some (JStr (n_id n))"
    "ob_get (block_json (stored_node n)) ''type'' = Some (JStr (type_name (n_type n)))"
    "ob_get (block_json (stored_node n)) ''position'' =
       Some (JObj [(''x'', JNum (Fin (pos_x (round_pos (n_pos n))))), (''y'', JNum (Fin (pos_y (round_pos (n_pos n)))))])"
    "ob_get (block_json (stored_node n)) ''data'' = Some (JObj (data_json (n_data n)))"
    "pick (block_json (stored_node n)) NODE_KEYS = bd_keepNode (n_data n)"
proof -
  have k: "keep_ok NODE_KEYS (bd_keepNode (n_data n))" using assms by (simp add: node_ok_def)
  note j = stored_node_json [OF assms]
  show "ob_get (block_json (stored_node n)) ''id'' = Some (JStr (n_id n))"
    "ob_get (block_json (stored_node n)) ''type'' = Some (JStr (type_name (n_type n)))"
    "ob_get (block_json (stored_node n)) ''position'' =
       Some (JObj [(''x'', JNum (Fin (pos_x (round_pos (n_pos n))))), (''y'', JNum (Fin (pos_y (round_pos (n_pos n)))))])"
    "ob_get (block_json (stored_node n)) ''data'' = Some (JObj (data_json (n_data n)))"
    unfolding j by (subst get_keep [OF k]; simp add: NODE_KEYS_def)+
  show "pick (block_json (stored_node n)) NODE_KEYS = bd_keepNode (n_data n)"
    unfolding j by (rule pick_keep [OF k]) (simp add: NODE_KEYS_def)
qed

lemma data_json_get:
  assumes "keep_ok DATA_KEYS (bd_keepData d)" "bd_label d \<noteq> Some ''''"
  shows "read_label (ob_get (data_json d) ''label'') = bd_label d"
    "ob_get (data_json d) ''config'' = Some (JObj (bd_config d))"
    "pick (data_json d) DATA_KEYS = bd_keepData d"
proof -
  show "read_label (ob_get (data_json d) ''label'') = bd_label d"
    unfolding data_json_eq [OF assms(1)] using assms(2)
    by (subst get_keep [OF assms(1)]) (auto simp: DATA_KEYS_def read_label_def split: option.splits)
  show "ob_get (data_json d) ''config'' = Some (JObj (bd_config d))"
    unfolding data_json_eq [OF assms(1)]
    by (subst get_keep [OF assms(1)]) (auto simp: DATA_KEYS_def split: option.splits)
  show "pick (data_json d) DATA_KEYS = bd_keepData d"
    unfolding data_json_eq [OF assms(1)]
    by (rule pick_keep [OF assms(1)]) (auto simp: DATA_KEYS_def split: option.splits)
qed

lemma read_stored_node:
  assumes "node_ok n"
  shows "read_node (n_id n) (n_type n) (block_json (stored_node n)) = unmark (round_node n)"
proof -
  have k: "keep_ok DATA_KEYS (bd_keepData (n_data n))" and l: "bd_label (n_data n) \<noteq> Some ''''"
    and c: "normalizeConfig (n_type n) (Some (JObj (n_config n))) = n_config n"
    using assms by (auto simp: node_ok_def)
  show ?thesis
    by (simp add: read_node_def stored_node_get [OF assms] data_json_get [OF k l] c Let_def
        unmark_def round_node_def num_def)
qed

lemma read_nodes_foreign:
  "\<forall>f \<in> set fs. foreign_ok f \<Longrightarrow> distinct (map foreign_id fs) \<Longrightarrow> set (map foreign_id fs) \<inter> set seen = {} \<Longrightarrow>
     read_nodes seen (map JObj fs) = ([], fs)"
  by (induction fs arbitrary: seen) (auto simp: foreign_ok_def foreign_id_def Let_def)

lemma read_nodes_stored:
  assumes "\<forall>n \<in> set ns. node_ok n" "\<forall>f \<in> set fs. foreign_ok f" "distinct (map n_id ns @ map foreign_id fs)"
    and "set (map n_id ns @ map foreign_id fs) \<inter> set seen = {}"
  shows "read_nodes seen (map (\<lambda>n. JObj (block_json (stored_node n))) ns @ map JObj fs) = (map (unmark \<circ> round_node) ns, fs)"
  using assms
proof (induction ns arbitrary: seen)
  case Nil
  then show ?case using read_nodes_foreign by simp
next
  case (Cons n ns)
  have ok: "node_ok n" using Cons.prems by simp
  then have "n_id n \<noteq> ''''" by (simp add: node_ok_def)
  have IH: "read_nodes (n_id n # seen) (map (\<lambda>n. JObj (block_json (stored_node n))) ns @ map JObj fs) = (map (unmark \<circ> round_node) ns, fs)"
    by (rule Cons.IH) (use Cons.prems in auto)
  show ?case
    using Cons.prems(4) stored_node_get [OF ok] \<open>n_id n \<noteq> ''''\<close> IH read_stored_node [OF ok]
    by simp
qed

lemma edge_json_eq:
  assumes "keep_ok EDGE_KEYS (e_keep e)"
  shows "edge_json e = JObj ((case e_keep e of Some ob \<Rightarrow> ob | None \<Rightarrow> []) @
     [(''id'', JStr (e_id e)), (''source'', JStr (e_source e)),
      (''sourceHandle'', JStr (e_sourceHandle e)), (''target'', JStr (e_target e))])"
  using assms by (rule keep_ok_cases) (auto simp: edge_json_def Let_def EDGE_KEYS_def set_new)

lemma read_stored_edge:
  assumes ok: "edge_ok ns e" and used: "slotKey (e_source e) (e_sourceHandle e) \<notin> set used"
    and eids: "e_id e \<notin> set eids"
  obtains ob where "edge_json e = JObj ob" "read_edge nano ns used eids k ob = Some (e, k)"
proof
  let ?ob = "(case e_keep e of Some ob \<Rightarrow> ob | None \<Rightarrow> []) @
     [(''id'', JStr (e_id e)), (''source'', JStr (e_source e)),
      (''sourceHandle'', JStr (e_sourceHandle e)), (''target'', JStr (e_target e))]"
  have k: "keep_ok EDGE_KEYS (e_keep e)" using ok by (simp add: edge_ok_def)
  show "edge_json e = JObj ?ob" using k by (rule edge_json_eq)
  have get: "ob_get ?ob ''id'' = Some (JStr (e_id e))" "ob_get ?ob ''source'' = Some (JStr (e_source e))"
    "ob_get ?ob ''sourceHandle'' = Some (JStr (e_sourceHandle e))" "ob_get ?ob ''target'' = Some (JStr (e_target e))"
    by (subst get_keep [OF k]; simp add: EDGE_KEYS_def)+
  have "pick ?ob EDGE_KEYS = e_keep e" by (rule pick_keep [OF k]) (simp add: EDGE_KEYS_def)
  moreover have "raw_handle ?ob = e_sourceHandle e"
    using ok by (simp add: raw_handle_def get edge_ok_def)
  moreover have "take_edge_id nano eids k (e_id e) = (e_id e, k)"
    using ok eids by (simp add: take_edge_id_def edge_ok_def)
  ultimately show "read_edge nano ns used eids k ?ob = Some (e, k)"
    unfolding read_edge_def get str_or_JStr Let_def
    using ok used by (auto simp: edge_ok_def edge_ends_def split: option.splits)
qed

lemma read_edges_stored:
  assumes "edges_ok ns used es" "distinct (map e_id es)" "set (map e_id es) \<inter> set eids = {}"
  shows "read_edges nano ns used eids k (map edge_json es) = (es, k)"
  using assms
proof (induction es arbitrary: used eids)
  case (Cons e es)
  let ?used = "slotKey (e_source e) (e_sourceHandle e) # used"
  have "edge_ok ns e" "slotKey (e_source e) (e_sourceHandle e) \<notin> set used" "e_id e \<notin> set eids"
    using Cons.prems by (auto simp: edges_ok_def)
  then obtain ob where ob: "edge_json e = JObj ob" "read_edge nano ns used eids k ob = Some (e, k)"
    by (rule read_stored_edge)
  have "read_edges nano ns ?used (e_id e # eids) k (map edge_json es) = (es, k)"
    by (rule Cons.IH) (use Cons.prems in \<open>auto simp: edges_ok_def\<close>)
  then show ?case by (simp add: ob)
qed simp

lemma edges_ok_cong:
  assumes "\<And>i. map_option n_type (last_by n_id ns i) = map_option n_type (last_by n_id ms i)"
  shows "edges_ok ns used es \<longleftrightarrow> edges_ok ms used es"
proof -
  have "edge_ends ns e \<longleftrightarrow> edge_ends ms e" for e :: WorkEdge
    using assms [of "e_source e"] assms [of "e_target e"]
    by (cases "last_by n_id ns (e_source e)"; cases "last_by n_id ms (e_source e)")
      (auto simp: edge_ends_def split: option.splits)
  then show ?thesis by (simp add: edges_ok_def edge_ok_def)
qed

lemma round_node_simps [simp]: "n_id (round_node n) = n_id n" "n_type (round_node n) = n_type n"
  "n_data (round_node n) = n_data n"
  by (simp_all add: round_node_def)

lemma mark_round: "mark_first_entry (map round_node ns) = map round_node (mark_first_entry ns)"
  by (induction ns) (auto simp: round_node_def)

lemma graph_json_get:
  assumes "set (ob_keys (g_keep g)) \<inter> set GRAPH_KEYS = {}"
  obtains ob where "graph_json g = JObj ob"
    "ob_get ob ''nodes'' = Some (JArr (map node_json (g_nodes g)))"
    "ob_get ob ''edges'' = Some (JArr (map edge_json (g_edges g)))"
    "ob_get ob ''viewport'' = map_option viewport_json (g_viewport g)"
    "pick ob GRAPH_KEYS = (if g_keep g = [] then None else Some (g_keep g))"
proof
  let ?b = "[(''schemaVersion'', jint 1), (''nodes'', JArr (map node_json (g_nodes g))),
     (''edges'', JArr (map edge_json (g_edges g)))] @
     (case g_viewport g of Some v \<Rightarrow> [(''viewport'', viewport_json v)] | None \<Rightarrow> [])"
  let ?ob = "g_keep g @ ?b"
  show "graph_json g = JObj ?ob"
    using assms by (auto simp: graph_json_def Let_def GRAPH_KEYS_def set_new split: option.splits)
  have "ob_get ?ob k = ob_get ?b k" if "k \<in> set GRAPH_KEYS" for k
    using get_disjoint_None [OF assms that] by (subst get_append) (simp only: option.case)
  from this [of "''nodes''"] this [of "''edges''"] this [of "''viewport''"]
  show "ob_get ?ob ''nodes'' = Some (JArr (map node_json (g_nodes g)))"
    "ob_get ?ob ''edges'' = Some (JArr (map edge_json (g_edges g)))"
    "ob_get ?ob ''viewport'' = map_option viewport_json (g_viewport g)"
    by (auto simp: GRAPH_KEYS_def split: option.splits)
  have "set (ob_keys ?b) \<subseteq> set GRAPH_KEYS" by (auto simp: GRAPH_KEYS_def split: option.splits)
  then have "pick ?ob GRAPH_KEYS = pick (g_keep g) GRAPH_KEYS" by (rule pick_append)
  also have "\<dots> = (if g_keep g = [] then None else Some (g_keep g))"
  proof -
    have "filter (\<lambda>p. fst p \<notin> set GRAPH_KEYS) (g_keep g) = g_keep g"
      using assms by (auto simp: filter_id_conv)
    then show ?thesis by (simp add: pick_def Let_def)
  qed
  finally show "pick ?ob GRAPH_KEYS = (if g_keep g = [] then None else Some (g_keep g))" .
qed

lemma read_viewport_json [simp]: "read_viewport (map_option viewport_json v) = v"
  by (cases v) (simp_all add: read_viewport_def viewport_json_def)

lemma fromGraph_stored:
  assumes "wf_work w"
  shows "fromGraph nano k (Some (graph_json (stored w))) = (round_work w, k)"
proof -
  let ?ns = "map round_node (wg_nodes w)"
  have W: "\<forall>n \<in> set (wg_nodes w). node_ok n" "\<forall>f \<in> set (wg_foreignNodes w). foreign_ok f"
    "distinct (map n_id (wg_nodes w) @ map foreign_id (wg_foreignNodes w))"
    "\<exists>n \<in> set (wg_nodes w). n_type n = Entry" "mark_first_entry (map unmark (wg_nodes w)) = wg_nodes w"
    "edges_ok (wg_nodes w) [] (wg_edges w)" "distinct (map e_id (wg_edges w))"
    "set (ob_keys (wg_keepGraph w)) \<inter> set GRAPH_KEYS = {}"
    using assms by (auto simp: wf_work_def simp del: set_map)
  obtain ob where ob: "graph_json (stored w) = JObj ob"
    "ob_get ob ''nodes'' = Some (JArr (map node_json (g_nodes (stored w))))"
    "ob_get ob ''edges'' = Some (JArr (map edge_json (wg_edges w)))"
    "ob_get ob ''viewport'' = map_option viewport_json (map_option round_viewport (wg_viewport w))"
    "pick ob GRAPH_KEYS = (if wg_keepGraph w = [] then None else Some (wg_keepGraph w))"
    using W(8) by (rule graph_json_get [of "stored w", unfolded toGraph_def IvrGraph.simps, folded toGraph_def])
      (simp add: toGraph_def)
  have nodes: "map node_json (g_nodes (stored w)) =
      map (\<lambda>n. JObj (block_json (stored_node n))) (wg_nodes w) @ map JObj (wg_foreignNodes w)"
    by (simp add: toGraph_def comp_def)
  have rn: "read_nodes [] (map node_json (g_nodes (stored w))) = (map (unmark \<circ> round_node) (wg_nodes w), wg_foreignNodes w)"
    unfolding nodes by (rule read_nodes_stored [OF W(1-3)]) simp
  have "map (unmark \<circ> round_node) (wg_nodes w) = map round_node (map unmark (wg_nodes w))"
    by (simp add: unmark_def round_node_def)
  then have "mark_first_entry (map (unmark \<circ> round_node) (wg_nodes w)) = ?ns"
    by (simp only: mark_round W(5))
  then have es: "ensure_start nano k (map (unmark \<circ> round_node) (wg_nodes w)) = (?ns, k)"
    using W(4) by (auto simp: ensure_start_def)
  have "edges_ok ?ns [] (wg_edges w)"
    using W(6) by (subst edges_ok_cong [of _ "wg_nodes w"]) (auto simp: last_by_map option.map_comp comp_def)
  then have "read_edges nano ?ns [] [] k (map edge_json (wg_edges w)) = (wg_edges w, k)"
    using W(7) by (rule read_edges_stored) simp
  then show ?thesis
    by (auto simp: fromGraph_def ob array_or_empty_def rn es round_work_def Let_def)
qed

lemma get_pick:
  "k \<notin> set known \<Longrightarrow> ob_get (case pick ob known of Some out \<Rightarrow> out | None \<Rightarrow> []) k = ob_get ob k"
  using get_filter_keys [of "\<lambda>k. k \<notin> set known" ob k] by (auto simp: pick_def Let_def split: if_splits)

lemma stored_node_unknown:
  assumes "wf_obj raw" "i \<noteq> ''''" "k \<notin> set NODE_KEYS"
  shows "ob_get (block_json (stored_node (read_node i t raw))) k = ob_get raw k"
proof -
  let ?n = "read_node i t raw"
  have ok: "node_ok ?n" using read_node_ok [OF assms(1,2)] by simp
  have keep: "bd_keepNode (n_data ?n) = pick raw NODE_KEYS" by (simp add: read_node_def Let_def)
  have "ob_get (block_json (stored_node ?n)) k = ob_get (case pick raw NODE_KEYS of Some ob \<Rightarrow> ob | None \<Rightarrow> []) k"
    unfolding stored_node_json [OF ok] keep using assms(3)
    by (simp add: get_append NODE_KEYS_def split: option.splits)
  then show ?thesis using assms(3) by (simp add: get_pick)
qed

lemma data_json_unknown:
  assumes "wf_obj data" "k \<notin> set DATA_KEYS" "bd_keepData d = pick data DATA_KEYS"
  shows "ob_get (data_json d) k = ob_get data k"
proof -
  have "keep_ok DATA_KEYS (bd_keepData d)" using keep_ok_pick [OF assms(1)] assms(3) by simp
  from data_json_eq [OF this] have "ob_get (data_json d) k
      = ob_get (case pick data DATA_KEYS of Some ob \<Rightarrow> ob | None \<Rightarrow> []) k"
    using assms(2,3) by (simp add: get_append DATA_KEYS_def split: option.splits)
  then show ?thesis using assms(2) by (simp add: get_pick)
qed

section \<open>A sample draft\<close>

text \<open>A draft with an unknown node field, an unknown configuration field, a block of a type this
  builder does not know, a doubled edge and an edge into Start.\<close>

definition sample_play :: obj where
  "sample_play =
     [(''id'', JStr ''p''), (''type'', JStr ''play''),
      (''position'', JObj [(''x'', JNum (Fin (1503 / 5))), (''y'', jint 10)]),
      (''data'', JObj [(''label'', JStr ''Hello''),
         (''config'', JObj [(''prompts'', JArr [jint 7]), (''volume'', JStr ''loud'')]), (''note'', JStr ''kept'')]),
      (''zIndex'', jint 3)]"

definition sample_draft :: json where
  "sample_draft = JObj
     [(''schemaVersion'', jint 1), (''futureFlag'', JBool True),
      (''nodes'', JArr
         [JObj [(''id'', JStr ''s''), (''type'', JStr ''entry'')], JObj sample_play,
          JObj [(''id'', JStr ''x''), (''type'', JStr ''webhook'')]]),
      (''edges'', JArr
         [JObj [(''id'', JStr ''a''), (''source'', JStr ''s''), (''target'', JStr ''p''), (''animated'', JBool True)],
          JObj [(''id'', JStr ''b''), (''source'', JStr ''s''), (''sourceHandle'', JStr ''next''), (''target'', JStr ''p'')],
          JObj [(''id'', JStr ''c''), (''source'', JStr ''p''), (''target'', JStr ''s'')]])]"

definition sample_nano :: "nat \<Rightarrow> string" where
  "sample_nano i = replicate i (CHR ''z'')"

lemma sample_wf: "wf_json sample_draft" "wf_obj sample_play"
  by (simp_all add: sample_draft_def sample_play_def)

lemma sample_fresh: "fresh_ids sample_nano 0 (Some sample_draft)"
  by (auto simp: fresh_ids_def fresh_edge_ids_def sample_draft_def sample_play_def newNodeId_def newEdgeId_def
      sample_nano_def foreign_id_def array_or_empty_def)

section \<open>Properties\<close>

text \<open>C17. Whatever JSON the server holds, the graph read from it satisfies the builder's
  invariant: every block has a configuration of the declared type, ids are unique across blocks
  and carried-along foreign blocks, there is a Start block and the first one is marked
  undeletable, every edge joins two blocks and none enters Start, no exit has two edges, edge
  ids are unique, and what is kept aside never hides a key the builder owns.\<close>

theorem fromGraph_establishes_invariant:
  assumes "wf_json g" and "fresh_ids nano k (Some g)"
  shows "wf_work (fst (fromGraph nano k (Some g)))"
  by (rule fromGraph_wf [where nano = nano and k = k and k' = "snd (fromGraph nano k (Some g))"]) (use assms in auto)

theorem fromGraph_establishes_invariant_witness:
  "wf_work (fst (fromGraph sample_nano 0 (Some sample_draft)))"
  by (rule fromGraph_establishes_invariant [OF sample_wf(1) sample_fresh])

text \<open>C7. Loading a draft, storing it and loading it again changes nothing but the rounding of
  positions and viewport to whole pixels: blocks, configurations, labels, edges, unknown fields
  and foreign blocks all come back, in the same order, and no new identifier is drawn.\<close>

theorem load_store_load:
  assumes "wf_json g" and "fresh_ids nano k (Some g)" and "fromGraph nano k (Some g) = (w, k')"
  shows "fromGraph nano k' (Some (graph_json (stored w))) = (round_work w, k')"
  by (rule fromGraph_stored, rule fromGraph_wf [OF _ assms(2,3)]) (use assms(1) in auto)

theorem load_store_load_witness:
  "fromGraph sample_nano 0
     (Some (graph_json (stored (fst (fromGraph sample_nano 0 (Some sample_draft))))))
   = (round_work (fst (fromGraph sample_nano 0 (Some sample_draft))), 0)"
proof -
  have "snd (fromGraph sample_nano 0 (Some sample_draft)) = 0" by code_simp
  then have "fromGraph sample_nano 0 (Some sample_draft) = (fst (fromGraph sample_nano 0 (Some sample_draft)), 0)"
    by (metis prod.collapse)
  from load_store_load [OF sample_wf(1) sample_fresh this] show ?thesis .
qed

text \<open>A field the builder does not know is stored back as it was read: at the node level, at
  the data level and inside the configuration (for every type, any key that is not one of the
  fields the builder normalises).\<close>

theorem unknown_fields_preserved:
  fixes raw :: obj and i :: string and t :: IvrNodeType
  assumes "wf_obj raw" and "i \<noteq> ''''"
  defines "data \<equiv> record_or_empty (ob_get raw ''data'')"
  defines "n \<equiv> read_node i t raw"
  shows "(\<forall>k. k \<notin> set NODE_KEYS \<longrightarrow> ob_get (block_json (stored_node n)) k = ob_get raw k)
    \<and> (\<forall>k. k \<notin> set DATA_KEYS \<longrightarrow>
         ob_get (record_or_empty (ob_get (block_json (stored_node n)) ''data'')) k = ob_get data k)
    \<and> (\<forall>k. k \<notin> set (ob_keys (defaultConfig t)) \<and> k \<notin> {''invalidPrompts'', ''noInputPrompts'', ''prompts''} \<longrightarrow>
         ob_get (n_config n) k = ob_get (record_or_empty (ob_get data ''config'')) k)"
proof (intro conjI allI impI)
  have wfd: "wf_obj data" unfolding data_def using assms(1) by (rule wf_record_get)
  have ok: "node_ok n" using read_node_ok [OF assms(1,2)] by (simp add: n_def)
  show "ob_get (block_json (stored_node n)) k = ob_get raw k" if "k \<notin> set NODE_KEYS" for k
    unfolding n_def using assms(1,2) that by (rule stored_node_unknown)
  show "ob_get (record_or_empty (ob_get (block_json (stored_node n)) ''data'')) k = ob_get data k"
    if "k \<notin> set DATA_KEYS" for k
    unfolding stored_node_get(4) [OF ok] record_or_empty_obj
    by (rule data_json_unknown [OF wfd that]) (simp add: n_def read_node_def data_def Let_def)
  fix k assume k: "k \<notin> set (ob_keys (defaultConfig t)) \<and> k \<notin> {''invalidPrompts'', ''noInputPrompts'', ''prompts''}"
  have d: "distinct (ob_keys (record_or_empty (ob_get data ''config'')))"
    using wf_record_get [OF wfd, of "''config''"] by simp
  have "n_config n = normalizeConfig t (ob_get data ''config'')" by (simp add: n_def read_node_def data_def Let_def)
  then show "ob_get (n_config n) k = ob_get (record_or_empty (ob_get data ''config'')) k"
    using k by (cases t) (simp_all add: get_normalizeConfig [OF d] field_value_def)
qed

theorem unknown_fields_preserved_witness:
  "ob_get (block_json (stored_node (read_node ''p'' Play sample_play))) ''zIndex'' = Some (jint 3)"
proof -
  have "''zIndex'' \<notin> set NODE_KEYS" by (simp add: NODE_KEYS_def)
  then have "ob_get (block_json (stored_node (read_node ''p'' Play sample_play))) ''zIndex''
      = ob_get sample_play ''zIndex''"
    using unknown_fields_preserved [of sample_play "''p''" Play, OF sample_wf(2)] by blast
  then show ?thesis by (simp add: sample_play_def)
qed



end
