(* ===== verification/Hours.thy ===== *)
theory Hours
  imports Blocks "HOL-Library.Product_Lexorder"
begin

text \<open>
  Opening hours: the time and date helpers of \<open>flow/compile/ivr.ts\<close> and the wording of hours in
  \<open>flow/model/summary.ts\<close>. A date is checked the way the code does it, by building a \<open>Date\<close> from
  the numbers and comparing what it reads back; the calendar arithmetic of ECMAScript behind that is
  written out (\<open>day_from_year\<close> and the readers over it), and the check is shown to be the calendar rule.
\<close>

section \<open>Times\<close>

text \<open>\<open>TIME_RE\<close>: two digits, a colon, two digits; the two groups.\<close>

definition TIME_RE :: "string \<Rightarrow> (nat \<times> nat) option" where
  "TIME_RE s = (case s of
     [a, b, c, d, e] \<Rightarrow>
       if list_all is_digit [a, b, d, e] \<and> c = CHR '':'' then Some (digits_val [a, b], digits_val [d, e]) else None
   | _ \<Rightarrow> None)"

definition toMinutes :: "string \<Rightarrow> nat option" where
  "toMinutes hhmm = (case TIME_RE hhmm of
     None \<Rightarrow> None
   | Some (h, mi) \<Rightarrow>
       if h = 24 \<and> mi = 0 then Some 1440
       else if h > 23 \<or> mi > 59 then None
       else Some (h * 60 + mi))"

text \<open>The loop of \<open>mergeRanges\<close> over the sorted ranges; \<open>out\<close> is built at its end.\<close>

fun merge_loop :: "(nat \<times> nat) list \<Rightarrow> (nat \<times> nat) list \<Rightarrow> (nat \<times> nat) list" where
  "merge_loop out [] = out"
| "merge_loop out ((s, e) # rest) =
     (if out \<noteq> [] \<and> s \<le> snd (last out)
      then merge_loop (butlast out @ [(fst (last out), max (snd (last out)) e)]) rest
      else merge_loop (out @ [(s, e)]) rest)"

definition mergeRanges :: "(nat \<times> nat) list \<Rightarrow> (nat \<times> nat) list" where
  "mergeRanges ranges = merge_loop [] (sort ranges)"

section \<open>Dates\<close>

definition day_from_year :: "int \<Rightarrow> int" where
  "day_from_year y = 365 * (y - 1970) + (y - 1969) div 4 - (y - 1901) div 100 + (y - 1601) div 400"

definition leap :: "int \<Rightarrow> bool" where
  "leap y \<longleftrightarrow> y mod 4 = 0 \<and> (y mod 100 \<noteq> 0 \<or> y mod 400 = 0)"

text \<open>Days of the year before each month (0 = January, 12 = the end of the year).\<close>

definition month_days :: "int list" where
  "month_days = [0, 31, 59, 90, 120, 151, 181, 212, 243, 273, 304, 334, 365]"

definition month_start :: "int \<Rightarrow> nat \<Rightarrow> int" where
  "month_start y m = month_days ! m + (if leap y \<and> 2 \<le> m then 1 else 0)"

text \<open>\<open>Date.UTC(y, m, d)\<close> in days: two-digit years are 1900 on, a month or day out of range moves
  the date on.\<close>

definition date_utc :: "int \<Rightarrow> int \<Rightarrow> int \<Rightarrow> int" where
  "date_utc y m d =
     (let y = (if 0 \<le> y \<and> y \<le> 99 then 1900 + y else y);
          ym = y + m div 12
      in day_from_year ym + month_start ym (nat (m mod 12)) + d - 1)"

text \<open>The year, month and day a date reads back.\<close>

definition getUTCFullYear :: "int \<Rightarrow> int" where
  "getUTCFullYear t =
     (let y = 1970 + (400 * t) div 146097
      in if day_from_year (y + 1) \<le> t then y + 1 else if day_from_year y \<le> t then y else y - 1)"

definition getUTCMonth :: "int \<Rightarrow> nat" where
  "getUTCMonth t =
     (let y = getUTCFullYear t; n = t - day_from_year y
      in length (takeWhile (\<lambda>m. month_start y m \<le> n) [1..<12]))"

definition getUTCDate :: "int \<Rightarrow> int" where
  "getUTCDate t = (let y = getUTCFullYear t in t - day_from_year y - month_start y (getUTCMonth t) + 1)"

text \<open>\<open>DATE_RE\<close> and the three numbers of the split text.\<close>

definition DATE_RE :: "string \<Rightarrow> (nat \<times> nat \<times> nat) option" where
  "DATE_RE s = (case s of
     [a, b, c, d, h1, e, f, h2, g, i] \<Rightarrow>
       if list_all is_digit [a, b, c, d, e, f, g, i] \<and> h1 = CHR ''-'' \<and> h2 = CHR ''-''
       then Some (digits_val [a, b, c, d], digits_val [e, f], digits_val [g, i]) else None
   | _ \<Rightarrow> None)"

definition isRealDate :: "string \<Rightarrow> bool" where
  "isRealDate ymd = (case DATE_RE ymd of
     None \<Rightarrow> False
   | Some (y, m, d) \<Rightarrow>
       (let dt = date_utc (int y) (int m - 1) (int d)
        in getUTCFullYear dt = int y \<and> int (getUTCMonth dt) = int m - 1 \<and> getUTCDate dt = int d))"

section \<open>Wording\<close>

definition padStart2 :: "nat \<Rightarrow> string" where
  "padStart2 n = (let s = nat_str n in replicate (2 - length s) (CHR ''0'') @ s)"

definition formatClockTime :: "string \<Rightarrow> string" where
  "formatClockTime hhmm = (case TIME_RE hhmm of
     None \<Rightarrow> hhmm
   | Some (h, mi) \<Rightarrow>
       if (h = 0 \<or> h = 24) \<and> mi = 0 then ''midnight''
       else if h = 12 \<and> mi = 0 then ''noon''
       else
         (let h12 = (if h mod 12 = 0 then 12 else h mod 12);
              suffix = (if h < 12 \<or> h = 24 then ''AM'' else ''PM'')
          in if mi = 0 then nat_str h12 @ '' '' @ suffix else nat_str h12 @ '':'' @ padStart2 mi @ '' '' @ suffix))"

definition formatRanges :: "(string \<times> string) list \<Rightarrow> string" where
  "formatRanges ranges =
     (if ranges = [] then ''closed''
      else join '', '' (map (\<lambda>(a, b). formatClockTime a @ [CHR 0x96] @ formatClockTime b) ranges))"

record DayGroup =
  dg_from :: string
  dg_to :: string
  dg_hours :: string

text \<open>\<open>DAY_KEYS[DAY_KEYS.indexOf(day) - 1]\<close>: undefined for the first day.\<close>

definition prev_day :: "string \<Rightarrow> string option" where
  "prev_day day =
     (let i = length (takeWhile (\<lambda>d. d \<noteq> day) DAY_KEYS) in if i = 0 then None else Some (DAY_KEYS ! (i - 1)))"

fun group_days :: "(string \<times> (string \<times> string) list) list \<Rightarrow> DayGroup list \<Rightarrow> DayGroup list" where
  "group_days [] groups = groups"
| "group_days ((day, ranges) # rest) groups =
     (if ranges = [] then group_days rest groups
      else
        (let hours = formatRanges ranges in
         if groups \<noteq> [] \<and> dg_hours (last groups) = hours \<and> Some (dg_to (last groups)) = prev_day day
         then group_days rest (butlast groups @ [(last groups)\<lparr>dg_to := day\<rparr>])
         else group_days rest (groups @ [\<lparr>dg_from = day, dg_to = day, dg_hours = hours\<rparr>])))"

definition short_day :: "string \<Rightarrow> string" where
  "short_day day = (case ob_get DAY_LABELS day of Some (s, l) \<Rightarrow> s | None \<Rightarrow> [])"

definition formatWeekly :: "(string \<Rightarrow> (string \<times> string) list) \<Rightarrow> string" where
  "formatWeekly weekly =
     (let groups = group_days (map (\<lambda>day. (day, weekly day)) DAY_KEYS) [] in
      if groups = [] then ''Closed every day''
      else join ('' '' @ [CHR 0xB7] @ '' '') (map (\<lambda>g.
        if dg_from g = dg_to g then short_day (dg_from g) @ '' '' @ dg_hours g
        else short_day (dg_from g) @ [CHR 0x96] @ short_day (dg_to g) @ '' '' @ dg_hours g) groups))"

section \<open>Merged ranges\<close>

definition covers :: "(nat \<times> nat) list \<Rightarrow> nat \<Rightarrow> bool" where
  "covers rs t \<longleftrightarrow> (\<exists>(s, e) \<in> set rs. s \<le> t \<and> t < e)"

definition separated :: "(nat \<times> nat) list \<Rightarrow> bool" where
  "separated rs \<longleftrightarrow> sorted_wrt (\<lambda>a b. snd a < fst b) rs \<and> (\<forall>(s, e) \<in> set rs. s < e)"

lemma covers_append: "covers (xs @ ys) t \<longleftrightarrow> covers xs t \<or> covers ys t"
  by (auto simp: covers_def)

lemma merge_loop_correct:
  "separated out \<Longrightarrow> sorted rest \<Longrightarrow> \<forall>(s, e) \<in> set rest. s < e \<Longrightarrow>
   (\<And>s e. out \<noteq> [] \<Longrightarrow> (s, e) \<in> set rest \<Longrightarrow> fst (last out) \<le> s) \<Longrightarrow>
   separated (merge_loop out rest) \<and> (covers (merge_loop out rest) t \<longleftrightarrow> covers out t \<or> covers rest t)"
proof (induction out rest rule: merge_loop.induct)
  case (1 out)
  then show ?case by (simp add: covers_def)
next
  case (2 out s e rest)
  have rest: "sorted rest" "\<forall>(s, e) \<in> set rest. s < e" "\<And>s' e'. (s', e') \<in> set rest \<Longrightarrow> s \<le> s'"
  proof -
    show "sorted rest" "\<forall>(s, e) \<in> set rest. s < e" using "2.prems"(2,3) by simp_all
    show "s \<le> s'" if "(s', e') \<in> set rest" for s' e'
      using "2.prems"(2) that by (fastforce simp: less_eq_prod_def)
  qed
  show ?case
  proof (cases "out \<noteq> [] \<and> s \<le> snd (last out)")
    case True
    then obtain init a b where out: "out = init @ [(a, b)]" by (cases out rule: rev_cases) auto
    have ab: "a \<le> s" "s \<le> b" "a < b" "s < e" using "2.prems" True out by (auto simp: separated_def)
    let ?out = "init @ [(a, max b e)]"
    have "separated ?out" using "2.prems"(1) out ab by (auto simp: separated_def sorted_wrt_append less_max_iff_disj)
    moreover have "fst (last ?out) \<le> s'" if "(s', e') \<in> set rest" for s' e' using rest(3) that ab by force
    ultimately have "separated (merge_loop ?out rest) \<and> (covers (merge_loop ?out rest) t \<longleftrightarrow> covers ?out t \<or> covers rest t)"
      using "2.IH"(1) [OF True] rest out by auto
    moreover have "covers ?out t \<longleftrightarrow> covers out t \<or> s \<le> t \<and> t < e"
      using ab out by (auto simp: covers_append) (auto simp: covers_def)
    ultimately show ?thesis using True out by (auto simp: covers_def)
  next
    case False
    have "separated (out @ [(s, e)])"
      using "2.prems"(1,3) False by (cases out rule: rev_cases) (auto simp: separated_def sorted_wrt_append)
    with "2.IH"(2) [OF False] rest
    have "separated (merge_loop (out @ [(s, e)]) rest)
      \<and> (covers (merge_loop (out @ [(s, e)]) rest) t \<longleftrightarrow> covers (out @ [(s, e)]) t \<or> covers rest t)" by auto
    then show ?thesis using False by (auto simp: covers_append) (auto simp: covers_def)
  qed
qed

section \<open>The calendar\<close>

lemma int_div_Suc: "0 < k \<Longrightarrow> (a + 1 :: int) div k = a div k + (if (a + 1) mod k = 0 then 1 else 0)"
proof -
  assume k: "0 < k"
  have 1: "a = k * (a div k) + a mod k" by simp
  have 2: "0 \<le> a mod k" "a mod k < k" using k by simp_all
  show ?thesis
  proof (cases "a mod k = k - 1")
    case True
    then have e: "a + 1 = k * (a div k + 1)" using 1 by (metis True add.commute diff_add_cancel add.assoc mult.right_neutral distrib_left)
    have "(a + 1) div k = a div k + 1" "(a + 1) mod k = 0" unfolding e using k by simp_all
    then show ?thesis by simp
  next
    case False
    with 2 have r: "0 \<le> a mod k + 1" "a mod k + 1 < k" by auto
    have e: "a + 1 = k * (a div k) + (a mod k + 1)" using 1 by simp
    have "(a + 1) div k = a div k" using r by (intro int_div_pos_eq [of _ _ _ "a mod k + 1"]) (use e in auto)
    moreover have "(a + 1) mod k = a mod k + 1" using r by (intro int_mod_pos_eq [of _ _ "a div k"]) (use e in auto)
    moreover have "a mod k + 1 \<noteq> 0" using 2 by linarith
    ultimately show ?thesis by simp
  qed
qed

lemma shift_mod: "(y - k * c :: int) mod k = y mod k"
  by (metis mod_mult_self4 uminus_add_conv_diff mult_minus_right add.commute)

lemma div_step: "0 < k \<Longrightarrow> (y - k * c :: int) div k = (y - k * c - 1) div k + (if y mod k = 0 then 1 else 0)"
  using int_div_Suc [of k "y - k * c - 1"] by (simp add: shift_mod)

lemma day_from_year_Suc: "day_from_year (y + 1) = day_from_year y + (if leap y then 366 else 365)"
proof -
  have e: "y + 1 - 1969 = y - 4 * 492" "y - 1969 = y - 4 * 492 - 1" "y + 1 - 1901 = y - 100 * 19"
    "y - 1901 = y - 100 * 19 - 1" "y + 1 - 1601 = y - 400 * 4" "y - 1601 = y - 400 * 4 - 1" by simp_all
  define a b c where "a = (y - 1969) div 4" and "b = (y - 1901) div 100" and "c = (y - 1601) div 400"
  have 4: "(y + 1 - 1969) div 4 = a + (if y mod 4 = 0 then 1 else 0)"
    unfolding a_def e by (rule div_step) simp
  have 100: "(y + 1 - 1901) div 100 = b + (if y mod 100 = 0 then 1 else 0)"
    unfolding b_def e by (rule div_step) simp
  have 400: "(y + 1 - 1601) div 400 = c + (if y mod 400 = 0 then 1 else 0)"
    unfolding c_def e by (rule div_step) simp
  have m: "y mod 4 \<noteq> 0 \<Longrightarrow> y mod 100 \<noteq> 0" "y mod 100 \<noteq> 0 \<Longrightarrow> y mod 400 \<noteq> 0"
    using dvd_trans [of 4 100 y] dvd_trans [of 100 400 y] by (auto simp: mod_eq_0_iff_dvd)
  show ?thesis unfolding day_from_year_def 4 100 400 leap_def a_def [symmetric] b_def [symmetric] c_def [symmetric]
    using m by (simp add: distrib_left)
qed

lemma day_from_year_mono: "a \<le> b \<Longrightarrow> day_from_year a \<le> day_from_year b"
proof (induction b rule: int_ge_induct)
  case (step i)
  then show ?case using day_from_year_Suc [of i] by (auto split: if_splits)
qed simp

lemma int_div_bounds: "0 < k \<Longrightarrow> k * (a div k) \<le> (a :: int) \<and> a < k * (a div k) + k"
  using mult_div_mod_eq [of k a] pos_mod_bound [of k a] pos_mod_sign [of k a] by linarith

lemma day_from_year_bounds:
  "146097 * (y - 1970) - 506 \<le> 400 * day_from_year y \<and> 400 * day_from_year y \<le> 146097 * (y - 1970) + 589"
proof -
  define a b c where "a = (y - 1969) div 4" and "b = (y - 1901) div 100" and "c = (y - 1601) div 400"
  have 1: "4 * a \<le> y - 1969 \<and> y - 1969 < 4 * a + 4" unfolding a_def by (rule int_div_bounds) simp
  have 2: "100 * b \<le> y - 1901 \<and> y - 1901 < 100 * b + 100" unfolding b_def by (rule int_div_bounds) simp
  have 3: "400 * c \<le> y - 1601 \<and> y - 1601 < 400 * c + 400" unfolding c_def by (rule int_div_bounds) simp
  have d: "day_from_year y = 365 * (y - 1970) + a - b + c"
    by (simp only: day_from_year_def a_def b_def c_def)
  show ?thesis unfolding d using 1 2 3 by auto
qed

lemma getUTCFullYear_bounds:
  "day_from_year (getUTCFullYear t) \<le> t" "t < day_from_year (getUTCFullYear t + 1)"
proof -
  define q where "q = (400 * t) div 146097"
  have q: "146097 * q \<le> 400 * t \<and> 400 * t < 146097 * q + 146097" unfolding q_def by (rule int_div_bounds) simp
  have 1: "day_from_year (1970 + q - 1) \<le> t" using q day_from_year_bounds [of "1970 + q - 1"] by auto
  have 2: "t < day_from_year (1970 + q + 2)" using q day_from_year_bounds [of "1970 + q + 2"] by auto
  have y: "getUTCFullYear t = (if day_from_year (1970 + q + 1) \<le> t then 1970 + q + 1
      else if day_from_year (1970 + q) \<le> t then 1970 + q else 1970 + q - 1)"
    by (simp only: getUTCFullYear_def Let_def q_def)
  show "day_from_year (getUTCFullYear t) \<le> t" "t < day_from_year (getUTCFullYear t + 1)"
    using 1 2 unfolding y by (simp_all add: add.assoc)
qed

lemma getUTCFullYear_unique:
  assumes "day_from_year y \<le> t" "t < day_from_year (y + 1)"
  shows "getUTCFullYear t = y"
proof (rule ccontr)
  assume "getUTCFullYear t \<noteq> y"
  then consider "getUTCFullYear t + 1 \<le> y" | "y + 1 \<le> getUTCFullYear t" by linarith
  then show False using day_from_year_mono getUTCFullYear_bounds [of t] assms by cases fastforce+
qed

definition month_index :: "int \<Rightarrow> int \<Rightarrow> nat" where
  "month_index y n = length (takeWhile (\<lambda>m. month_start y m \<le> n) [1..<12])"

lemma month_start_Suc: "m < 12 \<Longrightarrow> month_start y m + 28 \<le> month_start y (Suc m)"
proof -
  assume m: "m < 12"
  have "list_all (\<lambda>m. month_days ! m + 28 \<le> month_days ! Suc m) [0..<12]" by code_simp
  then have "month_days ! m + 28 \<le> month_days ! Suc m" using m by (simp only: list_all_iff) simp
  then show ?thesis by (auto simp: month_start_def)
qed

lemma month_start_mono: "m \<le> m' \<Longrightarrow> m' \<le> 12 \<Longrightarrow> month_start y m \<le> month_start y m'"
proof (induction m' rule: dec_induct)
  case (step n)
  then show ?case using month_start_Suc [of n y] by simp
qed simp

lemma month_index_bounds:
  assumes "0 \<le> n" "n < month_start y 12"
  shows "month_index y n < 12" "month_start y (month_index y n) \<le> n" "n < month_start y (Suc (month_index y n))"
proof -
  let ?P = "\<lambda>m. month_start y m \<le> n"
  let ?i = "month_index y n"
  have "?i \<le> length [1..<12]" unfolding month_index_def by (rule length_takeWhile_le)
  then have i: "?i \<le> 11" by simp
  then show "?i < 12" by simp
  show "month_start y ?i \<le> n"
  proof (cases ?i)
    case 0
    then show ?thesis using assms(1) by (simp add: month_start_def month_days_def)
  next
    case (Suc j)
    then have "takeWhile ?P [1..<12] ! j \<in> set (takeWhile ?P [1..<12])"
      by (intro nth_mem) (simp add: month_index_def)
    moreover have "takeWhile ?P [1..<12] ! j = ?i"
      using Suc i by (subst takeWhile_nth) (simp_all add: month_index_def)
    ultimately show ?thesis using set_takeWhileD by metis
  qed
  show "n < month_start y (Suc ?i)"
  proof (cases "?i = 11")
    case False
    then have "?i < length [1..<12]" using i by simp
    from nth_length_takeWhile [of ?P "[1..<12]", folded month_index_def, OF this] show ?thesis using i False by simp
  qed (use assms(2) in simp)
qed

lemma month_index_unique:
  assumes "m < 12" "month_start y m \<le> n" "n < month_start y (Suc m)"
  shows "month_index y n = m"
proof -
  have n: "0 \<le> n" "n < month_start y 12"
    using month_start_mono [of 0 m y] month_start_mono [of "Suc m" 12 y] assms
    by (simp_all add: month_start_def [of y 0] month_days_def)
  note b = month_index_bounds [OF n]
  show ?thesis
  proof (rule ccontr)
    assume "month_index y n \<noteq> m"
    then consider "Suc (month_index y n) \<le> m" | "Suc m \<le> month_index y n" by linarith
    then show False
      using month_start_mono [of "Suc (month_index y n)" m y] month_start_mono [of "Suc m" "month_index y n" y] b assms
      by cases linarith+
  qed
qed

lemma year_length: "day_from_year (y + 1) = day_from_year y + month_start y 12"
  by (simp add: day_from_year_Suc month_start_def month_days_def)

lemma getUTCMonth_index: "getUTCMonth t = month_index (getUTCFullYear t) (t - day_from_year (getUTCFullYear t))"
  by (simp only: getUTCMonth_def month_index_def Let_def)

text \<open>A day number reads back as a date of the calendar, and as the only one with that number.\<close>

lemma date_read_back:
  "getUTCMonth t < 12" "1 \<le> getUTCDate t"
  "getUTCDate t \<le> month_start (getUTCFullYear t) (Suc (getUTCMonth t)) - month_start (getUTCFullYear t) (getUTCMonth t)"
proof -
  let ?y = "getUTCFullYear t"
  have n: "0 \<le> t - day_from_year ?y" "t - day_from_year ?y < month_start ?y 12"
    using getUTCFullYear_bounds [of t] year_length [of ?y] by simp_all
  from month_index_bounds [OF n] getUTCMonth_index [of t]
  show "getUTCMonth t < 12" "1 \<le> getUTCDate t"
    "getUTCDate t \<le> month_start ?y (Suc (getUTCMonth t)) - month_start ?y (getUTCMonth t)"
    by (simp_all add: getUTCDate_def Let_def)
qed

lemma date_unique:
  assumes "m < 12" "1 \<le> d" "d \<le> month_start y (Suc m) - month_start y m"
    and t: "t = day_from_year y + month_start y m + d - 1"
  shows "getUTCFullYear t = y" "getUTCMonth t = m" "getUTCDate t = d"
proof -
  have "0 \<le> month_start y m" "month_start y (Suc m) \<le> month_start y 12"
    using month_start_mono [of 0 m y] month_start_mono [of "Suc m" 12 y] assms(1)
    by (simp_all add: month_start_def [of y 0] month_days_def)
  then show y: "getUTCFullYear t = y" using assms year_length [of y] by (intro getUTCFullYear_unique) simp_all
  show m: "getUTCMonth t = m"
    unfolding getUTCMonth_index y using assms by (intro month_index_unique) simp_all
  show "getUTCDate t = d" using y m t by (simp add: getUTCDate_def)
qed

definition month_length :: "int \<Rightarrow> nat \<Rightarrow> int" where
  "month_length y m = (if m \<in> {4, 6, 9, 11} then 30 else if m = 2 then (if leap y then 29 else 28) else 31)"

lemma month_length_eq: "1 \<le> m \<Longrightarrow> m \<le> 12 \<Longrightarrow> month_start y m - month_start y (m - 1) = month_length y m"
proof -
  assume m: "1 \<le> m" "m \<le> 12"
  have "list_all (\<lambda>l. list_all (\<lambda>m. month_days ! m + (if l \<and> 2 \<le> m then 1 else 0)
        - (month_days ! (m - 1) + (if l \<and> 2 \<le> m - 1 then 1 else 0))
      = (if m \<in> {4, 6, 9, 11} then 30 else if m = 2 then (if l then 29 else 28) else 31)) [1..<13]) [True, False]"
    by code_simp
  then show ?thesis using m unfolding month_start_def month_length_def by (cases "leap y") (simp_all add: list_all_iff)
qed

lemma mergeRanges_laws:
  assumes "\<forall>(s, e) \<in> set ranges. s < e"
  shows "separated (mergeRanges ranges)" "covers (mergeRanges ranges) t \<longleftrightarrow> covers ranges t"
proof -
  have "separated (mergeRanges ranges) \<and> (covers (mergeRanges ranges) t \<longleftrightarrow> covers [] t \<or> covers (sort ranges) t)"
    unfolding mergeRanges_def using assms by (intro merge_loop_correct) (auto simp: separated_def)
  then show "separated (mergeRanges ranges)" "covers (mergeRanges ranges) t \<longleftrightarrow> covers ranges t"
    by (simp_all add: covers_def)
qed

section \<open>Properties\<close>

text \<open>C4. Merging opening hours keeps the hours and tidies the list: of ranges that end after they
  start, the merged list is in order, its ranges neither overlap nor touch, each ends after it
  starts, and a minute lies in a merged range exactly when it lay in a given one.\<close>

theorem mergeRanges_correct:
  assumes "\<forall>(s, e) \<in> set ranges. s < e"
  shows "separated (mergeRanges ranges) \<and> (\<forall>t. covers (mergeRanges ranges) t \<longleftrightarrow> covers ranges t)"
  using mergeRanges_laws [OF assms] by blast

theorem mergeRanges_correct_witness:
  "mergeRanges [(840, 1020), (540, 720), (700, 840), (1100, 1200)] = [(540, 1020), (1100, 1200)]
   \<and> separated (mergeRanges [(840, 1020), (540, 720), (700, 840), (1100, 1200)])
   \<and> (\<forall>t. covers (mergeRanges [(840, 1020), (540, 720), (700, 840), (1100, 1200)]) t
        \<longleftrightarrow> covers [(840, 1020), (540, 720), (700, 840), (1100, 1200)] t)"
proof -
  have "mergeRanges [(840, 1020), (540, 720), (700, 840), (1100, 1200)] = [(540, 1020), (1100, 1200)]" by code_simp
  moreover have "\<forall>(s, e) \<in> set [(840, 1020), (540, 720), (700, 840), (1100, 1200 :: nat)]. s < e" by simp
  ultimately show ?thesis using mergeRanges_correct by blast
qed

text \<open>The date check is the calendar rule: a text is accepted exactly when it is
  \<open>YYYY-MM-DD\<close> with a month from 1 to 12, a day that month has in that year (Gregorian leap years)
  and a year from 100 on, the two-digit years being read as 19xx by \<open>Date.UTC\<close> and so refused.\<close>

theorem isRealDate_calendar:
  "isRealDate s \<longleftrightarrow>
     (\<exists>y m d. DATE_RE s = Some (y, m, d) \<and> 100 \<le> y \<and> 1 \<le> m \<and> m \<le> 12 \<and> 1 \<le> d \<and> int d \<le> month_length (int y) m)"
proof (cases "DATE_RE s")
  case None
  then show ?thesis by (simp add: isRealDate_def)
next
  case (Some ymd)
  obtain y m d where ymd: "ymd = (y, m, d)" by (cases ymd) auto
  let ?t = "date_utc (int y) (int m - 1) (int d)"
  have "(getUTCFullYear ?t = int y \<and> int (getUTCMonth ?t) = int m - 1 \<and> getUTCDate ?t = int d)
    \<longleftrightarrow> 100 \<le> y \<and> 1 \<le> m \<and> m \<le> 12 \<and> 1 \<le> d \<and> int d \<le> month_length (int y) m" (is "?L \<longleftrightarrow> ?R")
  proof
    assume ?R
    then have t: "?t = day_from_year (int y) + month_start (int y) (m - 1) + int d - 1"
      by (simp add: date_utc_def Let_def nat_diff_distrib' div_pos_pos_trivial mod_pos_pos_trivial)
    have "int d \<le> month_start (int y) (Suc (m - 1)) - month_start (int y) (m - 1)"
      using month_length_eq [of m "int y"] \<open>?R\<close> by simp
    from date_unique [OF _ _ this t] \<open>?R\<close> show ?L by (simp add: less_eq_Suc_le)
  next
    assume L: ?L
    have m: "1 \<le> m" "m \<le> 12" using L date_read_back(1) [of ?t] by linarith+
    then have gm: "getUTCMonth ?t = m - 1" using L by linarith
    have "1 \<le> int d" "int d \<le> month_length (int y) m"
      using date_read_back(2,3) [of ?t] L gm m month_length_eq [of m "int y"] by simp_all
    moreover have "100 \<le> y"
    proof (rule ccontr)
      assume "\<not> 100 \<le> y"
      then have "?t = day_from_year (1900 + int y) + month_start (1900 + int y) (m - 1) + int d - 1"
        using m by (simp add: date_utc_def Let_def nat_diff_distrib')
      moreover have "day_from_year 100 \<le> day_from_year (1900 + int y)" by (rule day_from_year_mono) simp
      moreover have "0 \<le> month_start (1900 + int y) (m - 1)"
        using month_start_mono [of 0 "m - 1" "1900 + int y"] m by (simp add: month_start_def [of _ 0] month_days_def)
      moreover have "?t < day_from_year 100"
        using getUTCFullYear_bounds(2) [of ?t] L day_from_year_mono [of "int y + 1" 100] \<open>\<not> 100 \<le> y\<close> by simp
      ultimately show False using \<open>1 \<le> int d\<close> by linarith
    qed
    ultimately show ?R using m by simp
  qed
  then show ?thesis by (simp add: isRealDate_def Some ymd Let_def)
qed

end
