(* ===== verification/Phone.thy ===== *)
theory Phone
  imports JS_Values
begin

text \<open>
  Phone numbers: display (\<open>utils/format.ts\<close>), canonical form (\<open>utils/phone.ts\<close>) and the rule for
  outside transfers and caller checks (\<open>flow/compile/policy.ts\<close>). Regular expressions are written
  out as predicates on the characters.
\<close>

section \<open>Display\<close>

text \<open>\<open>s.slice(a, b)\<close> for in-order indices.\<close>

definition slice :: "nat \<Rightarrow> nat \<Rightarrow> 'a list \<Rightarrow> 'a list" where
  "slice a b s = take (b - a) (drop a s)"

definition fmt :: "string \<Rightarrow> string" where
  "fmt phone =
     (let digits = digits_of phone in
      if length digits = 11 \<and> startsWith digits ''1''
      then ''+1 ('' @ slice 1 4 digits @ '') '' @ slice 4 7 digits @ ''-'' @ drop 7 digits
      else if length digits = 10
      then ''('' @ slice 0 3 digits @ '') '' @ slice 3 6 digits @ ''-'' @ drop 6 digits
      else phone)"

text \<open>\<open>escHtml\<close>: five global replacements, one after the other.\<close>

definition replace_char :: "char \<Rightarrow> string \<Rightarrow> string \<Rightarrow> string" where
  "replace_char c r s = concat (map (\<lambda>x. if x = c then r else [x]) s)"

definition escHtml :: "string \<Rightarrow> string" where
  "escHtml unsafe =
     (let s = replace_char (CHR ''&'') ''&amp;'' unsafe;
          s = replace_char (CHR ''<'') ''&lt;'' s;
          s = replace_char (CHR ''>'') ''&gt;'' s;
          s = replace_char (CHR 0x22) ''&quot;'' s
      in replace_char (CHR 0x27) ''&#039;'' s)"

section \<open>Canonical form\<close>

definition is_separator :: "char \<Rightarrow> bool" where
  "is_separator c \<longleftrightarrow> is_ws c \<or> c \<in> set ''-().+''"

definition isNanpLead :: "char \<Rightarrow> bool" where
  "isNanpLead c \<longleftrightarrow> c \<in> set ''23456789''"

definition all_digits :: "nat \<Rightarrow> nat \<Rightarrow> string \<Rightarrow> bool" where
  "all_digits lo hi s \<longleftrightarrow> list_all is_digit s \<and> lo \<le> length s \<and> length s \<le> hi"

definition normalizeNumberInput :: "string \<Rightarrow> string" where
  "normalizeNumberInput raw =
     (let s = trim raw in
      if s = '''' then ''''
      else
        (let hasPlus = startsWith s ''+''; digits = filter (\<lambda>c. \<not> is_separator c) s in
         if hasPlus then (if 8 \<le> length digits \<and> length digits \<le> 15 then ''+'' @ digits else s)
         else if length digits = 11 \<and> digits ! 0 = CHR ''1'' \<and> isNanpLead (digits ! 1) then ''+'' @ digits
         else if length digits = 10 \<and> isNanpLead (digits ! 0) then ''+1'' @ digits
         else if all_digits 3 6 digits then digits
         else s))"

definition isEnterableNumber :: "string \<Rightarrow> bool" where
  "isEnterableNumber raw =
     (let normalized = normalizeNumberInput raw in
      if normalized = '''' then False
      else if startsWith normalized ''+'' \<and> all_digits 8 15 (drop 1 normalized) then True
      else all_digits 3 6 normalized)"

section \<open>Outside transfers\<close>

definition CANADA :: "string list" where
  "CANADA =
    [''204'', ''226'', ''236'', ''249'', ''250'', ''257'', ''263'', ''273'', ''289'', ''306'', ''343'', ''354'', ''365'', ''367'', ''368'',
     ''382'', ''387'', ''403'', ''416'', ''418'', ''428'', ''431'', ''437'', ''438'', ''450'', ''460'', ''468'', ''474'', ''506'', ''514'',
     ''519'', ''548'', ''579'', ''581'', ''584'', ''587'', ''600'', ''604'', ''613'', ''622'', ''639'', ''647'', ''672'', ''683'', ''705'',
     ''709'', ''742'', ''753'', ''778'', ''780'', ''782'', ''807'', ''819'', ''825'', ''867'', ''873'', ''879'', ''902'', ''905'', ''942'']"

definition OTHER_NANP_COUNTRIES :: "string list" where
  "OTHER_NANP_COUNTRIES =
    [''242'', ''246'', ''264'', ''268'', ''284'', ''345'', ''441'', ''473'', ''649'', ''658'', ''664'', ''721'', ''758'', ''767'', ''784'',
     ''809'', ''829'', ''849'', ''868'', ''869'', ''876'']"

definition US_TERRITORY_NPAS :: "string list" where
  "US_TERRITORY_NPAS = [''787'', ''939'', ''340'', ''671'', ''670'', ''684'']"

definition TOLL_FREE_NPAS :: "string list" where
  "TOLL_FREE_NPAS = [''800'', ''833'', ''844'', ''855'', ''866'', ''877'', ''888'']"

definition SERVICE_NPAS :: "string list" where
  "SERVICE_NPAS =
    [''500'', ''521'', ''522'', ''523'', ''524'', ''525'', ''526'', ''527'', ''528'', ''529'', ''533'', ''544'', ''566'', ''577'', ''588'',
     ''700'', ''710'', ''900'', ''976'']"

datatype ExternalNumberProblem =
    Empty | NotUsShape | International | Canada | Caribbean | Premium | Service | N11 | Fictional | TollFreeUnassigned

fun problem_name :: "ExternalNumberProblem \<Rightarrow> string" where
  "problem_name Empty = ''empty''"
| "problem_name NotUsShape = ''not_us_shape''"
| "problem_name International = ''international''"
| "problem_name Canada = ''canada''"
| "problem_name Caribbean = ''caribbean''"
| "problem_name Premium = ''premium''"
| "problem_name Service = ''service''"
| "problem_name N11 = ''n11''"
| "problem_name Fictional = ''fictional''"
| "problem_name TollFreeUnassigned = ''toll_free_unassigned''"

record ExternalCheck =
  ec_e164 :: "string option"
  ec_problem :: "ExternalNumberProblem option"
  ec_message :: "string option"

definition toUsE164 :: "string \<Rightarrow> string option" where
  "toUsE164 raw =
     (let s = trim raw in
      if s = '''' then None
      else if startsWith s ''+'' \<and> \<not> startsWith s ''+1'' then None
      else
        (let d = digits_of s in
         if length d = 10 then Some (''+1'' @ d)
         else if length d = 11 \<and> startsWith d ''1'' then Some (''+'' @ d)
         else None))"

definition MESSAGES :: "ExternalNumberProblem \<Rightarrow> string" where
  "MESSAGES p = (case p of
     Empty \<Rightarrow> ''Enter the 10-digit US number to transfer to.''
   | NotUsShape \<Rightarrow> ''That isn'' @ [CHR 0x92] @ ''t a complete US number. Enter 10 digits, like (617) 555-0134.''
   | International \<Rightarrow> ''Transfers can only go to US numbers.''
   | Canada \<Rightarrow> ''That'' @ [CHR 0x92] @ ''s a Canadian number. Transfers can only go to US numbers.''
   | Caribbean \<Rightarrow> ''That area code belongs to a country outside the US. Transfers can only go to US numbers.''
   | Premium \<Rightarrow> ''Premium-rate numbers (900 and 976) can'' @ [CHR 0x92] @ ''t be dialed from an IVR.''
   | Service \<Rightarrow> ''That area code is a special service code, not a phone line.''
   | N11 \<Rightarrow> ''Short service codes like 411 or 911 can'' @ [CHR 0x92] @ ''t be used as a transfer number.''
   | Fictional \<Rightarrow> ''555-01xx numbers are reserved for fiction and can'' @ [CHR 0x92] @ ''t be dialed.''
   | TollFreeUnassigned \<Rightarrow> ''That toll-free prefix isn'' @ [CHR 0x92]
       @ ''t in use. US toll-free numbers start with 800, 833, 844, 855, 866, 877 or 888.'')"

definition verdict :: "string option \<Rightarrow> ExternalNumberProblem option \<Rightarrow> ExternalCheck" where
  "verdict e164 problem = \<lparr>ec_e164 = e164, ec_problem = problem, ec_message = map_option MESSAGES problem\<rparr>"

text \<open>\<open>/^[2-9]11$/\<close> and \<open>/^\+1[2-9]\d{2}[2-9]\d{6}$/\<close>.\<close>

definition is_n11 :: "string \<Rightarrow> bool" where
  "is_n11 s = (case s of [a, b, c] \<Rightarrow> isNanpLead a \<and> b = CHR ''1'' \<and> c = CHR ''1'' | _ \<Rightarrow> False)"

definition NANP_E164 :: "string \<Rightarrow> bool" where
  "NANP_E164 s \<longleftrightarrow> length s = 12 \<and> take 2 s = ''+1'' \<and> isNanpLead (s ! 2) \<and> list_all is_digit (slice 3 5 s)
     \<and> isNanpLead (s ! 5) \<and> list_all is_digit (drop 6 s)"

definition checkExternalNumber :: "string \<Rightarrow> ExternalCheck" where
  "checkExternalNumber raw =
     (let trimmed = trim raw in
      if trimmed = '''' then verdict None (Some Empty)
      else if startsWith trimmed ''+'' \<and> \<not> startsWith trimmed ''+1'' then verdict None (Some International)
      else case toUsE164 trimmed of
        None \<Rightarrow> verdict None (Some (if length (digits_of trimmed) > 11 then International else NotUsShape))
      | Some e164 \<Rightarrow>
          (let npa = slice 2 5 e164; nxx = slice 5 8 e164; line = drop 8 e164 in
           if is_n11 npa \<or> is_n11 nxx then verdict (Some e164) (Some N11)
           else if \<not> NANP_E164 e164 then verdict (Some e164) (Some NotUsShape)
           else if npa \<in> set CANADA then verdict (Some e164) (Some Canada)
           else if npa \<in> set OTHER_NANP_COUNTRIES then verdict (Some e164) (Some Caribbean)
           else if npa = ''900'' \<or> npa = ''976'' \<or> nxx = ''976'' then verdict (Some e164) (Some Premium)
           else if npa \<in> set SERVICE_NPAS then verdict (Some e164) (Some Service)
           else if startsWith npa ''8'' \<and> npa ! 1 = npa ! 2 \<and> npa \<notin> set TOLL_FREE_NPAS
             then verdict (Some e164) (Some TollFreeUnassigned)
           else if nxx = ''555'' \<and> startsWith line ''01'' then verdict (Some e164) (Some Fictional)
           else verdict (Some e164) None))"

section \<open>Caller checks\<close>

definition isE164 :: "string \<Rightarrow> bool" where
  "isE164 s = (case s of
     p # lead # rest \<Rightarrow> p = CHR ''+'' \<and> is_digit lead \<and> lead \<noteq> CHR ''0'' \<and> all_digits 7 14 rest
   | _ \<Rightarrow> False)"

abbreviation prettyNumber :: "string \<Rightarrow> string" where
  "prettyNumber \<equiv> fmt"

datatype CallerMode = ModePrefix | ModeEquals

definition normalizeCallerValue :: "string \<Rightarrow> CallerMode \<Rightarrow> string" where
  "normalizeCallerValue raw mode =
     (let s = trim raw in
      if s = '''' then ''''
      else
        (let d = digits_of s in
         case mode of
           ModeEquals \<Rightarrow> (case toUsE164 s of Some e \<Rightarrow> e | None \<Rightarrow> if startsWith s ''+'' then ''+'' @ d else s)
         | ModePrefix \<Rightarrow>
             if startsWith s ''+'' then ''+'' @ d
             else if 1 \<le> length d \<and> length d \<le> 10 \<and> d ! 0 \<noteq> CHR ''1'' then ''+1'' @ d
             else ''+'' @ d))"

definition callerValueProblem :: "string \<Rightarrow> CallerMode \<Rightarrow> string option" where
  "callerValueProblem value mode = (case mode of
     ModeEquals \<Rightarrow>
       if isE164 value then None
       else Some ([CHR 0x93] @ value @ [CHR 0x94] @ '' isn'' @ [CHR 0x92] @ ''t a full phone number.'')
   | ModePrefix \<Rightarrow>
       if startsWith value ''+'' \<and> all_digits 1 15 (drop 1 value) then None
       else Some ([CHR 0x93] @ value @ [CHR 0x94] @ '' isn'' @ [CHR 0x92] @ ''t a number prefix like +1617.''))"

section \<open>Laws\<close>

lemma startsWith_Cons: "startsWith s [c] \<longleftrightarrow> s \<noteq> [] \<and> hd s = c"
  by (cases s) (auto simp: startsWith_def)

lemma digit_no_ws: "is_digit c \<Longrightarrow> \<not> is_ws c"
  by (auto simp: is_digit_def is_ws_def)

lemma digit_not_plus [simp]: "\<not> is_digit (CHR ''+'')" "\<not> is_ws (CHR ''+'')"
  by (simp_all add: is_digit_def is_ws_def)

lemma is_digit_lits [simp]: "is_digit (CHR ''1'')" "\<not> is_digit (CHR ''('')" "\<not> is_digit (CHR '')'')"
  "\<not> is_digit (CHR '' '')" "\<not> is_digit (CHR ''-'')"
  by (simp_all add: is_digit_def)

lemma trim_ends: "s \<noteq> [] \<Longrightarrow> \<not> is_ws (hd s) \<Longrightarrow> \<not> is_ws (last s) \<Longrightarrow> trim s = s"
proof -
  assume a: "s \<noteq> []" "\<not> is_ws (hd s)" "\<not> is_ws (last s)"
  have "dropWhile is_ws s = s" using a by (cases s) auto
  moreover have "dropWhile is_ws (rev s) = rev s" using a by (cases s rule: rev_cases) auto
  ultimately show ?thesis by (simp add: trim_def)
qed

lemma trim_plus_digits: "list_all is_digit d \<Longrightarrow> trim (CHR ''+'' # d) = CHR ''+'' # d"
  by (rule trim_no_ws) (auto simp: list_all_iff digit_no_ws)

lemma digits_of_digits [simp]: "list_all is_digit d \<Longrightarrow> digits_of d = d"
  by (simp add: list_all_iff)

lemma digits_of_all [simp]: "list_all is_digit (digits_of s)"
  by (simp add: list_all_iff)

lemma toUsE164_canonical:
  "toUsE164 raw = Some e \<longleftrightarrow>
     (let s = trim raw; d = digits_of s in
        s \<noteq> '''' \<and> (startsWith s ''+'' \<longrightarrow> startsWith s ''+1'')
        \<and> (length d = 10 \<and> e = ''+1'' @ d \<or> length d = 11 \<and> startsWith d ''1'' \<and> e = ''+'' @ d))"
  by (auto simp: toUsE164_def Let_def)

lemma toUsE164_shape:
  assumes "toUsE164 raw = Some e"
  shows "\<exists>d. e = CHR ''+'' # CHR ''1'' # d \<and> length d = 10 \<and> list_all is_digit d"
proof -
  let ?d = "digits_of (trim raw)"
  from assms consider "length ?d = 10" "e = ''+1'' @ ?d" | "length ?d = 11" "startsWith ?d ''1''" "e = ''+'' @ ?d"
    by (auto simp: toUsE164_canonical Let_def)
  then show ?thesis
  proof cases
    case 2
    then obtain d where "?d = CHR ''1'' # d" by (cases ?d) (auto simp: startsWith_Cons)
    then show ?thesis using 2 digits_of_all [of "trim raw"] by auto
  qed auto
qed

lemma toUsE164_of_canonical:
  assumes "e = CHR ''+'' # CHR ''1'' # d" "length d = 10" "list_all is_digit d"
  shows "toUsE164 e = Some e" "trim e = e"
proof -
  have d: "list_all is_digit (CHR ''1'' # d)" using assms(3) by (simp add: is_digit_def)
  show t: "trim e = e" using trim_plus_digits [OF d] assms(1) by simp
  have "digits_of e = CHR ''1'' # d" using digits_of_digits [OF d] assms(1) by simp
  then show "toUsE164 e = Some e" using t assms by (simp add: toUsE164_canonical Let_def startsWith_def)
qed

lemma verdict_simps [simp]: "ec_e164 (verdict e p) = e" "ec_problem (verdict e p) = p"
  "ec_message (verdict e p) = map_option MESSAGES p"
  by (simp_all add: verdict_def)

definition judge :: "string \<Rightarrow> ExternalNumberProblem option" where
  "judge e164 =
          (let npa = slice 2 5 e164; nxx = slice 5 8 e164; line = drop 8 e164 in
           if is_n11 npa \<or> is_n11 nxx then (Some N11)
           else if \<not> NANP_E164 e164 then (Some NotUsShape)
           else if npa \<in> set CANADA then (Some Canada)
           else if npa \<in> set OTHER_NANP_COUNTRIES then (Some Caribbean)
           else if npa = ''900'' \<or> npa = ''976'' \<or> nxx = ''976'' then (Some Premium)
           else if npa \<in> set SERVICE_NPAS then (Some Service)
           else if startsWith npa ''8'' \<and> npa ! 1 = npa ! 2 \<and> npa \<notin> set TOLL_FREE_NPAS
             then (Some TollFreeUnassigned)
           else if nxx = ''555'' \<and> startsWith line ''01'' then (Some Fictional)
           else None)"

lemma toUsE164_trim [simp]: "toUsE164 (trim s) = toUsE164 s"
  by (simp add: toUsE164_def)

lemma check_judge:
  "checkExternalNumber raw =
     (case toUsE164 raw of
        Some e \<Rightarrow> verdict (Some e) (judge e)
      | None \<Rightarrow>
          verdict None (Some (if trim raw = '''' then Empty
            else if startsWith (trim raw) ''+'' \<and> \<not> startsWith (trim raw) ''+1'' then International
            else if length (digits_of (trim raw)) > 11 then International else NotUsShape)))"
proof (cases "toUsE164 raw")
  case (Some e)
  then have t: "trim raw \<noteq> ''''" "startsWith (trim raw) ''+'' \<longrightarrow> startsWith (trim raw) ''+1''"
    by (auto simp: toUsE164_canonical Let_def)
  show ?thesis unfolding checkExternalNumber_def Let_def toUsE164_trim Some option.case judge_def
    using t by (simp only: if_False simp_thms) auto
next
  case None
  then show ?thesis by (simp add: checkExternalNumber_def Let_def)
qed

text \<open>The verdict on an outside number belongs to the canonical number, not to the way it was
  typed: whenever a canonical number is returned it is \<open>+1\<close> and ten digits, and checking that canonical
  number again gives the same verdict.\<close>

theorem external_check_stable:
  assumes "ec_e164 (checkExternalNumber raw) = Some e"
  shows "checkExternalNumber e = checkExternalNumber raw
    \<and> (\<exists>d. e = CHR ''+'' # CHR ''1'' # d \<and> length d = 10 \<and> list_all is_digit d)"
proof -
  from assms have r: "toUsE164 raw = Some e" by (simp add: check_judge split: option.splits)
  from toUsE164_shape [OF this] obtain d where d: "e = CHR ''+'' # CHR ''1'' # d" "length d = 10" "list_all is_digit d" by blast
  from toUsE164_of_canonical [OF this] have "toUsE164 e = Some e" by simp
  then show ?thesis using r d by (simp add: check_judge)
qed


theorem external_check_stable_witness:
  "ec_e164 (checkExternalNumber ''(212) 867-5309'') = Some ''+12128675309''
   \<and> checkExternalNumber ''+12128675309'' = checkExternalNumber ''(212) 867-5309''"
proof -
  have "ec_e164 (checkExternalNumber ''(212) 867-5309'') = Some ''+12128675309''" by code_simp
  with external_check_stable [OF this] show ?thesis by blast
qed

text \<open>The rule as the header of \<open>policy.ts\<close> states it, on area code, exchange and line.\<close>

definition us_line :: "string \<Rightarrow> string \<Rightarrow> string \<Rightarrow> bool" where
  "us_line npa nxx line \<longleftrightarrow> length npa = 3 \<and> length nxx = 3 \<and> length line = 4
     \<and> isNanpLead (hd npa) \<and> isNanpLead (hd nxx) \<and> \<not> is_n11 npa \<and> \<not> is_n11 nxx
     \<and> npa \<notin> set CANADA \<and> npa \<notin> set OTHER_NANP_COUNTRIES \<and> npa \<notin> set SERVICE_NPAS \<and> nxx \<noteq> ''976''
     \<and> (hd npa = CHR ''8'' \<and> npa ! 1 = npa ! 2 \<longrightarrow> npa \<in> set TOLL_FREE_NPAS)
     \<and> \<not> (nxx = ''555'' \<and> take 2 line = ''01'')"

lemma premium_are_service: "''900'' \<in> set SERVICE_NPAS" "''976'' \<in> set SERVICE_NPAS"
  by (simp_all add: SERVICE_NPAS_def)

lemma judge_None:
  assumes "e = ''+1'' @ npa @ nxx @ line" "length npa = 3" "length nxx = 3" "length line = 4"
    and "list_all is_digit (npa @ nxx @ line)"
  shows "judge e = None \<longleftrightarrow> us_line npa nxx line"
proof -
  obtain a b c where n: "npa = [a, b, c]" using assms(2) by (auto simp: numeral_eq_Suc length_Suc_conv)
  obtain x y z where x: "nxx = [x, y, z]" using assms(3) by (auto simp: numeral_eq_Suc length_Suc_conv)
  obtain k l m o' where l: "line = [k, l, m, o']" using assms(4) by (auto simp: numeral_eq_Suc length_Suc_conv)
  have nanp: "NANP_E164 e \<longleftrightarrow> isNanpLead a \<and> isNanpLead x"
    using assms(1,5) unfolding n x l by (simp add: NANP_E164_def slice_def)
  have sl: "slice 2 5 e = npa" "slice 5 8 e = nxx" "drop 8 e = line"
    using assms(1) unfolding n x l by (simp_all add: slice_def)
  have hd: "hd npa = a" "hd nxx = x" "startsWith npa ''8'' \<longleftrightarrow> a = CHR ''8''" "startsWith line ''01'' \<longleftrightarrow> take 2 line = ''01''"
    unfolding n x l by (simp_all add: startsWith_def)
  show ?thesis
    unfolding judge_def Let_def nanp sl us_line_def assms(2-4) hd
    using premium_are_service by auto
qed

lemma allowed_us_line:
  assumes "toUsE164 raw = Some e"
  shows "judge e = None \<longleftrightarrow> (\<exists>npa nxx line. e = ''+1'' @ npa @ nxx @ line \<and> us_line npa nxx line)"
proof -
  from toUsE164_shape [OF assms] obtain d where d: "e = ''+1'' @ d" "length d = 10" "list_all is_digit d" by auto
  let ?npa = "take 3 d" and ?nxx = "take 3 (drop 3 d)" and ?line = "drop 6 d"
  have "drop 3 (drop 3 d) = ?line" by simp
  then have split: "d = ?npa @ ?nxx @ ?line" by (metis append_take_drop_id)
  have j: "judge e = None \<longleftrightarrow> us_line ?npa ?nxx ?line"
    by (rule judge_None) (use d split in auto)
  have "npa = ?npa \<and> nxx = ?nxx \<and> line = ?line" if "d = npa @ nxx @ line" "us_line npa nxx line" for npa nxx line
    using that by (simp add: us_line_def)
  then show ?thesis using j split d(1) by auto
qed

text \<open>C27. An outside transfer is allowed exactly for the US numbers of the rule: the typed text has a
  canonical \<open>+1\<close> form whose area code and exchange start with 2 to 9, are no N11 codes, whose area
  code is not Canadian, not of another country, not a premium or service code, and among the doubled
  8YY codes only an assigned toll-free one, whose exchange is not 976, and which is no 555-01xx
  number.\<close>

theorem external_allowed_iff:
  "ec_problem (checkExternalNumber raw) = None \<longleftrightarrow>
    (\<exists>npa nxx line. toUsE164 raw = Some (''+1'' @ npa @ nxx @ line) \<and> us_line npa nxx line)"
proof (cases "toUsE164 raw")
  case (Some e)
  then show ?thesis using allowed_us_line [OF Some] by (simp add: check_judge)
qed (simp add: check_judge)

lemma digits_of_slice: "digits_of (slice a b (digits_of s)) = slice a b (digits_of s)"
  "digits_of (drop a (digits_of s)) = drop a (digits_of s)"
  by (auto simp: slice_def filter_id_conv dest!: in_set_takeD in_set_dropD)

lemma digits_of_fmt: "digits_of (fmt s) = digits_of s"
proof -
  let ?d = "digits_of s"
  consider "length ?d = 11" "startsWith ?d ''1''" | "length ?d = 10" | "fmt s = s"
    by (cases "length ?d = 11 \<and> startsWith ?d ''1''"; cases "length ?d = 10") (simp_all add: fmt_def Let_def)
  then show ?thesis
  proof cases
    case 1
    then obtain d where d: "?d = CHR ''1'' # d" "length d = 10" by (cases ?d) (auto simp: startsWith_Cons)
    have "digits_of (fmt s) = ''1'' @ slice 1 4 ?d @ slice 4 7 ?d @ drop 7 ?d"
      using 1 by (simp add: fmt_def Let_def digits_of_slice)
    also have "\<dots> = ?d" using d by (auto simp: slice_def numeral_eq_Suc length_Suc_conv)
    finally show ?thesis .
  next
    case 2
    have "digits_of (fmt s) = slice 0 3 ?d @ slice 3 6 ?d @ drop 6 ?d"
      using 2 by (simp add: fmt_def Let_def digits_of_slice)
    also have "\<dots> = ?d" using 2 by (auto simp: slice_def numeral_eq_Suc length_Suc_conv)
    finally show ?thesis .
  qed simp
qed

lemma normalize_trim: "normalizeNumberInput (trim s) = normalizeNumberInput s"
  by (simp add: normalizeNumberInput_def)

lemma no_separators:
  assumes "list_all (\<lambda>c. \<not> is_separator c) d"
  shows "filter (\<lambda>c. \<not> is_separator c) d = d" "trim d = d" "trim (CHR ''+'' # d) = CHR ''+'' # d"
    "filter (\<lambda>c. \<not> is_separator c) (CHR ''+'' # d) = d"
proof -
  show 1: "filter (\<lambda>c. \<not> is_separator c) d = d" using assms by (simp add: list_all_iff)
  have "\<forall>c \<in> set (CHR ''+'' # d). \<not> is_ws c" using assms by (auto simp: list_all_iff is_separator_def)
  then show "trim d = d" "trim (CHR ''+'' # d) = CHR ''+'' # d" by (auto intro!: trim_no_ws)
  show "filter (\<lambda>c. \<not> is_separator c) (CHR ''+'' # d) = d" using 1 by (simp add: is_separator_def)
qed

lemma normalize_plus:
  assumes "list_all (\<lambda>c. \<not> is_separator c) d" "8 \<le> length d" "length d \<le> 15"
  shows "normalizeNumberInput (CHR ''+'' # d) = CHR ''+'' # d"
  using assms(2,3) no_separators [OF assms(1)] by (simp add: normalizeNumberInput_def startsWith_def)

text \<open>Canonicalising a number twice is the same as once: every value the normaliser returns, a
  canonical one or a passed-through one, is a fixed point.\<close>

theorem normalize_idempotent: "normalizeNumberInput (normalizeNumberInput raw) = normalizeNumberInput raw"
proof -
  let ?s = "trim raw"
  let ?d = "filter (\<lambda>c. \<not> is_separator c) ?s"
  have d: "list_all (\<lambda>c. \<not> is_separator c) ?d" by (simp add: list_all_iff)
  have one: "list_all (\<lambda>c. \<not> is_separator c) (CHR ''1'' # ?d)" using d by (simp add: is_separator_def is_ws_def)
  consider "normalizeNumberInput raw = ?s"
    | "normalizeNumberInput raw = ''+'' @ ?d" "8 \<le> length ?d" "length ?d \<le> 15"
    | "normalizeNumberInput raw = ''+1'' @ ?d" "length ?d = 10"
    | "normalizeNumberInput raw = ?d" "all_digits 3 6 ?d"
  proof -
    have "normalizeNumberInput raw = ?s
      \<or> normalizeNumberInput raw = ''+'' @ ?d \<and> 8 \<le> length ?d \<and> length ?d \<le> 15
      \<or> normalizeNumberInput raw = ''+1'' @ ?d \<and> length ?d = 10
      \<or> normalizeNumberInput raw = ?d \<and> all_digits 3 6 ?d"
      unfolding normalizeNumberInput_def Let_def by auto
    then show thesis using that by blast
  qed
  then show ?thesis
  proof cases
    case 1
    then show ?thesis by (simp add: normalize_trim)
  next
    case 2
    then show ?thesis using normalize_plus [OF d] by simp
  next
    case 3
    then show ?thesis using normalize_plus [OF one] by simp
  next
    case 4
    then have "?d \<noteq> []" "length ?d \<le> 6" by (auto simp: all_digits_def)
    moreover have "\<not> startsWith ?d ''+''" using d by (cases ?d) (auto simp: startsWith_Cons is_separator_def)
    ultimately show ?thesis using 4 no_separators [OF d] by (simp add: normalizeNumberInput_def Let_def)
  qed
qed

text \<open>Displaying a canonical US number and reading the displayed text back gives the number.\<close>

theorem display_keeps_number:
  assumes "toUsE164 raw = Some e"
  shows "toUsE164 (fmt e) = Some e"
proof -
  from toUsE164_shape [OF assms] obtain d where d: "e = CHR ''+'' # CHR ''1'' # d" "length d = 10" "list_all is_digit d" by blast
  have de: "digits_of e = CHR ''1'' # d" using d digits_of_digits [of "CHR ''1'' # d"] by simp
  have f: "fmt e = ''+1 ('' @ take 3 d @ '') '' @ take 3 (drop 3 d) @ ''-'' @ drop 6 d"
    using d(2) by (simp add: fmt_def Let_def de startsWith_def slice_def)
  have "drop 6 d \<noteq> []" using d(2) by simp
  then have "last (fmt e) = last (drop 6 d)" "last (drop 6 d) \<in> set d"
    using f in_set_dropD [OF last_in_set] by (simp_all del: last_drop)
  then have "\<not> is_ws (last (fmt e))" using d(3) by (simp add: list_all_iff digit_no_ws del: last_drop)
  moreover have "fmt e \<noteq> []" "hd (fmt e) = CHR ''+''" by (simp_all add: f)
  ultimately have "trim (fmt e) = fmt e" by (intro trim_ends) simp_all
  moreover have "startsWith (fmt e) ''+1''" by (simp add: f startsWith_def)
  ultimately show ?thesis using d(2) \<open>fmt e \<noteq> []\<close> unfolding toUsE164_canonical Let_def digits_of_fmt
    by (simp add: digits_of_fmt de) (simp add: d(1) startsWith_def)
qed

theorem display_keeps_number_witness:
  "toUsE164 ''1-617-555-0134'' = Some ''+16175550134'' \<and> toUsE164 (fmt ''+16175550134'') = Some ''+16175550134''"
proof -
  have "toUsE164 ''1-617-555-0134'' = Some ''+16175550134''" by code_simp
  with display_keeps_number [OF this] show ?thesis by blast
qed

lemma filter_dropWhile: "(\<And>c. P c \<Longrightarrow> \<not> Q c) \<Longrightarrow> filter Q (dropWhile P s) = filter Q s"
  by (induction s) auto

lemma digits_of_trim [simp]: "digits_of (trim s) = digits_of s"
proof -
  have "digits_of (dropWhile is_ws t) = digits_of t" for t
    by (rule filter_dropWhile) (use digit_no_ws in blast)
  then show ?thesis unfolding trim_def by (metis rev_filter rev_rev_ident)
qed

text \<open>A caller-check prefix that was normalised is accepted exactly when the typed text holds
  between one and fifteen digits.\<close>

theorem prefix_value_valid_iff:
  "callerValueProblem (normalizeCallerValue raw ModePrefix) ModePrefix = None
    \<longleftrightarrow> 1 \<le> length (digits_of raw) \<and> length (digits_of raw) \<le> 15"
proof -
  let ?n = "normalizeCallerValue raw ModePrefix"
  have "trim raw = [] \<and> ?n = [] \<and> digits_of raw = []
    \<or> ?n = CHR ''+'' # digits_of raw
    \<or> ?n = CHR ''+'' # CHR ''1'' # digits_of raw \<and> 1 \<le> length (digits_of raw) \<and> length (digits_of raw) \<le> 10"
  proof (cases "trim raw = []")
    case True
    then have "digits_of raw = []" using digits_of_trim [of raw] by simp
    then show ?thesis using True by (simp add: normalizeCallerValue_def)
  next
    case False
    then show ?thesis unfolding normalizeCallerValue_def Let_def by auto
  qed
  then show ?thesis by (auto simp: callerValueProblem_def startsWith_def all_digits_def)
qed

text \<open>The normaliser strips separators, not everything that is no digit: ten characters that start
  with 2 to 9 get a \<open>+1\<close> whatever they are.\<close>

lemma normalize_keeps_letters: "normalizeNumberInput ''2abcdefghi'' = ''+12abcdefghi''"
  by code_simp

text \<open>Five passes, one result: each character is replaced on its own.\<close>

fun esc_char :: "char \<Rightarrow> string" where
  "esc_char c = (if c = CHR ''&'' then ''&amp;'' else if c = CHR ''<'' then ''&lt;'' else if c = CHR ''>'' then ''&gt;''
     else if c = CHR 0x22 then ''&quot;'' else if c = CHR 0x27 then ''&#039;'' else [c])"

lemma replace_char_concat: "replace_char c r (concat (map f s)) = concat (map (\<lambda>x. replace_char c r (f x)) s)"
  by (induction s) (simp_all add: replace_char_def)

text \<open>The five replacement passes of \<open>escHtml\<close> do not interfere: the result escapes each
  character of the input once, on its own.\<close>

theorem escHtml_single_pass: "escHtml s = concat (map esc_char s)"
proof -
  have "replace_char (CHR ''&'') ''&amp;'' s = concat (map (\<lambda>x. if x = CHR ''&'' then ''&amp;'' else [x]) s)"
    by (rule replace_char_def)
  then show ?thesis unfolding escHtml_def Let_def
    by (simp add: replace_char_concat) (rule arg_cong [of _ _ concat], rule map_cong, simp_all add: replace_char_def)
qed

end
