(* ===== verification/Search.thy ===== *)
theory Search
  imports Prelude
begin

text \<open>
  The stack search the sources write twice (\<open>reaches\<close> in \<open>flow/store/flowStore.ts\<close>, the
  reachability loop of \<open>flow/compile/ivr.ts\<close>): pop a vertex, skip it when it was seen or does not
  exist, otherwise mark it and push its successors. The locale states the loop's equations; its
  lemma says what such a loop computes whenever finitely many vertices are reachable. Both loops
  interpret it in their own theories.
\<close>

locale stack_search =
  fixes succs :: "'v \<Rightarrow> 'v list"
    and exists :: "'v \<Rightarrow> bool"
    and stop :: "'v \<Rightarrow> bool"
    and hit :: 'r
    and result :: "'v set \<Rightarrow> 'r"
    and run :: "'v list \<Rightarrow> 'v set \<Rightarrow> 'r"
  assumes run_Nil: "run [] seen = result seen"
    and run_Cons: "\<not> (stop v \<and> v \<in> seen) \<Longrightarrow> run (v # stack) seen =
      (if stop v then hit
       else if v \<in> seen \<or> \<not> exists v then run stack seen
       else run (succs v @ stack) (insert v seen))"
begin

definition steps :: "('v \<times> 'v) set" where
  "steps = {(v, t). exists v \<and> t \<in> set (succs v)}"

definition reach :: "'v list \<Rightarrow> 'v set" where
  "reach vs = steps\<^sup>* `` set vs"

lemma reach_self: "set vs \<subseteq> reach vs"
  by (auto simp: reach_def)

lemma reach_Cons: "reach (v # vs) = reach [v] \<union> reach vs"
  by (auto simp: reach_def)

lemma reach_append: "reach (us @ vs) = reach us \<union> reach vs"
  by (auto simp: reach_def)

lemma reach_succs: "exists v \<Longrightarrow> reach [v] = insert v (reach (succs v))"
  by (auto simp: reach_def steps_def elim: converse_rtranclE intro: converse_rtrancl_into_rtrancl)

lemma reach_missing: "\<not> exists v \<Longrightarrow> reach [v] = {v}"
  by (auto simp: reach_def steps_def elim: converse_rtranclE)

text \<open>Every seen vertex exists, and its successors are seen, still on the stack, or of no matter.\<close>

definition matters :: "'v \<Rightarrow> bool" where
  "matters t \<longleftrightarrow> exists t \<or> stop t"

definition frontier :: "'v list \<Rightarrow> 'v set \<Rightarrow> bool" where
  "frontier stack seen \<longleftrightarrow>
     (\<forall>v \<in> seen. exists v \<and> \<not> stop v \<and> (\<forall>t \<in> set (succs v). matters t \<longrightarrow> t \<in> seen \<union> set stack))"

lemma frontier_reach:
  assumes f: "frontier stack seen" and v: "v \<in> seen" and t: "t \<in> reach [v]" "matters t"
  shows "t \<in> seen \<union> reach stack"
proof -
  have "(v, t) \<in> steps\<^sup>*" using t by (simp add: reach_def)
  then have "matters t \<longrightarrow> t \<in> seen \<union> reach stack"
  proof induction
    case (step y z)
    have y: "matters y" using step(2) by (simp add: steps_def matters_def)
    show ?case
    proof (cases "y \<in> seen")
      case True
      with f step have "matters z \<longrightarrow> z \<in> seen \<union> set stack" by (auto simp: frontier_def steps_def)
      then show ?thesis using reach_self by blast
    next
      case False
      with step y have "y \<in> reach stack" by simp
      then show ?thesis using step(2) by (auto simp: reach_def intro: rtrancl_into_rtrancl)
    qed
  qed (use v in simp)
  with t show ?thesis by simp
qed

abbreviation outcome :: "'v list \<Rightarrow> 'v set \<Rightarrow> 'r" where
  "outcome stack seen \<equiv>
     (if \<exists>t \<in> reach stack. stop t then hit else result (seen \<union> {t \<in> reach stack. exists t}))"

lemma outcome_cong:
  assumes "\<And>t. matters t \<Longrightarrow> t \<in> seen \<union> reach stack \<longleftrightarrow> t \<in> seen' \<union> reach stack'"
    and "\<And>t. t \<in> seen \<union> seen' \<Longrightarrow> exists t \<and> \<not> stop t"
  shows "outcome stack seen = outcome stack' seen'"
proof -
  have "(\<exists>t \<in> reach stack. stop t) \<longleftrightarrow> (\<exists>t \<in> reach stack'. stop t)"
    using assms unfolding matters_def by blast
  moreover have "seen \<union> {t \<in> reach stack. exists t} = seen' \<union> {t \<in> reach stack'. exists t}"
    using assms unfolding matters_def by blast
  ultimately show ?thesis by simp
qed

text \<open>The loop stops with \<open>hit\<close> exactly when a stop vertex is reachable, and otherwise returns the
  existing vertices reachable from the stack, with the seen ones.\<close>

lemma run_outcome:
  assumes "finite (reach stack - seen)" and "frontier stack seen"
  shows "run stack seen = outcome stack seen"
  using assms
proof (induction "(card (reach stack - seen), length stack)" arbitrary: stack seen
    rule: wf_induct_rule [OF wf_lex_prod [OF wf_less_than wf_less_than]])
  case less: 1
  show ?case
  proof (cases stack)
    case Nil
    then show ?thesis by (simp add: run_Nil reach_def)
  next
    case (Cons v rest)
    have reach: "reach stack = reach [v] \<union> reach rest" unfolding Cons by (rule reach_Cons)
    have seen: "exists t \<and> \<not> stop t" if "t \<in> seen" for t using less.prems(2) that by (simp add: frontier_def)
    have skip: "run rest seen = outcome rest seen" if "frontier rest seen"
    proof (rule less.hyps [OF _ _ that])
      show fin: "finite (reach rest - seen)" using less.prems(1) unfolding reach by (simp add: Un_Diff)
      have "card (reach rest - seen) \<le> card (reach stack - seen)"
        using less.prems(1) by (intro card_mono) (auto simp: reach)
      then show "((card (reach rest - seen), length rest), card (reach stack - seen), length stack) \<in> less_than <*lex*> less_than"
        using Cons by auto
    qed
    consider "stop v" | "\<not> stop v" "v \<in> seen" | "\<not> stop v" "v \<notin> seen" "\<not> exists v"
      | "\<not> stop v" "v \<notin> seen" "exists v" by blast
    then show ?thesis
    proof cases
      case 1
      then have "v \<notin> seen" using seen by blast
      then show ?thesis using 1 reach_self [of stack] Cons by (auto simp: run_Cons)
    next
      case 2
      have f: "frontier rest seen" using less.prems(2) 2 Cons by (auto simp: frontier_def)
      have "outcome rest seen = outcome stack seen"
        by (rule outcome_cong) (use frontier_reach [OF f 2(2)] reach seen in auto)
      then show ?thesis using skip [OF f] 2 Cons by (simp add: run_Cons)
    next
      case 3
      have m: "\<not> matters v" using 3 by (simp add: matters_def)
      then have f: "frontier rest seen" using less.prems(2) Cons by (auto simp: frontier_def)
      have "outcome rest seen = outcome stack seen"
        by (rule outcome_cong) (use m reach reach_missing [OF 3(3)] seen in auto)
      then show ?thesis using skip [OF f] 3 Cons by (simp add: run_Cons)
    next
      case 4
      let ?stack = "succs v @ rest" and ?seen = "insert v seen"
      have r: "reach stack = insert v (reach ?stack)"
        unfolding reach reach_append reach_succs [OF 4(3)] by simp
      have "reach ?stack - ?seen \<subset> reach stack - seen" unfolding r using 4 by auto
      then have "card (reach ?stack - ?seen) < card (reach stack - seen)"
        using less.prems(1) by (rule psubset_card_mono [rotated])
      moreover have "finite (reach ?stack - ?seen)"
        using less.prems(1) unfolding r by (rule finite_subset [rotated]) auto
      moreover have "frontier ?stack ?seen" using less.prems(2) 4 Cons by (auto simp: frontier_def)
      ultimately have "run ?stack ?seen = outcome ?stack ?seen" by (intro less.hyps) auto
      moreover have "outcome ?stack ?seen = outcome stack seen"
        by (rule outcome_cong) (use 4 r seen in auto)
      ultimately show ?thesis using 4 Cons by (simp add: run_Cons)
    qed
  qed
qed

lemma run_from:
  assumes "finite (reach [v])"
  shows "run [v] {} = (if \<exists>t. (v, t) \<in> steps\<^sup>* \<and> stop t then hit else result {t. (v, t) \<in> steps\<^sup>* \<and> exists t})"
proof -
  have "run [v] {} = outcome [v] {}" by (rule run_outcome) (use assms in \<open>auto simp: frontier_def\<close>)
  moreover have "reach [v] = {t. (v, t) \<in> steps\<^sup>*}" by (auto simp: reach_def)
  ultimately show ?thesis by auto
qed

end

end
