(* ===== verification/Compile.thy ===== *)
theory Compile
  imports Graph_Laws Hours Phone Search "HOL-Library.Char_ord" "HOL-Library.List_Lexorder"
begin

text \<open>
  The browser's mirror of the IVR compiler (\<open>flow/compile/ivr.ts\<close>): a stored graph becomes a list of
  issues, a plan of linked nodes and the set of blocks a caller can reach. The function's local
  mutable variables (\<open>issues\<close>, \<open>promptOrder\<close>, \<open>gotoProblems\<close>, \<open>planNodes\<close>) are the record
  \<open>CompileState\<close>, threaded in the order of the source. Configurations are read as the declared types
  promise (\<open>typed_config\<close>, which loading establishes). The wording of an issue is left out; where
  building it can throw, the throw is kept. A thrown \<open>TypeError\<close> is the left side of the result.
\<close>

section \<open>Types\<close>

datatype Severity = Error | Warning

record ClientIssue =
  is_severity :: Severity
  is_code :: string
  is_nodeId :: "string option"
  is_handle :: "string option"

datatype DestinationProduct = Rcf | VoicemailBox | Ivr | Trunk

record DestinationNumber =
  dn_did :: string
  dn_name :: "string option"
  dn_enabled :: bool

record DestinationGroup =
  dgr_product :: DestinationProduct
  dgr_numbers :: "DestinationNumber list"

type_synonym Destinations = "DestinationGroup list"

type_synonym PromptId = rat

record CompileContext =
  cx_prompts :: "PromptId list option"
  cx_destinations :: "Destinations option"
  cx_ownDids :: "string list"
  cx_maxBlocks :: "nat option"

type_synonym PlanRef = "string option"

datatype TransferDest = ToExternal string | ToOwn string "DestinationProduct option"

datatype PlanNode =
    PPlay "PromptId list" PlanRef
  | PMenu (pm_prompts: "PromptId list") (pm_digits: "(string \<times> PlanRef) list") (pm_timeout_ms: int) (pm_retries: rat)
      (pm_invalid: "PromptId list") (pm_noinput: "PromptId list") (pm_on_noinput: PlanRef) (pm_on_nomatch: PlanRef)
  | PHours (ph_tz: string) (ph_weekly: "(string \<times> (nat \<times> nat) list) list") (ph_closed: "string list") PlanRef PlanRef
  | PCaller (pc_mode: string) (pc_values: "string list") PlanRef PlanRef
  | PTransfer (pt_dest: TransferDest) (pt_pass: bool) (pt_ring: rat) PlanRef
  | PVoicemail string
  | PHangup "PromptId list"

record PlanPreview =
  pl_start :: PlanRef
  pl_max_steps :: nat
  pl_max_seconds :: nat
  pl_prompts :: "PromptId list"
  pl_nodes :: "(string \<times> PlanNode) list"

record CompileResult =
  cr_ok :: bool
  cr_issues :: "ClientIssue list"
  cr_plan :: PlanPreview
  cr_reachable :: "string set"

datatype JsError = TypeError

section \<open>Helpers\<close>

fun ownProduct_in :: "string \<Rightarrow> DestinationGroup list \<Rightarrow> DestinationProduct option" where
  "ownProduct_in did [] = None"
| "ownProduct_in did (g # gs) =
     (if list_ex (\<lambda>n. dn_did n = did) (dgr_numbers g) then Some (dgr_product g) else ownProduct_in did gs)"

definition ownProduct :: "string \<Rightarrow> Destinations option \<Rightarrow> DestinationProduct option" where
  "ownProduct did ds = ownProduct_in did (case ds of Some gs \<Rightarrow> gs | None \<Rightarrow> [])"

fun findOwn_in :: "string \<Rightarrow> DestinationGroup list \<Rightarrow> (DestinationGroup \<times> DestinationNumber) option" where
  "findOwn_in did [] = None"
| "findOwn_in did (g # gs) =
     (case List.find (\<lambda>n. dn_did n = did) (dgr_numbers g) of Some n \<Rightarrow> Some (g, n) | None \<Rightarrow> findOwn_in did gs)"

definition findOwn :: "string \<Rightarrow> Destinations option \<Rightarrow> (DestinationGroup \<times> DestinationNumber) option" where
  "findOwn did ds = findOwn_in did (case ds of Some gs \<Rightarrow> gs | None \<Rightarrow> [])"

fun node_id :: "IvrNode \<Rightarrow> string" where
  "node_id (Known n) = n_id n"
| "node_id (Foreign ob) = foreign_id ob"

fun is_type :: "IvrNodeType \<Rightarrow> IvrNode \<Rightarrow> bool" where
  "is_type t (Known n) = (n_type n = t)"
| "is_type t (Foreign ob) = False"

text \<open>\<open>outHandles(node)\<close> of a block whose type the switch does not know is undefined.\<close>

fun node_handles :: "IvrNode \<Rightarrow> string list option" where
  "node_handles (Known n) = Some (node_exits n)"
| "node_handles (Foreign ob) = None"

definition byId :: "IvrNode list \<Rightarrow> string \<Rightarrow> IvrNode option" where
  "byId nodes i = last_by node_id nodes i"

text \<open>\<open>blockTitle\<close> on any stored block: the trimmed label, else the type's label, which an unknown
  type does not have; reading the label of no data, or trimming what is no text, throws too.\<close>

definition blockTitle :: "IvrNode \<Rightarrow> JsError + string" where
  "blockTitle node = (case node of
     Known n \<Rightarrow>
       (case bd_label (n_data n) of
          Some l \<Rightarrow> Inr (if trim l = '''' then bm_label (BLOCKS (n_type n)) else trim l)
        | None \<Rightarrow> Inr (bm_label (BLOCKS (n_type n))))
   | Foreign ob \<Rightarrow>
       (case ob_get ob ''data'' of
          Some (JObj data) \<Rightarrow>
            (case ob_get data ''label'' of
               Some (JStr l) \<Rightarrow> if trim l = '''' then Inl TypeError else Inr (trim l)
             | _ \<Rightarrow> Inl TypeError)
        | _ \<Rightarrow> Inl TypeError))"

text \<open>Typed reads of a configuration.\<close>

fun as_number :: "json \<Rightarrow> rat option" where
  "as_number (JNum (Fin r)) = Some r"
| "as_number _ = None"

definition cfg_ids :: "obj \<Rightarrow> string \<Rightarrow> PromptId list" where
  "cfg_ids c k = List.map_filter as_number (array_or_empty (ob_get c k))"

definition cfg_str :: "obj \<Rightarrow> string \<Rightarrow> string" where
  "cfg_str c k = str_or '''' (ob_get c k)"

definition cfg_num :: "obj \<Rightarrow> string \<Rightarrow> rat" where
  "cfg_num c k = num (ob_get c k) 0"

fun as_range :: "json \<Rightarrow> (string \<times> string) option" where
  "as_range (JArr [JStr a, JStr b]) = Some (a, b)"
| "as_range _ = None"

definition cfg_day :: "obj \<Rightarrow> string \<Rightarrow> (string \<times> string) list" where
  "cfg_day c day = List.map_filter as_range (array_or_empty (ob_get (record_or_empty (ob_get c ''weekly'')) day))"

definition goto_target :: "obj \<Rightarrow> string" where
  "goto_target c = cfg_str c ''targetNodeId''"

section \<open>Compile state\<close>

record CompileState =
  cs_issues :: "ClientIssue list"
  cs_prompts :: "PromptId list"
  cs_goto :: "string list"
  cs_plan :: "(string \<times> PlanNode) list"

definition no_empty :: "string \<Rightarrow> string option" where
  "no_empty s = (if s = '''' then None else Some s)"

definition issue :: "Severity \<Rightarrow> string \<Rightarrow> string \<Rightarrow> string \<Rightarrow> ClientIssue" where
  "issue sev code i h = \<lparr>is_severity = sev, is_code = code, is_nodeId = no_empty i, is_handle = no_empty h\<rparr>"

text \<open>\<open>add\<close>; a missing node or handle argument is the empty text here, which \<open>add\<close> leaves out too.\<close>

definition add :: "Severity \<Rightarrow> string \<Rightarrow> string \<Rightarrow> string \<Rightarrow> CompileState \<Rightarrow> CompileState" where
  "add sev code i h st = st\<lparr>cs_issues := cs_issues st @ [issue sev code i h]\<rparr>"

definition add_if :: "bool \<Rightarrow> Severity \<Rightarrow> string \<Rightarrow> string \<Rightarrow> string \<Rightarrow> CompileState \<Rightarrow> CompileState" where
  "add_if b sev code i h st = (if b then add sev code i h st else st)"

definition plan_set :: "string \<Rightarrow> PlanNode \<Rightarrow> CompileState \<Rightarrow> CompileState" where
  "plan_set i p st = st\<lparr>cs_plan := ob_set (cs_plan st) i p\<rparr>"

section \<open>Edges to slots\<close>

type_synonym slots_map = "(string \<times> string) list"

fun read_slots :: "IvrNode list \<Rightarrow> WorkEdge list \<Rightarrow> slots_map \<Rightarrow> CompileState \<Rightarrow> JsError + (slots_map \<times> CompileState)" where
  "read_slots nodes [] slot st = Inr (slot, st)"
| "read_slots nodes (e # es) slot st =
     (case (byId nodes (e_source e), byId nodes (e_target e)) of
        (Some source, Some target) \<Rightarrow>
          (let key = slotKey (e_source e) (e_sourceHandle e) in
           if is_type Entry target
           then read_slots nodes es slot (add Error ''edge_into_start'' (e_source e) (e_sourceHandle e) st)
           else if ob_get slot key \<noteq> None
           then read_slots nodes es slot (add Error ''duplicate_exit'' (e_source e) (e_sourceHandle e) st)
           else case node_handles source of
             None \<Rightarrow> Inl TypeError
           | Some hs \<Rightarrow>
               if e_sourceHandle e \<notin> set hs
               then read_slots nodes es slot (add Warning ''stale_exit'' (e_source e) (e_sourceHandle e) st)
               else read_slots nodes es (ob_set slot key (e_target e)) st)
      | _ \<Rightarrow> read_slots nodes es slot st)"

section \<open>Go to resolution\<close>

text \<open>The loop of \<open>resolve\<close>: the pointer it returns and, on a circle, the Go to blocks seen.\<close>

function resolve_loop :: "IvrNode list \<Rightarrow> string list \<Rightarrow> string option \<Rightarrow> PlanRef \<times> string list" where
  "resolve_loop nodes seen target =
     (case target of
        None \<Rightarrow> (None, [])
      | Some i \<Rightarrow>
          (case byId nodes i of
             None \<Rightarrow> (None, [])
           | Some (Foreign ob) \<Rightarrow> (Some (foreign_id ob), [])
           | Some (Known n) \<Rightarrow>
               if n_type n \<noteq> Goto then ((if n_type n = Entry then None else Some (n_id n)), [])
               else if i \<in> set seen then (None, seen)
               else resolve_loop nodes (seen @ [i]) (no_empty (goto_target (n_config n)))))"
  by auto

lemma byId_in: "byId nodes i = Some n \<Longrightarrow> n \<in> set nodes \<and> node_id n = i"
  unfolding byId_def by (rule last_by_Some)

termination resolve_loop
proof (relation "measure (\<lambda>(nodes, seen, target). card (node_id ` set nodes - set seen))", goal_cases)
  case (2 nodes seen target i node n)
  then have "i \<in> node_id ` set nodes" "i \<notin> set seen" using byId_in by fastforce+
  then show ?case using card_Diff_insert_less [of "node_id ` set nodes" i "set seen"] by simp
qed simp

text \<open>\<open>gotoProblems.set\<close> for each block of a circle: a Map keeps a key's first place.\<close>

definition mark_goto :: "string list \<Rightarrow> CompileState \<Rightarrow> CompileState" where
  "mark_goto gs st = st\<lparr>cs_goto := fold (\<lambda>g ps. if g \<in> set ps then ps else ps @ [g]) gs (cs_goto st)\<rparr>"

definition resolve :: "IvrNode list \<Rightarrow> string option \<Rightarrow> CompileState \<Rightarrow> PlanRef \<times> CompileState" where
  "resolve nodes target st = (let (r, gs) = resolve_loop nodes [] target in (r, mark_goto gs st))"

definition ptr :: "IvrNode list \<Rightarrow> slots_map \<Rightarrow> string \<Rightarrow> string \<Rightarrow> CompileState \<Rightarrow> PlanRef \<times> CompileState" where
  "ptr nodes slot i h st = resolve nodes (ob_get slot (slotKey i h)) st"

section \<open>Reachability\<close>

text \<open>What the loop pushes for a block, in order: the connected exits, then a Go to's target.\<close>

definition pushed :: "IvrNode list \<Rightarrow> slots_map \<Rightarrow> NodeInput \<Rightarrow> string list" where
  "pushed nodes slot n =
     List.map_filter (\<lambda>h. case ob_get slot (slotKey (n_id n) h) of
         Some t \<Rightarrow> no_empty t | None \<Rightarrow> None) (node_exits n)
     @ (if n_type n = Goto \<and> goto_target (n_config n) \<noteq> '''' \<and> byId nodes (goto_target (n_config n)) \<noteq> None
        then [goto_target (n_config n)] else [])"

function reach_loop :: "IvrNode list \<Rightarrow> slots_map \<Rightarrow> string list \<Rightarrow> string set \<Rightarrow> JsError + string set" where
  "reach_loop nodes slot [] seen = Inr seen"
| "reach_loop nodes slot (i # stack) seen =
     (if i \<in> seen then reach_loop nodes slot stack seen
      else case byId nodes i of
        None \<Rightarrow> reach_loop nodes slot stack seen
      | Some (Foreign ob) \<Rightarrow> Inl TypeError
      | Some (Known n) \<Rightarrow> reach_loop nodes slot (rev (pushed nodes slot n) @ stack) (insert i seen))"
  by pat_completeness auto

termination reach_loop
proof (relation "measures [\<lambda>(nodes, slot, stack, seen). card (node_id ` set nodes - seen), \<lambda>(nodes, slot, stack, seen). length stack]",
    goal_cases)
  case (4 nodes slot i stack seen node n)
  then have "i \<in> node_id ` set nodes" "i \<notin> seen" using byId_in by fastforce+
  then have "card (node_id ` set nodes - insert i seen) < card (node_id ` set nodes - seen)"
    by (intro card_Diff_insert_less) simp_all
  then show ?case by simp
qed simp_all

fun report_unreachable :: "string set \<Rightarrow> IvrNode list \<Rightarrow> CompileState \<Rightarrow> JsError + CompileState" where
  "report_unreachable reachable [] st = Inr st"
| "report_unreachable reachable (n # ns) st =
     (if is_type Entry n \<or> node_id n \<in> reachable then report_unreachable reachable ns st
      else case blockTitle n of
        Inl err \<Rightarrow> Inl err
      | Inr title \<Rightarrow> report_unreachable reachable ns (add Warning ''unreachable'' (node_id n) '''' st))"

section \<open>Blocks to plan nodes\<close>

text \<open>The \<open>for\<close> loop of \<open>takePrompts\<close>.\<close>

definition take_prompt :: "CompileContext \<Rightarrow> string \<Rightarrow> PromptId \<Rightarrow> CompileState \<Rightarrow> CompileState" where
  "take_prompt ctx i p st =
     (let st = add_if (case cx_prompts ctx of Some ps \<Rightarrow> p \<notin> set ps | None \<Rightarrow> False) Error ''prompt_missing'' i '''' st
      in if p \<in> set (cs_prompts st) then st else st\<lparr>cs_prompts := cs_prompts st @ [p]\<rparr>)"

definition takePrompts :: "CompileContext \<Rightarrow> PromptId list \<Rightarrow> string \<Rightarrow> CompileState \<Rightarrow> CompileState" where
  "takePrompts ctx ps i st =
     (let st = add_if (length ps > promptsPerBlock LIMITS) Error ''too_many_prompts'' i '''' st
      in fold (take_prompt ctx i) ps st)"

definition exitWarning :: "slots_map \<Rightarrow> string \<Rightarrow> string \<Rightarrow> CompileState \<Rightarrow> CompileState" where
  "exitWarning slot i h st = add_if (ob_get slot (slotKey i h) = None) Warning ''exit_hangs_up'' i h st"

definition compile_entry :: "slots_map \<Rightarrow> string \<Rightarrow> CompileState \<Rightarrow> CompileState" where
  "compile_entry slot i st = add_if (ob_get slot (slotKey i NEXT) = None) Error ''start_unconnected'' i NEXT st"

definition compile_play :: "IvrNode list \<Rightarrow> slots_map \<Rightarrow> CompileContext \<Rightarrow> string \<Rightarrow> obj \<Rightarrow> CompileState \<Rightarrow> CompileState" where
  "compile_play nodes slot ctx i c st =
     (let prompts = cfg_ids c ''prompts'';
          st = add_if (prompts = []) Error ''play_no_prompts'' i '''' st;
          st = takePrompts ctx prompts i st;
          st = exitWarning slot i NEXT st;
          (next, st) = ptr nodes slot i NEXT st
      in plan_set i (PPlay prompts next) st)"

text \<open>The loop over a menu's keys.\<close>

fun menu_keys :: "IvrNode list \<Rightarrow> slots_map \<Rightarrow> string \<Rightarrow> MenuDigit list \<Rightarrow> (string \<times> PlanRef) list \<Rightarrow> CompileState
    \<Rightarrow> (string \<times> PlanRef) list \<times> CompileState" where
  "menu_keys nodes slot i [] m st = (m, st)"
| "menu_keys nodes slot i (d # ds) m st =
     (let h = digitHandle d;
          st = add_if (ob_get slot (slotKey i h) = None) Error ''menu_key_unconnected'' i h st;
          (r, st) = ptr nodes slot i h st
      in menu_keys nodes slot i ds (ob_set m d r) st)"

definition compile_menu :: "IvrNode list \<Rightarrow> slots_map \<Rightarrow> CompileContext \<Rightarrow> string \<Rightarrow> obj \<Rightarrow> CompileState \<Rightarrow> CompileState" where
  "compile_menu nodes slot ctx i c st =
     (let prompts = cfg_ids c ''prompts'';
          st = add_if (prompts = []) Error ''menu_no_prompts'' i '''' st;
          digits = filter isMenuDigit (strs (ob_get c ''digits''));
          st = add_if (length digits < digitsMin LIMITS) Error ''menu_no_keys'' i '''' st;
          st = add_if (length digits > digitsMax LIMITS) Error ''menu_too_many_keys'' i '''' st;
          st = add_if (card (set digits) \<noteq> length digits) Error ''menu_duplicate_key'' i '''' st;
          timeoutSec = cfg_num c ''timeoutSec'';
          st = add_if (\<not> (timeoutSec_min LIMITS \<le> timeoutSec \<and> timeoutSec \<le> timeoutSec_max LIMITS))
                 Error ''menu_timeout'' i '''' st;
          retries = cfg_num c ''retries'';
          st = add_if (\<not> (isInteger (Fin retries) \<and> retries_min LIMITS \<le> retries \<and> retries \<le> retries_max LIMITS))
                 Error ''menu_retries'' i '''' st;
          (m, st) = menu_keys nodes slot i digits [] st;
          st = exitWarning slot i NO_INPUT st;
          st = exitWarning slot i NO_MATCH st;
          st = takePrompts ctx prompts i st;
          invalid = cfg_ids c ''invalidPrompts'';
          st = takePrompts ctx invalid i st;
          noinput = cfg_ids c ''noInputPrompts'';
          st = takePrompts ctx noinput i st;
          (on_noinput, st) = ptr nodes slot i NO_INPUT st;
          (on_nomatch, st) = ptr nodes slot i NO_MATCH st
      in plan_set i (PMenu prompts m (round_half_up (timeoutSec * 1000)) retries invalid noinput on_noinput on_nomatch) st)"

text \<open>One range of a day, and one day.\<close>

definition check_range :: "string \<Rightarrow> string \<times> string \<Rightarrow> (nat \<times> nat) list \<times> CompileState \<Rightarrow> (nat \<times> nat) list \<times> CompileState" where
  "check_range i r acc =
     (let (mins, st) = acc in
      case (toMinutes (fst r), toMinutes (snd r)) of
        (Some s, Some e) \<Rightarrow>
          if s = 1440 then (mins, add Error ''hours_bad_time'' i '''' st)
          else if s \<ge> e then (mins, add Error ''hours_backwards'' i '''' st)
          else (mins @ [(s, e)], st)
      | _ \<Rightarrow> (mins, add Error ''hours_bad_time'' i '''' st))"

definition check_day :: "string \<Rightarrow> obj \<Rightarrow> string \<Rightarrow> (string \<times> (nat \<times> nat) list) list \<times> CompileState
    \<Rightarrow> (string \<times> (nat \<times> nat) list) list \<times> CompileState" where
  "check_day i c day acc =
     (let (weekly, st) = acc;
          ranges = cfg_day c day;
          st = add_if (length ranges > rangesPerDay LIMITS) Error ''hours_too_many'' i '''' st;
          (mins, st) = fold (check_range i) ranges ([], st)
      in (weekly @ [(day, mergeRanges mins)], st))"

definition compile_schedule :: "IvrNode list \<Rightarrow> slots_map \<Rightarrow> string \<Rightarrow> obj \<Rightarrow> CompileState \<Rightarrow> CompileState" where
  "compile_schedule nodes slot i c st =
     (let tz = cfg_str c ''tz'';
          st = add_if (\<not> isIvrTimezone tz) Error ''hours_timezone'' i '''' st;
          (weekly, st) = fold (check_day i c) DAY_KEYS ([], st);
          st = add_if (\<not> list_ex (\<lambda>d. snd d \<noteq> []) weekly) Warning ''hours_never_open'' i '''' st;
          dates = sort (remdups (strs (ob_get c ''closedDates'')));
          st = fold (\<lambda>d st. add_if (\<not> isRealDate d) Error ''hours_bad_date'' i '''' st) dates st;
          st = exitWarning slot i OPEN st;
          st = exitWarning slot i CLOSED st;
          (open', st) = ptr nodes slot i OPEN st;
          (closed', st) = ptr nodes slot i CLOSED st
      in plan_set i (PHours tz weekly (filter isRealDate dates) open' closed') st)"

definition caller_mode :: "string \<Rightarrow> CallerMode" where
  "caller_mode mode = (if mode = ''equals'' then ModeEquals else ModePrefix)"

definition compile_condition :: "IvrNode list \<Rightarrow> slots_map \<Rightarrow> string \<Rightarrow> obj \<Rightarrow> CompileState \<Rightarrow> CompileState" where
  "compile_condition nodes slot i c st =
     (let mode = cfg_str c ''mode'';
          values = strs (ob_get c ''values'');
          st = (if mode = ''anonymous''
                then add_if (values \<noteq> []) Warning ''caller_values_ignored'' i '''' st
                else
                  (let st = add_if (length values < conditionValues_min LIMITS) Error ''caller_no_values'' i '''' st;
                       st = add_if (length values > conditionValues_max LIMITS) Error ''caller_too_many'' i '''' st
                   in fold (\<lambda>v st. add_if (callerValueProblem v (caller_mode mode) \<noteq> None) Error ''caller_bad_value'' i '''' st)
                        values st));
          st = exitWarning slot i MATCH st;
          st = exitWarning slot i NO_MATCH st;
          (m, st) = ptr nodes slot i MATCH st;
          (nm, st) = ptr nodes slot i NO_MATCH st
      in plan_set i (PCaller mode (if mode = ''anonymous'' then [] else values) m nm) st)"

definition own_dest :: "CompileContext \<Rightarrow> string \<Rightarrow> string \<Rightarrow> CompileState \<Rightarrow> TransferDest option \<times> CompileState" where
  "own_dest ctx i did st =
     (if did = '''' then (None, add Error ''transfer_no_target'' i '''' st)
      else if did \<in> set (cx_ownDids ctx) then (None, add Error ''transfer_self'' i '''' st)
      else
        (let own = findOwn did (cx_destinations ctx);
             st = (if cx_destinations ctx \<noteq> None \<and> own = None then add Error ''transfer_not_owned'' i '''' st
                   else add_if (case own of Some (g, n) \<Rightarrow> \<not> dn_enabled n | None \<Rightarrow> False)
                          Warning ''transfer_target_off'' i '''' st)
         in (Some (ToOwn did (ownProduct did (cx_destinations ctx))), st)))"

definition external_dest :: "string \<Rightarrow> string \<Rightarrow> CompileState \<Rightarrow> TransferDest option \<times> CompileState" where
  "external_dest i number st =
     (let check = checkExternalNumber number in
      case ec_problem check of
        Some p \<Rightarrow> (None, add Error (''transfer_'' @ problem_name p) i '''' st)
      | None \<Rightarrow> (map_option ToExternal (ec_e164 check), st))"

definition compile_dial :: "IvrNode list \<Rightarrow> slots_map \<Rightarrow> CompileContext \<Rightarrow> string \<Rightarrow> obj \<Rightarrow> CompileState \<Rightarrow> CompileState" where
  "compile_dial nodes slot ctx i c st =
     (let target = record_or_empty (ob_get c ''target'');
          (dest, st) = (if ob_get target ''kind'' = Some (JStr ''own'')
                        then own_dest ctx i (cfg_str target ''did'') st
                        else external_dest i (cfg_str target ''number'') st);
          ring = cfg_num c ''ringTimeoutSec'';
          st = add_if (\<not> (ringTimeoutSec_min LIMITS \<le> ring \<and> ring \<le> ringTimeoutSec_max LIMITS))
                 Error ''transfer_ring_time'' i '''' st;
          st = exitWarning slot i NO_ANSWER st
      in case dest of
           None \<Rightarrow> st
         | Some d \<Rightarrow>
             (let (on_noanswer, st) = ptr nodes slot i NO_ANSWER st
              in plan_set i (PTransfer d (ob_get c ''passCallerId'' = Some (JBool True)) ring on_noanswer) st))"

definition compile_voicemail :: "CompileContext \<Rightarrow> string \<Rightarrow> obj \<Rightarrow> CompileState \<Rightarrow> CompileState" where
  "compile_voicemail ctx i c st =
     (let did = cfg_str c ''did'' in
      if did = '''' then add Error ''voicemail_no_box'' i '''' st
      else
        (let own = findOwn did (cx_destinations ctx);
             st = (if cx_destinations ctx \<noteq> None \<and> (case own of None \<Rightarrow> True | Some (g, n) \<Rightarrow> dgr_product g \<noteq> VoicemailBox)
                   then add Error ''voicemail_not_owned'' i '''' st
                   else add_if (case own of Some (g, n) \<Rightarrow> \<not> dn_enabled n | None \<Rightarrow> False)
                          Warning ''voicemail_off'' i '''' st)
         in plan_set i (PVoicemail did) st))"

definition compile_goto :: "IvrNode list \<Rightarrow> string \<Rightarrow> obj \<Rightarrow> CompileState \<Rightarrow> CompileState" where
  "compile_goto nodes i c st =
     (let target = goto_target c in
      if target = '''' then add Error ''goto_no_target'' i '''' st
      else case byId nodes target of
        None \<Rightarrow> add Error ''goto_missing'' i '''' st
      | Some t \<Rightarrow>
          if is_type Entry t then add Error ''goto_start'' i '''' st
          else add_if (node_id t = i) Error ''goto_self'' i '''' st)"

definition compile_hangup :: "CompileContext \<Rightarrow> string \<Rightarrow> obj \<Rightarrow> CompileState \<Rightarrow> CompileState" where
  "compile_hangup ctx i c st =
     (let prompts = cfg_ids c ''prompts''; st = takePrompts ctx prompts i st in plan_set i (PHangup prompts) st)"

text \<open>The body of the loop over the blocks: unreachable blocks are skipped, and a block of no known
  type matches no case of the switch.\<close>

fun compile_block :: "IvrNode list \<Rightarrow> slots_map \<Rightarrow> CompileContext \<Rightarrow> string set \<Rightarrow> IvrNode \<Rightarrow> CompileState \<Rightarrow> CompileState" where
  "compile_block nodes slot ctx reachable (Foreign ob) st = st"
| "compile_block nodes slot ctx reachable (Known n) st =
     (if n_id n \<notin> reachable then st
      else case n_type n of
        Entry \<Rightarrow> compile_entry slot (n_id n) st
      | Play \<Rightarrow> compile_play nodes slot ctx (n_id n) (n_config n) st
      | Menu \<Rightarrow> compile_menu nodes slot ctx (n_id n) (n_config n) st
      | Schedule \<Rightarrow> compile_schedule nodes slot (n_id n) (n_config n) st
      | Condition \<Rightarrow> compile_condition nodes slot (n_id n) (n_config n) st
      | Dial \<Rightarrow> compile_dial nodes slot ctx (n_id n) (n_config n) st
      | Voicemail \<Rightarrow> compile_voicemail ctx (n_id n) (n_config n) st
      | Goto \<Rightarrow> compile_goto nodes (n_id n) (n_config n) st
      | Hangup \<Rightarrow> compile_hangup ctx (n_id n) (n_config n) st)"

text \<open>Resolving once more for loops among Go to blocks.\<close>

fun recheck_goto :: "IvrNode list \<Rightarrow> string set \<Rightarrow> IvrNode \<Rightarrow> CompileState \<Rightarrow> CompileState" where
  "recheck_goto nodes reachable (Known n) st =
     (if n_type n = Goto \<and> n_id n \<in> reachable then snd (resolve nodes (Some (n_id n)) st) else st)"
| "recheck_goto nodes reachable (Foreign ob) st = st"

section \<open>Compile\<close>

definition graph_rules :: "IvrNode list \<Rightarrow> CompileContext \<Rightarrow> CompileState \<Rightarrow> CompileState" where
  "graph_rules nodes ctx st =
     (let maxBlocks = (case cx_maxBlocks ctx of Some m \<Rightarrow> m | None \<Rightarrow> limit_blocks LIMITS);
          st = add_if (length nodes > maxBlocks) Error ''too_many_blocks'' '''' '''' st;
          st = fold (\<lambda>n st. add_if (\<not> ID_RE (node_id n)) Error ''bad_id'' (node_id n) '''' st) nodes st;
          entries = filter (is_type Entry) nodes;
          st = add_if (entries = []) Error ''no_start'' '''' '''' st
      in fold (\<lambda>n. add Error ''extra_start'' (node_id n) '''') (tl entries) st)"

definition compile_blocks :: "IvrNode list \<Rightarrow> slots_map \<Rightarrow> CompileContext \<Rightarrow> string set \<Rightarrow> CompileState \<Rightarrow> CompileState" where
  "compile_blocks nodes slot ctx reachable st =
     (let st = fold (compile_block nodes slot ctx reachable) nodes st;
          st = fold (recheck_goto nodes reachable) nodes st
      in fold (\<lambda>i. add Error ''goto_loop'' i '''') (cs_goto st) st)"

definition start_ref :: "IvrNode list \<Rightarrow> slots_map \<Rightarrow> PlanRef" where
  "start_ref nodes slot = (case List.find (is_type Entry) nodes of
     None \<Rightarrow> None
   | Some entry \<Rightarrow> fst (resolve_loop nodes [] (ob_get slot (slotKey (node_id entry) NEXT))))"

definition compileIvr :: "IvrGraph \<Rightarrow> CompileContext \<Rightarrow> JsError + CompileResult" where
  "compileIvr g ctx =
     (let nodes = g_nodes g;
          st0 = \<lparr>cs_issues = [], cs_prompts = [], cs_goto = [], cs_plan = []\<rparr>
      in case read_slots nodes (g_edges g) [] (graph_rules nodes ctx st0) of
           Inl err \<Rightarrow> Inl err
         | Inr (slot, st) \<Rightarrow>
      case (case List.find (is_type Entry) nodes of
              None \<Rightarrow> Inr {} | Some entry \<Rightarrow> reach_loop nodes slot [node_id entry] {}) of
           Inl err \<Rightarrow> Inl err
         | Inr reachable \<Rightarrow>
      case report_unreachable reachable nodes st of
           Inl err \<Rightarrow> Inl err
         | Inr st \<Rightarrow>
             (let st = compile_blocks nodes slot ctx reachable st
              in Inr \<lparr>cr_ok = \<not> list_ex (\<lambda>i. is_severity i = Error) (cs_issues st),
                      cr_issues = cs_issues st,
                      cr_plan = \<lparr>pl_start = start_ref nodes slot, pl_max_steps = 200, pl_max_seconds = 1800,
                                 pl_prompts = cs_prompts st, pl_nodes = cs_plan st\<rparr>,
                      cr_reachable = reachable\<rparr>))"

end
