(* ===== verification/Compile_Laws.thy ===== *)
theory Compile_Laws
  imports Compile
begin

text \<open>
  The compiler's steps, one by one: what each leaves in the plan, the prompt list and the list of
  Go to circles, and whether it adds an error (\<open>clean\<close>). \<open>plan_of\<close> and \<open>block_ok\<close> say, without any
  state, what a block compiles to and what is asked of it; \<open>compile_block_effect\<close> shows that the code's
  handlers do exactly that.
\<close>

named_theorems compile_simps \<open>effects of the compile steps on each part of the state\<close>

section \<open>Effects of the steps\<close>

definition clean :: "CompileState \<Rightarrow> bool" where
  "clean st \<longleftrightarrow> \<not> list_ex (\<lambda>i. is_severity i = Error) (cs_issues st)"

lemma add_simps [compile_simps]:
  "clean (add sev code i h st) \<longleftrightarrow> sev \<noteq> Error \<and> clean st"
  "cs_plan (add sev code i h st) = cs_plan st" "cs_prompts (add sev code i h st) = cs_prompts st"
  "cs_goto (add sev code i h st) = cs_goto st"
  by (auto simp: add_def clean_def issue_def)

lemma add_if_simps [compile_simps]:
  "clean (add_if b sev code i h st) \<longleftrightarrow> (b \<longrightarrow> sev \<noteq> Error) \<and> clean st"
  "cs_plan (add_if b sev code i h st) = cs_plan st" "cs_prompts (add_if b sev code i h st) = cs_prompts st"
  "cs_goto (add_if b sev code i h st) = cs_goto st"
  by (auto simp: add_if_def compile_simps)

lemma plan_set_simps [compile_simps]:
  "clean (plan_set i p st) = clean st" "cs_plan (plan_set i p st) = ob_set (cs_plan st) i p"
  "cs_prompts (plan_set i p st) = cs_prompts st" "cs_goto (plan_set i p st) = cs_goto st"
  by (simp_all add: plan_set_def clean_def)

text \<open>\<open>xs\<close> added one by one to \<open>ys\<close>, unless already there.\<close>

definition add_new :: "'a list \<Rightarrow> 'a list \<Rightarrow> 'a list" where
  "add_new xs ys = fold (\<lambda>x ys. if x \<in> set ys then ys else ys @ [x]) xs ys"

lemma add_new_simps [simp]: "add_new [] ys = ys"
  "add_new (x # xs) ys = add_new xs (if x \<in> set ys then ys else ys @ [x])"
  by (simp_all add: add_new_def)

lemma set_add_new [simp]: "set (add_new xs ys) = set xs \<union> set ys"
  by (induction xs arbitrary: ys) auto

lemma distinct_add_new [simp]: "distinct ys \<Longrightarrow> distinct (add_new xs ys)"
  by (induction xs arbitrary: ys) auto

lemma mark_goto_simps [compile_simps]:
  "clean (mark_goto gs st) = clean st" "cs_plan (mark_goto gs st) = cs_plan st"
  "cs_prompts (mark_goto gs st) = cs_prompts st" "cs_goto (mark_goto gs st) = add_new gs (cs_goto st)"
  by (simp_all add: mark_goto_def clean_def add_new_def)

text \<open>The pointer of an exit, and the circle met on the way to it.\<close>

definition pointer :: "IvrNode list \<Rightarrow> slots_map \<Rightarrow> string \<Rightarrow> string \<Rightarrow> PlanRef" where
  "pointer nodes slot i h = fst (resolve_loop nodes [] (ob_get slot (slotKey i h)))"

definition circle :: "IvrNode list \<Rightarrow> slots_map \<Rightarrow> string \<Rightarrow> string \<Rightarrow> string list" where
  "circle nodes slot i h = snd (resolve_loop nodes [] (ob_get slot (slotKey i h)))"

lemma ptr_eq [compile_simps]: "ptr nodes slot i h st = (pointer nodes slot i h, mark_goto (circle nodes slot i h) st)"
  by (simp add: ptr_def resolve_def pointer_def circle_def split_beta Let_def)

definition prompts_ok :: "CompileContext \<Rightarrow> PromptId list \<Rightarrow> bool" where
  "prompts_ok ctx ps \<longleftrightarrow> length ps \<le> promptsPerBlock LIMITS
     \<and> (case cx_prompts ctx of Some live \<Rightarrow> set ps \<subseteq> set live | None \<Rightarrow> True)"

lemma clean_prompts [simp]: "clean (st\<lparr>cs_prompts := x\<rparr>) = clean st"
  by (simp add: clean_def)

lemma fold_take_prompt:
  "clean (fold (take_prompt ctx i) ps st) \<longleftrightarrow> clean st \<and> (case cx_prompts ctx of Some live \<Rightarrow> set ps \<subseteq> set live | None \<Rightarrow> True)"
  "cs_plan (fold (take_prompt ctx i) ps st) = cs_plan st"
  "cs_prompts (fold (take_prompt ctx i) ps st) = add_new ps (cs_prompts st)"
  "cs_goto (fold (take_prompt ctx i) ps st) = cs_goto st"
proof -
  have step: "clean (take_prompt ctx i p st) \<longleftrightarrow> clean st \<and> (case cx_prompts ctx of Some live \<Rightarrow> p \<in> set live | None \<Rightarrow> True)"
    "cs_plan (take_prompt ctx i p st) = cs_plan st" "cs_goto (take_prompt ctx i p st) = cs_goto st"
    "cs_prompts (take_prompt ctx i p st) = (if p \<in> set (cs_prompts st) then cs_prompts st else cs_prompts st @ [p])" for p st
    by (auto simp: take_prompt_def Let_def compile_simps split: option.splits)
  show "clean (fold (take_prompt ctx i) ps st) \<longleftrightarrow> clean st \<and> (case cx_prompts ctx of Some live \<Rightarrow> set ps \<subseteq> set live | None \<Rightarrow> True)"
    by (induction ps arbitrary: st) (auto simp: step split: option.splits)
  show "cs_plan (fold (take_prompt ctx i) ps st) = cs_plan st" by (induction ps arbitrary: st) (simp_all add: step)
  show "cs_prompts (fold (take_prompt ctx i) ps st) = add_new ps (cs_prompts st)"
    by (induction ps arbitrary: st) (simp_all add: step)
  show "cs_goto (fold (take_prompt ctx i) ps st) = cs_goto st" by (induction ps arbitrary: st) (simp_all add: step)
qed

lemma takePrompts_simps [compile_simps]:
  "clean (takePrompts ctx ps i st) \<longleftrightarrow> prompts_ok ctx ps \<and> clean st"
  "cs_plan (takePrompts ctx ps i st) = cs_plan st"
  "cs_prompts (takePrompts ctx ps i st) = add_new ps (cs_prompts st)"
  "cs_goto (takePrompts ctx ps i st) = cs_goto st"
  by (auto simp: takePrompts_def prompts_ok_def fold_take_prompt compile_simps split: option.splits)

lemma exitWarning_simps [compile_simps]:
  "clean (exitWarning slot i h st) = clean st" "cs_plan (exitWarning slot i h st) = cs_plan st"
  "cs_prompts (exitWarning slot i h st) = cs_prompts st" "cs_goto (exitWarning slot i h st) = cs_goto st"
  by (simp_all add: exitWarning_def compile_simps)

abbreviation connected :: "slots_map \<Rightarrow> string \<Rightarrow> string \<Rightarrow> bool" where
  "connected slot i h \<equiv> ob_get slot (slotKey i h) \<noteq> None"

lemma menu_keys_simps [compile_simps]:
  "fst (menu_keys nodes slot i ds m st) = fold (\<lambda>d m. ob_set m d (pointer nodes slot i (digitHandle d))) ds m"
  "clean (snd (menu_keys nodes slot i ds m st)) \<longleftrightarrow> (\<forall>d \<in> set ds. connected slot i (digitHandle d)) \<and> clean st"
  "cs_plan (snd (menu_keys nodes slot i ds m st)) = cs_plan st"
  "cs_prompts (snd (menu_keys nodes slot i ds m st)) = cs_prompts st"
  "set (cs_goto (snd (menu_keys nodes slot i ds m st))) =
     set (cs_goto st) \<union> (\<Union>d \<in> set ds. set (circle nodes slot i (digitHandle d)))"
  by (induction ds arbitrary: m st) (auto simp: Let_def compile_simps)

text \<open>A range of opening hours that the compiler takes.\<close>

definition good_range :: "string \<times> string \<Rightarrow> (nat \<times> nat) option" where
  "good_range r = (case (toMinutes (fst r), toMinutes (snd r)) of
     (Some s, Some e) \<Rightarrow> if s \<noteq> 1440 \<and> s < e then Some (s, e) else None
   | _ \<Rightarrow> None)"

lemma fold_check_range:
  "fst (fold (check_range i) rs (mins, st)) = mins @ List.map_filter good_range rs"
  "clean (snd (fold (check_range i) rs (mins, st))) \<longleftrightarrow> (\<forall>r \<in> set rs. good_range r \<noteq> None) \<and> clean st"
  "cs_plan (snd (fold (check_range i) rs (mins, st))) = cs_plan st"
  "cs_prompts (snd (fold (check_range i) rs (mins, st))) = cs_prompts st"
  "cs_goto (snd (fold (check_range i) rs (mins, st))) = cs_goto st"
proof -
  have step: "\<exists>st'. check_range i r (mins, st) = (mins @ (case good_range r of Some m \<Rightarrow> [m] | None \<Rightarrow> []), st')
      \<and> (clean st' \<longleftrightarrow> good_range r \<noteq> None \<and> clean st) \<and> cs_plan st' = cs_plan st \<and> cs_prompts st' = cs_prompts st
      \<and> cs_goto st' = cs_goto st" for r mins st
    by (auto simp: check_range_def good_range_def compile_simps split: option.splits)
  have "\<exists>st'. fold (check_range i) rs (mins, st) = (mins @ List.map_filter good_range rs, st')
      \<and> (clean st' \<longleftrightarrow> (\<forall>r \<in> set rs. good_range r \<noteq> None) \<and> clean st) \<and> cs_plan st' = cs_plan st
      \<and> cs_prompts st' = cs_prompts st \<and> cs_goto st' = cs_goto st"
  proof (induction rs arbitrary: mins st)
    case (Cons r rs)
    obtain st1 where 1: "check_range i r (mins, st) = (mins @ (case good_range r of Some m \<Rightarrow> [m] | None \<Rightarrow> []), st1)"
      "clean st1 \<longleftrightarrow> good_range r \<noteq> None \<and> clean st" "cs_plan st1 = cs_plan st" "cs_prompts st1 = cs_prompts st" "cs_goto st1 = cs_goto st"
      using step by blast
    from Cons.IH [of "mins @ (case good_range r of Some m \<Rightarrow> [m] | None \<Rightarrow> [])" st1] 1 show ?case
      by (auto simp: map_filter_simps split: option.splits)
  qed (simp add: map_filter_simps)
  then show "fst (fold (check_range i) rs (mins, st)) = mins @ List.map_filter good_range rs"
    "clean (snd (fold (check_range i) rs (mins, st))) \<longleftrightarrow> (\<forall>r \<in> set rs. good_range r \<noteq> None) \<and> clean st"
    "cs_plan (snd (fold (check_range i) rs (mins, st))) = cs_plan st"
    "cs_prompts (snd (fold (check_range i) rs (mins, st))) = cs_prompts st"
    "cs_goto (snd (fold (check_range i) rs (mins, st))) = cs_goto st"
    by auto
qed

definition day_plan :: "obj \<Rightarrow> string \<Rightarrow> (nat \<times> nat) list" where
  "day_plan c day = mergeRanges (List.map_filter good_range (cfg_day c day))"

definition day_ok :: "obj \<Rightarrow> string \<Rightarrow> bool" where
  "day_ok c day \<longleftrightarrow> length (cfg_day c day) \<le> rangesPerDay LIMITS \<and> (\<forall>r \<in> set (cfg_day c day). good_range r \<noteq> None)"

lemma fold_check_day [compile_simps]:
  "fst (fold (check_day i c) days (weekly, st)) = weekly @ map (\<lambda>day. (day, day_plan c day)) days"
  "clean (snd (fold (check_day i c) days (weekly, st))) \<longleftrightarrow> (\<forall>day \<in> set days. day_ok c day) \<and> clean st"
  "cs_plan (snd (fold (check_day i c) days (weekly, st))) = cs_plan st"
  "cs_prompts (snd (fold (check_day i c) days (weekly, st))) = cs_prompts st"
  "cs_goto (snd (fold (check_day i c) days (weekly, st))) = cs_goto st"
proof -
  have step: "\<exists>st'. check_day i c day (weekly, st) = (weekly @ [(day, day_plan c day)], st')
      \<and> (clean st' \<longleftrightarrow> day_ok c day \<and> clean st) \<and> cs_plan st' = cs_plan st \<and> cs_prompts st' = cs_prompts st
      \<and> cs_goto st' = cs_goto st" for day weekly st
    by (auto simp: check_day_def day_plan_def day_ok_def compile_simps fold_check_range split_beta Let_def)
  have "\<exists>st'. fold (check_day i c) days (weekly, st) = (weekly @ map (\<lambda>day. (day, day_plan c day)) days, st')
      \<and> (clean st' \<longleftrightarrow> (\<forall>day \<in> set days. day_ok c day) \<and> clean st) \<and> cs_plan st' = cs_plan st
      \<and> cs_prompts st' = cs_prompts st \<and> cs_goto st' = cs_goto st"
  proof (induction days arbitrary: weekly st)
    case (Cons day days)
    obtain st1 where "check_day i c day (weekly, st) = (weekly @ [(day, day_plan c day)], st1)"
      "clean st1 \<longleftrightarrow> day_ok c day \<and> clean st" "cs_plan st1 = cs_plan st" "cs_prompts st1 = cs_prompts st" "cs_goto st1 = cs_goto st"
      using step by blast
    with Cons.IH [of "weekly @ [(day, day_plan c day)]" st1] show ?case by auto
  qed simp
  then show "fst (fold (check_day i c) days (weekly, st)) = weekly @ map (\<lambda>day. (day, day_plan c day)) days"
    "clean (snd (fold (check_day i c) days (weekly, st))) \<longleftrightarrow> (\<forall>day \<in> set days. day_ok c day) \<and> clean st"
    "cs_plan (snd (fold (check_day i c) days (weekly, st))) = cs_plan st"
    "cs_prompts (snd (fold (check_day i c) days (weekly, st))) = cs_prompts st"
    "cs_goto (snd (fold (check_day i c) days (weekly, st))) = cs_goto st"
    by auto
qed

lemma fold_add_if [compile_simps]:
  "clean (fold (\<lambda>x st. add_if (P x) Error code (f x) h st) xs st) \<longleftrightarrow> (\<forall>x \<in> set xs. \<not> P x) \<and> clean st"
  "cs_plan (fold (\<lambda>x st. add_if (P x) Error code (f x) h st) xs st) = cs_plan st"
  "cs_prompts (fold (\<lambda>x st. add_if (P x) Error code (f x) h st) xs st) = cs_prompts st"
  "cs_goto (fold (\<lambda>x st. add_if (P x) Error code (f x) h st) xs st) = cs_goto st"
  by (induction xs arbitrary: st) (auto simp: compile_simps)

lemma fold_add [compile_simps]:
  "clean (fold (\<lambda>x. add Error code (f x) h) xs st) \<longleftrightarrow> xs = [] \<and> clean st"
  "cs_plan (fold (\<lambda>x. add Error code (f x) h) xs st) = cs_plan st"
  "cs_prompts (fold (\<lambda>x. add Error code (f x) h) xs st) = cs_prompts st"
  "cs_goto (fold (\<lambda>x. add Error code (f x) h) xs st) = cs_goto st"
  by (induction xs arbitrary: st) (auto simp: compile_simps)

section \<open>What a block compiles to\<close>

definition own_ok :: "CompileContext \<Rightarrow> string \<Rightarrow> bool" where
  "own_ok ctx did \<longleftrightarrow> did \<noteq> '''' \<and> did \<notin> set (cx_ownDids ctx)
     \<and> (cx_destinations ctx \<noteq> None \<longrightarrow> findOwn did (cx_destinations ctx) \<noteq> None)"

definition dial_dest :: "CompileContext \<Rightarrow> obj \<Rightarrow> TransferDest option" where
  "dial_dest ctx c =
     (let target = record_or_empty (ob_get c ''target'') in
      if ob_get target ''kind'' = Some (JStr ''own'')
      then (let did = cfg_str target ''did'' in
            if did = '''' \<or> did \<in> set (cx_ownDids ctx) then None
            else Some (ToOwn did (ownProduct did (cx_destinations ctx))))
      else (let check = checkExternalNumber (cfg_str target ''number'') in
            if ec_problem check = None then map_option ToExternal (ec_e164 check) else None))"

definition dial_ok :: "CompileContext \<Rightarrow> obj \<Rightarrow> bool" where
  "dial_ok ctx c \<longleftrightarrow>
     (let target = record_or_empty (ob_get c ''target''); ring = cfg_num c ''ringTimeoutSec'' in
      (if ob_get target ''kind'' = Some (JStr ''own'') then own_ok ctx (cfg_str target ''did'')
       else ec_problem (checkExternalNumber (cfg_str target ''number'')) = None)
      \<and> ringTimeoutSec_min LIMITS \<le> ring \<and> ring \<le> ringTimeoutSec_max LIMITS)"

definition menu_digits :: "obj \<Rightarrow> MenuDigit list" where
  "menu_digits c = filter isMenuDigit (strs (ob_get c ''digits''))"

text \<open>The plan node of a block, if it has one.\<close>

definition plan_of :: "IvrNode list \<Rightarrow> slots_map \<Rightarrow> CompileContext \<Rightarrow> NodeInput \<Rightarrow> PlanNode option" where
  "plan_of nodes slot ctx n =
     (let i = n_id n; c = n_config n; p = pointer nodes slot i in
      case n_type n of
        Entry \<Rightarrow> None
      | Play \<Rightarrow> Some (PPlay (cfg_ids c ''prompts'') (p NEXT))
      | Menu \<Rightarrow> Some (PMenu (cfg_ids c ''prompts'') (fold (\<lambda>d m. ob_set m d (p (digitHandle d))) (menu_digits c) [])
                 (round_half_up (cfg_num c ''timeoutSec'' * 1000)) (cfg_num c ''retries'')
                 (cfg_ids c ''invalidPrompts'') (cfg_ids c ''noInputPrompts'') (p NO_INPUT) (p NO_MATCH))
      | Schedule \<Rightarrow> Some (PHours (cfg_str c ''tz'') (map (\<lambda>day. (day, day_plan c day)) DAY_KEYS)
                 (filter isRealDate (sort (remdups (strs (ob_get c ''closedDates''))))) (p OPEN) (p CLOSED))
      | Condition \<Rightarrow> Some (PCaller (cfg_str c ''mode'')
                 (if cfg_str c ''mode'' = ''anonymous'' then [] else strs (ob_get c ''values'')) (p MATCH) (p NO_MATCH))
      | Dial \<Rightarrow> map_option (\<lambda>d. PTransfer d (ob_get c ''passCallerId'' = Some (JBool True))
                 (cfg_num c ''ringTimeoutSec'') (p NO_ANSWER)) (dial_dest ctx c)
      | Voicemail \<Rightarrow> if cfg_str c ''did'' = '''' then None else Some (PVoicemail (cfg_str c ''did''))
      | Goto \<Rightarrow> None
      | Hangup \<Rightarrow> Some (PHangup (cfg_ids c ''prompts'')))"

text \<open>What the compiler asks of a block before it accepts the flow.\<close>

definition block_ok :: "IvrNode list \<Rightarrow> slots_map \<Rightarrow> CompileContext \<Rightarrow> NodeInput \<Rightarrow> bool" where
  "block_ok nodes slot ctx n \<longleftrightarrow>
     (let i = n_id n; c = n_config n in
      case n_type n of
        Entry \<Rightarrow> connected slot i NEXT
      | Play \<Rightarrow> cfg_ids c ''prompts'' \<noteq> [] \<and> prompts_ok ctx (cfg_ids c ''prompts'')
      | Menu \<Rightarrow> cfg_ids c ''prompts'' \<noteq> [] \<and> prompts_ok ctx (cfg_ids c ''prompts'')
          \<and> prompts_ok ctx (cfg_ids c ''invalidPrompts'') \<and> prompts_ok ctx (cfg_ids c ''noInputPrompts'')
          \<and> digitsMin LIMITS \<le> length (menu_digits c) \<and> length (menu_digits c) \<le> digitsMax LIMITS
          \<and> distinct (menu_digits c) \<and> (\<forall>d \<in> set (menu_digits c). connected slot i (digitHandle d))
          \<and> timeoutSec_min LIMITS \<le> cfg_num c ''timeoutSec'' \<and> cfg_num c ''timeoutSec'' \<le> timeoutSec_max LIMITS
          \<and> isInteger (Fin (cfg_num c ''retries'')) \<and> retries_min LIMITS \<le> cfg_num c ''retries''
          \<and> cfg_num c ''retries'' \<le> retries_max LIMITS
      | Schedule \<Rightarrow> isIvrTimezone (cfg_str c ''tz'') \<and> (\<forall>day \<in> set DAY_KEYS. day_ok c day)
          \<and> (\<forall>d \<in> set (strs (ob_get c ''closedDates'')). isRealDate d)
      | Condition \<Rightarrow> cfg_str c ''mode'' = ''anonymous''
          \<or> conditionValues_min LIMITS \<le> length (strs (ob_get c ''values''))
            \<and> length (strs (ob_get c ''values'')) \<le> conditionValues_max LIMITS
            \<and> (\<forall>v \<in> set (strs (ob_get c ''values'')). callerValueProblem v (caller_mode (cfg_str c ''mode'')) = None)
      | Dial \<Rightarrow> dial_ok ctx c
      | Voicemail \<Rightarrow> cfg_str c ''did'' \<noteq> ''''
          \<and> (cx_destinations ctx \<noteq> None \<longrightarrow>
               (\<exists>g m. findOwn (cfg_str c ''did'') (cx_destinations ctx) = Some (g, m) \<and> dgr_product g = VoicemailBox))
      | Goto \<Rightarrow> goto_target c \<noteq> ''''
          \<and> (\<exists>t. byId nodes (goto_target c) = Some t \<and> \<not> is_type Entry t \<and> node_id t \<noteq> i)
      | Hangup \<Rightarrow> prompts_ok ctx (cfg_ids c ''prompts''))"

text \<open>The exits whose pointers a block's plan node follows, and the prompts it names.\<close>

definition block_prompts :: "NodeInput \<Rightarrow> PromptId list" where
  "block_prompts n = (case n_type n of
     Play \<Rightarrow> cfg_ids (n_config n) ''prompts''
   | Menu \<Rightarrow> cfg_ids (n_config n) ''prompts'' @ cfg_ids (n_config n) ''invalidPrompts'' @ cfg_ids (n_config n) ''noInputPrompts''
   | Hangup \<Rightarrow> cfg_ids (n_config n) ''prompts''
   | _ \<Rightarrow> [])"

lemma add_new_append: "add_new (xs @ ys) zs = add_new ys (add_new xs zs)"
  by (simp add: add_new_def)

lemma own_dest_simps [compile_simps]:
  "fst (own_dest ctx i did st) =
     (if did = '''' \<or> did \<in> set (cx_ownDids ctx) then None else Some (ToOwn did (ownProduct did (cx_destinations ctx))))"
  "clean (snd (own_dest ctx i did st)) \<longleftrightarrow> own_ok ctx did \<and> clean st"
  "cs_plan (snd (own_dest ctx i did st)) = cs_plan st" "cs_prompts (snd (own_dest ctx i did st)) = cs_prompts st"
  "cs_goto (snd (own_dest ctx i did st)) = cs_goto st"
  by (auto simp: own_dest_def own_ok_def Let_def compile_simps)

lemma external_dest_simps [compile_simps]:
  "fst (external_dest i number st) =
     (let check = checkExternalNumber number in if ec_problem check = None then map_option ToExternal (ec_e164 check) else None)"
  "clean (snd (external_dest i number st)) \<longleftrightarrow> ec_problem (checkExternalNumber number) = None \<and> clean st"
  "cs_plan (snd (external_dest i number st)) = cs_plan st" "cs_prompts (snd (external_dest i number st)) = cs_prompts st"
  "cs_goto (snd (external_dest i number st)) = cs_goto st"
  by (auto simp: external_dest_def Let_def compile_simps split: option.splits)

definition set_plan :: "string \<Rightarrow> PlanNode option \<Rightarrow> (string \<times> PlanNode) list \<Rightarrow> (string \<times> PlanNode) list" where
  "set_plan i p plan = (case p of None \<Rightarrow> plan | Some q \<Rightarrow> ob_set plan i q)"

lemma compile_dial_simps [compile_simps]:
  "clean (compile_dial nodes slot ctx i c st) \<longleftrightarrow> dial_ok ctx c \<and> clean st"
  "cs_plan (compile_dial nodes slot ctx i c st) = set_plan i (map_option (\<lambda>d. PTransfer d (ob_get c ''passCallerId'' = Some (JBool True))
                 (cfg_num c ''ringTimeoutSec'') (pointer nodes slot i NO_ANSWER)) (dial_dest ctx c)) (cs_plan st)"
  "cs_prompts (compile_dial nodes slot ctx i c st) = cs_prompts st"
  unfolding compile_dial_def Let_def split_beta set_plan_def dial_ok_def dial_dest_def
  by (auto simp: compile_simps Let_def split: option.split)

lemma compile_block_effect:
  assumes "n_id n \<in> reachable"
  shows "clean (compile_block nodes slot ctx reachable (Known n) st) \<longleftrightarrow> block_ok nodes slot ctx n \<and> clean st"
    and "cs_plan (compile_block nodes slot ctx reachable (Known n) st) = set_plan (n_id n) (plan_of nodes slot ctx n) (cs_plan st)"
    and "cs_prompts (compile_block nodes slot ctx reachable (Known n) st) = add_new (block_prompts n) (cs_prompts st)"
proof -
  let ?f = "compile_block nodes slot ctx reachable (Known n) st"
  note defs = block_ok_def plan_of_def block_prompts_def set_plan_def Let_def compile_simps assms
  have dist: "card (set xs) = length xs \<longleftrightarrow> distinct xs" for xs :: "string list" by (metis card_distinct distinct_card)
  have "(clean ?f \<longleftrightarrow> block_ok nodes slot ctx n \<and> clean st)
    \<and> cs_plan ?f = set_plan (n_id n) (plan_of nodes slot ctx n) (cs_plan st)
    \<and> cs_prompts ?f = add_new (block_prompts n) (cs_prompts st)"
  proof (cases "n_type n")
    case Menu
    then show ?thesis by (auto simp: defs compile_menu_def menu_digits_def split_beta add_new_append dist not_less)
  next
    case Schedule
    then show ?thesis by (auto simp: defs compile_schedule_def split_beta)
  next
    case Condition
    then show ?thesis by (auto simp: defs compile_condition_def split_beta not_less)
  next
    case Voicemail
    then show ?thesis by (auto simp: defs compile_voicemail_def split: option.splits)
  next
    case Goto
    then show ?thesis by (auto simp: defs compile_goto_def split: option.splits)
  qed (auto simp: defs compile_entry_def compile_play_def compile_hangup_def split_beta)
  then show "clean ?f \<longleftrightarrow> block_ok nodes slot ctx n \<and> clean st"
    "cs_plan ?f = set_plan (n_id n) (plan_of nodes slot ctx n) (cs_plan st)"
    "cs_prompts ?f = add_new (block_prompts n) (cs_prompts st)" by blast+
qed

section \<open>All blocks\<close>

definition in_reach :: "string set \<Rightarrow> IvrNode list \<Rightarrow> NodeInput \<Rightarrow> bool" where
  "in_reach reachable ns n \<longleftrightarrow> Known n \<in> set ns \<and> n_id n \<in> reachable"

lemma compile_block_skip: "n_id n \<notin> reachable \<Longrightarrow> compile_block nodes slot ctx reachable (Known n) st = st"
  by simp

declare compile_block.simps(2) [simp del]

lemma clean_blocks:
  "clean (fold (compile_block nodes slot ctx reachable) ns st) \<longleftrightarrow>
     (\<forall>n. in_reach reachable ns n \<longrightarrow> block_ok nodes slot ctx n) \<and> clean st"
proof (induction ns arbitrary: st)
  case (Cons x ns)
  show ?case
  proof (cases x)
    case (Known n)
    then show ?thesis
      by (cases "n_id n \<in> reachable") (auto simp: Cons compile_block_skip compile_block_effect(1) in_reach_def)
  qed (auto simp: Cons in_reach_def)
qed (simp add: in_reach_def)

lemma get_set_plan: "ob_get (set_plan i p plan) k = (if k = i \<and> p \<noteq> None then p else ob_get plan k)"
  by (auto simp: set_plan_def ob_simps split: option.splits)

lemma plan_blocks:
  assumes "distinct (map node_id ns)"
  shows "ob_get (cs_plan (fold (compile_block nodes slot ctx reachable) ns st)) i =
     (case List.find (\<lambda>x. node_id x = i) ns of
        Some (Known n) \<Rightarrow> if i \<in> reachable \<and> plan_of nodes slot ctx n \<noteq> None then plan_of nodes slot ctx n else ob_get (cs_plan st) i
      | _ \<Rightarrow> ob_get (cs_plan st) i)"
  using assms
proof (induction ns arbitrary: st)
  case (Cons x ns)
  have fresh: "List.find (\<lambda>y. node_id y = i) ns = None" if "node_id x = i"
    unfolding find_None_all using Cons.prems that by (simp add: image_iff) metis
  show ?case
  proof (cases x)
    case (Known n)
    show ?thesis
    proof (cases "n_id n \<in> reachable")
      case True
      then show ?thesis using Cons fresh Known
        by (auto simp: compile_block_effect(2) get_set_plan split: option.splits IvrNode.splits)
    next
      case False
      then show ?thesis using Cons fresh Known
        by (auto simp: compile_block_skip split: option.splits IvrNode.splits)
    qed
  qed (use Cons fresh in \<open>auto split: option.splits IvrNode.splits\<close>)
qed simp

lemma keys_set_plan: "set (ob_keys (set_plan i p plan)) \<subseteq> insert i (set (ob_keys plan))"
  "distinct (ob_keys plan) \<Longrightarrow> distinct (ob_keys (set_plan i p plan))"
  by (auto simp: set_plan_def in_keys_set distinct_keys_set simp del: set_map split: option.splits)

lemma distinct_plan_blocks:
  "distinct (ob_keys (cs_plan st)) \<Longrightarrow> distinct (ob_keys (cs_plan (fold (compile_block nodes slot ctx reachable) ns st)))"
proof (induction ns arbitrary: st)
  case (Cons x ns)
  have "distinct (ob_keys (cs_plan (compile_block nodes slot ctx reachable x st)))"
  proof (cases x)
    case (Known n)
    then show ?thesis using Cons.prems
      by (cases "n_id n \<in> reachable") (simp_all add: compile_block_skip compile_block_effect(2) keys_set_plan(2))
  qed (use Cons.prems in simp)
  then show ?case using Cons.IH by simp
qed simp

lemma prompts_blocks:
  "distinct (cs_prompts st) \<Longrightarrow>
     distinct (cs_prompts (fold (compile_block nodes slot ctx reachable) ns st))
     \<and> set (cs_prompts (fold (compile_block nodes slot ctx reachable) ns st)) =
         set (cs_prompts st) \<union> (\<Union>n \<in> {n. in_reach reachable ns n}. set (block_prompts n))"
proof (induction ns arbitrary: st)
  case (Cons x ns)
  show ?case
  proof (cases x)
    case (Known n)
    have e: "{m. in_reach reachable (x # ns) m} = (if n_id n \<in> reachable then {n} else {}) \<union> {m. in_reach reachable ns m}"
      using Known by (auto simp: in_reach_def)
    show ?thesis unfolding e using Known Cons
      by (cases "n_id n \<in> reachable") (auto simp: compile_block_skip compile_block_effect(3))
  next
    case (Foreign ob)
    then have "{m. in_reach reachable (x # ns) m} = {m. in_reach reachable ns m}" by (auto simp: in_reach_def)
    then show ?thesis using Foreign Cons by simp
  qed
qed (auto simp: in_reach_def)

text \<open>Circles of Go to blocks are only met behind the exits of reachable blocks.\<close>

lemma goto_block:
  "set (cs_goto (compile_block nodes slot ctx reachable (Known n) st)) \<subseteq>
     set (cs_goto st) \<union> (if n_id n \<in> reachable then \<Union>h \<in> set (node_exits n). set (circle nodes slot (n_id n) h) else {})"
proof (cases "n_id n \<in> reachable")
  case True
  note defs = Let_def compile_simps split_beta True compile_block.simps(2)
  show ?thesis
  proof (cases "n_type n")
    case Menu
    have "set (menu_digits c) \<subseteq> set (sortDigits (strs (ob_get c ''digits'')))" for c
      by (auto simp: menu_digits_def set_sortDigits)
    then show ?thesis using Menu by (auto simp: defs compile_menu_def menu_digits_def [symmetric] handle_def)
  next
    case Dial
    then show ?thesis by (auto simp: defs compile_dial_def handle_def split: option.splits if_splits)
  next
    case Voicemail
    then show ?thesis by (auto simp: defs compile_voicemail_def split: option.splits)
  next
    case Goto
    then show ?thesis by (auto simp: defs compile_goto_def split: option.splits)
  qed (auto simp: defs compile_entry_def compile_play_def compile_schedule_def compile_condition_def compile_hangup_def handle_def)
qed (simp add: compile_block_skip)

lemma goto_blocks:
  "set (cs_goto (fold (compile_block nodes slot ctx reachable) ns st)) \<subseteq>
     set (cs_goto st) \<union> (\<Union>n \<in> {n. in_reach reachable ns n}. \<Union>h \<in> set (node_exits n). set (circle nodes slot (n_id n) h))"
proof (induction ns arbitrary: st)
  case (Cons x ns)
  show ?case
  proof (cases x)
    case (Known n)
    have e: "{m. in_reach reachable (x # ns) m} = (if n_id n \<in> reachable then {n} else {}) \<union> {m. in_reach reachable ns m}"
      using Known by (auto simp: in_reach_def)
    show ?thesis unfolding e
      using Cons [of "compile_block nodes slot ctx reachable x st"] goto_block [of nodes slot ctx reachable n st] Known
      by (simp split: if_splits) blast+
  next
    case (Foreign ob)
    then have "{m. in_reach reachable (x # ns) m} = {m. in_reach reachable ns m}" by (auto simp: in_reach_def)
    then show ?thesis using Foreign Cons by simp
  qed
qed (auto simp: in_reach_def)

definition goto_circle :: "IvrNode list \<Rightarrow> string \<Rightarrow> string list" where
  "goto_circle nodes i = snd (resolve_loop nodes [] (Some i))"

lemma recheck_blocks:
  "clean (fold (recheck_goto nodes reachable) ns st) = clean st"
  "cs_plan (fold (recheck_goto nodes reachable) ns st) = cs_plan st"
  "cs_prompts (fold (recheck_goto nodes reachable) ns st) = cs_prompts st"
  "set (cs_goto (fold (recheck_goto nodes reachable) ns st)) = set (cs_goto st)
     \<union> (\<Union>n \<in> {n. in_reach reachable ns n \<and> n_type n = Goto}. set (goto_circle nodes (n_id n)))"
proof -
  have step: "recheck_goto nodes reachable x st =
      (case x of Known n \<Rightarrow> if n_type n = Goto \<and> n_id n \<in> reachable then mark_goto (goto_circle nodes (n_id n)) st else st
       | Foreign ob \<Rightarrow> st)" for x st
    by (cases x) (simp_all add: resolve_def goto_circle_def split_beta Let_def)
  show "clean (fold (recheck_goto nodes reachable) ns st) = clean st"
    by (induction ns arbitrary: st) (simp_all add: step compile_simps split: IvrNode.splits)
  show "cs_plan (fold (recheck_goto nodes reachable) ns st) = cs_plan st"
    by (induction ns arbitrary: st) (simp_all add: step compile_simps split: IvrNode.splits)
  show "cs_prompts (fold (recheck_goto nodes reachable) ns st) = cs_prompts st"
    by (induction ns arbitrary: st) (simp_all add: step compile_simps split: IvrNode.splits)
  show "set (cs_goto (fold (recheck_goto nodes reachable) ns st)) = set (cs_goto st)
     \<union> (\<Union>n \<in> {n. in_reach reachable ns n \<and> n_type n = Goto}. set (goto_circle nodes (n_id n)))"
    by (induction ns arbitrary: st) (auto simp: step compile_simps in_reach_def split: IvrNode.splits)
qed

end
