(* ===== verification/Compile_Spec.thy ===== *)
theory Compile_Spec
  imports Compile_Laws
begin

text \<open>
  The compiler as a whole: which exits become slots, which blocks the search reaches (the stack loop
  interprets \<open>stack_search\<close>), where a chain of Go to blocks ends, what an accepted flow satisfies, and
  that the plan holds exactly the translations of the reachable blocks with every pointer leading to
  another node of it.
\<close>

section \<open>Slots\<close>

text \<open>Every slot is an exit its block has, connected to a block that is no Start.\<close>

definition slots_ok :: "IvrNode list \<Rightarrow> slots_map \<Rightarrow> bool" where
  "slots_ok nodes slot \<longleftrightarrow> (\<forall>k t. ob_get slot k = Some t \<longrightarrow>
     (\<exists>i h source target. k = slotKey i h \<and> byId nodes i = Some source \<and> byId nodes t = Some target
        \<and> \<not> is_type Entry target \<and> (\<exists>hs. node_handles source = Some hs \<and> h \<in> set hs)))"

lemma read_slots_ok: "read_slots nodes es slot st = Inr (slot', st') \<Longrightarrow> slots_ok nodes slot \<Longrightarrow> slots_ok nodes slot'"
proof (induction nodes es slot st rule: read_slots.induct)
  case (2 nodes e es slot st)
  show ?case
  proof (cases "byId nodes (e_source e)")
    case None
    then show ?thesis using 2 by simp
  next
    case (Some source)
    show ?thesis
    proof (cases "byId nodes (e_target e)")
      case None
      then show ?thesis using 2 Some by simp
    next
      case (Some target)
      note some = \<open>byId nodes (e_source e) = Some source\<close> Some
      show ?thesis
      proof (cases "is_type Entry target \<or> ob_get slot (slotKey (e_source e) (e_sourceHandle e)) \<noteq> None")
        case True
        then show ?thesis using 2 some by (auto simp: Let_def split: if_splits)
      next
        case False
        obtain hs where hs: "node_handles source = Some hs"
          using 2 some False by (cases "node_handles source") (simp_all add: Let_def)
        show ?thesis
        proof (cases "e_sourceHandle e \<in> set hs")
          case True
          have "slots_ok nodes (ob_set slot (slotKey (e_source e) (e_sourceHandle e)) (e_target e))"
            using "2.prems"(2) some False hs True unfolding slots_ok_def by (auto simp: ob_simps)
          then show ?thesis using 2 some False hs True by (simp add: Let_def)
        next
          case no: False
          then show ?thesis using 2 some False hs by (simp add: Let_def)
        qed
      qed
    qed
  qed
qed simp

lemma read_slots_clean:
  "read_slots nodes es slot st = Inr (slot', st') \<Longrightarrow>
     cs_plan st' = cs_plan st \<and> cs_prompts st' = cs_prompts st \<and> cs_goto st' = cs_goto st \<and> (clean st' \<longrightarrow> clean st)"
  by (induction nodes es slot st rule: read_slots.induct)
    (auto simp: compile_simps Let_def split: option.splits if_splits)

lemma read_slots_known: "\<forall>x \<in> set nodes. \<exists>n. x = Known n \<Longrightarrow> read_slots nodes es slot st \<noteq> Inl err"
proof (induction nodes es slot st rule: read_slots.induct)
  case (2 nodes e es slot st)
  have no: False if "byId nodes i = Some x" "node_handles x = None" for i x
    using byId_in [OF that(1)] that(2) "2.prems" by (cases x) fastforce+
  show ?case using 2 by (auto simp: Let_def split: option.splits if_splits dest: no)
qed simp

section \<open>Reachability\<close>

definition caller_steps :: "IvrNode list \<Rightarrow> slots_map \<Rightarrow> (string \<times> string) set" where
  "caller_steps nodes slot = {(i, t). \<exists>n. byId nodes i = Some (Known n) \<and> t \<in> set (pushed nodes slot n)}"

definition loop_succs :: "IvrNode list \<Rightarrow> slots_map \<Rightarrow> string \<Rightarrow> string list" where
  "loop_succs nodes slot i = (case byId nodes i of Some (Known n) \<Rightarrow> rev (pushed nodes slot n) | _ \<Rightarrow> [])"

definition is_foreign :: "IvrNode list \<Rightarrow> string \<Rightarrow> bool" where
  "is_foreign nodes i = (case byId nodes i of Some (Foreign ob) \<Rightarrow> True | _ \<Rightarrow> False)"

definition in_graph :: "IvrNode list \<Rightarrow> string \<Rightarrow> bool" where
  "in_graph nodes i \<longleftrightarrow> byId nodes i \<noteq> None"

interpretation reach: stack_search "loop_succs nodes slot" "in_graph nodes" "is_foreign nodes"
    "Inl TypeError" Inr "reach_loop nodes slot"
  for nodes :: "IvrNode list" and slot :: slots_map
  by unfold_locales (auto simp: loop_succs_def is_foreign_def in_graph_def split: option.splits IvrNode.splits)

declare reach_loop.simps(2) [simp del]
declare resolve_loop.simps [simp del]

lemma reach_steps: "reach.steps nodes slot = caller_steps nodes slot"
  by (auto simp: reach.steps_def caller_steps_def loop_succs_def in_graph_def split: option.splits IvrNode.splits)

lemma finite_caller_steps: "finite (caller_steps nodes slot)"
proof (rule finite_subset)
  let ?ids = "node_id ` set nodes"
  let ?ts = "\<Union>x \<in> set nodes. case x of Known n \<Rightarrow> set (pushed nodes slot n) | Foreign ob \<Rightarrow> {}"
  show "caller_steps nodes slot \<subseteq> ?ids \<times> ?ts"
    by (fastforce simp: caller_steps_def dest!: byId_in split: IvrNode.splits)
  show "finite (?ids \<times> ?ts)" by (auto split: IvrNode.splits)
qed

lemma reach_loop_result:
  "reach_loop nodes slot [i] {} =
     (if \<exists>t. (i, t) \<in> (caller_steps nodes slot)\<^sup>* \<and> is_foreign nodes t then Inl TypeError
      else Inr {t. (i, t) \<in> (caller_steps nodes slot)\<^sup>* \<and> in_graph nodes t})"
proof -
  have "(caller_steps nodes slot)\<^sup>* `` {i} \<subseteq> insert i (snd ` caller_steps nodes slot)"
    by (auto elim: rtranclE) (metis rtranclE snd_conv rev_image_eqI)
  then have "finite ((caller_steps nodes slot)\<^sup>* `` {i})"
    by (rule finite_subset) (simp add: finite_caller_steps)
  then have "finite (reach.reach nodes slot [i])" by (simp add: reach.reach_def reach_steps)
  from reach.run_from [OF this] show ?thesis unfolding reach_steps by simp
qed

section \<open>Go to chains\<close>

text \<open>From a block that is no Start, in a set closed under the caller's steps, whose Go to blocks
  are all in order, a chain without a circle ends at a block that is neither Start nor Go to.\<close>

lemma resolve_ends:
  assumes closed: "\<And>i t. i \<in> R \<Longrightarrow> (i, t) \<in> caller_steps nodes slot \<Longrightarrow> t \<in> R"
    and known: "\<And>i. i \<in> R \<Longrightarrow> \<exists>n. byId nodes i = Some (Known n)"
    and gotos: "\<And>i n. i \<in> R \<Longrightarrow> byId nodes i = Some (Known n) \<Longrightarrow> n_type n = Goto \<Longrightarrow> block_ok nodes slot ctx n"
  shows "target = Some i \<Longrightarrow> i \<in> R \<Longrightarrow> (\<And>n. byId nodes i = Some (Known n) \<Longrightarrow> n_type n \<noteq> Entry) \<Longrightarrow>
     snd (resolve_loop nodes seen target) = [] \<Longrightarrow>
     \<exists>n. fst (resolve_loop nodes seen target) = Some (n_id n) \<and> n_id n \<in> R \<and> byId nodes (n_id n) = Some (Known n)
       \<and> n_type n \<noteq> Goto \<and> n_type n \<noteq> Entry"
proof (induction nodes' \<equiv> nodes seen target arbitrary: i rule: resolve_loop.induct)
  case (1 seen target)
  obtain n where n: "byId nodes i = Some (Known n)" using "1.prems"(2) known by blast
  then have id: "n_id n = i" using byId_in by fastforce
  show ?case
  proof (cases "n_type n = Goto")
    case False
    then show ?thesis using 1 n id by (subst resolve_loop.simps) (auto simp: resolve_loop.simps)
  next
    case True
    let ?g = "goto_target (n_config n)"
    have ok: "?g \<noteq> []" "\<exists>t. byId nodes ?g = Some t \<and> \<not> is_type Entry t"
      using gotos [OF "1.prems"(2) n True] True by (auto simp: block_ok_def Let_def)
    have "(i, ?g) \<in> caller_steps nodes slot" using n True ok by (auto simp: caller_steps_def pushed_def)
    then have g: "?g \<in> R" using closed "1.prems"(2) by blast
    have seen: "i \<notin> set seen" using 1 n True by (auto simp: resolve_loop.simps)
    have step: "resolve_loop nodes seen target = resolve_loop nodes (seen @ [i]) (Some ?g)"
      using "1.prems"(1) n True seen ok(1) by (subst resolve_loop.simps) (simp add: no_empty_def)
    have ne: "n_type m \<noteq> Entry" if "byId nodes ?g = Some (Known m)" for m using ok(2) that by auto
    have "\<exists>n. fst (resolve_loop nodes (seen @ [i]) (Some ?g)) = Some (n_id n) \<and> n_id n \<in> R
       \<and> byId nodes (n_id n) = Some (Known n) \<and> n_type n \<noteq> Goto \<and> n_type n \<noteq> Entry"
      using "1.hyps" [OF "1.prems"(1) n refl _ seen, of ?g] True ok(1) g ne "1.prems"(4) step by (simp add: no_empty_def)
    then show ?thesis unfolding step .
  qed
qed

section \<open>The result, taken apart\<close>

abbreviation empty_state :: CompileState where
  "empty_state \<equiv> \<lparr>cs_issues = [], cs_prompts = [], cs_goto = [], cs_plan = []\<rparr>"

definition slots_of :: "IvrNode list \<Rightarrow> WorkEdge list \<Rightarrow> slots_map" where
  "slots_of nodes es = (case read_slots nodes es [] empty_state of Inr (slot, st) \<Rightarrow> slot | Inl err \<Rightarrow> [])"

lemma read_slots_slot:
  "read_slots nodes es slot st = Inr (slot', st') \<Longrightarrow> \<exists>st2'. read_slots nodes es slot st2 = Inr (slot', st2')"
  by (induction nodes es slot st arbitrary: st2 rule: read_slots.induct)
    (fastforce simp: Let_def split: option.splits if_splits)+

lemma slots_of_eq: "read_slots nodes es [] st = Inr (slot, st') \<Longrightarrow> slots_of nodes es = slot"
  using read_slots_slot [of nodes es "[]" st slot st' empty_state] by (auto simp: slots_of_def)

lemma slots_of_ok: "slots_ok nodes (slots_of nodes es)"
proof (cases "read_slots nodes es [] empty_state")
  case (Inr p)
  then show ?thesis using read_slots_ok [of nodes es "[]" empty_state] by (cases p) (auto simp: slots_of_def slots_ok_def)
qed (simp add: slots_of_def slots_ok_def)

text \<open>The blocks a caller can reach: from the first Start along connected exits and Go to jumps.\<close>

definition reachable_from :: "IvrNode list \<Rightarrow> slots_map \<Rightarrow> string set" where
  "reachable_from nodes slot = (case List.find (is_type Entry) nodes of
     None \<Rightarrow> {}
   | Some entry \<Rightarrow> {t. (node_id entry, t) \<in> (caller_steps nodes slot)\<^sup>* \<and> in_graph nodes t})"

lemma report_unreachable_effect:
  "report_unreachable reachable ns st = Inr st' \<Longrightarrow>
     clean st' = clean st \<and> cs_plan st' = cs_plan st \<and> cs_prompts st' = cs_prompts st \<and> cs_goto st' = cs_goto st"
  by (induction reachable ns st rule: report_unreachable.induct)
    (auto simp: compile_simps split: if_splits sum.splits)

lemma report_unreachable_known:
  "\<forall>x \<in> set ns. \<exists>n. x = Known n \<Longrightarrow> report_unreachable reachable ns st \<noteq> Inl err"
  by (induction reachable ns st rule: report_unreachable.induct)
    (auto simp: blockTitle_def split: if_splits sum.splits option.splits)

definition graph_ok :: "IvrNode list \<Rightarrow> CompileContext \<Rightarrow> bool" where
  "graph_ok nodes ctx \<longleftrightarrow> length nodes \<le> (case cx_maxBlocks ctx of Some m \<Rightarrow> m | None \<Rightarrow> limit_blocks LIMITS)
     \<and> (\<forall>x \<in> set nodes. ID_RE (node_id x)) \<and> length (filter (is_type Entry) nodes) = 1"

lemma graph_rules_effect:
  "clean (graph_rules nodes ctx st) \<longleftrightarrow> graph_ok nodes ctx \<and> clean st"
  "cs_plan (graph_rules nodes ctx st) = cs_plan st" "cs_prompts (graph_rules nodes ctx st) = cs_prompts st"
  "cs_goto (graph_rules nodes ctx st) = cs_goto st"
proof -
  have one: "length xs = 1 \<longleftrightarrow> xs \<noteq> [] \<and> tl xs = []" for xs :: "IvrNode list" by (cases xs) auto
  show "clean (graph_rules nodes ctx st) \<longleftrightarrow> graph_ok nodes ctx \<and> clean st"
    unfolding graph_ok_def one by (auto simp: graph_rules_def Let_def compile_simps not_less split: option.splits)
  show "cs_plan (graph_rules nodes ctx st) = cs_plan st" "cs_prompts (graph_rules nodes ctx st) = cs_prompts st"
    "cs_goto (graph_rules nodes ctx st) = cs_goto st"
    by (simp_all add: graph_rules_def Let_def compile_simps)
qed

lemma compileIvr_Inr:
  assumes "compileIvr g ctx = Inr r"
  obtains st1 st2 where
    "read_slots (g_nodes g) (g_edges g) [] (graph_rules (g_nodes g) ctx empty_state) = Inr (slots_of (g_nodes g) (g_edges g), st1)"
    "cr_reachable r = reachable_from (g_nodes g) (slots_of (g_nodes g) (g_edges g))"
    "\<And>t. t \<in> cr_reachable r \<Longrightarrow> \<exists>n. byId (g_nodes g) t = Some (Known n)"
    "report_unreachable (cr_reachable r) (g_nodes g) st1 = Inr st2"
    "cr_ok r = clean (compile_blocks (g_nodes g) (slots_of (g_nodes g) (g_edges g)) ctx (cr_reachable r) st2)"
    "pl_nodes (cr_plan r) = cs_plan (compile_blocks (g_nodes g) (slots_of (g_nodes g) (g_edges g)) ctx (cr_reachable r) st2)"
    "pl_prompts (cr_plan r) = cs_prompts (compile_blocks (g_nodes g) (slots_of (g_nodes g) (g_edges g)) ctx (cr_reachable r) st2)"
    "pl_start (cr_plan r) = start_ref (g_nodes g) (slots_of (g_nodes g) (g_edges g))"
proof -
  let ?ns = "g_nodes g" and ?es = "g_edges g"
  let ?entry = "List.find (is_type Entry) ?ns"
  obtain slot st1 where s: "read_slots ?ns ?es [] (graph_rules ?ns ctx empty_state) = Inr (slot, st1)"
    using assms by (auto simp: compileIvr_def Let_def split: sum.splits prod.splits)
  have slot: "slots_of ?ns ?es = slot" using slots_of_eq [OF s] .
  let ?loop = "case ?entry of None \<Rightarrow> Inr {} | Some entry \<Rightarrow> reach_loop ?ns slot [node_id entry] {}"
  obtain R where R: "?loop = Inr R"
    using assms s by (auto simp: compileIvr_def Let_def split: sum.splits prod.splits)
  obtain st2 where st2: "report_unreachable R ?ns st1 = Inr st2"
    using assms s R by (auto simp: compileIvr_def Let_def split: sum.splits prod.splits)
  have r: "cr_reachable r = R" "cr_ok r = clean (compile_blocks ?ns slot ctx R st2)"
    "pl_nodes (cr_plan r) = cs_plan (compile_blocks ?ns slot ctx R st2)"
    "pl_prompts (cr_plan r) = cs_prompts (compile_blocks ?ns slot ctx R st2)"
    "pl_start (cr_plan r) = start_ref ?ns slot"
    using assms s R st2 by (auto simp: compileIvr_def Let_def clean_def)
  have rf: "R = reachable_from ?ns slot"
    using R by (auto simp: reachable_from_def reach_loop_result split: option.splits if_splits)
  have known: "\<exists>n. byId ?ns t = Some (Known n)" if "t \<in> R" for t
  proof (cases ?entry)
    case None
    then show ?thesis using that R by simp
  next
    case (Some e)
    then have "\<not> is_foreign ?ns t" "in_graph ?ns t" using that R by (auto simp: reach_loop_result split: if_splits)
    then show ?thesis by (auto simp: is_foreign_def in_graph_def split: option.splits IvrNode.splits)
  qed
  show thesis using that [of st1 st2] s r st2 rf known unfolding slot by simp
qed

section \<open>Accepted flows\<close>

text \<open>What \<open>ok\<close> means: a graph within the limits with one Start, no edge into Start and no exit
  connected twice, every reachable block in order and no circle of reachable Go to blocks.\<close>

lemma clean_compile_blocks:
  assumes "clean (compile_blocks nodes slot ctx reachable st)"
  shows "clean st" "\<And>n. in_reach reachable nodes n \<Longrightarrow> block_ok nodes slot ctx n"
    "\<And>n. in_reach reachable nodes n \<Longrightarrow> n_type n = Goto \<Longrightarrow> goto_circle nodes (n_id n) = []"
proof -
  let ?st1 = "fold (compile_block nodes slot ctx reachable) nodes st"
  let ?st2 = "fold (recheck_goto nodes reachable) nodes ?st1"
  have "clean (fold (\<lambda>i. add Error ''goto_loop'' i '''') (cs_goto ?st2) ?st2)"
    using assms by (simp add: compile_blocks_def Let_def)
  then have 2: "cs_goto ?st2 = []" "clean ?st2" using fold_add(1) [of "''goto_loop''" "\<lambda>i. i"] by simp_all
  then have 1: "clean ?st1" using recheck_blocks(1) by simp
  then show "clean st" "\<And>n. in_reach reachable nodes n \<Longrightarrow> block_ok nodes slot ctx n"
    by (auto simp: clean_blocks)
  show "\<And>n. in_reach reachable nodes n \<Longrightarrow> n_type n = Goto \<Longrightarrow> goto_circle nodes (n_id n) = []"
    using recheck_blocks(4) [of nodes reachable nodes ?st1] 2(1) by auto
qed

lemma compile_blocks_plan:
  "cs_plan (compile_blocks nodes slot ctx reachable st) = cs_plan (fold (compile_block nodes slot ctx reachable) nodes st)"
  "cs_prompts (compile_blocks nodes slot ctx reachable st) = cs_prompts (fold (compile_block nodes slot ctx reachable) nodes st)"
  using fold_add [of "''goto_loop''" "\<lambda>i. i"] by (simp_all add: compile_blocks_def Let_def recheck_blocks)

lemma find_byId:
  assumes "distinct (map node_id nodes)"
  shows "List.find (\<lambda>x. node_id x = i) nodes = byId nodes i"
proof (cases "List.find (\<lambda>x. node_id x = i) nodes")
  case None
  then show ?thesis using last_by_None [of node_id nodes i] by (auto simp: find_None_all byId_def)
next
  case (Some x)
  then have "x \<in> set nodes" "node_id x = i" using find_Some_in by fastforce+
  then show ?thesis using last_by_distinct [OF assms] Some by (auto simp: byId_def)
qed

lemma pl_nodes_get:
  assumes "compileIvr g ctx = Inr r" and "distinct (map node_id (g_nodes g))"
  shows "ob_get (pl_nodes (cr_plan r)) i = (case byId (g_nodes g) i of
      Some (Known n) \<Rightarrow> if i \<in> cr_reachable r then plan_of (g_nodes g) (slots_of (g_nodes g) (g_edges g)) ctx n else None
    | _ \<Rightarrow> None)"
proof -
  let ?ns = "g_nodes g" and ?slot = "slots_of (g_nodes g) (g_edges g)"
  obtain st1 st2 where c: "read_slots ?ns (g_edges g) [] (graph_rules ?ns ctx empty_state) = Inr (?slot, st1)"
    "report_unreachable (cr_reachable r) ?ns st1 = Inr st2"
    "pl_nodes (cr_plan r) = cs_plan (compile_blocks ?ns ?slot ctx (cr_reachable r) st2)"
    by (rule compileIvr_Inr [OF assms(1)])
  have "cs_plan st2 = []"
    using report_unreachable_effect [OF c(2)] read_slots_clean [OF c(1)] by (simp add: graph_rules_effect)
  then show ?thesis unfolding c(3) compile_blocks_plan plan_blocks [OF assms(2)] find_byId [OF assms(2)]
    by (auto split: option.splits IvrNode.splits)
qed

text \<open>The caller's steps stay among the reachable blocks, and reachable blocks are blocks of the graph.\<close>

lemma reachable_closed:
  assumes "slots_ok nodes slot" "i \<in> reachable_from nodes slot" "(i, t) \<in> caller_steps nodes slot"
  shows "t \<in> reachable_from nodes slot"
proof -
  obtain n where n: "byId nodes i = Some (Known n)" "t \<in> set (pushed nodes slot n)"
    using assms(3) by (auto simp: caller_steps_def)
  have "in_graph nodes t"
    using n(2) assms(1) unfolding pushed_def slots_ok_def in_graph_def
    by (fastforce simp: map_filter_def no_empty_def split: option.splits if_splits)
  then show ?thesis using assms(2,3)
    by (auto simp: reachable_from_def split: option.splits intro: rtrancl_into_rtrancl)
qed

lemma ok_facts:
  assumes "compileIvr g ctx = Inr r" and "cr_ok r"
  shows "graph_ok (g_nodes g) ctx"
    and "\<And>i n. i \<in> cr_reachable r \<Longrightarrow> byId (g_nodes g) i = Some (Known n) \<Longrightarrow>
           block_ok (g_nodes g) (slots_of (g_nodes g) (g_edges g)) ctx n"
    and "\<And>i n. i \<in> cr_reachable r \<Longrightarrow> byId (g_nodes g) i = Some (Known n) \<Longrightarrow> n_type n = Goto \<Longrightarrow>
           goto_circle (g_nodes g) i = []"
proof -
  let ?ns = "g_nodes g" and ?slot = "slots_of (g_nodes g) (g_edges g)"
  obtain st1 st2 where c: "read_slots ?ns (g_edges g) [] (graph_rules ?ns ctx empty_state) = Inr (?slot, st1)"
    "report_unreachable (cr_reachable r) ?ns st1 = Inr st2"
    "cr_ok r = clean (compile_blocks ?ns ?slot ctx (cr_reachable r) st2)"
    by (rule compileIvr_Inr [OF assms(1)])
  note ok = clean_compile_blocks [OF assms(2) [unfolded c(3)]]
  have "clean st1" using ok(1) report_unreachable_effect [OF c(2)] by simp
  then show "graph_ok ?ns ctx" using read_slots_clean [OF c(1)] by (simp add: graph_rules_effect)
  have r: "in_reach (cr_reachable r) ?ns n" "n_id n = i" if "i \<in> cr_reachable r" "byId ?ns i = Some (Known n)" for i n
    using byId_in [OF that(2)] that(1) by (auto simp: in_reach_def)
  show "block_ok ?ns ?slot ctx n" if "i \<in> cr_reachable r" "byId ?ns i = Some (Known n)" for i n
    using ok(2) r [OF that] by blast
  show "goto_circle ?ns i = []" if "i \<in> cr_reachable r" "byId ?ns i = Some (Known n)" "n_type n = Goto" for i n
    using ok(3) [of n] r [OF that(1,2)] that(3) by simp
qed

lemma plan_of_ok:
  assumes "block_ok nodes slot ctx n" "n_type n \<noteq> Goto" "n_type n \<noteq> Entry"
  shows "plan_of nodes slot ctx n \<noteq> None"
proof -
  have "ec_problem (checkExternalNumber s) = None \<Longrightarrow> ec_e164 (checkExternalNumber s) \<noteq> None" for s
    by (simp add: check_judge split: option.splits)
  then show ?thesis using assms
    by (cases "n_type n") (auto simp: plan_of_def block_ok_def dial_ok_def dial_dest_def own_ok_def Let_def split: if_splits)
qed

text \<open>In an accepted flow every connected exit of a reachable block points at a plan node.\<close>

lemma ok_pointer:
  assumes c: "compileIvr g ctx = Inr r" and ok: "cr_ok r" and d: "distinct (map node_id (g_nodes g))"
    and i: "i \<in> cr_reachable r" "byId (g_nodes g) i = Some (Known n)" and h: "h \<in> set (node_exits n)"
    and con: "connected (slots_of (g_nodes g) (g_edges g)) i h"
  shows "\<exists>t. pointer (g_nodes g) (slots_of (g_nodes g) (g_edges g)) i h = Some t
     \<and> t \<in> cr_reachable r \<and> t \<in> set (ob_keys (pl_nodes (cr_plan r)))"
proof -
  let ?ns = "g_nodes g" and ?slot = "slots_of (g_nodes g) (g_edges g)" and ?R = "cr_reachable r"
  have R: "?R = reachable_from ?ns ?slot" "\<And>t. t \<in> ?R \<Longrightarrow> \<exists>n. byId ?ns t = Some (Known n)"
    by (rule compileIvr_Inr [OF c], blast)+
  have closed: "\<And>i t. i \<in> ?R \<Longrightarrow> (i, t) \<in> caller_steps ?ns ?slot \<Longrightarrow> t \<in> ?R"
    unfolding R(1) using reachable_closed [OF slots_of_ok] by blast
  have id: "n_id n = i" using byId_in [OF i(2)] by simp
  obtain t where t: "ob_get ?slot (slotKey i h) = Some t" using con by auto
  then obtain target where tg: "byId ?ns t = Some target" "\<not> is_type Entry target"
    using slots_of_ok [of ?ns "g_edges g"] by (auto simp: slots_ok_def)
  have "t \<noteq> ''''" using ok_facts(1) [OF c ok] byId_in [OF tg(1)] by (auto simp: graph_ok_def ID_RE_def)
  then have "(i, t) \<in> caller_steps ?ns ?slot"
    using i(2) h t id by (auto simp: caller_steps_def pushed_def map_filter_def no_empty_def intro!: rev_image_eqI)
  then have tR: "t \<in> ?R" using closed i(1) by blast
  have circle: "snd (resolve_loop ?ns [] (Some t)) = []"
  proof -
    obtain m where m: "byId ?ns t = Some (Known m)" using R(2) [OF tR] by blast
    show ?thesis
    proof (cases "n_type m = Goto")
      case True
      then show ?thesis using ok_facts(3) [OF c ok tR m] by (simp add: goto_circle_def)
    qed (use m in \<open>simp add: resolve_loop.simps\<close>)
  qed
  have "\<exists>n. fst (resolve_loop ?ns [] (Some t)) = Some (n_id n) \<and> n_id n \<in> ?R \<and> byId ?ns (n_id n) = Some (Known n)
      \<and> n_type n \<noteq> Goto \<and> n_type n \<noteq> Entry"
    by (rule resolve_ends [where R = ?R and slot = ?slot and ctx = ctx])
      (use closed R(2) ok_facts(2) [OF c ok] tR tg circle in auto)
  then obtain m where m: "fst (resolve_loop ?ns [] (Some t)) = Some (n_id m)" "n_id m \<in> ?R"
    "byId ?ns (n_id m) = Some (Known m)" "n_type m \<noteq> Goto" "n_type m \<noteq> Entry" by blast
  have "plan_of ?ns ?slot ctx m \<noteq> None" using plan_of_ok ok_facts(2) [OF c ok m(2,3)] m(4,5) by blast
  then have "ob_get (pl_nodes (cr_plan r)) (n_id m) \<noteq> None" using pl_nodes_get [OF c d, of "n_id m"] m(2,3) by simp
  then have "n_id m \<in> set (ob_keys (pl_nodes (cr_plan r)))" by (auto dest: get_in_keys simp del: set_map)
  then show ?thesis using m(1,2) t by (auto simp: pointer_def)
qed

section \<open>The plan's pointers, prompts and values\<close>

fun plan_refs :: "PlanNode \<Rightarrow> PlanRef list" where
  "plan_refs (PPlay ps next) = [next]"
| "plan_refs (PMenu ps ds t re bad noi ni nm) = map snd ds @ [ni, nm]"
| "plan_refs (PHours tz w ds op cl) = [op, cl]"
| "plan_refs (PCaller m vs ma nm) = [ma, nm]"
| "plan_refs (PTransfer d pass ring na) = [na]"
| "plan_refs (PVoicemail did) = []"
| "plan_refs (PHangup ps) = []"

fun plan_prompts :: "PlanNode \<Rightarrow> PromptId list" where
  "plan_prompts (PPlay ps next) = ps"
| "plan_prompts (PMenu ps ds t re bad noi ni nm) = ps @ bad @ noi"
| "plan_prompts (PHangup ps) = ps"
| "plan_prompts _ = []"

lemma snd_update: "set (map snd (ob_set ob k v)) \<subseteq> insert v (set (map snd ob))"
  by (induction ob) auto

lemma snd_fold_set: "snd ` set (fold (\<lambda>d m. ob_set m d (f d)) ds m) \<subseteq> snd ` set m \<union> f ` set ds"
proof (induction ds arbitrary: m)
  case (Cons d ds)
  have "snd ` set (ob_set m d (f d)) \<subseteq> insert (f d) (snd ` set m)" using snd_update [where ob = m] by simp
  with Cons [of "ob_set m d (f d)"] show ?case by (simp only: fold_simps comp_def list.set image_insert) blast
qed simp

lemma menu_digits_exits: "d \<in> set (menu_digits c) \<Longrightarrow> digitHandle d \<in> set (exit_ids Menu c)"
  unfolding exits_Menu by (auto simp: menu_digits_def set_sortDigits)

lemma plan_of_refs:
  assumes "plan_of nodes slot ctx n = Some p"
  shows "set (plan_refs p) \<subseteq> pointer nodes slot (n_id n) ` set (node_exits n)"
proof (cases "n_type n")
  case Menu
  let ?f = "\<lambda>d. pointer nodes slot (n_id n) (digitHandle d)"
  let ?ds = "fold (\<lambda>d m. ob_set m d (?f d)) (menu_digits (n_config n)) []"
  have "plan_refs p = map snd ?ds @ [pointer nodes slot (n_id n) NO_INPUT, pointer nodes slot (n_id n) NO_MATCH]"
    using assms Menu by (auto simp: plan_of_def Let_def)
  then have refs: "set (plan_refs p) = snd ` set ?ds \<union> {pointer nodes slot (n_id n) NO_INPUT, pointer nodes slot (n_id n) NO_MATCH}"
    by (simp only: set_append set_map list.set)
  have 1: "snd ` set ?ds \<subseteq> ?f ` set (menu_digits (n_config n))"
    using snd_fold_set [of ?f "menu_digits (n_config n)" "[]"] by simp
  have 2: "?f d \<in> pointer nodes slot (n_id n) ` set (node_exits n)" if "d \<in> set (menu_digits (n_config n))" for d
    using menu_digits_exits [OF that] unfolding Menu by (rule imageI)
  have 3: "NO_INPUT \<in> set (node_exits n)" "NO_MATCH \<in> set (node_exits n)" unfolding Menu exits_Menu by simp_all
  show ?thesis unfolding refs
    by (intro Un_least order_trans [OF 1] image_subsetI 2) (use 3 in \<open>simp_all only: insert_subset empty_subsetI imageI simp_thms\<close>)
qed (use assms in \<open>auto simp: plan_of_def Let_def handle_def split: if_splits option.splits\<close>)

lemma plan_of_prompts: "plan_of nodes slot ctx n = Some p \<Longrightarrow> plan_prompts p = block_prompts n"
  by (cases "n_type n") (auto simp: plan_of_def Let_def block_prompts_def split: if_splits)

lemma plan_of_no_prompts: "plan_of nodes slot ctx n = None \<Longrightarrow> block_prompts n = []"
  by (cases "n_type n") (auto simp: plan_of_def Let_def block_prompts_def split: if_splits)

lemma distinct_pl_nodes: "compileIvr g ctx = Inr r \<Longrightarrow> distinct (ob_keys (pl_nodes (cr_plan r)))"
proof -
  assume c: "compileIvr g ctx = Inr r"
  let ?ns = "g_nodes g" and ?slot = "slots_of (g_nodes g) (g_edges g)"
  obtain st1 st2 where s: "read_slots ?ns (g_edges g) [] (graph_rules ?ns ctx empty_state) = Inr (?slot, st1)"
    "report_unreachable (cr_reachable r) ?ns st1 = Inr st2"
    "pl_nodes (cr_plan r) = cs_plan (compile_blocks ?ns ?slot ctx (cr_reachable r) st2)"
    by (rule compileIvr_Inr [OF c])
  have "cs_plan st2 = []"
    using report_unreachable_effect [OF s(2)] read_slots_clean [OF s(1)] by (simp add: graph_rules_effect)
  then show ?thesis unfolding s(3) compile_blocks_plan by (intro distinct_plan_blocks) simp
qed

text \<open>A node of the plan is the translation of a reachable block.\<close>

lemma pl_nodes_in:
  assumes "compileIvr g ctx = Inr r" and "distinct (map node_id (g_nodes g))"
  shows "(i, p) \<in> set (pl_nodes (cr_plan r)) \<longleftrightarrow>
     (\<exists>n. byId (g_nodes g) i = Some (Known n) \<and> n_id n = i \<and> i \<in> cr_reachable r
        \<and> plan_of (g_nodes g) (slots_of (g_nodes g) (g_edges g)) ctx n = Some p)"
proof -
  have "(i, p) \<in> set (pl_nodes (cr_plan r)) \<longleftrightarrow> ob_get (pl_nodes (cr_plan r)) i = Some p"
    using distinct_pl_nodes [OF assms(1)] by (simp add: map_of_eq_Some_iff)
  also have "\<dots> \<longleftrightarrow> (\<exists>n. byId (g_nodes g) i = Some (Known n) \<and> n_id n = i \<and> i \<in> cr_reachable r
        \<and> plan_of (g_nodes g) (slots_of (g_nodes g) (g_edges g)) ctx n = Some p)"
    using byId_in [of "g_nodes g" i] unfolding pl_nodes_get [OF assms]
    by (auto split: option.splits IvrNode.splits)
  finally show ?thesis .
qed

lemma pointer_unconnected: "\<not> connected slot i h \<Longrightarrow> pointer nodes slot i h = None"
  by (simp add: pointer_def resolve_loop.simps)

lemma ok_refs:
  assumes c: "compileIvr g ctx = Inr r" and ok: "cr_ok r" and d: "distinct (map node_id (g_nodes g))"
    and p: "(i, p) \<in> set (pl_nodes (cr_plan r))"
  shows "set (plan_refs p) \<subseteq> insert None (Some ` set (ob_keys (pl_nodes (cr_plan r))))"
proof -
  obtain n where n: "byId (g_nodes g) i = Some (Known n)" "n_id n = i" "i \<in> cr_reachable r"
    "plan_of (g_nodes g) (slots_of (g_nodes g) (g_edges g)) ctx n = Some p"
    using iffD1 [OF pl_nodes_in [OF c d] p] by blast
  have "pointer (g_nodes g) (slots_of (g_nodes g) (g_edges g)) i h \<in> insert None (Some ` set (ob_keys (pl_nodes (cr_plan r))))"
    if "h \<in> set (node_exits n)" for h
  proof (cases "connected (slots_of (g_nodes g) (g_edges g)) i h")
    case True
    from ok_pointer [OF c ok d n(3,1) that True] show ?thesis by blast
  qed (simp add: pointer_unconnected)
  then show ?thesis using order_trans [OF plan_of_refs [OF n(4)] image_subsetI] n(2) by simp
qed

lemma ok_start:
  assumes c: "compileIvr g ctx = Inr r" and ok: "cr_ok r" and d: "distinct (map node_id (g_nodes g))"
  shows "\<exists>s. pl_start (cr_plan r) = Some s \<and> s \<in> set (ob_keys (pl_nodes (cr_plan r)))"
proof -
  let ?ns = "g_nodes g" and ?slot = "slots_of (g_nodes g) (g_edges g)"
  have "filter (is_type Entry) ?ns \<noteq> []" using ok_facts(1) [OF c ok] by (auto simp: graph_ok_def)
  then have "List.find (is_type Entry) ?ns \<noteq> None" by (auto simp: find_None_all filter_empty_conv)
  then obtain e where e: "List.find (is_type Entry) ?ns = Some e" by blast
  then obtain n where n: "e = Known n" "n_type n = Entry" "e \<in> set ?ns" using find_Some_in [OF e] by (cases e) auto
  have b: "byId ?ns (n_id n) = Some (Known n)" using last_by_distinct [OF d n(3)] n(1) by (simp add: byId_def)
  have "cr_reachable r = reachable_from ?ns ?slot" by (rule compileIvr_Inr [OF c])
  then have r: "n_id n \<in> cr_reachable r" using e n b by (simp add: reachable_from_def in_graph_def)
  have "block_ok ?ns ?slot ctx n" using ok_facts(2) [OF c ok r b] .
  then have con: "connected ?slot (n_id n) NEXT" using n(2) by (simp add: block_ok_def Let_def)
  have h: "NEXT \<in> set (node_exits n)" using n(2) by (simp add: handle_def)
  have "pl_start (cr_plan r) = start_ref ?ns ?slot" by (rule compileIvr_Inr [OF c])
  then have "pl_start (cr_plan r) = pointer ?ns ?slot (n_id n) NEXT" using e n by (simp add: start_ref_def pointer_def)
  with ok_pointer [OF c ok d r b h con] show ?thesis by (simp del: set_map) blast
qed

end
