(* ===== verification/Layout.thy ===== *)
theory Layout
  imports Graph_Laws
begin

text \<open>
  Tidy up (\<open>flow/model/layout.ts\<close>): a depth-first walk from Start over each block's exits gives
  every block a column and a row; blocks the walk never reaches go in a last column. The walk's
  mutable variables (\<open>out\<close>, \<open>cursor\<close>, \<open>maxDepth\<close>) are a \<open>LayoutState\<close>; \<open>visit\<close> takes the list of
  blocks still to visit at one depth, so the call for one block and the loop over its children are
  one recursive function. It terminates because each block is placed once.
\<close>

section \<open>The walk\<close>

definition COLUMN_WIDTH :: nat where
  "COLUMN_WIDTH = 320"

definition ROW_GAP :: nat where
  "ROW_GAP = 36"

definition estimateHeight :: "IvrNodeType \<Rightarrow> obj \<Rightarrow> nat" where
  "estimateHeight t cfg =
     (let exits = length (outHandles t cfg) in 84 + (if exits > 0 then 10 + exits * 30 else 0))"

record LayoutState =
  lay_out :: "(string \<times> Position) list"
  lay_cursor :: nat
  lay_maxDepth :: nat

definition slot_target :: "('b WorkEdge_scheme) list \<Rightarrow> string \<Rightarrow> string option" where
  "slot_target es key = map_option e_target (last_by (\<lambda>e. slotKey (e_source e) (e_sourceHandle e)) es key)"

definition exit_targets :: "('b WorkEdge_scheme) list \<Rightarrow> ('a NodeInput_scheme) \<Rightarrow> string list" where
  "exit_targets es n = List.map_filter (\<lambda>h. slot_target es (slotKey (n_id n) h)) (node_exits n)"

definition node_height :: "('a NodeInput_scheme) \<Rightarrow> nat" where
  "node_height n = estimateHeight (n_type n) (n_config n)"

definition grid :: "nat \<Rightarrow> nat \<Rightarrow> Position" where
  "grid x y = \<lparr>pos_x = of_nat x, pos_y = of_nat y\<rparr>"

lemma grid_simps [simp]: "pos_x (grid x y) = of_nat x" "pos_y (grid x y) = of_nat y"
  by (simp_all add: grid_def)

definition placed :: "LayoutState \<Rightarrow> string set" where
  "placed st = set (ob_keys (lay_out st))"

definition place :: "nat \<Rightarrow> string \<Rightarrow> LayoutState \<Rightarrow> LayoutState" where
  "place depth i st =
     st\<lparr>lay_out := ob_set (lay_out st) i (grid (depth * COLUMN_WIDTH) (lay_cursor st)),
        lay_maxDepth := max (lay_maxDepth st) depth\<rparr>"

lemma place_simps [simp]:
  "lay_cursor (place d i st) = lay_cursor st"
  "lay_maxDepth (place d i st) = max (lay_maxDepth st) d"
  "placed (place d i st) = insert i (placed st)"
  by (auto simp: place_def placed_def in_keys_set simp del: set_map)

lemma placed_cursor [simp]: "placed (st\<lparr>lay_cursor := c\<rparr>) = placed st"
  by (simp add: placed_def)

function (sequential) visit :: "('a NodeInput_scheme) list \<Rightarrow> ('b WorkEdge_scheme) list \<Rightarrow> nat \<Rightarrow> string list \<Rightarrow> LayoutState \<Rightarrow> LayoutState" where
  "visit ns es depth [] st = st"
| "visit ns es depth (i # rest) st =
     visit ns es depth rest
       (case last_by n_id ns i of
          None \<Rightarrow> st
        | Some n \<Rightarrow>
            if i \<in> placed st then st
            else
              (let st1 = place depth i st;
                   children = filter (\<lambda>t. t \<notin> placed st1) (exit_targets es n)
               in if children = [] then st1\<lparr>lay_cursor := lay_cursor st1 + (node_height n + ROW_GAP)\<rparr>
                  else (let start = lay_cursor st1; st2 = visit ns es (Suc depth) children st1
                        in st2\<lparr>lay_cursor := max (lay_cursor st2) (start + node_height n + ROW_GAP)\<rparr>)))"
  by pat_completeness auto

definition unvisited :: "('a NodeInput_scheme) list \<Rightarrow> LayoutState \<Rightarrow> nat" where
  "unvisited ns st = card (n_id ` set ns - placed st)"

lemma placed_visit_dom:
  "visit_dom (ns, es, depth, is, st) \<Longrightarrow> placed st \<subseteq> placed (visit ns es depth is st)"
proof (induction ns es depth "is" st rule: visit.pinduct)
  case (2 ns es depth i rest st)
  show ?case
  proof (cases "last_by n_id ns i")
    case None
    then show ?thesis using 2 by (simp add: visit.psimps)
  next
    case (Some n)
    let ?st1 = "place depth i st"
    let ?cs = "filter (\<lambda>t. t \<notin> placed ?st1) (exit_targets es n)"
    consider "i \<in> placed st" | "i \<notin> placed st" "?cs = []" | "i \<notin> placed st" "?cs \<noteq> []" by blast
    then show ?thesis
    proof cases
      case 1
      then show ?thesis using 2 Some by (simp add: visit.psimps)
    next
      case a: 2
      then show ?thesis using 2(1,3) Some a by (simp add: visit.psimps Let_def)
    next
      case a: 3
      then show ?thesis using 2(1) 2(2)[OF Some a(1) refl refl a(2) refl] 2(3) Some a by (auto simp add: visit.psimps Let_def)
    qed
  qed
qed (simp add: visit.psimps)

lemma unvisited_mono: "placed st \<subseteq> placed st' \<Longrightarrow> unvisited ns st' \<le> unvisited ns st"
  unfolding unvisited_def by (rule card_mono) auto

lemma unvisited_place:
  assumes "last_by n_id ns i = Some n" "i \<notin> placed st"
  shows "unvisited ns (place d i st) < unvisited ns st"
proof -
  have "i \<in> n_id ` set ns" using last_by_Some [OF assms(1)] by auto
  then show ?thesis unfolding unvisited_def place_simps using assms(2)
    by (intro psubset_card_mono) auto
qed

lemma unvisited_cursor [simp]: "unvisited ns (st\<lparr>lay_cursor := c\<rparr>) = unvisited ns st"
  by (simp add: unvisited_def)

termination visit
proof (relation "measures [\<lambda>(ns, es, d, is, st). unvisited ns st, \<lambda>(ns, es, d, is, st). length is]", goal_cases)
  case 1 show ?case by simp
next
  case (2 ns es depth i rest st n st1 children)
  from unvisited_place [OF 2(1,2), of depth] show ?case unfolding 2(3) by simp
next
  case (3 ns es depth i rest st)
  have "unvisited ns (case last_by n_id ns i of
          None \<Rightarrow> st
        | Some n \<Rightarrow>
            if i \<in> placed st then st
            else
              (let st1 = place depth i st;
                   children = filter (\<lambda>t. t \<notin> placed st1) (exit_targets es n)
               in if children = [] then st1\<lparr>lay_cursor := lay_cursor st1 + (node_height n + ROW_GAP)\<rparr>
                  else (let start = lay_cursor st1; st2 = visit ns es (Suc depth) children st1
                        in st2\<lparr>lay_cursor := max (lay_cursor st2) (start + node_height n + ROW_GAP)\<rparr>))) \<le> unvisited ns st"
    (is "unvisited ns ?s \<le> _")
  proof (rule unvisited_mono)
    show "placed st \<subseteq> placed ?s" 
      using placed_visit_dom [OF 3]
      by (auto simp: Let_def split: option.split)
  qed
  then show ?case by auto
qed

definition place_orphan :: "nat \<Rightarrow> ('a NodeInput_scheme) \<Rightarrow> (string \<times> Position) list \<times> nat \<Rightarrow> (string \<times> Position) list \<times> nat" where
  "place_orphan x n = (\<lambda>(out, y). (ob_set out (n_id n) (grid x y), y + (node_height n + ROW_GAP)))"

definition walk :: "('a NodeInput_scheme) list \<Rightarrow> ('b WorkEdge_scheme) list \<Rightarrow> LayoutState" where
  "walk ns es =
     (let st0 = \<lparr>lay_out = [], lay_cursor = 0, lay_maxDepth = 0\<rparr>
      in case List.find (\<lambda>n. n_type n = Entry) ns of
           None \<Rightarrow> st0
         | Some entry \<Rightarrow> visit ns es 0 [n_id entry] st0)"

definition tidyLayout :: "('a NodeInput_scheme) list \<Rightarrow> ('b WorkEdge_scheme) list \<Rightarrow> (string \<times> Position) list" where
  "tidyLayout ns es =
     (let st = walk ns es;
          orphans = filter (\<lambda>n. n_id n \<notin> placed st) ns;
          x = (lay_maxDepth st + 1) * COLUMN_WIDTH + 80
      in fst (fold (place_orphan x) orphans (lay_out st, 0)))"

definition callingOrder :: "('a NodeInput_scheme) list \<Rightarrow> ('b WorkEdge_scheme) list \<Rightarrow> string list" where
  "callingOrder ns es = ob_keys (tidyLayout ns es)"

section \<open>One visit, case by case\<close>

declare visit.simps(2) [simp del]

definition visit_one :: "('a NodeInput_scheme) list \<Rightarrow> ('b WorkEdge_scheme) list \<Rightarrow> nat \<Rightarrow> string \<Rightarrow> LayoutState \<Rightarrow> LayoutState" where
  "visit_one ns es d i st = visit ns es d [i] st"

lemma visit_Cons: "visit ns es d (i # rest) st = visit ns es d rest (visit_one ns es d i st)"
  by (simp add: visit_one_def visit.simps(2))

text \<open>The visit of one block, with both endings of the code in one form.\<close>

lemma visit_one_skip: "last_by n_id ns i = None \<or> i \<in> placed st \<Longrightarrow> visit_one ns es d i st = st"
  by (auto simp: visit_one_def visit.simps(2) split: option.split)

lemma visit_one_new:
  assumes "last_by n_id ns i = Some n" "i \<notin> placed st"
  shows "\<exists>c. visit_one ns es d i st =
      visit ns es (Suc d) (filter (\<lambda>t. t \<notin> placed (place d i st)) (exit_targets es n)) (place d i st)\<lparr>lay_cursor := c\<rparr>
    \<and> c = max (lay_cursor (visit ns es (Suc d) (filter (\<lambda>t. t \<notin> placed (place d i st)) (exit_targets es n)) (place d i st)))
             (lay_cursor st + node_height n + ROW_GAP)"
  using assms by (auto simp: visit_one_def visit.simps(2) Let_def)

text \<open>Induction over the walk: a property of pairs of states that is reflexive, transitive and
  holds of a visited block when it holds of the visit of its children holds of the whole walk.\<close>

lemma visit_induct [case_names refl trans new]:
  assumes r: "\<And>d st. P d st st"
    and trans: "\<And>d st st1 st2. P d st st1 \<Longrightarrow> P d st1 st2 \<Longrightarrow> P d st st2"
    and new: "\<And>d i st n st2 cs.
       last_by n_id ns i = Some n \<Longrightarrow> i \<notin> placed st \<Longrightarrow>
       cs = filter (\<lambda>t. t \<notin> placed (place d i st)) (exit_targets es n) \<Longrightarrow>
       st2 = visit ns es (Suc d) cs (place d i st) \<Longrightarrow> P (Suc d) (place d i st) st2 \<Longrightarrow>
       P d st (st2\<lparr>lay_cursor := max (lay_cursor st2) (lay_cursor st + node_height n + ROW_GAP)\<rparr>)"
  shows "P d st (visit ns es d is st)"
proof (induction ns' \<equiv> ns es' \<equiv> es d "is" st rule: visit.induct)
  case (2 d i rest st)
  have "P d st (visit_one ns es d i st)"
  proof (cases "last_by n_id ns i = None \<or> i \<in> placed st")
    case True
    then show ?thesis by (simp add: visit_one_skip r)
  next
    case False
    then obtain n where n: "last_by n_id ns i = Some n" "i \<notin> placed st" by auto
    let ?cs = "filter (\<lambda>t. t \<notin> placed (place d i st)) (exit_targets es n)"
    have "P (Suc d) (place d i st) (visit ns es (Suc d) ?cs (place d i st))"
      using 2(1) [OF n refl refl _ refl] by (cases "?cs = []") (auto simp: r)
    from new [OF n refl refl this] visit_one_new [OF n, of es d] show ?thesis by metis
  qed
  moreover have "P d (visit_one ns es d i st) (visit ns es d rest (visit_one ns es d i st))"
    using 2(2) by (simp add: visit_one_def visit.simps(2))
  ultimately show ?case unfolding visit_Cons by (rule trans)
qed (simp add: r)



section \<open>What the walk places\<close>

definition height_of :: "('a NodeInput_scheme) list \<Rightarrow> string \<Rightarrow> nat" where
  "height_of ns i = (case last_by n_id ns i of Some n \<Rightarrow> node_height n | None \<Rightarrow> 0)"

text \<open>Of two placed blocks in one column, the second starts below the first and its gap.\<close>

definition below :: "('a NodeInput_scheme) list \<Rightarrow> string \<times> Position \<Rightarrow> string \<times> Position \<Rightarrow> bool" where
  "below ns a b \<longleftrightarrow> (pos_x (snd a) = pos_x (snd b) \<longrightarrow>
     pos_y (snd a) + of_nat (height_of ns (fst a) + ROW_GAP) \<le> pos_y (snd b))"

text \<open>A block placed at depth \<open>d\<close> or deeper, between two positions of the cursor.\<close>

definition in_band :: "('a NodeInput_scheme) list \<Rightarrow> nat \<Rightarrow> nat \<Rightarrow> nat \<Rightarrow> nat \<Rightarrow> string \<times> Position \<Rightarrow> bool" where
  "in_band ns d m lo hi a \<longleftrightarrow> fst a \<in> n_id ` set ns
     \<and> (\<exists>k y. d \<le> k \<and> k \<le> m \<and> snd a = grid (k * COLUMN_WIDTH) y \<and> lo \<le> y \<and> y + height_of ns (fst a) + ROW_GAP \<le> hi)"

definition walked :: "('a NodeInput_scheme) list \<Rightarrow> nat \<Rightarrow> LayoutState \<Rightarrow> LayoutState \<Rightarrow> (string \<times> Position) list \<Rightarrow> bool" where
  "walked ns d st st' new \<longleftrightarrow> lay_out st' = lay_out st @ new
     \<and> lay_cursor st \<le> lay_cursor st' \<and> lay_maxDepth st \<le> lay_maxDepth st'
     \<and> (\<forall>a \<in> set new. in_band ns d (lay_maxDepth st') (lay_cursor st) (lay_cursor st') a)
     \<and> sorted_wrt (below ns) new \<and> distinct (ob_keys new) \<and> set (ob_keys new) \<inter> placed st = {}"

lemma in_band_mono:
  "in_band ns d m lo hi a \<Longrightarrow> d' \<le> d \<Longrightarrow> m \<le> m' \<Longrightarrow> lo' \<le> lo \<Longrightarrow> hi \<le> hi' \<Longrightarrow> in_band ns d' m' lo' hi' a"
  unfolding in_band_def by (meson le_trans)

lemma in_band_below: "in_band ns d m lo hi a \<Longrightarrow> in_band ns d' m' hi hi' b \<Longrightarrow> below ns a b"
  unfolding in_band_def below_def grid_def
  by (auto simp del: of_nat_add simp: of_nat_add [symmetric])

lemma walked_trans:
  assumes a: "walked ns d st st1 new1" and b: "walked ns d st1 st2 new2"
  shows "walked ns d st st2 (new1 @ new2)"
proof -
  have "placed st1 = placed st \<union> set (ob_keys new1)"
    using a by (auto simp: walked_def placed_def)
  moreover have "below ns x y" if "x \<in> set new1" "y \<in> set new2" for x y
    using a b that in_band_below unfolding walked_def by metis
  moreover have "in_band ns d (lay_maxDepth st2) (lay_cursor st) (lay_cursor st2) x" if "x \<in> set new1 \<union> set new2" for x
    using a b that unfolding walked_def by (auto elim!: in_band_mono)
  ultimately show ?thesis using a b unfolding walked_def
    by (auto simp: sorted_wrt_append)
qed

lemma lay_out_place:
  "i \<notin> placed st \<Longrightarrow> lay_out (place d i st) = lay_out st @ [(i, grid (d * COLUMN_WIDTH) (lay_cursor st))]"
  by (simp add: place_def placed_def set_new)

lemma walked_new:
  assumes n: "last_by n_id ns i = Some n" "i \<notin> placed st"
    and w: "walked ns (Suc d) (place d i st) st2 new"
    and c: "c = max (lay_cursor st2) (lay_cursor st + node_height n + ROW_GAP)"
  shows "walked ns d st (st2\<lparr>lay_cursor := c\<rparr>) ((i, grid (d * COLUMN_WIDTH) (lay_cursor st)) # new)"
    (is "walked _ _ _ ?st' (?a # _)")
proof -
  have h: "height_of ns i = node_height n" using n by (simp add: height_of_def)
  have le: "lay_cursor st2 \<le> c" "lay_cursor st + node_height n + ROW_GAP \<le> c" using c by auto
  have a: "in_band ns d (lay_maxDepth st2) (lay_cursor st) c ?a"
    using w h le(2) last_by_Some [OF n(1)] by (auto simp: in_band_def walked_def)
  have band: "in_band ns d (lay_maxDepth st2) (lay_cursor st) c b" if "b \<in> set new" for b
    using w that le(1) by (auto simp: walked_def elim!: in_band_mono)
  have "below ns ?a b" if "b \<in> set new" for b
    using w that by (auto simp: walked_def in_band_def below_def grid_def COLUMN_WIDTH_def)
  then show ?thesis using w a band le n(2) by (auto simp: walked_def lay_out_place)
qed

lemma visit_walked: "\<exists>new. walked ns d st (visit ns es d is st) new"
proof (induction rule: visit_induct)
  case (refl d st)
  show ?case by (rule exI [of _ "[]"]) (simp add: walked_def)
next
  case (trans d st st1 st2)
  then show ?case using walked_trans by metis
next
  case (new d i st n st2 cs)
  then show ?case using walked_new by metis
qed

section \<open>What the walk reaches\<close>

text \<open>The steps a caller can take: from a block along one of its exits to another block.\<close>

definition exit_steps :: "('a NodeInput_scheme) list \<Rightarrow> ('b WorkEdge_scheme) list \<Rightarrow> (string \<times> string) set" where
  "exit_steps ns es = {(i, t). t \<in> n_id ` set ns \<and> (\<exists>n. last_by n_id ns i = Some n \<and> t \<in> set (exit_targets es n))}"

lemma visit_places: "i \<in> set is \<Longrightarrow> i \<in> n_id ` set ns \<Longrightarrow> i \<in> placed (visit ns es d is st)"
proof (induction "is" arbitrary: st)
  case (Cons j rest)
  have mono: "placed st1 \<subseteq> placed (visit ns es d rest st1)" for st1
    using visit_walked [of ns d st1 es rest] by (auto simp: walked_def placed_def)
  show ?case
  proof (cases "i = j")
    case True
    then obtain n where n: "last_by n_id ns j = Some n" using Cons.prems(2) last_by_None [of n_id ns j] by auto
    have "j \<in> placed (visit_one ns es d j st)"
    proof (cases "j \<in> placed st")
      case False
      let ?cs = "filter (\<lambda>t. t \<notin> placed (place d j st)) (exit_targets es n)"
      have "placed (place d j st) \<subseteq> placed (visit ns es (Suc d) ?cs (place d j st))"
        using visit_walked [of ns "Suc d" "place d j st" es ?cs] by (auto simp: walked_def placed_def)
      then show ?thesis using visit_one_new [OF n False, of es d] by auto
    qed (simp add: visit_one_skip)
    then show ?thesis unfolding visit_Cons True using mono by blast
  next
    case False
    then show ?thesis using Cons unfolding visit_Cons by auto
  qed
qed simp

lemma visit_closed:
  "\<exists>new. lay_out (visit ns es d is st) = lay_out st @ new
     \<and> (\<forall>i \<in> set (ob_keys new). \<forall>t. (i, t) \<in> exit_steps ns es \<longrightarrow> t \<in> placed (visit ns es d is st))"
proof (induction rule: visit_induct)
  case (trans d st st1 st2)
  then obtain new1 new2 where "lay_out st1 = lay_out st @ new1" "lay_out st2 = lay_out st1 @ new2"
    "\<forall>i \<in> set (ob_keys new1). \<forall>t. (i, t) \<in> exit_steps ns es \<longrightarrow> t \<in> placed st1"
    "\<forall>i \<in> set (ob_keys new2). \<forall>t. (i, t) \<in> exit_steps ns es \<longrightarrow> t \<in> placed st2"
    by blast
  moreover from this have "placed st1 \<subseteq> placed st2" by (auto simp: placed_def)
  ultimately show ?case by (intro exI [of _ "new1 @ new2"]) auto
next
  case (new d i st n st2 cs)
  let ?st1 = "place d i st"
  obtain new where out: "lay_out st2 = lay_out ?st1 @ new"
    and new': "\<forall>i \<in> set (ob_keys new). \<forall>t. (i, t) \<in> exit_steps ns es \<longrightarrow> t \<in> placed st2"
    using new(5) by blast
  have "t \<in> placed st2" if "(i, t) \<in> exit_steps ns es" for t
  proof (cases "t \<in> placed ?st1")
    case True
    then show ?thesis using out by (auto simp: placed_def)
  next
    case False
    with that new(1,3) have "t \<in> set cs" by (auto simp: exit_steps_def)
    moreover have "t \<in> n_id ` set ns" using that by (simp add: exit_steps_def)
    ultimately show ?thesis unfolding new(4) by (rule visit_places)
  qed
  then show ?case using out new' lay_out_place [OF new(2), of d] by auto
qed (auto simp: placed_def)

lemma visit_within:
  assumes closed: "\<And>i t. i \<in> S \<Longrightarrow> (i, t) \<in> exit_steps ns es \<Longrightarrow> t \<in> S"
  shows "set is \<inter> n_id ` set ns \<subseteq> S \<Longrightarrow> placed (visit ns es d is st) \<subseteq> placed st \<union> S"
proof (induction ns' \<equiv> ns es' \<equiv> es d "is" st rule: visit.induct)
  case (2 d i rest st)
  have "placed (visit_one ns es d i st) \<subseteq> placed st \<union> S"
  proof (cases "last_by n_id ns i = None \<or> i \<in> placed st")
    case False
    then obtain n where n: "last_by n_id ns i = Some n" "i \<notin> placed st" by auto
    let ?cs = "filter (\<lambda>t. t \<notin> placed (place d i st)) (exit_targets es n)"
    have i: "i \<in> S" using 2(3) last_by_Some [OF n(1)] by auto
    then have cs: "set ?cs \<inter> n_id ` set ns \<subseteq> S" using closed [OF i] n by (auto simp: exit_steps_def)
    have "placed (visit ns es (Suc d) ?cs (place d i st)) \<subseteq> placed (place d i st) \<union> S"
      using 2(1) [OF n refl refl _ refl cs] by (cases "?cs = []") auto
    then show ?thesis using visit_one_new [OF n, of es d] i by auto
  qed (auto simp: visit_one_skip)
  moreover have "placed (visit ns es d rest (visit_one ns es d i st)) \<subseteq> placed (visit_one ns es d i st) \<union> S"
    using 2(2) 2(3) by (simp add: visit_one_def visit.simps(2) Int_insert_left split: if_splits)
  ultimately show ?case unfolding visit_Cons by blast
qed simp

definition reached :: "('a NodeInput_scheme) list \<Rightarrow> ('b WorkEdge_scheme) list \<Rightarrow> string set" where
  "reached ns es = (case List.find (\<lambda>n. n_type n = Entry) ns of
     None \<Rightarrow> {} | Some entry \<Rightarrow> {t. (n_id entry, t) \<in> (exit_steps ns es)\<^sup>*})"

lemma placed_walk: "placed (walk ns es) = reached ns es"
proof (cases "List.find (\<lambda>n. n_type n = Entry) ns")
  case (Some entry)
  let ?st0 = "\<lparr>lay_out = [], lay_cursor = 0, lay_maxDepth = 0\<rparr>"
  let ?S = "{t. (n_id entry, t) \<in> (exit_steps ns es)\<^sup>*}"
  have walk: "walk ns es = visit ns es 0 [n_id entry] ?st0" using Some by (simp add: walk_def)
  have e: "n_id entry \<in> n_id ` set ns" using find_Some_in [OF Some] by simp
  have "placed (walk ns es) \<subseteq> placed ?st0 \<union> ?S"
    unfolding walk by (rule visit_within) (auto intro: rtrancl_into_rtrancl)
  then have sub: "placed (walk ns es) \<subseteq> ?S" by (simp add: placed_def)
  have closed: "t \<in> placed (walk ns es)" if "i \<in> placed (walk ns es)" "(i, t) \<in> exit_steps ns es" for i t
  proof -
    obtain new where "lay_out (walk ns es) = new"
      "\<forall>i \<in> set (ob_keys new). \<forall>t. (i, t) \<in> exit_steps ns es \<longrightarrow> t \<in> placed (walk ns es)"
      using visit_closed [of ns es 0 "[n_id entry]" ?st0] unfolding walk by auto
    with that show ?thesis unfolding placed_def by blast
  qed
  have "n_id entry \<in> placed (walk ns es)" unfolding walk using e by (intro visit_places) auto
  then have "?S \<subseteq> placed (walk ns es)" by (auto intro: closed_rtrancl [where S = "placed (walk ns es)", OF closed])
  with sub show ?thesis by (simp add: reached_def Some)
qed (simp add: walk_def reached_def placed_def)

lemma walk_walked: "walked ns 0 \<lparr>lay_out = [], lay_cursor = 0, lay_maxDepth = 0\<rparr> (walk ns es) (lay_out (walk ns es))"
proof -
  let ?st0 = "\<lparr>lay_out = [], lay_cursor = 0, lay_maxDepth = 0\<rparr>"
  have "\<exists>new. walked ns 0 ?st0 (walk ns es) new"
    unfolding walk_def Let_def
  proof (cases "List.find (\<lambda>n. n_type n = Entry) ns")
    case None
    then show "\<exists>new. walked ns 0 ?st0 (case List.find (\<lambda>n. n_type n = Entry) ns of None \<Rightarrow> ?st0
         | Some entry \<Rightarrow> visit ns es 0 [n_id entry] ?st0) new"
      by (auto simp: walked_def)
  next
    case (Some entry)
    then show "\<exists>new. walked ns 0 ?st0 (case List.find (\<lambda>n. n_type n = Entry) ns of None \<Rightarrow> ?st0
         | Some entry \<Rightarrow> visit ns es 0 [n_id entry] ?st0) new"
      using visit_walked [of ns 0 ?st0 es] by simp
  qed
  then show ?thesis by (auto simp: walked_def)
qed

section \<open>The orphan column\<close>

fun orphan_list :: "nat \<Rightarrow> nat \<Rightarrow> ('a NodeInput_scheme) list \<Rightarrow> (string \<times> Position) list" where
  "orphan_list x y [] = []"
| "orphan_list x y (n # ns) = (n_id n, grid x y) # orphan_list x (y + (node_height n + ROW_GAP)) ns"

lemma fold_orphans:
  "distinct (map n_id ns) \<Longrightarrow> set (map n_id ns) \<inter> set (ob_keys out) = {} \<Longrightarrow>
    fst (fold (place_orphan x) ns (out, y)) = out @ orphan_list x y ns"
proof (induction ns arbitrary: out y)
  case (Cons n ns)
  then have "fst (fold (place_orphan x) ns (out @ [(n_id n, grid x y)], y + (node_height n + ROW_GAP)))
      = (out @ [(n_id n, grid x y)]) @ orphan_list x (y + (node_height n + ROW_GAP)) ns"
    by (intro Cons.IH) auto
  then show ?case using Cons.prems by (simp add: place_orphan_def [of x n] set_new)
qed simp

lemma keys_orphan_list [simp]: "ob_keys (orphan_list x y ns) = map n_id ns"
  by (induction x y ns rule: orphan_list.induct) auto

lemma orphan_list_at: "a \<in> set (orphan_list x y ns) \<Longrightarrow> \<exists>y'. y \<le> y' \<and> snd a = grid x y'"
proof (induction x y ns rule: orphan_list.induct)
  case (2 x y n ns)
  then consider "a = (n_id n, grid x y)" | "a \<in> set (orphan_list x (y + (node_height n + ROW_GAP)) ns)" by auto
  then show ?case
  proof cases
    case b: 2
    from "2.IH" [OF this] show ?thesis by (meson add_leD1)
  qed auto
qed simp

lemma orphan_list_below:
  assumes "distinct (map n_id all)"
  shows "set ns \<subseteq> set all \<Longrightarrow> sorted_wrt (below all) (orphan_list x y ns)"
proof (induction x y ns rule: orphan_list.induct)
  case (2 x y n ns)
  have h: "height_of all (n_id n) = node_height n"
    using last_by_distinct [OF assms, of n] 2(2) by (simp add: height_of_def)
  have "below all (n_id n, grid x y) b" if b: "b \<in> set (orphan_list x (y + (node_height n + ROW_GAP)) ns)" for b
  proof -
    obtain y' where "y + (node_height n + ROW_GAP) \<le> y'" "snd b = grid x y'" using orphan_list_at [OF b] by blast
    then show ?thesis unfolding below_def grid_def using h
      by (simp del: of_nat_add add: of_nat_add [symmetric])
  qed
  with 2 show ?case by simp
qed simp

lemma tidyLayout_eq:
  assumes "distinct (map n_id ns)"
  shows "tidyLayout ns es = lay_out (walk ns es)
     @ orphan_list ((lay_maxDepth (walk ns es) + 1) * COLUMN_WIDTH + 80) 0 (filter (\<lambda>n. n_id n \<notin> reached ns es) ns)"
proof -
  let ?os = "filter (\<lambda>n. n_id n \<notin> placed (walk ns es)) ns"
  have "distinct (map n_id ?os)" using assms by (rule distinct_map_filter)
  moreover have "set (map n_id ?os) \<inter> set (ob_keys (lay_out (walk ns es))) = {}"
    unfolding placed_def [symmetric] by auto
  ultimately show ?thesis unfolding tidyLayout_def Let_def placed_walk [symmetric] by (rule fold_orphans)
qed

text \<open>Whole columns apart, or one below the other in the same column.\<close>

definition apart :: "('a NodeInput_scheme) list \<Rightarrow> string \<times> Position \<Rightarrow> string \<times> Position \<Rightarrow> bool" where
  "apart ns a b \<longleftrightarrow> \<bar>pos_x (snd a) - pos_x (snd b)\<bar> \<ge> of_nat COLUMN_WIDTH
     \<or> pos_x (snd a) = pos_x (snd b) \<and>
         (pos_y (snd a) + of_nat (height_of ns (fst a) + ROW_GAP) \<le> pos_y (snd b)
          \<or> pos_y (snd b) + of_nat (height_of ns (fst b) + ROW_GAP) \<le> pos_y (snd a))"

lemma grid_columns: "pos_x (grid (k * COLUMN_WIDTH) y) \<noteq> pos_x (grid (l * COLUMN_WIDTH) z) \<Longrightarrow>
   \<bar>pos_x (grid (k * COLUMN_WIDTH) y) - pos_x (grid (l * COLUMN_WIDTH) z)\<bar> \<ge> of_nat COLUMN_WIDTH"
proof -
  assume a: "pos_x (grid (k * COLUMN_WIDTH) y) \<noteq> pos_x (grid (l * COLUMN_WIDTH) z)"
  have "\<bar>int k * 320 - int l * 320\<bar> \<ge> 320" using a by (auto simp: grid_def COLUMN_WIDTH_def)
  then have "\<bar>of_int (int k * 320 - int l * 320) :: rat\<bar> \<ge> 320" by linarith
  then show ?thesis by (simp add: grid_def COLUMN_WIDTH_def)
qed

lemma below_apart:
  assumes "below ns a b" "snd a = grid (k * COLUMN_WIDTH) y" "snd b = grid (l * COLUMN_WIDTH) z"
  shows "apart ns a b"
proof (cases "pos_x (snd a) = pos_x (snd b)")
  case True
  then show ?thesis using assms(1) unfolding apart_def below_def by blast
next
  case False
  then show ?thesis using grid_columns [of k y l z] unfolding apart_def assms(2,3) by blast
qed

lemma tidy_apart:
  assumes "distinct (map n_id ns)"
  shows "sorted_wrt (apart ns) (tidyLayout ns es)"
proof -
  let ?st = "walk ns es"
  let ?x = "(lay_maxDepth ?st + 1) * COLUMN_WIDTH + 80"
  let ?os = "filter (\<lambda>n. n_id n \<notin> reached ns es) ns"
  have w: "walked ns 0 \<lparr>lay_out = [], lay_cursor = 0, lay_maxDepth = 0\<rparr> ?st (lay_out ?st)" by (rule walk_walked)
  have col: "\<exists>k y. k \<le> lay_maxDepth ?st \<and> snd a = grid (k * COLUMN_WIDTH) y" if "a \<in> set (lay_out ?st)" for a
    using w that unfolding walked_def in_band_def by blast
  have 1: "sorted_wrt (apart ns) (lay_out ?st)"
    by (rule sorted_wrt_mono_rel [of _ "below ns"]) (use w col below_apart in \<open>metis walked_def\<close>)+
  have "sorted_wrt (below ns) (orphan_list ?x 0 ?os)" by (rule orphan_list_below [OF assms]) auto
  then have 2: "sorted_wrt (apart ns) (orphan_list ?x 0 ?os)"
    by (rule sorted_wrt_mono_rel [rotated]) (auto simp: apart_def below_def dest!: orphan_list_at)
  have "apart ns a b" if a: "a \<in> set (lay_out ?st)" and b: "b \<in> set (orphan_list ?x 0 ?os)" for a b
  proof -
    obtain k y where k: "k \<le> lay_maxDepth ?st" "snd a = grid (k * COLUMN_WIDTH) y" using col [OF a] by blast
    obtain z where z: "snd b = grid ?x z" using orphan_list_at [OF b] by blast
    have "k * 320 + 320 \<le> (lay_maxDepth ?st + 1) * 320 + 80" using k(1) by simp
    then have "of_nat (k * 320 + 320) \<le> (of_nat ((lay_maxDepth ?st + 1) * 320 + 80) :: rat)"
      by (simp only: of_nat_le_iff)
    then show ?thesis unfolding apart_def k z by (simp add: grid_def COLUMN_WIDTH_def)
  qed
  then show ?thesis unfolding tidyLayout_eq [OF assms] using 1 2 by (auto simp: sorted_wrt_append)
qed

section \<open>Properties\<close>

definition sample_node :: "string \<Rightarrow> IvrNodeType \<Rightarrow> WorkNode" where
  "sample_node i t =
     \<lparr>n_id = i, n_type = t, n_pos = \<lparr>pos_x = 0, pos_y = 0\<rparr>,
      n_data = \<lparr>bd_label = None, bd_config = defaultConfig t, bd_keepNode = None, bd_keepData = None\<rparr>,
      n_deletable = None\<rparr>"

definition sample_edge :: "string \<Rightarrow> string \<Rightarrow> string \<Rightarrow> WorkEdge" where
  "sample_edge s h t = \<lparr>e_id = s @ h, e_source = s, e_sourceHandle = h, e_target = t, e_keep = None\<rparr>"

definition sample_nodes :: "WorkNode list" where
  "sample_nodes = [sample_node ''v'' Voicemail, sample_node ''s'' Entry, sample_node ''m'' Menu, sample_node ''h'' Hangup]"

definition sample_edges :: "WorkEdge list" where
  "sample_edges = [sample_edge ''s'' ''next'' ''m'', sample_edge ''m'' ''d:1'' ''h'', sample_edge ''m'' ''noMatch'' ''h'']"

lemma sample_ids: "map n_id sample_nodes = [''v'', ''s'', ''m'', ''h'']"
  by (simp add: sample_nodes_def sample_node_def)

text \<open>C15. Tidy up never puts two blocks on top of each other: of any two blocks it places, either
  they are at least a column apart, or they share a column and one begins a full row gap below the
  other's estimated height.\<close>

theorem tidy_no_overlap:
  assumes "distinct (map n_id ns)"
  shows "sorted_wrt (\<lambda>(i, p) (j, q). \<bar>pos_x p - pos_x q\<bar> \<ge> of_nat COLUMN_WIDTH
     \<or> pos_x p = pos_x q \<and>
         (pos_y p + of_nat (height_of ns i + ROW_GAP) \<le> pos_y q
          \<or> pos_y q + of_nat (height_of ns j + ROW_GAP) \<le> pos_y p)) (tidyLayout ns es)"
  by (rule sorted_wrt_mono_rel [OF _ tidy_apart [OF assms]]) (auto simp: apart_def)

theorem tidy_no_overlap_witness:
  "sorted_wrt (\<lambda>(i, p) (j, q). \<bar>pos_x p - pos_x q\<bar> \<ge> of_nat COLUMN_WIDTH
     \<or> pos_x p = pos_x q \<and>
         (pos_y p + of_nat (height_of sample_nodes i + ROW_GAP) \<le> pos_y q
          \<or> pos_y q + of_nat (height_of sample_nodes j + ROW_GAP) \<le> pos_y p)) (tidyLayout sample_nodes sample_edges)"
  by (rule tidy_no_overlap) (simp add: sample_ids)

text \<open>Tidy up gives every block exactly one place, in calling order: first the blocks a caller
  can reach from Start along exits, beginning with Start itself, then the others in their stored
  order.\<close>

theorem calling_order_complete:
  assumes "distinct (map n_id ns)"
  shows "distinct (callingOrder ns es) \<and> set (callingOrder ns es) = n_id ` set ns
     \<and> (\<exists>met. callingOrder ns es = met @ map n_id (filter (\<lambda>n. n_id n \<notin> reached ns es) ns)
           \<and> set met = reached ns es)"
proof -
  let ?met = "ob_keys (lay_out (walk ns es))"
  let ?os = "filter (\<lambda>n. n_id n \<notin> reached ns es) ns"
  have met: "set ?met = reached ns es" using placed_walk [of ns es] unfolding placed_def .
  have w: "distinct ?met" "set ?met \<subseteq> n_id ` set ns"
    using walk_walked [of ns es] by (auto simp: walked_def in_band_def)
  have order: "callingOrder ns es = ?met @ map n_id ?os"
    by (simp add: callingOrder_def tidyLayout_eq [OF assms])
  have "distinct (?met @ map n_id ?os)"
  proof -
    have "set ?met \<inter> set (map n_id ?os) = {}" unfolding met by auto
    then show ?thesis using w(1) distinct_map_filter [OF assms] by (simp only: distinct_append)
  qed
  moreover have "set (?met @ map n_id ?os) = n_id ` set ns"
    using w(2) met by auto
  ultimately show ?thesis unfolding order using met by blast
qed

theorem calling_order_complete_witness:
  "distinct (callingOrder sample_nodes sample_edges) \<and> set (callingOrder sample_nodes sample_edges) = n_id ` set sample_nodes
     \<and> (\<exists>met. callingOrder sample_nodes sample_edges
             = met @ map n_id (filter (\<lambda>n. n_id n \<notin> reached sample_nodes sample_edges) sample_nodes)
           \<and> set met = reached sample_nodes sample_edges)"
  by (rule calling_order_complete) (simp add: sample_ids)

end
