(* ===== verification/Compile_Props.thy ===== *)
theory Compile_Props
  imports Compile_Spec Layout
begin

text \<open>
  What callers get from the compiler: it always answers, an accepted plan is closed and within the
  switch's limits, it is the block by block translation of the reachable part of the graph, and the
  one way it can throw.
\<close>

section \<open>Values of an accepted plan\<close>

definition prompts_within :: "CompileContext \<Rightarrow> PromptId list \<Rightarrow> bool" where
  "prompts_within ctx ps \<longleftrightarrow> length ps \<le> 10 \<and> (case cx_prompts ctx of Some live \<Rightarrow> set ps \<subseteq> set live | None \<Rightarrow> True)"

text \<open>What a node of an accepted plan promises the switch that runs it.\<close>

fun plan_in_bounds :: "CompileContext \<Rightarrow> PlanNode \<Rightarrow> bool" where
  "plan_in_bounds ctx (PPlay ps next) \<longleftrightarrow> ps \<noteq> [] \<and> prompts_within ctx ps"
| "plan_in_bounds ctx (PMenu ps ds t re bad noi ni nm) \<longleftrightarrow> ps \<noteq> [] \<and> prompts_within ctx ps
     \<and> prompts_within ctx bad \<and> prompts_within ctx noi \<and> 1000 \<le> t \<and> t \<le> 30000
     \<and> isInteger (Fin re) \<and> 0 \<le> re \<and> re \<le> 5
     \<and> ds \<noteq> [] \<and> distinct (map fst ds) \<and> list_all (\<lambda>(d, ref). isMenuDigit d \<and> ref \<noteq> None) ds"
| "plan_in_bounds ctx (PHours tz w dates op cl) \<longleftrightarrow> isIvrTimezone tz \<and> map fst w = DAY_KEYS
     \<and> list_all (\<lambda>(d, rs). separated rs \<and> list_all (\<lambda>(s, e). e \<le> 1440) rs) w
     \<and> list_all isRealDate dates \<and> distinct dates"
| "plan_in_bounds ctx (PCaller mode vs ma nm) \<longleftrightarrow>
     (if mode = ''anonymous'' then vs = [] else 1 \<le> length vs \<and> length vs \<le> 50)"
| "plan_in_bounds ctx (PTransfer dest pass ring na) \<longleftrightarrow> 5 \<le> ring \<and> ring \<le> 120
     \<and> (case dest of
          ToExternal e \<Rightarrow> (\<exists>npa nxx line. e = ''+1'' @ npa @ nxx @ line \<and> us_line npa nxx line)
        | ToOwn did product \<Rightarrow> did \<noteq> '''' \<and> did \<notin> set (cx_ownDids ctx))"
| "plan_in_bounds ctx (PVoicemail did) \<longleftrightarrow> did \<noteq> ''''"
| "plan_in_bounds ctx (PHangup ps) \<longleftrightarrow> prompts_within ctx ps"

lemma toMinutes_le: "toMinutes s = Some m \<Longrightarrow> m \<le> 1440"
  by (auto simp: toMinutes_def split: option.splits if_splits)

lemma good_range_bounds: "good_range r = Some (s, e) \<Longrightarrow> s < e \<and> e \<le> 1440"
  by (auto simp: good_range_def dest: toMinutes_le split: option.splits if_splits)

lemma day_plan_bounds: "separated (day_plan c day) \<and> list_all (\<lambda>(s, e). e \<le> 1440) (day_plan c day)"
proof -
  let ?rs = "List.map_filter good_range (cfg_day c day)"
  have rs: "\<forall>(s, e) \<in> set ?rs. s < e \<and> e \<le> 1440"
    by (auto simp: in_map_filter good_range_bounds)
  then have lt: "\<forall>(s, e) \<in> set ?rs. s < e" by auto
  note m = mergeRanges_laws [OF lt]
  have "e \<le> 1440" if "(s, e) \<in> set (day_plan c day)" for s e
  proof -
    have "s < e" using m(1) that by (auto simp: separated_def day_plan_def)
    then have "covers (day_plan c day) (e - 1)" unfolding covers_def using that by (intro bexI [of _ "(s, e)"]) auto
    then have "covers ?rs (e - 1)" using m(2) by (simp add: day_plan_def)
    then show ?thesis using rs \<open>s < e\<close> by (fastforce simp: covers_def)
  qed
  then show ?thesis using m(1) by (auto simp: day_plan_def list_all_iff)
qed

lemma prompts_ok_within [simp]: "prompts_ok ctx ps = prompts_within ctx ps"
  by (simp add: prompts_ok_def prompts_within_def LIMITS_def)

lemma timeout_bounds: "1 \<le> t \<Longrightarrow> t \<le> 30 \<Longrightarrow> 1000 \<le> round_half_up (t * 1000) \<and> round_half_up (t * 1000) \<le> 30000"
  unfolding round_half_up_def by linarith

lemma fst_fold_set:
  "distinct (ob_keys m) \<Longrightarrow> distinct (ob_keys (fold (\<lambda>d m. ob_set m d (f d)) ds m))"
  "k \<in> set (ob_keys (fold (\<lambda>d m. ob_set m d (f d)) ds m)) \<longleftrightarrow> k \<in> set (ob_keys m) \<or> k \<in> set ds"
  unfolding fold_set_spread in_keys_spread by (rule distinct_keys_spread, assumption) (simp add: comp_def)


lemma digit_pairs:
  assumes "\<And>d. d \<in> set ds \<Longrightarrow> isMenuDigit d \<and> f d \<noteq> None" and "ds \<noteq> []"
  defines "m \<equiv> fold (\<lambda>d m. ob_set m d (f d)) ds []"
  shows "m \<noteq> [] \<and> distinct (map fst m) \<and> list_all (\<lambda>(d, ref). isMenuDigit d \<and> ref \<noteq> None) m"
proof -
  have keys: "distinct (map fst m)" "set (map fst m) = set ds"
    using fst_fold_set(1) [of "[]" f ds] fst_fold_set(2) [of _ f ds "[]"] unfolding m_def by auto
  then have "m \<noteq> []" using assms(2) by (metis list.simps(8) set_empty)
  moreover have "isMenuDigit d \<and> ref \<noteq> None" if "(d, ref) \<in> set m" for d ref
  proof -
    have "d \<in> set (map fst m)" using that by (metis fst_conv image_eqI list.set_map)
    then have d: "d \<in> set ds" unfolding keys(2) .
    have "ref \<in> snd ` set m" using that by (metis image_eqI snd_conv)
    then have "ref \<in> f ` set ds" using snd_fold_set [of f ds "[]"] unfolding m_def by auto
    then show ?thesis using d assms(1) by auto
  qed
  ultimately show ?thesis using keys(1) by (auto simp: list_all_iff)
qed

lemma limit_values:
  "timeoutSec_min LIMITS = 1" "timeoutSec_max LIMITS = 30" "retries_min LIMITS = 0" "retries_max LIMITS = 5"
  by (simp_all add: LIMITS_def)

lemma menu_in_bounds:
  assumes ok: "block_ok nodes slot ctx n" and Menu: "n_type n = Menu" and p: "plan_of nodes slot ctx n = Some p"
    and refs: "\<And>d. d \<in> set (menu_digits (n_config n)) \<Longrightarrow> pointer nodes slot (n_id n) (digitHandle d) \<noteq> None"
  shows "plan_in_bounds ctx p"
proof -
  let ?c = "n_config n"
  let ?f = "\<lambda>d. pointer nodes slot (n_id n) (digitHandle d)"
  note ok' = ok [unfolded block_ok_def Let_def Menu IvrNodeType.case prompts_ok_within]
  have ne: "menu_digits ?c \<noteq> []"
  proof
    assume "menu_digits ?c = []"
    then show False using ok' by (simp add: LIMITS_def)
  qed
  have ds: "\<And>d. d \<in> set (menu_digits ?c) \<Longrightarrow> isMenuDigit d \<and> ?f d \<noteq> None"
    using refs by (auto simp: menu_digits_def)
  note pairs = digit_pairs [where f = ?f, OF ds ne]
  note p' = p [unfolded plan_of_def Let_def Menu IvrNodeType.case option.inject, symmetric]
  have lim: "1 \<le> cfg_num ?c ''timeoutSec''" "cfg_num ?c ''timeoutSec'' \<le> 30" "isInteger (Fin (cfg_num ?c ''retries''))"
     "0 \<le> cfg_num ?c ''retries''" "cfg_num ?c ''retries'' \<le> 5"
    using ok' by (simp_all only: limit_values)
  show ?thesis unfolding p' plan_in_bounds.simps
    using ok' pairs lim timeout_bounds [OF lim(1,2)] by blast
qed

lemma schedule_in_bounds:
  assumes ok: "block_ok nodes slot ctx n" and t: "n_type n = Schedule" and p: "plan_of nodes slot ctx n = Some p"
  shows "plan_in_bounds ctx p"
proof -
  note ok' = ok [unfolded block_ok_def Let_def t IvrNodeType.case]
  note p' = p [unfolded plan_of_def Let_def t IvrNodeType.case option.inject, symmetric]
  have "map fst (map (\<lambda>day. (day, day_plan (n_config n) day)) DAY_KEYS) = DAY_KEYS" by (simp add: comp_def)
  moreover have "list_all (\<lambda>(d, rs). separated rs \<and> list_all (\<lambda>(s, e). e \<le> 1440) rs)
      (map (\<lambda>day. (day, day_plan (n_config n) day)) DAY_KEYS)"
    using day_plan_bounds by (auto simp: list_all_iff)
  moreover have "list_all isRealDate (filter isRealDate xs) \<and> distinct (filter isRealDate (sort (remdups xs)))" for xs
    by (auto simp: list_all_iff)
  ultimately show ?thesis unfolding p' plan_in_bounds.simps using ok' by (auto simp: list_all_iff)
qed

lemma dial_in_bounds:
  assumes ok: "block_ok nodes slot ctx n" and t: "n_type n = Dial" and p: "plan_of nodes slot ctx n = Some p"
  shows "plan_in_bounds ctx p"
proof -
  have "\<exists>npa nxx line. e = ''+1'' @ npa @ nxx @ line \<and> us_line npa nxx line"
    if "ec_problem (checkExternalNumber s) = None" "ec_e164 (checkExternalNumber s) = Some e" for s e
  proof -
    have "toUsE164 s = Some e" "judge e = None" using that by (auto simp: check_judge split: option.splits)
    then show ?thesis using allowed_us_line by blast
  qed
  moreover note ok' = ok [unfolded block_ok_def Let_def t IvrNodeType.case]
  moreover note p' = p [unfolded plan_of_def Let_def t IvrNodeType.case]
  ultimately show ?thesis
    by (auto simp: dial_ok_def dial_dest_def own_ok_def Let_def LIMITS_def split: if_splits)
qed

lemma plan_of_in_bounds:
  assumes ok: "block_ok nodes slot ctx n" and p: "plan_of nodes slot ctx n = Some p"
    and refs: "\<And>d. n_type n = Menu \<Longrightarrow> d \<in> set (menu_digits (n_config n)) \<Longrightarrow> pointer nodes slot (n_id n) (digitHandle d) \<noteq> None"
  shows "plan_in_bounds ctx p"
proof (cases "n_type n")
  case Menu
  then show ?thesis using menu_in_bounds [OF ok Menu p] refs by blast
next
  case Schedule
  then show ?thesis using schedule_in_bounds [OF ok _ p] by blast
next
  case Dial
  then show ?thesis using dial_in_bounds [OF ok _ p] by blast
qed (use ok p in \<open>auto simp: plan_of_def block_ok_def Let_def LIMITS_def split: if_splits\<close>)

section \<open>The compiler as a function\<close>

lemma byId_known: "\<forall>x \<in> set nodes. \<exists>n. x = Known n \<Longrightarrow> \<not> is_foreign nodes t"
  by (auto simp: is_foreign_def dest!: byId_in split: option.splits IvrNode.splits)

lemma compile_returns:
  assumes "\<forall>x \<in> set (g_nodes g). \<exists>n. x = Known n"
  shows "\<exists>r. compileIvr g ctx = Inr r"
proof -
  let ?ns = "g_nodes g"
  obtain slot st1 where s: "read_slots ?ns (g_edges g) [] (graph_rules ?ns ctx empty_state) = Inr (slot, st1)"
    using read_slots_known [OF assms, of "g_edges g" "[]" "graph_rules ?ns ctx empty_state"]
    by (cases "read_slots ?ns (g_edges g) [] (graph_rules ?ns ctx empty_state)") auto
  have "\<exists>R. (case List.find (is_type Entry) ?ns of None \<Rightarrow> Inr {} | Some entry \<Rightarrow> reach_loop ?ns slot [node_id entry] {}) = Inr R"
    by (auto simp: reach_loop_result byId_known [OF assms] split: option.splits)
  then obtain R where R: "(case List.find (is_type Entry) ?ns of None \<Rightarrow> Inr {} | Some entry \<Rightarrow> reach_loop ?ns slot [node_id entry] {}) = Inr R" ..
  obtain st2 where "report_unreachable R ?ns st1 = Inr st2"
    using report_unreachable_known [OF assms, of R st1] by (cases "report_unreachable R ?ns st1") auto
  then show ?thesis using s R by (simp add: compileIvr_def Let_def)
qed

lemma report_unreachable_throws:
  "Foreign ob \<in> set ns \<Longrightarrow> foreign_id ob \<notin> reachable \<Longrightarrow> blockTitle (Foreign ob) = Inl err \<Longrightarrow> \<exists>e. report_unreachable reachable ns st = Inl e"
  by (induction reachable ns st rule: report_unreachable.induct) (auto split: sum.splits if_splits)

lemma JsError_only: "(e :: JsError) = TypeError"
  by (cases e) simp

lemma ok_menu_refs:
  assumes c: "compileIvr g ctx = Inr r" and ok: "cr_ok r" and d: "distinct (map node_id (g_nodes g))"
    and i: "i \<in> cr_reachable r" "byId (g_nodes g) i = Some (Known n)" and t: "n_type n = Menu"
    and k: "k \<in> set (menu_digits (n_config n))"
  shows "pointer (g_nodes g) (slots_of (g_nodes g) (g_edges g)) i (digitHandle k) \<noteq> None"
proof -
  have "block_ok (g_nodes g) (slots_of (g_nodes g) (g_edges g)) ctx n" by (rule ok_facts(2) [OF c ok i])
  then have "\<forall>d \<in> set (menu_digits (n_config n)). connected (slots_of (g_nodes g) (g_edges g)) (n_id n) (digitHandle d)"
    unfolding block_ok_def Let_def t IvrNodeType.case by blast
  moreover have "n_id n = i" using byId_in [OF i(2)] by simp
  moreover have "digitHandle k \<in> set (node_exits n)" using menu_digits_exits [OF k] unfolding t .
  ultimately show ?thesis using ok_pointer [OF c ok d i, of "digitHandle k"] k by blast
qed

lemma ok_in_bounds:
  assumes c: "compileIvr g ctx = Inr r" and ok: "cr_ok r" and d: "distinct (map node_id (g_nodes g))"
    and p: "(i, p) \<in> set (pl_nodes (cr_plan r))"
  shows "plan_in_bounds ctx p"
proof -
  obtain n where n: "byId (g_nodes g) i = Some (Known n)" "n_id n = i" "i \<in> cr_reachable r"
    "plan_of (g_nodes g) (slots_of (g_nodes g) (g_edges g)) ctx n = Some p"
    using iffD1 [OF pl_nodes_in [OF c d] p] by blast
  show ?thesis
    by (rule plan_of_in_bounds [OF ok_facts(2) [OF c ok n(3,1)] n(4)])
      (use ok_menu_refs [OF c ok d n(3,1)] n(2) in blast)
qed

lemma compile_unlabelled_throws:
  assumes d: "distinct (map node_id (g_nodes g))" and f: "Foreign ob \<in> set (g_nodes g)"
    and t: "blockTitle (Foreign ob) = Inl err"
  shows "compileIvr g ctx = Inl TypeError"
proof (cases "compileIvr g ctx")
  case (Inl e)
  then show ?thesis using JsError_only by simp
next
  case (Inr r)
  have r1: "\<exists>n. byId (g_nodes g) t = Some (Known n)" if "t \<in> cr_reachable r" for t
    by (rule compileIvr_Inr [OF Inr]) (use that in blast)
  obtain st1 st2 where r2: "report_unreachable (cr_reachable r) (g_nodes g) st1 = Inr st2"
    by (rule compileIvr_Inr [OF Inr])
  have "byId (g_nodes g) (foreign_id ob) = Some (Foreign ob)"
    using last_by_distinct [OF d f] by (simp add: byId_def)
  then have "foreign_id ob \<notin> cr_reachable r" using r1 [of "foreign_id ob"] by auto
  then obtain e where "report_unreachable (cr_reachable r) (g_nodes g) st1 = Inl e"
    using report_unreachable_throws [OF f _ t] by blast
  then show ?thesis unfolding r2 by simp
qed

lemma pl_prompts_set:
  assumes "compileIvr g ctx = Inr r" and d: "distinct (map node_id (g_nodes g))"
  shows "distinct (pl_prompts (cr_plan r))
    \<and> set (pl_prompts (cr_plan r)) = (\<Union>(i, p) \<in> set (pl_nodes (cr_plan r)). set (plan_prompts p))"
proof -
  let ?ns = "g_nodes g" and ?slot = "slots_of (g_nodes g) (g_edges g)" and ?R = "cr_reachable r"
  obtain st1 st2 where c: "read_slots ?ns (g_edges g) [] (graph_rules ?ns ctx empty_state) = Inr (?slot, st1)"
    "report_unreachable ?R ?ns st1 = Inr st2"
    "pl_prompts (cr_plan r) = cs_prompts (compile_blocks ?ns ?slot ctx ?R st2)"
    by (rule compileIvr_Inr [OF assms(1)])
  have "cs_prompts st2 = []"
    using report_unreachable_effect [OF c(2)] read_slots_clean [OF c(1)] by (simp add: graph_rules_effect)
  then have pb: "distinct (cs_prompts st2)" "set (cs_prompts st2) = {}" by simp_all
  have p: "distinct (pl_prompts (cr_plan r))"
    "set (pl_prompts (cr_plan r)) = (\<Union>n \<in> {n. in_reach ?R ?ns n}. set (block_prompts n))"
    using prompts_blocks [OF pb(1), of ?ns ?slot ctx ?R ?ns] unfolding c(3) compile_blocks_plan(2) pb(2) Un_empty_left by blast+
  have in_reach: "in_reach ?R ?ns n \<longleftrightarrow> n_id n \<in> ?R \<and> byId ?ns (n_id n) = Some (Known n)" for n
    using last_by_distinct [OF d, of "Known n"] byId_in [of ?ns "n_id n" "Known n"] by (auto simp: in_reach_def byId_def)
  have "set (pl_prompts (cr_plan r)) = (\<Union>(i, p) \<in> set (pl_nodes (cr_plan r)). set (plan_prompts p))"
    unfolding p(2) in_reach
  proof (intro set_eqI iffI; clarify)
    fix x n assume n: "x \<in> set (block_prompts n)" "n_id n \<in> ?R" "byId ?ns (n_id n) = Some (Known n)"
    then obtain q where "plan_of ?ns ?slot ctx n = Some q"
      using plan_of_no_prompts [of ?ns ?slot ctx n] by fastforce
    then show "x \<in> (\<Union>(i, p) \<in> set (pl_nodes (cr_plan r)). set (plan_prompts p))"
      using n plan_of_prompts pl_nodes_in [OF assms, of "n_id n" q] by fastforce
  next
    fix x i q assume "(i, q) \<in> set (pl_nodes (cr_plan r))" "x \<in> set (plan_prompts q)"
    then show "x \<in> (\<Union>n \<in> {n. n_id n \<in> ?R \<and> byId ?ns (n_id n) = Some (Known n)}. set (block_prompts n))"
      using plan_of_prompts pl_nodes_in [OF assms, of i q] by fastforce
  qed
  with p(1) show ?thesis by blast
qed

section \<open>Properties\<close>

definition sample_block :: "string \<Rightarrow> IvrNodeType \<Rightarrow> obj \<Rightarrow> IvrNode" where
  "sample_block i t c = Known \<lparr>n_id = i, n_type = t, n_pos = \<lparr>pos_x = 0, pos_y = 0\<rparr>,
     n_data = \<lparr>bd_label = None, bd_config = c, bd_keepNode = None, bd_keepData = None\<rparr>\<rparr>"

definition sample_ivr :: IvrGraph where
  "sample_ivr = \<lparr>g_nodes = [sample_block ''start'' Entry [], sample_block ''hello'' Play [(''prompts'', JArr [JNum (Fin 3), JNum (Fin 3)])],
       sample_block ''bye'' Hangup [(''prompts'', JArr [])], sample_block ''lost'' Hangup [(''prompts'', JArr [JNum (Fin 4)])]],
     g_edges = [sample_edge ''start'' ''next'' ''hello'', sample_edge ''hello'' ''next'' ''bye''],
     g_viewport = None, g_keep = []\<rparr>"

definition sample_ctx :: CompileContext where
  "sample_ctx = \<lparr>cx_prompts = Some [3, 4], cx_destinations = None, cx_ownDids = [], cx_maxBlocks = None\<rparr>"

definition sample_result :: CompileResult where
  "sample_result = \<lparr>cr_ok = True,
     cr_issues = [\<lparr>is_severity = Warning, is_code = ''unreachable'', is_nodeId = Some ''lost'', is_handle = None\<rparr>],
     cr_plan = \<lparr>pl_start = Some ''hello'', pl_max_steps = 200, pl_max_seconds = 1800, pl_prompts = [3],
        pl_nodes = [(''hello'', PPlay [3, 3] (Some ''bye'')), (''bye'', PHangup [])]\<rparr>,
     cr_reachable = {''start'', ''hello'', ''bye''}\<rparr>"

lemma compile_sample: "compileIvr sample_ivr sample_ctx = Inr sample_result"
  by code_simp

text \<open>C14. The compiler always answers: on a graph of blocks it knows it returns a result, whatever the edges,
  jumps and configurations are, and the reachable set it reports is exactly what a caller can reach from the
  first Start along connected exits and Go to jumps.\<close>

theorem compile_total:
  assumes "\<forall>x \<in> set (g_nodes g). \<exists>n. x = Known n"
  shows "\<exists>r. compileIvr g ctx = Inr r \<and> cr_reachable r = reachable_from (g_nodes g) (slots_of (g_nodes g) (g_edges g))"
proof -
  obtain r where r: "compileIvr g ctx = Inr r" using compile_returns [OF assms] by blast
  moreover have "cr_reachable r = reachable_from (g_nodes g) (slots_of (g_nodes g) (g_edges g))"
    by (rule compileIvr_Inr [OF r])
  ultimately show ?thesis by blast
qed

theorem compile_total_witness:
  "\<exists>r. compileIvr sample_ivr sample_ctx = Inr r
     \<and> cr_reachable r = reachable_from (g_nodes sample_ivr) (slots_of (g_nodes sample_ivr) (g_edges sample_ivr))"
  by (rule compile_total) (simp add: sample_ivr_def sample_block_def)

text \<open>C1. An accepted plan is closed: its start and every pointer of its nodes name another node of the plan or
  end the call, and every node of the plan can be reached by a caller. Nothing dangles.\<close>

theorem ok_plan_closed:
  assumes "compileIvr g ctx = Inr r" and "cr_ok r" and "distinct (map node_id (g_nodes g))"
  shows "(\<exists>s. pl_start (cr_plan r) = Some s \<and> s \<in> set (ob_keys (pl_nodes (cr_plan r))))
    \<and> (\<forall>(i, p) \<in> set (pl_nodes (cr_plan r)). i \<in> cr_reachable r
         \<and> set (plan_refs p) \<subseteq> insert None (Some ` set (ob_keys (pl_nodes (cr_plan r)))))"
proof (intro conjI ballI)
  show "\<exists>s. pl_start (cr_plan r) = Some s \<and> s \<in> set (ob_keys (pl_nodes (cr_plan r)))" by (rule ok_start [OF assms])
  fix x assume "x \<in> set (pl_nodes (cr_plan r))"
  moreover obtain i p where "x = (i, p)" by force
  ultimately show "case x of (i, p) \<Rightarrow> i \<in> cr_reachable r
      \<and> set (plan_refs p) \<subseteq> insert None (Some ` set (ob_keys (pl_nodes (cr_plan r))))"
    using ok_refs [OF assms] pl_nodes_in [OF assms(1,3)] by (simp del: set_map) blast
qed

lemma sample_ids_distinct: "distinct (map node_id (g_nodes sample_ivr))"
  by (simp add: sample_ivr_def sample_block_def)

lemma sample_result_ok: "cr_ok sample_result"
  by (simp add: sample_result_def)

lemmas sample_compiled = compile_sample sample_result_ok sample_ids_distinct

theorem ok_plan_closed_witness:
  "(\<exists>s. pl_start (cr_plan sample_result) = Some s \<and> s \<in> set (ob_keys (pl_nodes (cr_plan sample_result))))
    \<and> list_all (\<lambda>(i, p). i \<in> cr_reachable sample_result
         \<and> set (plan_refs p) \<subseteq> insert None (Some ` set (ob_keys (pl_nodes (cr_plan sample_result)))))
       (pl_nodes (cr_plan sample_result))"
  using ok_plan_closed [OF sample_compiled] unfolding list_all_iff .

text \<open>C2. The compiler's mutable passes compute a block by block translation: the plan has distinct ids and holds
  a node under an id exactly when a caller can reach that block and \<open>plan_of\<close> gives it a node, namely that node.\<close>

theorem plan_is_translation:
  assumes "compileIvr g ctx = Inr r" and "distinct (map node_id (g_nodes g))"
  shows "distinct (ob_keys (pl_nodes (cr_plan r)))
    \<and> ob_get (pl_nodes (cr_plan r)) i = (case byId (g_nodes g) i of
        Some (Known n) \<Rightarrow> if i \<in> cr_reachable r then plan_of (g_nodes g) (slots_of (g_nodes g) (g_edges g)) ctx n else None
      | _ \<Rightarrow> None)"
  using distinct_pl_nodes [OF assms(1)] pl_nodes_get [OF assms] by blast

theorem plan_is_translation_witness:
  "distinct (ob_keys (pl_nodes (cr_plan sample_result)))
    \<and> ob_get (pl_nodes (cr_plan sample_result)) ''lost'' = (case byId (g_nodes sample_ivr) ''lost'' of
        Some (Known n) \<Rightarrow> if ''lost'' \<in> cr_reachable sample_result
           then plan_of (g_nodes sample_ivr) (slots_of (g_nodes sample_ivr) (g_edges sample_ivr)) sample_ctx n else None
      | _ \<Rightarrow> None)"
  by (rule plan_is_translation [OF compile_sample sample_ids_distinct])



text \<open>C34. The prompts the plan asks the switch to load are exactly those its nodes play, each once.\<close>

theorem plan_prompts_exact:
  assumes "compileIvr g ctx = Inr r" and "distinct (map node_id (g_nodes g))"
  shows "distinct (pl_prompts (cr_plan r))
    \<and> set (pl_prompts (cr_plan r)) = (\<Union>(i, p) \<in> set (pl_nodes (cr_plan r)). set (plan_prompts p))"
  by (rule pl_prompts_set [OF assms])

theorem plan_prompts_exact_witness:
  "distinct (pl_prompts (cr_plan sample_result))
    \<and> set (pl_prompts (cr_plan sample_result)) = (\<Union>(i, p) \<in> set (pl_nodes (cr_plan sample_result)). set (plan_prompts p))"
  by (rule plan_prompts_exact [OF compile_sample sample_ids_distinct])

text \<open>A block of a type this builder does not know, kept in the draft without a label, makes the compiler throw:
  its title is read to report it unreachable, or its exits to follow an edge, and either read fails.\<close>

theorem compile_throws_on_unlabelled:
  assumes "distinct (map node_id (g_nodes g))" and "Foreign ob \<in> set (g_nodes g)"
    and "blockTitle (Foreign ob) = Inl TypeError"
  shows "compileIvr g ctx = Inl TypeError"
  by (rule compile_unlabelled_throws [OF assms])

definition sample_foreign :: obj where
  "sample_foreign = [(''id'', JStr ''odd''), (''type'', JStr ''fax''), (''data'', JObj [])]"

theorem compile_throws_on_unlabelled_witness:
  "compileIvr (sample_ivr\<lparr>g_nodes := g_nodes sample_ivr @ [Foreign sample_foreign]\<rparr>) sample_ctx = Inl TypeError"
  by (rule compile_throws_on_unlabelled [where ob = sample_foreign])
    (simp_all add: sample_ivr_def sample_block_def sample_foreign_def foreign_id_def blockTitle_def)

end
