(* ===== verification/History.thy ===== *)
theory History
  imports Graph
begin

text \<open>
  Undo and redo (\<open>flow/model/history.ts\<close>), a small pure state machine over snapshots of what
  the customer edits. \<open>timeline\<close> is its abstract view: the snapshots in order, with a cursor at
  the current one; the locale \<open>undo_history\<close> states the contract over that view and is
  interpreted on \<open>undo\<close> and \<open>redo\<close> below. Time is \<open>Date.now()\<close> in milliseconds, an argument as
  in the source.
\<close>

section \<open>Snapshots\<close>

record SnapNode =
  sn_id :: string
  sn_type :: IvrNodeType
  sn_pos :: Position
  sn_data :: BlockData

text \<open>An edge's \<open>data\<close> is absent (\<^term>\<open>None\<close>), \<open>{}\<close> or \<open>{ keep }\<close>.\<close>

record SnapEdge =
  se_id :: string
  se_source :: string
  se_sourceHandle :: "string option"
  se_target :: string
  se_data :: "obj option option"

record Snapshot =
  ss_nodes :: "SnapNode list"
  ss_edges :: "SnapEdge list"

record HistoryState =
  past :: "Snapshot list"
  future :: "Snapshot list"
  lastKey :: "string option"
  lastAt :: int

definition COALESCE_MS :: int where
  "COALESCE_MS = 900"

definition HISTORY_LIMIT :: nat where
  "HISTORY_LIMIT = 100"

definition emptyHistory :: HistoryState where
  "emptyHistory = \<lparr>past = [], future = [], lastKey = None, lastAt = 0\<rparr>"

text \<open>The value \<open>JSON.stringify\<close> writes: a number that is not finite becomes \<open>null\<close>. On such
  values, with the keys in order, the text determines the value, so texts are compared as values.\<close>

fun wire :: "json \<Rightarrow> json" where
  "wire (JNum n) = (if isFinite n then JNum n else JNull)"
| "wire (JArr xs) = JArr (map wire xs)"
| "wire (JObj ob) = JObj (map (\<lambda>(k, v). (k, wire v)) ob)"
| "wire v = v"

definition opt_field :: "string \<Rightarrow> json option \<Rightarrow> obj" where
  "opt_field k v = (case v of None \<Rightarrow> [] | Some j \<Rightarrow> [(k, j)])"

definition snap_data_json :: "BlockData \<Rightarrow> json" where
  "snap_data_json d = JObj
     (opt_field ''label'' (map_option JStr (bd_label d)) @ [(''config'', JObj (bd_config d))]
      @ opt_field ''keepNode'' (map_option JObj (bd_keepNode d))
      @ opt_field ''keepData'' (map_option JObj (bd_keepData d)))"

definition snap_node_json :: "SnapNode \<Rightarrow> json" where
  "snap_node_json n = JObj
     [(''id'', JStr (sn_id n)), (''type'', JStr (type_name (sn_type n))),
      (''position'', JObj [(''x'', JNum (Fin (pos_x (sn_pos n)))), (''y'', JNum (Fin (pos_y (sn_pos n))))]),
      (''data'', snap_data_json (sn_data n))]"

definition snap_edge_json :: "SnapEdge \<Rightarrow> json" where
  "snap_edge_json e = JObj
     ([(''id'', JStr (se_id e)), (''source'', JStr (se_source e)),
       (''sourceHandle'', case se_sourceHandle e of Some h \<Rightarrow> JStr h | None \<Rightarrow> JNull),
       (''target'', JStr (se_target e))]
      @ opt_field ''data'' (map_option (\<lambda>d. JObj (opt_field ''keep'' (map_option JObj d))) (se_data e)))"

definition snap_json :: "Snapshot \<Rightarrow> json" where
  "snap_json s = JObj
     [(''nodes'', JArr (map snap_node_json (ss_nodes s))), (''edges'', JArr (map snap_edge_json (ss_edges s)))]"

definition sameSnapshot :: "Snapshot \<Rightarrow> Snapshot \<Rightarrow> bool" where
  "sameSnapshot a b \<longleftrightarrow>
     (if length (ss_nodes a) \<noteq> length (ss_nodes b) \<or> length (ss_edges a) \<noteq> length (ss_edges b) then False
      else wire (snap_json a) = wire (snap_json b))"

section \<open>Operations\<close>

text \<open>\<open>record\<close>, with \<^term>\<open>None\<close> where the code returns the very object \<open>h\<close> it was given: the
  store asks for that identity (\<open>history !== s.history\<close>). A coalesced edit always makes a new
  object.\<close>

definition record_step :: "HistoryState \<Rightarrow> Snapshot \<Rightarrow> Snapshot \<Rightarrow> string option \<Rightarrow> int \<Rightarrow> HistoryState option" where
  "record_step h before after key now =
     (if key \<noteq> None \<and> key = lastKey h \<and> now - lastAt h \<le> COALESCE_MS
      then Some (h\<lparr>future := [], lastAt := now\<rparr>)
      else if sameSnapshot before after then None
      else
        (let p = past h @ [before];
             p = (if length p > HISTORY_LIMIT then drop (length p - HISTORY_LIMIT) p else p)
         in Some \<lparr>past = p, future = [], lastKey = key, lastAt = now\<rparr>))"

definition record_edit :: "HistoryState \<Rightarrow> Snapshot \<Rightarrow> Snapshot \<Rightarrow> string option \<Rightarrow> int \<Rightarrow> HistoryState" where
  "record_edit h before after key now =
     (case record_step h before after key now of None \<Rightarrow> h | Some h' \<Rightarrow> h')"

definition seal :: "HistoryState \<Rightarrow> HistoryState" where
  "seal h = (if lastKey h = None then h else h\<lparr>lastKey := None\<rparr>)"

definition undo :: "HistoryState \<Rightarrow> Snapshot \<Rightarrow> (HistoryState \<times> Snapshot) option" where
  "undo h current =
     (if past h = [] then None
      else Some (\<lparr>past = butlast (past h), future = current # future h, lastKey = None, lastAt = 0\<rparr>,
                 last (past h)))"

definition redo :: "HistoryState \<Rightarrow> Snapshot \<Rightarrow> (HistoryState \<times> Snapshot) option" where
  "redo h current =
     (case future h of
        [] \<Rightarrow> None
      | target # rest \<Rightarrow>
          Some (\<lparr>past = past h @ [current], future = rest, lastKey = None, lastAt = 0\<rparr>, target))"

section \<open>The contract of an undo history\<close>

text \<open>A history is a timeline of states with a cursor: undo and redo move the cursor and change
  nothing else.\<close>

locale undo_history =
  fixes timeline :: "'h \<Rightarrow> 's \<Rightarrow> 's list"
    and cursor :: "'h \<Rightarrow> nat"
    and bwd :: "'h \<Rightarrow> 's \<Rightarrow> ('h \<times> 's) option"
    and fwd :: "'h \<Rightarrow> 's \<Rightarrow> ('h \<times> 's) option"
  assumes cursor_in: "cursor h < length (timeline h c)"
    and current_at: "timeline h c ! cursor h = c"
    and back_None: "bwd h c = None \<longleftrightarrow> cursor h = 0"
    and back_Some: "bwd h c = Some (h', c') \<Longrightarrow> timeline h' c' = timeline h c \<and> Suc (cursor h') = cursor h"
    and forth_None: "fwd h c = None \<longleftrightarrow> Suc (cursor h) = length (timeline h c)"
    and forth_Some: "fwd h c = Some (h', c') \<Longrightarrow> timeline h' c' = timeline h c \<and> cursor h' = Suc (cursor h)"
begin

lemma back_state: "bwd h c = Some (h', c') \<Longrightarrow> c' = timeline h c ! (cursor h - 1)"
  using back_Some [of h c h' c'] current_at [of h' c'] by (metis diff_Suc_1)

lemma forth_state: "fwd h c = Some (h', c') \<Longrightarrow> c' = timeline h c ! Suc (cursor h)"
  using forth_Some [of h c h' c'] current_at [of h' c'] by metis

lemma back_steps:
  "n \<le> cursor h \<Longrightarrow> \<exists>h'. iter_opt (\<lambda>(h, c). bwd h c) n (h, c) = Some (h', timeline h c ! (cursor h - n))
     \<and> timeline h' (timeline h c ! (cursor h - n)) = timeline h c \<and> cursor h' = cursor h - n"
proof (induction n arbitrary: h c)
  case 0
  then show ?case by (simp add: current_at)
next
  case (Suc n)
  then have "bwd h c \<noteq> None" by (simp add: back_None)
  then obtain h1 c1 where b: "bwd h c = Some (h1, c1)" by auto
  then have t: "timeline h1 c1 = timeline h c" "Suc (cursor h1) = cursor h" using back_Some by blast+
  with Suc.prems have "n \<le> cursor h1" by simp
  from Suc.IH [OF this, of c1] show ?case using b t by (auto simp: t(2) [symmetric])
qed

lemma forth_steps:
  "cursor h + n < length (timeline h c) \<Longrightarrow>
     \<exists>h'. iter_opt (\<lambda>(h, c). fwd h c) n (h, c) = Some (h', timeline h c ! (cursor h + n))
       \<and> timeline h' (timeline h c ! (cursor h + n)) = timeline h c \<and> cursor h' = cursor h + n"
proof (induction n arbitrary: h c)
  case 0
  then show ?case by (simp add: current_at)
next
  case (Suc n)
  then have "fwd h c \<noteq> None" by (simp add: forth_None)
  then obtain h1 c1 where b: "fwd h c = Some (h1, c1)" by auto
  then have t: "timeline h1 c1 = timeline h c" "cursor h1 = Suc (cursor h)" using forth_Some by blast+
  with Suc.prems have "cursor h1 + n < length (timeline h1 c1)" by simp
  from Suc.IH [OF this] show ?case using b t by auto
qed

lemma back_then_forth:
  assumes "n \<le> cursor h"
  shows "\<exists>h1 h2. iter_opt (\<lambda>(h, c). bwd h c) n (h, c) = Some (h1, timeline h c ! (cursor h - n))
     \<and> iter_opt (\<lambda>(h, c). fwd h c) n (h1, timeline h c ! (cursor h - n)) = Some (h2, c)
     \<and> timeline h2 c = timeline h c \<and> cursor h2 = cursor h"
proof -
  let ?c = "timeline h c ! (cursor h - n)"
  obtain h1 where 1: "iter_opt (\<lambda>(h, c). bwd h c) n (h, c) = Some (h1, ?c)"
    "timeline h1 ?c = timeline h c" "cursor h1 = cursor h - n"
    using back_steps [OF assms] by blast
  have "cursor h1 + n < length (timeline h1 ?c)" using 1 assms cursor_in [of h c] by simp
  from forth_steps [OF this] 1 assms show ?thesis by (auto simp: current_at)
qed

end

definition timeline :: "HistoryState \<Rightarrow> Snapshot \<Rightarrow> Snapshot list" where
  "timeline h c = past h @ [c] @ future h"

interpretation hist: undo_history timeline "\<lambda>h. length (past h)" undo redo
proof
  fix h c h' c'
  show "length (past h) < length (timeline h c)" "timeline h c ! length (past h) = c"
    by (simp_all add: timeline_def nth_append)
  show "undo h c = None \<longleftrightarrow> length (past h) = 0" by (simp add: undo_def)
  show "undo h c = Some (h', c') \<Longrightarrow> timeline h' c' = timeline h c \<and> Suc (length (past h')) = length (past h)"
    by (auto simp: undo_def timeline_def split: if_splits)
  show "redo h c = None \<longleftrightarrow> Suc (length (past h)) = length (timeline h c)"
    by (simp add: redo_def timeline_def split: list.splits)
  show "redo h c = Some (h', c') \<Longrightarrow> timeline h' c' = timeline h c \<and> length (past h') = Suc (length (past h))"
    by (auto simp: redo_def timeline_def split: list.splits)
qed

section \<open>The invariant\<close>

text \<open>Never more than a hundred states to go back or forth to, and an open burst has its first
  snapshot on the stack and nothing to redo.\<close>

definition hist_ok :: "HistoryState \<Rightarrow> bool" where
  "hist_ok h \<longleftrightarrow> length (past h) + length (future h) \<le> HISTORY_LIMIT
     \<and> (lastKey h \<noteq> None \<longrightarrow> future h = [] \<and> past h \<noteq> [])"

lemma hist_ok_empty [simp]: "hist_ok emptyHistory"
  by (simp add: hist_ok_def emptyHistory_def)

lemma hist_ok_record_step: "hist_ok h \<Longrightarrow> record_step h a b key now = Some h' \<Longrightarrow> hist_ok h'"
  by (auto simp: record_step_def hist_ok_def Let_def HISTORY_LIMIT_def split: if_splits)

lemma hist_ok_record [simp]: "hist_ok h \<Longrightarrow> hist_ok (record_edit h a b key now)"
  by (auto simp: record_edit_def hist_ok_record_step split: option.splits)

lemma hist_ok_seal [simp]: "hist_ok h \<Longrightarrow> hist_ok (seal h)"
  by (auto simp: seal_def hist_ok_def)

lemma hist_ok_undo: "hist_ok h \<Longrightarrow> undo h c = Some (h', c') \<Longrightarrow> hist_ok h'"
  by (cases "past h" rule: rev_cases) (auto simp: undo_def hist_ok_def)

lemma hist_ok_redo: "hist_ok h \<Longrightarrow> redo h c = Some (h', c') \<Longrightarrow> hist_ok h'"
  by (auto simp: redo_def hist_ok_def split: list.splits)

lemma undo_snapshot_in: "undo h c = Some (h', c') \<Longrightarrow> c' \<in> set (past h)"
  by (auto simp: undo_def split: if_splits)

lemma redo_snapshot_in: "redo h c = Some (h', c') \<Longrightarrow> c' \<in> set (future h)"
  by (auto simp: redo_def split: list.splits)

lemma record_set: "set (past (record_edit h a b key now)) \<subseteq> insert a (set (past h))
    \<and> set (future (record_edit h a b key now)) \<subseteq> set (future h)"
  by (auto simp: record_edit_def record_step_def Let_def split: option.splits if_splits dest: in_set_dropD)

section \<open>Bursts\<close>

text \<open>A burst: edits under one key, each at most \<open>COALESCE_MS\<close> after the one before.\<close>

fun in_burst :: "int \<Rightarrow> int list \<Rightarrow> bool" where
  "in_burst t [] = True"
| "in_burst t (u # us) \<longleftrightarrow> u - t \<le> COALESCE_MS \<and> in_burst u us"

fun record_burst :: "HistoryState \<Rightarrow> Snapshot \<Rightarrow> string \<Rightarrow> (int \<times> Snapshot) list \<Rightarrow> HistoryState" where
  "record_burst h before key [] = h"
| "record_burst h before key ((now, after) # rest) =
     record_burst (record_edit h before after (Some key) now) after key rest"

lemma record_coalesced:
  "lastKey h = Some key \<Longrightarrow> now - lastAt h \<le> COALESCE_MS \<Longrightarrow>
    record_edit h a b (Some key) now = h\<lparr>future := [], lastAt := now\<rparr>"
  by (simp add: record_edit_def record_step_def)

lemma record_burst_tail:
  "lastKey h = Some key \<Longrightarrow> future h = [] \<Longrightarrow> in_burst (lastAt h) (map fst edits) \<Longrightarrow>
    past (record_burst h before key edits) = past h \<and> future (record_burst h before key edits) = []"
proof (induction edits arbitrary: h before)
  case (Cons e edits)
  obtain now after where e: "e = (now, after)" by (cases e)
  let ?h = "h\<lparr>future := [], lastAt := now\<rparr>"
  have "record_burst h before key (e # edits) = record_burst ?h after key edits"
    using Cons.prems e by (simp add: record_coalesced)
  with Cons.IH [of ?h after] Cons.prems e show ?case by simp
qed simp

section \<open>Comparing snapshots\<close>

fun finite_json :: "json \<Rightarrow> bool" where
  "finite_json (JNum n) = isFinite n"
| "finite_json (JArr xs) = list_all finite_json xs"
| "finite_json (JObj ob) = list_all (\<lambda>(k, v). finite_json v) ob"
| "finite_json v = True"

lemma wire_finite: "finite_json v \<Longrightarrow> wire v = v"
proof (induction v)
  case (JArr xs)
  then show ?case by (auto simp: list_all_iff intro: map_idI)
next
  case (JObj ob)
  then show ?case by (fastforce simp: list_all_iff intro: map_idI)
qed auto

lemma snap_data_json_inj: "snap_data_json a = snap_data_json b \<longleftrightarrow> a = b"
  by (cases a; cases b) (auto simp: snap_data_json_def opt_field_def split: option.splits)

lemma position_eq_iff: "(p :: Position) = q \<longleftrightarrow> pos_x p = pos_x q \<and> pos_y p = pos_y q"
  by (cases p; cases q) simp

lemma snap_node_json_inj: "snap_node_json a = snap_node_json b \<longleftrightarrow> a = b"
  by (cases a; cases b) (auto simp: snap_node_json_def snap_data_json_inj position_eq_iff)

lemma snap_edge_json_inj: "snap_edge_json a = snap_edge_json b \<longleftrightarrow> a = b"
  by (cases a; cases b) (auto simp: snap_edge_json_def opt_field_def split: option.splits)

lemma snap_json_inj: "snap_json a = snap_json b \<longleftrightarrow> a = b"
proof -
  have "inj snap_node_json" "inj snap_edge_json"
    by (simp_all add: inj_on_def snap_node_json_inj snap_edge_json_inj)
  then show ?thesis
    by (cases a; cases b) (auto simp: snap_json_def dest: map_injective)
qed

lemma sameSnapshot_refl [simp]: "sameSnapshot a a"
  by (simp add: sameSnapshot_def)

lemma sameSnapshot_eq:
  "finite_json (snap_json a) \<Longrightarrow> finite_json (snap_json b) \<Longrightarrow> sameSnapshot a b \<longleftrightarrow> a = b"
  by (auto simp: sameSnapshot_def wire_finite snap_json_inj)

section \<open>Properties\<close>

definition sample_snap :: "string \<Rightarrow> Snapshot" where
  "sample_snap l = \<lparr>ss_nodes = [\<lparr>sn_id = ''s'', sn_type = Entry, sn_pos = \<lparr>pos_x = 0, pos_y = 0\<rparr>,
      sn_data = \<lparr>bd_label = Some l, bd_config = [], bd_keepNode = None, bd_keepData = None\<rparr>\<rparr>], ss_edges = []\<rparr>"

lemma sample_snap_same [simp]: "sameSnapshot (sample_snap a) (sample_snap b) \<longleftrightarrow> a = b"
  by (subst sameSnapshot_eq)
    (auto simp: sample_snap_def snap_json_def snap_node_json_def snap_data_json_def opt_field_def)

text \<open>C28. Undo and redo are exact inverses over any number of steps: from any history, \<open>n\<close> undos
  (as many as there are past states) show the \<open>n\<close>-th state before the current one, and \<open>n\<close> redos
  from there return to the current state with the same past and the same future.\<close>

theorem undo_redo_steps:
  assumes "n \<le> length (past h)"
  shows "\<exists>h1 h2 s. iter_opt (\<lambda>(h, c). undo h c) n (h, c) = Some (h1, s)
     \<and> s = (past h @ [c]) ! (length (past h) - n)
     \<and> iter_opt (\<lambda>(h, c). redo h c) n (h1, s) = Some (h2, c)
     \<and> past h2 = past h \<and> future h2 = future h"
proof -
  have "(past h @ [c]) ! (length (past h) - n) = timeline h c ! (length (past h) - n)"
    by (simp add: timeline_def nth_append)
  with hist.back_then_forth [OF assms, of c] show ?thesis by (fastforce simp: timeline_def)
qed

definition sample_history :: HistoryState where
  "sample_history = \<lparr>past = [sample_snap ''a'', sample_snap ''b''], future = [sample_snap ''d''], lastKey = None, lastAt = 0\<rparr>"

theorem undo_redo_steps_witness:
  "\<exists>h1 h2 s. iter_opt (\<lambda>(h, c). undo h c) 2 (sample_history, sample_snap ''c'') = Some (h1, s)
     \<and> s = (past sample_history @ [sample_snap ''c'']) ! (length (past sample_history) - 2)
     \<and> iter_opt (\<lambda>(h, c). redo h c) 2 (h1, s) = Some (h2, sample_snap ''c'')
     \<and> past h2 = past sample_history \<and> future h2 = future sample_history"
  by (rule undo_redo_steps) (simp add: sample_history_def)

text \<open>C5. A burst of edits is one undo step, back to where the burst began: when a first real
  change under a key is followed by edits under the same key, each within \<open>COALESCE_MS\<close> of the one
  before, undo shows the state from before the first, and nothing stays redoable.\<close>

theorem burst_is_one_step:
  assumes "lastKey h \<noteq> Some key" and "\<not> sameSnapshot before after"
    and "in_burst now (map fst edits)"
  shows "future (record_burst h before key ((now, after) # edits)) = []
    \<and> (\<exists>h'. undo (record_burst h before key ((now, after) # edits)) current = Some (h', before)
          \<and> past h' = drop (Suc (length (past h)) - HISTORY_LIMIT) (past h))"
proof -
  let ?p = "drop (Suc (length (past h)) - HISTORY_LIMIT) (past h @ [before])"
  let ?h = "\<lparr>past = ?p, future = [], lastKey = Some key, lastAt = now\<rparr>"
  have first: "record_edit h before after (Some key) now = ?h"
    using assms(1,2) by (auto simp: record_edit_def record_step_def Let_def)
  have "past (record_burst ?h after key edits) = ?p \<and> future (record_burst ?h after key edits) = []"
    using record_burst_tail [of ?h key edits after] assms(3) by simp
  moreover have "?p = drop (Suc (length (past h)) - HISTORY_LIMIT) (past h) @ [before]"
    by (simp add: HISTORY_LIMIT_def)
  ultimately show ?thesis by (simp add: first undo_def)
qed

theorem burst_is_one_step_witness:
  "future (record_burst sample_history (sample_snap ''c'') ''label:s''
      [(10000, sample_snap ''x''), (10100, sample_snap ''xy'')]) = []
   \<and> (\<exists>h'. undo (record_burst sample_history (sample_snap ''c'') ''label:s''
             [(10000, sample_snap ''x''), (10100, sample_snap ''xy'')]) (sample_snap ''xy'')
           = Some (h', sample_snap ''c'')
         \<and> past h' = drop (Suc (length (past sample_history)) - HISTORY_LIMIT) (past sample_history))"
  by (rule burst_is_one_step) (simp_all add: sample_history_def COALESCE_MS_def)

text \<open>Every operation keeps the history within its bounds: at most a hundred states to go back
  or forward to, and an open burst always has a state to undo to and nothing to redo.\<close>

theorem history_bounded:
  assumes "hist_ok h"
  shows "hist_ok (record_edit h before after key now) \<and> hist_ok (seal h)
    \<and> (case undo h c of Some (h', s) \<Rightarrow> hist_ok h' | None \<Rightarrow> past h = [])
    \<and> (case redo h c of Some (h', s) \<Rightarrow> hist_ok h' | None \<Rightarrow> future h = [])"
proof -
  have "case undo h c of Some (h', s) \<Rightarrow> hist_ok h' | None \<Rightarrow> past h = []"
    using hist_ok_undo [OF assms, of c] by (auto simp: undo_def split: option.split)
  moreover have "case redo h c of Some (h', s) \<Rightarrow> hist_ok h' | None \<Rightarrow> future h = []"
    using hist_ok_redo [OF assms, of c] by (simp add: redo_def split: list.split option.split)
  ultimately show ?thesis using assms by simp
qed

theorem history_bounded_witness:
  "hist_ok (record_edit sample_history (sample_snap ''c'') (sample_snap ''x'') None 5) \<and> hist_ok (seal sample_history)
    \<and> (case undo sample_history (sample_snap ''c'') of Some (h', s) \<Rightarrow> hist_ok h' | None \<Rightarrow> past sample_history = [])
    \<and> (case redo sample_history (sample_snap ''c'') of Some (h', s) \<Rightarrow> hist_ok h' | None \<Rightarrow> future sample_history = [])"
  by (rule history_bounded) (simp add: sample_history_def hist_ok_def HISTORY_LIMIT_def)

text \<open>Comparing the JSON texts of two snapshots decides their equality: for snapshots without
  non-finite numbers the history skips an edit exactly when nothing the customer edits changed.\<close>

theorem sameSnapshot_decides:
  assumes "finite_json (snap_json a)" and "finite_json (snap_json b)" and "lastKey h = None"
  shows "(sameSnapshot a b \<longleftrightarrow> a = b) \<and> (record_step h a b key now = None \<longleftrightarrow> a = b)"
  using sameSnapshot_eq [OF assms(1,2)] assms(3) by (auto simp: record_step_def Let_def)

theorem sameSnapshot_decides_witness:
  "(sameSnapshot (sample_snap ''a'') (sample_snap ''b'') \<longleftrightarrow> sample_snap ''a'' = sample_snap ''b'')
   \<and> (record_step emptyHistory (sample_snap ''a'') (sample_snap ''b'') (Some ''k'') 7 = None
       \<longleftrightarrow> sample_snap ''a'' = sample_snap ''b'')"
  by (rule sameSnapshot_decides)
    (simp_all add: sample_snap_def snap_json_def snap_node_json_def snap_data_json_def opt_field_def emptyHistory_def)

end
