(* ===== verification/Store.thy ===== *)
theory Store
  imports History Layout Search "HOL-Library.Char_ord" "HOL-Library.List_Lexorder"
begin

text \<open>
  The builder's state and every action on it (\<open>flow/store/flowStore.ts\<close>). A zustand store is a record
  \<open>Store\<close>; an action is a function from the store before to the store after, with what it reads of
  the outside as arguments: \<open>now\<close> for \<open>Date.now()\<close>, \<open>nano\<close> for the stream of \<open>nanoid\<close> (the store
  counts the identifiers drawn), \<open>applyNodeChanges\<close> and \<open>applyEdgeChanges\<close> of the canvas library.
  \<open>fn_ui\<close> and \<open>fe_ui\<close> stand for what that library keeps on a node or an edge (measurements, drag
  flags); nothing here reads it.
\<close>

section \<open>State\<close>

record FlowNode = WorkNode +
  fn_selected :: "bool option"
  fn_ui :: obj

record FlowEdge = WorkEdge +
  fe_selected :: "bool option"
  fe_ui :: obj

record PreviewGraph =
  pv_version :: int
  pv_publishedAt :: string
  pv_nodes :: "FlowNode list"
  pv_edges :: "FlowEdge list"

record ProposalOverlay =
  po_jobId :: string
  po_nodes :: "FlowNode list"
  po_edges :: "FlowEdge list"
  po_order :: "string list"
  po_revealed :: nat

record FlowMeta =
  fm_id :: int
  fm_publishedVersion :: "int option"
  fm_publishedAt :: "string option"
  fm_numbers :: "string list"

text \<open>The flow as the server sends it.\<close>

record Flow =
  fl_id :: int
  fl_name :: string
  fl_revision :: int
  fl_published_version :: "int option"
  fl_published_at :: "string option"
  fl_updated_at :: string
  fl_numbers :: "string list"
  fl_draft_graph :: json

record FlowState =
  fs_meta :: FlowMeta
  fs_name :: string
  fs_revision :: int
  fs_nodes :: "FlowNode list"
  fs_edges :: "FlowEdge list"
  fs_viewport :: "IvrViewport option"
  fs_keepGraph :: obj
  fs_foreignNodes :: "obj list"
  fs_selectedId :: "string option"
  fs_history :: HistoryState
  fs_changeSeq :: nat
  fs_contentSeq :: nat
  fs_savedSeq :: nat
  fs_graphEpoch :: nat
  fs_preview :: "PreviewGraph option"
  fs_proposal :: "ProposalOverlay option"
  fs_simNodeId :: "string option"
  fs_focusRequest :: "(string \<times> nat) option"

text \<open>With the closure's own variable \<open>cached\<close> and the number of identifiers drawn from \<open>nanoid\<close>.\<close>

record Store = FlowState +
  st_cached :: "(nat \<times> IvrGraph) option"
  st_drawn :: nat

text \<open>What the canvas reports, as its library types it.\<close>

datatype NodeChange =
    NodeDimensions string obj
  | NodePosition string "Position option" "bool option"
  | NodeSelect string bool
  | NodeRemove string
  | NodeAdd FlowNode
  | NodeReplace string FlowNode

datatype EdgeChange =
    EdgeSelect string bool
  | EdgeRemove string
  | EdgeAdd FlowEdge
  | EdgeReplace string FlowEdge

section \<open>Pure helpers\<close>

text \<open>\<open>snapshotOf\<close> of \<open>history.ts\<close>; every canvas edge carries \<open>data\<close> and an exit.\<close>

definition snap_node :: "('a NodeInput_scheme) \<Rightarrow> SnapNode" where
  "snap_node n = \<lparr>sn_id = n_id n, sn_type = n_type n, sn_pos = n_pos n, sn_data = n_data n\<rparr>"

definition snap_edge :: "('b WorkEdge_scheme) \<Rightarrow> SnapEdge" where
  "snap_edge e = \<lparr>se_id = e_id e, se_source = e_source e, se_sourceHandle = Some (e_sourceHandle e),
     se_target = e_target e, se_data = Some (e_keep e)\<rparr>"

definition snapshotOf :: "('a NodeInput_scheme) list \<Rightarrow> ('b WorkEdge_scheme) list \<Rightarrow> Snapshot" where
  "snapshotOf nodes edges = \<lparr>ss_nodes = map snap_node nodes, ss_edges = map snap_edge edges\<rparr>"

text \<open>\<open>reaches\<close>: the map \<open>out\<close> of a block's targets, then the loop over the stack, its top first.\<close>

definition out_targets :: "FlowEdge list \<Rightarrow> string \<Rightarrow> string list" where
  "out_targets edges i = map e_target (filter (\<lambda>e. e_source e = i) edges)"

function reaches_loop :: "FlowEdge list \<Rightarrow> string \<Rightarrow> string list \<Rightarrow> string set \<Rightarrow> bool" where
  "reaches_loop edges to [] seen = False"
| "reaches_loop edges to (i # stack) seen =
     (if i = to then True
      else if i \<in> seen then reaches_loop edges to stack seen
      else reaches_loop edges to (rev (out_targets edges i) @ stack) (insert i seen))"
  by pat_completeness auto
termination reaches_loop
proof (relation "measures [\<lambda>(es, to, stack, seen). card (e_source ` set es - seen), \<lambda>(es, to, stack, seen). length stack]")
  fix edges :: "FlowEdge list" and to i :: string and stack :: "string list" and seen
  assume new: "i \<notin> seen"
  show "((edges, to, rev (out_targets edges i) @ stack, insert i seen), edges, to, i # stack, seen)
      \<in> measures [\<lambda>(es, to, stack, seen). card (e_source ` set es - seen), \<lambda>(es, to, stack, seen). length stack]"
  proof (cases "i \<in> e_source ` set edges")
    case True
    then have "card (e_source ` set edges - insert i seen) < card (e_source ` set edges - seen)"
      using new by (intro card_Diff_insert_less) simp_all
    then show ?thesis by simp
  next
    case False
    then have "e_source ` set edges - insert i seen = e_source ` set edges - seen" by auto
    moreover have "filter (\<lambda>e. e_source e = i) edges = []" using False by (auto simp: filter_empty_conv)
    ultimately show ?thesis by (simp add: out_targets_def)
  qed
qed simp_all

definition reaches :: "FlowEdge list \<Rightarrow> string \<Rightarrow> string \<Rightarrow> bool" where
  "reaches edges from to = reaches_loop edges to [from] {}"

definition not_slot :: "string \<Rightarrow> string \<Rightarrow> ('b WorkEdge_scheme) \<Rightarrow> bool" where
  "not_slot source hdl e \<longleftrightarrow> \<not> (e_source e = source \<and> e_sourceHandle e = hdl)"

definition connectionProblem :: "FlowNode list \<Rightarrow> FlowEdge list \<Rightarrow> string \<Rightarrow> string \<Rightarrow> string
    \<Rightarrow> string option" where
  "connectionProblem nodes edges source hdl target =
     (case (List.find (\<lambda>n. n_id n = source) nodes, List.find (\<lambda>n. n_id n = target) nodes) of
        (Some s, Some t) \<Rightarrow>
          if n_type t = Entry then Some ''Nothing can connect into Start.''
          else if source = target
          then Some (''A block can'' @ [CHR 0x92] @ ''t connect to itself. To repeat it, add a Go to block.'')
          else if hdl \<notin> set (node_exits s) then Some ''That exit no longer exists.''
          else if reaches (filter (not_slot source hdl) edges) target source
          then Some ''That would loop the call back to an earlier block. To repeat a step, add a Go to block.''
          else None
      | _ \<Rightarrow> Some ''That block no longer exists.'')"

definition toFlowNode :: "('a NodeInput_scheme) \<Rightarrow> FlowNode" where
  "toFlowNode n =
     \<lparr>n_id = n_id n, n_type = n_type n, n_pos = n_pos n, n_data = n_data n,
      n_deletable = (if n_type n = Entry then Some False else None), fn_selected = None, fn_ui = []\<rparr>"

definition toFlowEdge :: "string \<Rightarrow> string \<Rightarrow> string \<Rightarrow> string \<Rightarrow> obj option \<Rightarrow> FlowEdge" where
  "toFlowEdge i source hdl target keep =
     \<lparr>e_id = i, e_source = source, e_sourceHandle = hdl, e_target = target, e_keep = keep,
      fe_selected = None, fe_ui = [(''targetHandle'', JStr ''in''), (''type'', JStr ''exit'')]\<rparr>"

definition edge_to_flow :: "('b WorkEdge_scheme) \<Rightarrow> FlowEdge" where
  "edge_to_flow e = toFlowEdge (e_id e) (e_source e) (e_sourceHandle e) (e_target e) (e_keep e)"

fun prune :: "('a NodeInput_scheme) list \<Rightarrow> string list \<Rightarrow> ('b WorkEdge_scheme) list \<Rightarrow> ('b WorkEdge_scheme) list" where
  "prune nodes seen [] = []"
| "prune nodes seen (e # es) =
     (case (last_by n_id nodes (e_source e), last_by n_id nodes (e_target e)) of
        (Some s, Some t) \<Rightarrow>
          if n_type t = Entry \<or> e_sourceHandle e \<notin> set (node_exits s) then prune nodes seen es
          else (let key = slotKey (e_source e) (e_sourceHandle e)
                in if key \<in> set seen then prune nodes seen es else e # prune nodes (key # seen) es)
      | _ \<Rightarrow> prune nodes seen es)"

definition pruneEdges :: "('a NodeInput_scheme) list \<Rightarrow> ('b WorkEdge_scheme) list \<Rightarrow> ('b WorkEdge_scheme) list" where
  "pruneEdges nodes edges = prune nodes [] edges"

definition snap_to_node :: "SnapNode \<Rightarrow> FlowNode" where
  "snap_to_node n = toFlowNode \<lparr>n_id = sn_id n, n_type = sn_type n, n_pos = sn_pos n, n_data = sn_data n\<rparr>"

definition snap_to_edge :: "SnapEdge \<Rightarrow> FlowEdge" where
  "snap_to_edge e = toFlowEdge (se_id e) (se_source e) (case se_sourceHandle e of Some h \<Rightarrow> h | None \<Rightarrow> ''next'')
     (se_target e) (case se_data e of Some keep \<Rightarrow> keep | None \<Rightarrow> None)"

definition fromSnapshot :: "Snapshot \<Rightarrow> FlowNode list \<times> FlowEdge list" where
  "fromSnapshot snap = (map snap_to_node (ss_nodes snap), map snap_to_edge (ss_edges snap))"

definition metaOf :: "Flow \<Rightarrow> FlowMeta" where
  "metaOf flow = \<lparr>fm_id = fl_id flow, fm_publishedVersion = fl_published_version flow,
     fm_publishedAt = fl_published_at flow, fm_numbers = fl_numbers flow\<rparr>"

section \<open>The store\<close>

definition createFlowStore :: "(nat \<Rightarrow> string) \<Rightarrow> Flow \<Rightarrow> Store" where
  "createFlowStore nano flow =
     (let (initial, drawn) = fromGraph nano 0 (Some (fl_draft_graph flow)) in
      \<lparr>fs_meta = metaOf flow, fs_name = fl_name flow, fs_revision = fl_revision flow,
       fs_nodes = map toFlowNode (wg_nodes initial), fs_edges = map edge_to_flow (wg_edges initial),
       fs_viewport = wg_viewport initial, fs_keepGraph = wg_keepGraph initial, fs_foreignNodes = wg_foreignNodes initial,
       fs_selectedId = None, fs_history = emptyHistory, fs_changeSeq = 0, fs_contentSeq = 0, fs_savedSeq = 0,
       fs_graphEpoch = 0, fs_preview = None, fs_proposal = None, fs_simNodeId = None, fs_focusRequest = None,
       st_cached = None, st_drawn = drawn\<rparr>)"

abbreviation snapshot_now :: "('a FlowState_scheme) \<Rightarrow> Snapshot" where
  "snapshot_now s \<equiv> snapshotOf (fs_nodes s) (fs_edges s)"

text \<open>\<open>commit\<close>: \<open>extra\<close> sets the fields its last spread carries; the history is \<open>changed\<close> when \<open>record\<close>
  made a new object.\<close>

definition commit :: "int \<Rightarrow> FlowNode list \<Rightarrow> FlowEdge list \<Rightarrow> string option \<Rightarrow> (Store \<Rightarrow> Store) \<Rightarrow> bool \<Rightarrow> Store \<Rightarrow> Store" where
  "commit now nodes edges key extra positionOnly s =
     (let step = record_step (fs_history s) (snapshot_now s) (snapshotOf nodes edges) key now;
          changed = (step \<noteq> None)
      in extra (s\<lparr>fs_nodes := nodes, fs_edges := edges,
           fs_history := (case step of Some h \<Rightarrow> h | None \<Rightarrow> fs_history s),
           fs_changeSeq := (if changed then fs_changeSeq s + 1 else fs_changeSeq s),
           fs_contentSeq := (if changed \<and> \<not> positionOnly then fs_contentSeq s + 1 else fs_contentSeq s)\<rparr>))"

definition load :: "(nat \<Rightarrow> string) \<Rightarrow> int \<Rightarrow> Flow \<Rightarrow> bool \<Rightarrow> Store \<Rightarrow> Store" where
  "load nano now flow undoable s =
     (let (g, drawn) = fromGraph nano (st_drawn s) (Some (fl_draft_graph flow));
          nodes = map toFlowNode (wg_nodes g); edges = map edge_to_flow (wg_edges g);
          history = (if undoable then record_edit (fs_history s) (snapshot_now s) (snapshotOf nodes edges) None now
                     else emptyHistory)
      in s\<lparr>fs_meta := metaOf flow, fs_name := fl_name flow, fs_revision := fl_revision flow,
           fs_nodes := nodes, fs_edges := edges, fs_viewport := wg_viewport g, fs_keepGraph := wg_keepGraph g,
           fs_foreignNodes := wg_foreignNodes g, fs_selectedId := None, fs_history := history,
           fs_changeSeq := fs_changeSeq s + 1, fs_savedSeq := fs_changeSeq s + 1, fs_contentSeq := fs_contentSeq s + 1,
           fs_graphEpoch := fs_graphEpoch s + 1, fs_preview := None, fs_simNodeId := None, st_drawn := drawn\<rparr>)"

definition is_entry_id :: "('a NodeInput_scheme) list \<Rightarrow> string \<Rightarrow> bool" where
  "is_entry_id nodes i \<longleftrightarrow> (case List.find (\<lambda>n. n_id n = i) nodes of Some n \<Rightarrow> n_type n = Entry | None \<Rightarrow> False)"

definition clear_goto :: "string set \<Rightarrow> FlowNode \<Rightarrow> FlowNode" where
  "clear_goto gone n =
     (if n_type n \<noteq> Goto then n
      else case ob_get (n_config n) ''targetNodeId'' of
             Some (JStr t) \<Rightarrow>
               if t \<in> gone then n\<lparr>n_data := (n_data n)\<lparr>bd_config := ob_set (n_config n) ''targetNodeId'' (JStr '''')\<rparr>\<rparr> else n
           | _ \<Rightarrow> n)"

definition removeBlocks :: "int \<Rightarrow> string list \<Rightarrow> Store \<Rightarrow> Store" where
  "removeBlocks now blocks s =
     (let gone = set (filter (\<lambda>i. \<not> is_entry_id (fs_nodes s) i) blocks) in
      if gone = {} then s
      else (let nodes = map (clear_goto gone) (filter (\<lambda>n. n_id n \<notin> gone) (fs_nodes s));
                edges = filter (\<lambda>e. e_source e \<notin> gone \<and> e_target e \<notin> gone) (fs_edges s);
                selected = (case fs_selectedId s of Some i \<Rightarrow> if i \<noteq> '''' \<and> i \<in> gone then None else Some i | None \<Rightarrow> None)
            in commit now nodes edges None (\<lambda>s. s\<lparr>fs_selectedId := selected\<rparr>) False s))"

text \<open>The parts of \<open>onNodesChange\<close>: what it never lets through, and the selection after the changes.\<close>

definition removes_start :: "FlowNode list \<Rightarrow> NodeChange \<Rightarrow> bool" where
  "removes_start nodes c \<longleftrightarrow>
     (case c of NodeRemove i \<Rightarrow> i \<in> set (map n_id (filter (\<lambda>n. n_type n = Entry) nodes)) | _ \<Rightarrow> False)"

fun is_content :: "NodeChange \<Rightarrow> bool" where
  "is_content (NodeSelect i b) = False"
| "is_content (NodeDimensions i d) = False"
| "is_content _ = True"

fun change_selected :: "NodeChange \<Rightarrow> string option \<Rightarrow> string option" where
  "change_selected (NodeSelect i b) sel = (if b then Some i else if sel = Some i then None else sel)"
| "change_selected _ sel = sel"

fun removed_id :: "NodeChange \<Rightarrow> string option" where
  "removed_id (NodeRemove i) = Some i"
| "removed_id _ = None"

fun moved_id :: "NodeChange \<Rightarrow> string option" where
  "moved_id (NodePosition i p d) = Some i"
| "moved_id _ = None"

fun ends_drag :: "NodeChange \<Rightarrow> bool" where
  "ends_drag (NodePosition i p d) = (d = Some False)"
| "ends_drag _ = False"

definition onNodesChange :: "(NodeChange list \<Rightarrow> FlowNode list \<Rightarrow> FlowNode list) \<Rightarrow> int \<Rightarrow> NodeChange list \<Rightarrow> Store \<Rightarrow> Store" where
  "onNodesChange applyNodeChanges now changes s =
     (let safe = filter (\<lambda>c. \<not> removes_start (fs_nodes s) c) changes in
      if safe = [] then s
      else
     (let content = filter is_content safe;
          nodes = applyNodeChanges safe (fs_nodes s);
          selected = fold change_selected safe (fs_selectedId s)
      in if content = [] then s\<lparr>fs_nodes := nodes, fs_selectedId := selected\<rparr>
      else
     (let removed = remdups (List.map_filter removed_id content) in
      if removed \<noteq> [] then removeBlocks now removed s
      else
     (let moving = List.map_filter moved_id content;
          key = (if moving \<noteq> [] then Some (''move:'' @ join '','' (sort moving)) else None);
          s' = commit now nodes (fs_edges s) key (\<lambda>s. s\<lparr>fs_selectedId := selected\<rparr>) (length moving = length content) s
      in if list_ex ends_drag content then s'\<lparr>fs_history := seal (fs_history s')\<rparr> else s'))))"

fun edge_change_id :: "EdgeChange \<Rightarrow> string option" where
  "edge_change_id (EdgeSelect i b) = Some i"
| "edge_change_id (EdgeRemove i) = Some i"
| "edge_change_id (EdgeReplace i e) = Some i"
| "edge_change_id (EdgeAdd e) = None"

fun is_edge_select :: "EdgeChange \<Rightarrow> bool" where
  "is_edge_select (EdgeSelect i b) = True"
| "is_edge_select _ = False"

definition is_jump :: "EdgeChange \<Rightarrow> bool" where
  "is_jump c \<longleftrightarrow> (case edge_change_id c of Some i \<Rightarrow> startsWith i ''jump:'' | None \<Rightarrow> False)"

definition onEdgesChange :: "(EdgeChange list \<Rightarrow> FlowEdge list \<Rightarrow> FlowEdge list) \<Rightarrow> int \<Rightarrow> EdgeChange list \<Rightarrow> Store \<Rightarrow> Store" where
  "onEdgesChange applyEdgeChanges now changes s =
     (let own = filter (\<lambda>c. \<not> is_jump c) changes in
      if own = [] then s
      else (let edges = applyEdgeChanges own (fs_edges s)
            in if list_all is_edge_select own then s\<lparr>fs_edges := edges\<rparr>
               else commit now (fs_nodes s) edges None id False s))"

fun is_dimensions :: "NodeChange \<Rightarrow> bool" where
  "is_dimensions (NodeDimensions i d) = True"
| "is_dimensions _ = False"

definition onPreviewNodesChange :: "(NodeChange list \<Rightarrow> FlowNode list \<Rightarrow> FlowNode list) \<Rightarrow> NodeChange list \<Rightarrow> Store \<Rightarrow> Store" where
  "onPreviewNodesChange applyNodeChanges changes s =
     (let dims = filter is_dimensions changes in
      if dims = [] then s
      else case fs_preview s of
        Some p \<Rightarrow> s\<lparr>fs_preview := Some (p\<lparr>pv_nodes := applyNodeChanges dims (pv_nodes p)\<rparr>)\<rparr>
      | None \<Rightarrow>
          (case fs_proposal s of
             Some q \<Rightarrow> s\<lparr>fs_proposal := Some (q\<lparr>po_nodes := applyNodeChanges dims (po_nodes q)\<rparr>)\<rparr>
           | None \<Rightarrow> s))"

definition connect :: "(nat \<Rightarrow> string) \<Rightarrow> int \<Rightarrow> string \<Rightarrow> string \<Rightarrow> string \<Rightarrow> Store \<Rightarrow> string option \<times> Store" where
  "connect nano now source hdl target s =
     (case connectionProblem (fs_nodes s) (fs_edges s) source hdl target of
        Some problem \<Rightarrow> (Some problem, s)
      | None \<Rightarrow>
          (let edges = filter (not_slot source hdl) (fs_edges s)
                         @ [toFlowEdge (newEdgeId nano (st_drawn s)) source hdl target None]
           in (None, commit now (fs_nodes s) edges None (\<lambda>s. s\<lparr>st_drawn := st_drawn s + 1\<rparr>) False s)))"

definition disconnect :: "int \<Rightarrow> string \<Rightarrow> string \<Rightarrow> Store \<Rightarrow> Store" where
  "disconnect now source hdl s = commit now (fs_nodes s) (filter (not_slot source hdl) (fs_edges s)) None id False s"

definition deselect :: "FlowNode \<Rightarrow> FlowNode" where
  "deselect n = (if fn_selected n = Some True then n\<lparr>fn_selected := Some False\<rparr> else n)"

text \<open>Where a block added from an exit lands: a column right of the source, below its siblings.\<close>

definition beside :: "IvrNodeType \<Rightarrow> string \<Rightarrow> FlowNode list \<Rightarrow> FlowEdge list \<Rightarrow> Position option" where
  "beside t source nodes edges =
     (case List.find (\<lambda>n. n_id n = source) nodes of
        None \<Rightarrow> None
      | Some src \<Rightarrow>
          (let siblings = length (filter (\<lambda>e. e_source e = n_id src) edges)
           in Some \<lparr>pos_x = pos_x (n_pos src) + 320,
                    pos_y = pos_y (n_pos src) + of_nat (siblings * (estimateHeight t [] + 24))\<rparr>))"

definition made_block :: "string \<Rightarrow> IvrNodeType \<Rightarrow> Position option \<Rightarrow> (string \<times> string) option \<Rightarrow> Store \<Rightarrow> FlowNode" where
  "made_block i t position from s =
     (let position = (case (position, from) of
            (None, Some (source, hdl)) \<Rightarrow> beside t source (fs_nodes s) (fs_edges s) | _ \<Rightarrow> position)
      in toFlowNode
           \<lparr>n_id = i, n_type = t, n_pos = (case position of Some p \<Rightarrow> p | None \<Rightarrow> \<lparr>pos_x = 0, pos_y = 0\<rparr>),
            n_data = \<lparr>bd_label = None, bd_config = defaultConfig t, bd_keepNode = None, bd_keepData = None\<rparr>\<rparr>)"

definition addBlock :: "(nat \<Rightarrow> string) \<Rightarrow> int \<Rightarrow> IvrNodeType \<Rightarrow> Position option \<Rightarrow> (string \<times> string) option \<Rightarrow> Store
    \<Rightarrow> string \<times> Store" where
  "addBlock nano now t position from s =
     (let i = newNodeId nano (st_drawn s);
          nodes = map deselect (fs_nodes s) @ [(made_block i t position from s)\<lparr>fn_selected := Some True\<rparr>];
          (edges, drawn) =
            (case from of
               None \<Rightarrow> (fs_edges s, st_drawn s + 1)
             | Some (source, hdl) \<Rightarrow>
                 if connectionProblem nodes (fs_edges s) source hdl i = None
                 then (filter (not_slot source hdl) (fs_edges s)
                         @ [toFlowEdge (newEdgeId nano (st_drawn s + 1)) source hdl i None], st_drawn s + 2)
                 else (fs_edges s, st_drawn s + 1))
      in (i, commit now nodes edges None (\<lambda>s. s\<lparr>fs_selectedId := Some i, st_drawn := drawn\<rparr>) False s))"

definition patch_config :: "obj \<Rightarrow> FlowNode \<Rightarrow> FlowNode" where
  "patch_config patch n =
     (let config = spread (n_config n) patch;
          config = (if n_type n = Menu \<and> ob_get patch ''digits'' \<noteq> None
                    then ob_set config ''digits'' (JArr (map JStr (sortDigits (strs (ob_get config ''digits'')))))
                    else config)
      in n\<lparr>n_data := (n_data n)\<lparr>bd_config := config\<rparr>\<rparr>)"

definition updateConfig :: "int \<Rightarrow> string \<Rightarrow> obj \<Rightarrow> string option \<Rightarrow> Store \<Rightarrow> Store" where
  "updateConfig now i patch key s =
     (let nodes = map (\<lambda>n. if n_id n \<noteq> i then n else patch_config patch n) (fs_nodes s)
      in commit now nodes (pruneEdges nodes (fs_edges s)) key id False s)"

definition relabel :: "string \<Rightarrow> FlowNode \<Rightarrow> FlowNode" where
  "relabel label n =
     n\<lparr>n_data := (n_data n)\<lparr>bd_label := (if trim label \<noteq> '''' then Some label else None)\<rparr>\<rparr>"

definition setLabel :: "int \<Rightarrow> string \<Rightarrow> string \<Rightarrow> Store \<Rightarrow> Store" where
  "setLabel now i label s =
     commit now (map (\<lambda>n. if n_id n \<noteq> i then n else relabel label n) (fs_nodes s)) (fs_edges s)
       (Some (''label:'' @ i)) id False s"

definition select :: "string option \<Rightarrow> Store \<Rightarrow> Store" where
  "select i s =
     s\<lparr>fs_selectedId := i,
       fs_nodes := map (\<lambda>n. if fn_selected n = Some (Some (n_id n) = i) then n
                             else n\<lparr>fn_selected := Some (Some (n_id n) = i)\<rparr>) (fs_nodes s)\<rparr>"

definition revealBlock :: "string \<Rightarrow> Store \<Rightarrow> Store" where
  "revealBlock i s =
     s\<lparr>fs_focusRequest := Some (i, (case fs_focusRequest s of Some (_, token) \<Rightarrow> token | None \<Rightarrow> 0) + 1)\<rparr>"

definition focusBlock :: "string \<Rightarrow> Store \<Rightarrow> Store" where
  "focusBlock i s = revealBlock i (select (Some i) s)"

definition setName :: "string \<Rightarrow> Store \<Rightarrow> Store" where
  "setName name s = (if name = fs_name s then s else s\<lparr>fs_name := name, fs_changeSeq := fs_changeSeq s + 1\<rparr>)"

definition setViewport :: "IvrViewport \<Rightarrow> Store \<Rightarrow> Store" where
  "setViewport v s = s\<lparr>fs_viewport := Some v\<rparr>"

definition at_place :: "(string \<times> Position) list \<Rightarrow> 'a NodeInput_scheme \<Rightarrow> 'a NodeInput_scheme" where
  "at_place pos n = n\<lparr>n_pos := (case ob_get pos (n_id n) of Some p \<Rightarrow> p | None \<Rightarrow> n_pos n)\<rparr>"

definition tidy :: "int \<Rightarrow> Store \<Rightarrow> Store" where
  "tidy now s =
     (let pos = tidyLayout (fs_nodes s) (fs_edges s)
      in commit now (map (at_place pos) (fs_nodes s)) (fs_edges s) None
           (\<lambda>s'. s'\<lparr>fs_graphEpoch := fs_graphEpoch s + 1\<rparr>) True s)"

text \<open>What \<open>undo\<close> and \<open>redo\<close> do with the history's answer.\<close>

definition go_to :: "HistoryState \<Rightarrow> Snapshot \<Rightarrow> Store \<Rightarrow> Store" where
  "go_to history snap s =
     (let (nodes, edges) = fromSnapshot snap
      in s\<lparr>fs_nodes := map (\<lambda>n. n\<lparr>fn_selected := Some (Some (n_id n) = fs_selectedId s)\<rparr>) nodes,
           fs_edges := edges, fs_history := history,
           fs_changeSeq := fs_changeSeq s + 1, fs_contentSeq := fs_contentSeq s + 1,
           fs_selectedId := (if list_ex (\<lambda>n. Some (n_id n) = fs_selectedId s) nodes then fs_selectedId s else None)\<rparr>)"

definition undo_edit :: "Store \<Rightarrow> Store" where
  "undo_edit s = (case undo (fs_history s) (snapshot_now s) of None \<Rightarrow> s | Some (h, snap) \<Rightarrow> go_to h snap s)"

definition redo_edit :: "Store \<Rightarrow> Store" where
  "redo_edit s = (case redo (fs_history s) (snapshot_now s) of None \<Rightarrow> s | Some (h, snap) \<Rightarrow> go_to h snap s)"

definition markSaved :: "nat \<Rightarrow> int \<Rightarrow> Store \<Rightarrow> Store" where
  "markSaved seq revision s = s\<lparr>fs_savedSeq := max (fs_savedSeq s) seq, fs_revision := revision\<rparr>"

definition setRevision :: "int \<Rightarrow> Store \<Rightarrow> Store" where
  "setRevision revision s = s\<lparr>fs_revision := revision\<rparr>"

text \<open>A partial \<open>FlowMeta\<close>: a field that is \<^term>\<open>None\<close> is not in the patch.\<close>

record MetaPatch =
  mp_id :: "int option"
  mp_publishedVersion :: "int option option"
  mp_publishedAt :: "string option option"
  mp_numbers :: "string list option"

definition or_else :: "'a option \<Rightarrow> 'a \<Rightarrow> 'a" where
  "or_else x d = (case x of Some v \<Rightarrow> v | None \<Rightarrow> d)"

definition setMeta :: "MetaPatch \<Rightarrow> Store \<Rightarrow> Store" where
  "setMeta p s =
     (let m = fs_meta s
      in s\<lparr>fs_meta := \<lparr>fm_id = or_else (mp_id p) (fm_id m),
             fm_publishedVersion = or_else (mp_publishedVersion p) (fm_publishedVersion m),
             fm_publishedAt = or_else (mp_publishedAt p) (fm_publishedAt m),
             fm_numbers = or_else (mp_numbers p) (fm_numbers m)\<rparr>\<rparr>)"

definition enterPreview :: "PreviewGraph \<Rightarrow> Store \<Rightarrow> Store" where
  "enterPreview p s = s\<lparr>fs_preview := Some p, fs_selectedId := None, fs_graphEpoch := fs_graphEpoch s + 1\<rparr>"

definition exitPreview :: "Store \<Rightarrow> Store" where
  "exitPreview s = s\<lparr>fs_preview := None, fs_graphEpoch := fs_graphEpoch s + 1\<rparr>"

definition showProposal :: "(nat \<Rightarrow> string) \<Rightarrow> string \<Rightarrow> json \<Rightarrow> bool \<Rightarrow> Store \<Rightarrow> Store" where
  "showProposal nano jobId graph instant s =
     (let (g, drawn) = fromGraph nano (st_drawn s) (Some graph);
          pos = tidyLayout (wg_nodes g) (wg_edges g);
          order = callingOrder (wg_nodes g) (wg_edges g)
      in s\<lparr>fs_proposal := Some
             \<lparr>po_jobId = jobId, po_nodes = map (\<lambda>n. toFlowNode (at_place pos n)) (wg_nodes g),
              po_edges = map edge_to_flow (wg_edges g), po_order = order,
              po_revealed = (if instant then length order else min 1 (length order))\<rparr>,
           fs_preview := None, fs_selectedId := None,
           fs_nodes := (if list_ex (\<lambda>n. fn_selected n = Some True) (fs_nodes s) then map deselect (fs_nodes s) else fs_nodes s),
           fs_graphEpoch := fs_graphEpoch s + 1, st_drawn := drawn\<rparr>)"

definition revealNext :: "Store \<Rightarrow> bool \<times> Store" where
  "revealNext s =
     (case fs_proposal s of
        None \<Rightarrow> (False, s)
      | Some q \<Rightarrow>
          if po_revealed q \<ge> length (po_order q) then (False, s)
          else (po_revealed q + 1 < length (po_order q), s\<lparr>fs_proposal := Some (q\<lparr>po_revealed := po_revealed q + 1\<rparr>)\<rparr>))"

definition clearProposal :: "Store \<Rightarrow> Store" where
  "clearProposal s =
     (if fs_proposal s = None then s
      else s\<lparr>fs_proposal := None, fs_simNodeId := None, fs_graphEpoch := fs_graphEpoch s + 1\<rparr>)"

definition replaceDraft :: "(nat \<Rightarrow> string) \<Rightarrow> int \<Rightarrow> json \<Rightarrow> Store \<Rightarrow> Store" where
  "replaceDraft nano now graph s =
     (let (g, drawn) = fromGraph nano (st_drawn s) (Some graph)
      in commit now (map toFlowNode (wg_nodes g)) (map edge_to_flow (wg_edges g)) None
           (\<lambda>s'. s'\<lparr>fs_selectedId := None, fs_preview := None, fs_proposal := None, fs_simNodeId := None,
                    fs_graphEpoch := fs_graphEpoch s + 1, st_drawn := drawn\<rparr>) False s)"

definition setSimNode :: "string option \<Rightarrow> Store \<Rightarrow> Store" where
  "setSimNode i s = s\<lparr>fs_simNodeId := i\<rparr>"

definition graph :: "('a FlowState_scheme) \<Rightarrow> IvrGraph" where
  "graph s = toGraph (fs_nodes s) (map WorkEdge.truncate (fs_edges s)) (fs_viewport s) (fs_keepGraph s) (fs_foreignNodes s)"

definition contentGraph :: "Store \<Rightarrow> IvrGraph \<times> Store" where
  "contentGraph s =
     (case st_cached s of
        Some (seq, g) \<Rightarrow>
          if seq = fs_contentSeq s then (g, s) else (graph s, s\<lparr>st_cached := Some (fs_contentSeq s, graph s)\<rparr>)
      | None \<Rightarrow> (graph s, s\<lparr>st_cached := Some (fs_contentSeq s, graph s)\<rparr>))"

definition previewFromGraph :: "(nat \<Rightarrow> string) \<Rightarrow> nat \<Rightarrow> int \<Rightarrow> string \<Rightarrow> json \<Rightarrow> PreviewGraph \<times> nat" where
  "previewFromGraph nano drawn version publishedAt raw =
     (let (g, drawn) = fromGraph nano drawn (Some raw)
      in (\<lparr>pv_version = version, pv_publishedAt = publishedAt,
           pv_nodes = map toFlowNode (wg_nodes g), pv_edges = map edge_to_flow (wg_edges g)\<rparr>, drawn))"

end
