(* ===== verification/Store_Laws.thy ===== *)
theory Store_Laws
  imports Store Graph_Laws "HOL-Library.Sublist"
begin

text \<open>
  How the actions of the store act on the shape of the draft (ids, types and edges) and on its history.
  \<open>perform\<close> runs any action of the store; the locale \<open>draft_rules\<close> states what a property of
  shapes must satisfy to survive editing, and shows that then every action keeps it, in the draft and in
  every snapshot undo or redo can bring back. The store's invariants interpret it.
\<close>

section \<open>The search for a way back\<close>

definition edge_rel :: "('b WorkEdge_scheme) list \<Rightarrow> (string \<times> string) set" where
  "edge_rel es = (\<lambda>e. (e_source e, e_target e)) ` set es"

interpretation path: stack_search "\<lambda>i. rev (out_targets es i)" "\<lambda>i. True" "\<lambda>i. i = to" True "\<lambda>seen. False" "reaches_loop es to"
  for es :: "FlowEdge list" and to :: string
  by unfold_locales auto

declare reaches_loop.simps [simp del]

lemma path_steps: "path.steps es = edge_rel es"
  unfolding path.steps_def by (auto simp: out_targets_def edge_rel_def)

lemma reaches_iff: "reaches es from to \<longleftrightarrow> (from, to) \<in> (edge_rel es)\<^sup>*"
proof -
  have "(edge_rel es)\<^sup>* `` {from} \<subseteq> insert from (snd ` edge_rel es)"
    by (auto elim: rtranclE) (metis rtranclE snd_conv rev_image_eqI)
  then have "finite ((edge_rel es)\<^sup>* `` {from})" by (rule finite_subset) (simp add: edge_rel_def)
  then have "finite (path.reach es [from])" by (simp add: path.reach_def path_steps)
  from path.run_from [OF this, of to] show ?thesis by (simp add: reaches_def path_steps)
qed

section \<open>Shapes\<close>

text \<open>What the store's invariants speak of: the ids and types of the blocks, and the ends of the edges.\<close>

type_synonym shape = "(string \<times> IvrNodeType) list \<times> (string \<times> string \<times> string \<times> string) list"

definition node_sig :: "('a NodeInput_scheme) \<Rightarrow> string \<times> IvrNodeType" where
  "node_sig n = (n_id n, n_type n)"

definition edge_sig :: "('b WorkEdge_scheme) \<Rightarrow> string \<times> string \<times> string \<times> string" where
  "edge_sig e = (e_id e, e_source e, e_sourceHandle e, e_target e)"

definition shape_of :: "('a NodeInput_scheme) list \<Rightarrow> ('b WorkEdge_scheme) list \<Rightarrow> shape" where
  "shape_of ns es = (map node_sig ns, map edge_sig es)"

definition snap_shape :: "Snapshot \<Rightarrow> shape" where
  "snap_shape s = (map (\<lambda>n. (sn_id n, sn_type n)) (ss_nodes s),
     map (\<lambda>e. (se_id e, se_source e, (case se_sourceHandle e of Some h \<Rightarrow> h | None \<Rightarrow> ''next''), se_target e)) (ss_edges s))"

definition shape_steps :: "shape \<Rightarrow> (string \<times> string) set" where
  "shape_steps S = (\<lambda>(i, s, h, t). (s, t)) ` set (snd S)"

lemma snap_shape_of [simp]: "snap_shape (snapshotOf ns es) = shape_of ns es"
  by (simp add: snap_shape_def snapshotOf_def shape_of_def snap_node_def snap_edge_def node_sig_def edge_sig_def comp_def)

lemma shape_from_snapshot:
  "fromSnapshot snap = (ns, es) \<Longrightarrow> shape_of (map (\<lambda>n. n\<lparr>fn_selected := f n\<rparr>) ns) es = snap_shape snap"
  by (auto simp: fromSnapshot_def shape_of_def snap_shape_def node_sig_def edge_sig_def snap_to_node_def snap_to_edge_def
      toFlowNode_def toFlowEdge_def comp_def)

lemma shape_steps_of: "shape_steps (shape_of ns es) = edge_rel es"
  by (force simp: shape_steps_def shape_of_def edge_rel_def edge_sig_def)

lemma find_sig: "List.find (\<lambda>n. n_id n = i) ns = Some n \<Longrightarrow> (i, n_type n) \<in> set (map node_sig ns)"
  using find_Some_in [of "\<lambda>n. n_id n = i" ns n] by (force simp: node_sig_def)

text \<open>A connection the store accepts, said of shapes: both blocks are there, the target is no Start and
  no path leads from it back to the source.\<close>

definition may_connect :: "shape \<Rightarrow> string \<Rightarrow> string \<Rightarrow> string \<Rightarrow> bool" where
  "may_connect S source hdl target \<longleftrightarrow>
     source \<in> fst ` set (fst S) \<and> (\<exists>t. (target, t) \<in> set (fst S) \<and> t \<noteq> Entry) \<and> source \<noteq> target
     \<and> (target, source) \<notin> (shape_steps (fst S, filter (\<lambda>(i, s, h, t). \<not> (s = source \<and> h = hdl)) (snd S)))\<^sup>*"

lemma filter_not_slot: "map edge_sig (filter (not_slot source hdl) es) = filter (\<lambda>(i, s, h, t). \<not> (s = source \<and> h = hdl)) (map edge_sig es)"
  by (induction es) (auto simp: not_slot_def edge_sig_def)


lemma connectionProblem_iff:
  "connectionProblem ns es source hdl target = None \<longleftrightarrow>
     (\<exists>s t. List.find (\<lambda>n. n_id n = source) ns = Some s \<and> List.find (\<lambda>n. n_id n = target) ns = Some t
        \<and> n_type t \<noteq> Entry \<and> source \<noteq> target \<and> hdl \<in> set (node_exits s)
        \<and> (target, source) \<notin> (edge_rel (filter (not_slot source hdl) es))\<^sup>*)"
proof -
  have "connectionProblem ns es source hdl target = None \<longleftrightarrow>
     (case (List.find (\<lambda>n. n_id n = source) ns, List.find (\<lambda>n. n_id n = target) ns) of
        (Some s, Some t) \<Rightarrow> n_type t \<noteq> Entry \<and> source \<noteq> target \<and> hdl \<in> set (node_exits s)
           \<and> \<not> reaches (filter (not_slot source hdl) es) target source
      | _ \<Rightarrow> False)"
    unfolding connectionProblem_def
    by (cases "List.find (\<lambda>n. n_id n = source) ns"; cases "List.find (\<lambda>n. n_id n = target) ns")
      (simp_all split: if_split)
  then show ?thesis unfolding reaches_iff
    by (cases "List.find (\<lambda>n. n_id n = source) ns"; cases "List.find (\<lambda>n. n_id n = target) ns") simp_all
qed

lemma connectionProblem_None:
  assumes "connectionProblem ns es source hdl target = None"
  shows "may_connect (shape_of ns es) source hdl target"
proof -
  obtain s t where st: "List.find (\<lambda>n. n_id n = source) ns = Some s" "List.find (\<lambda>n. n_id n = target) ns = Some t"
    and ok: "n_type t \<noteq> Entry" "source \<noteq> target" "(target, source) \<notin> (edge_rel (filter (not_slot source hdl) es))\<^sup>*"
    using assms unfolding connectionProblem_iff by blast
  have eq: "shape_steps (map node_sig ns, filter (\<lambda>(i, s, h, t). \<not> (s = source \<and> h = hdl)) (map edge_sig es))
      = edge_rel (filter (not_slot source hdl) es)"
    unfolding filter_not_slot [symmetric] using shape_steps_of [of ns] unfolding shape_of_def .
  have "source \<in> fst ` set (map node_sig ns)" using find_sig [OF st(1)] by (metis fst_conv image_eqI)
  then show ?thesis unfolding may_connect_def shape_of_def fst_conv snd_conv eq
    by (intro conjI exI [of _ "n_type t"] find_sig [OF st(2)] ok)
qed

section \<open>Sequences of actions\<close>

record Env =
  env_nano :: "nat \<Rightarrow> string"
  env_nodes :: "NodeChange list \<Rightarrow> FlowNode list \<Rightarrow> FlowNode list"
  env_edges :: "EdgeChange list \<Rightarrow> FlowEdge list \<Rightarrow> FlowEdge list"

datatype Action =
    Load Flow bool
  | NodesChange "NodeChange list"
  | EdgesChange "EdgeChange list"
  | PreviewNodesChange "NodeChange list"
  | Connect string string string
  | Disconnect string string
  | AddBlock IvrNodeType "Position option" "(string \<times> string) option"
  | UpdateConfig string obj "string option"
  | SetLabel string string
  | RemoveBlocks "string list"
  | Select "string option"
  | FocusBlock string
  | RevealBlock string
  | SetName string
  | SetViewport IvrViewport
  | Tidy
  | Undo
  | Redo
  | MarkSaved nat int
  | SetRevision int
  | SetMeta MetaPatch
  | EnterPreview PreviewGraph
  | ExitPreview
  | ShowProposal string json bool
  | RevealNext
  | ClearProposal
  | ReplaceDraft json
  | SetSimNode "string option"
  | ContentGraph

fun perform :: "Env \<Rightarrow> int \<Rightarrow> Action \<Rightarrow> Store \<Rightarrow> Store" where
  "perform env now (Load flow undoable) s = load (env_nano env) now flow undoable s"
| "perform env now (NodesChange cs) s = onNodesChange (env_nodes env) now cs s"
| "perform env now (EdgesChange cs) s = onEdgesChange (env_edges env) now cs s"
| "perform env now (PreviewNodesChange cs) s = onPreviewNodesChange (env_nodes env) cs s"
| "perform env now (Connect source hdl target) s = snd (connect (env_nano env) now source hdl target s)"
| "perform env now (Disconnect source hdl) s = disconnect now source hdl s"
| "perform env now (AddBlock t pos from) s = snd (addBlock (env_nano env) now t pos from s)"
| "perform env now (UpdateConfig i patch key) s = updateConfig now i patch key s"
| "perform env now (SetLabel i label) s = setLabel now i label s"
| "perform env now (RemoveBlocks blocks) s = removeBlocks now blocks s"
| "perform env now (Select i) s = select i s"
| "perform env now (FocusBlock i) s = focusBlock i s"
| "perform env now (RevealBlock i) s = revealBlock i s"
| "perform env now (SetName name) s = setName name s"
| "perform env now (SetViewport v) s = setViewport v s"
| "perform env now Tidy s = tidy now s"
| "perform env now Undo s = undo_edit s"
| "perform env now Redo s = redo_edit s"
| "perform env now (MarkSaved seq r) s = markSaved seq r s"
| "perform env now (SetRevision r) s = setRevision r s"
| "perform env now (SetMeta p) s = setMeta p s"
| "perform env now (EnterPreview p) s = enterPreview p s"
| "perform env now ExitPreview s = exitPreview s"
| "perform env now (ShowProposal job g instant) s = showProposal (env_nano env) job g instant s"
| "perform env now RevealNext s = snd (revealNext s)"
| "perform env now ClearProposal s = clearProposal s"
| "perform env now (ReplaceDraft g) s = replaceDraft (env_nano env) now g s"
| "perform env now (SetSimNode i) s = setSimNode i s"
| "perform env now ContentGraph s = snd (contentGraph s)"

text \<open>What the store relies on of the canvas library: changes that select, measure or move keep every
  block's identity and data, only moves change positions; edge changes that select or remove keep the
  edges that are not removed.\<close>

fun plain_node_change :: "NodeChange \<Rightarrow> bool" where
  "plain_node_change (NodeAdd n) = False"
| "plain_node_change (NodeReplace i n) = False"
| "plain_node_change _ = True"

fun plain_edge_change :: "EdgeChange \<Rightarrow> bool" where
  "plain_edge_change (EdgeAdd n) = False"
| "plain_edge_change (EdgeReplace i n) = False"
| "plain_edge_change _ = True"

definition node_core :: "FlowNode \<Rightarrow> string \<times> IvrNodeType \<times> BlockData" where
  "node_core n = (n_id n, n_type n, n_data n)"

definition canvas_ok :: "Env \<Rightarrow> bool" where
  "canvas_ok env \<longleftrightarrow>
     (\<forall>cs ns. list_all (\<lambda>c. plain_node_change c \<and> removed_id c = None) cs \<longrightarrow>
        map node_core (env_nodes env cs ns) = map node_core ns
        \<and> (list_all (\<lambda>c. \<not> is_content c) cs \<longrightarrow> map n_pos (env_nodes env cs ns) = map n_pos ns))
     \<and> (\<forall>cs es. list_all plain_edge_change cs \<longrightarrow>
        map WorkEdge.truncate (env_edges env cs es)
          = map WorkEdge.truncate (filter (\<lambda>e. EdgeRemove (e_id e) \<notin> set cs) es))"

fun canvas_action :: "Action \<Rightarrow> bool" where
  "canvas_action (NodesChange cs) = list_all plain_node_change cs"
| "canvas_action (EdgesChange cs) = list_all plain_edge_change cs"
| "canvas_action (AddBlock t p from) = (t \<noteq> Entry)"
| "canvas_action _ = True"

section \<open>Invariants of the draft and its history\<close>

definition shapes :: "('a FlowState_scheme) \<Rightarrow> shape set" where
  "shapes s = insert (shape_of (fs_nodes s) (fs_edges s)) (snap_shape ` (set (past (fs_history s)) \<union> set (future (fs_history s))))"

text \<open>From identifier \<open>k\<close> on, \<open>nanoid\<close> gives ids the shape does not use.\<close>

definition fresh_for :: "(nat \<Rightarrow> string) \<Rightarrow> nat \<Rightarrow> shape \<Rightarrow> bool" where
  "fresh_for nano k S \<longleftrightarrow> (\<forall>i \<ge> k. newNodeId nano i \<notin> fst ` set (fst S) \<and> newEdgeId nano i \<notin> fst ` set (snd S))"

definition holds_in :: "(nat \<Rightarrow> string) \<Rightarrow> (shape \<Rightarrow> bool) \<Rightarrow> Store \<Rightarrow> bool" where
  "holds_in nano Q s \<longleftrightarrow> (\<forall>S \<in> shapes s. Q S \<and> fresh_for nano (st_drawn s) S)"

lemma fresh_for_mono: "fresh_for nano k S \<Longrightarrow> k \<le> k' \<Longrightarrow> fresh_for nano k' S"
  by (auto simp: fresh_for_def)

lemma holds_in_new:
  assumes "holds_in nano Q s" "shapes s' \<subseteq> insert S (shapes s)" "st_drawn s \<le> st_drawn s'"
    "Q S" "fresh_for nano (st_drawn s') S"
  shows "holds_in nano Q s'"
  using assms fresh_for_mono unfolding holds_in_def by blast

lemma holds_in_same: "holds_in nano Q s \<Longrightarrow> shapes s' \<subseteq> shapes s \<Longrightarrow> st_drawn s \<le> st_drawn s' \<Longrightarrow> holds_in nano Q s'"
  using fresh_for_mono unfolding holds_in_def by blast

lemma holds_now: "holds_in nano Q s \<Longrightarrow> Q (shape_of (fs_nodes s) (fs_edges s)) \<and> fresh_for nano (st_drawn s) (shape_of (fs_nodes s) (fs_edges s))"
  by (simp add: holds_in_def shapes_def)

text \<open>\<open>commit\<close> in its parts, for an \<open>extra\<close> that leaves draft and history alone.\<close>

definition keeps_draft :: "(Store \<Rightarrow> Store) \<Rightarrow> bool" where
  "keeps_draft f \<longleftrightarrow> (\<forall>s. fs_nodes (f s) = fs_nodes s \<and> fs_edges (f s) = fs_edges s \<and> fs_history (f s) = fs_history s
     \<and> fs_changeSeq (f s) = fs_changeSeq s \<and> fs_contentSeq (f s) = fs_contentSeq s \<and> fs_savedSeq (f s) = fs_savedSeq s
     \<and> fs_name (f s) = fs_name s \<and> fs_viewport (f s) = fs_viewport s \<and> fs_keepGraph (f s) = fs_keepGraph s
     \<and> fs_foreignNodes (f s) = fs_foreignNodes s \<and> st_cached (f s) = st_cached s)"

lemma keeps_draft_id [simp]: "keeps_draft id"
  by (simp add: keeps_draft_def)

lemma keeps_draft_sets [simp]:
  "keeps_draft (\<lambda>s. s\<lparr>fs_selectedId := x\<rparr>)"
  "keeps_draft (\<lambda>s. s\<lparr>fs_graphEpoch := n\<rparr>)"
  "keeps_draft (\<lambda>s. s\<lparr>st_drawn := st_drawn s + 1\<rparr>)"
  "keeps_draft (\<lambda>s. s\<lparr>fs_selectedId := x, st_drawn := k\<rparr>)"
  "keeps_draft (\<lambda>s. s\<lparr>fs_selectedId := x, fs_graphEpoch := n, fs_preview := p, fs_proposal := q, fs_simNodeId := i, st_drawn := k\<rparr>)"
  by (simp_all add: keeps_draft_def)

lemma commit_parts:
  assumes "keeps_draft extra"
  shows "fs_nodes (commit now ns es key extra po s) = ns" "fs_edges (commit now ns es key extra po s) = es"
    "fs_history (commit now ns es key extra po s) = record_edit (fs_history s) (snapshot_now s) (snapshotOf ns es) key now"
    "fs_name (commit now ns es key extra po s) = fs_name s" "fs_viewport (commit now ns es key extra po s) = fs_viewport s"
    "fs_keepGraph (commit now ns es key extra po s) = fs_keepGraph s"
    "fs_foreignNodes (commit now ns es key extra po s) = fs_foreignNodes s"
    "fs_savedSeq (commit now ns es key extra po s) = fs_savedSeq s" "st_cached (commit now ns es key extra po s) = st_cached s"
    "fs_changeSeq (commit now ns es key extra po s) =
       fs_changeSeq s + (if record_step (fs_history s) (snapshot_now s) (snapshotOf ns es) key now \<noteq> None then 1 else 0)"
    "fs_contentSeq (commit now ns es key extra po s) =
       fs_contentSeq s + (if record_step (fs_history s) (snapshot_now s) (snapshotOf ns es) key now \<noteq> None \<and> \<not> po then 1 else 0)"
  using assms by (auto simp: commit_def keeps_draft_def record_edit_def Let_def split: option.splits)

lemma drawn_commit: "(\<And>s. st_drawn (extra s) = f (st_drawn s)) \<Longrightarrow> st_drawn (commit now ns es key extra po s) = f (st_drawn s)"
  by (simp add: commit_def Let_def)

lemma shapes_recorded:
  "insert S (snap_shape ` (set (past (record_edit (fs_history s) (snapshot_now s) b key now))
      \<union> set (future (record_edit (fs_history s) (snapshot_now s) b key now)))) \<subseteq> insert S (shapes s)"
proof -
  have "set (past (record_edit (fs_history s) (snapshot_now s) b key now)) \<subseteq> insert (snapshot_now s) (set (past (fs_history s)))"
    "set (future (record_edit (fs_history s) (snapshot_now s) b key now)) \<subseteq> set (future (fs_history s))"
    using record_set by blast+
  then show ?thesis unfolding shapes_def by fastforce
qed

lemma shapes_commit:
  assumes "keeps_draft extra"
  shows "shapes (commit now ns es key extra po s) \<subseteq> insert (shape_of ns es) (shapes s)"
  unfolding shapes_def [of "commit now ns es key extra po s"] commit_parts [OF assms] by (rule shapes_recorded)

section \<open>Shapes after each action\<close>

lemma sig_simps [simp]:
  "node_sig (clear_goto gone n) = node_sig n" "node_sig (patch_config p n) = node_sig n"
  "node_sig (relabel l n) = node_sig n" "node_sig (deselect n) = node_sig n"
  "node_sig (n\<lparr>fn_selected := b\<rparr>) = node_sig n" "node_sig (toFlowNode m) = node_sig m"
  "node_sig (at_place pos m) = node_sig m" "edge_sig (edge_to_flow e) = edge_sig e"
  "edge_sig (toFlowEdge i s h t k) = (i, s, h, t)" "edge_sig (WorkEdge.truncate e) = edge_sig e"
  by (auto simp: node_sig_def clear_goto_def patch_config_def relabel_def deselect_def toFlowNode_def at_place_def edge_sig_def
      edge_to_flow_def toFlowEdge_def Let_def WorkEdge.truncate_def split: option.splits json.splits)

lemma shape_map [simp]: "(\<And>n. node_sig (f n) = node_sig n) \<Longrightarrow> shape_of (map f ns) es = shape_of ns es"
  by (simp add: shape_of_def comp_def)

lemma shape_edges: "shape_of ns es = (fst (shape_of ns es'), map edge_sig es)"
  by (simp add: shape_of_def)

lemma shape_core: "map node_core ns = map node_core ms \<Longrightarrow> shape_of ns es = shape_of ms es"
proof -
  assume a: "map node_core ns = map node_core ms"
  have "map node_sig xs = map (\<lambda>(i, t, d). (i, t)) (map node_core xs)" for xs
    by (induction xs) (simp_all add: node_core_def node_sig_def)
  then show ?thesis unfolding shape_of_def using a by metis
qed

lemma shape_truncate:
  fixes es fs :: "FlowEdge list"
  assumes "map WorkEdge.truncate es = map WorkEdge.truncate fs"
  shows "map edge_sig es = map edge_sig fs"
proof -
  have "map edge_sig xs = map edge_sig (map WorkEdge.truncate xs)" for xs :: "FlowEdge list" by (simp add: comp_def)
  then show ?thesis using assms by metis
qed

lemma prune_subseq: "subseq (prune ns seen es) es"
  by (induction ns seen es rule: prune.induct) (auto simp: Let_def split: option.splits)

lemma fromGraph_drawn: "fromGraph nano k g = (w, k') \<Longrightarrow> k \<le> k'"
proof -
  have e: "k \<le> k'" if "read_edges nano ns used eids k raws = (es, k')" for ns used eids k raws es k'
    using that
    by (induction nano ns used eids k raws arbitrary: es k' rule: read_edges.induct)
      (force simp: read_edge_def take_edge_id_def Let_def split: option.splits prod.splits if_splits)+
  assume "fromGraph nano k g = (w, k')"
  then show ?thesis by (auto simp: fromGraph_def ensure_start_def Let_def split: prod.splits if_splits dest!: e)
qed

lemma shapes_undo: "shapes (undo_edit s) \<subseteq> shapes s" "shapes (redo_edit s) \<subseteq> shapes s"
proof -
  have go: "shapes (go_to h snap s) = insert (snap_shape snap) (snap_shape ` (set (past h) \<union> set (future h)))" for h snap
  proof -
    obtain ns es where fs: "fromSnapshot snap = (ns, es)" by (cases "fromSnapshot snap")
    then show ?thesis by (simp add: shapes_def go_to_def shape_from_snapshot [OF fs])
  qed
  have bl: "set (butlast xs) \<subseteq> set xs" for xs :: "Snapshot list" by (auto dest: in_set_butlastD)
  show "shapes (undo_edit s) \<subseteq> shapes s"
  proof (cases "undo (fs_history s) (snapshot_now s)")
    case (Some r)
    then obtain h snap where r: "r = (h, snap)" "snap \<in> set (past (fs_history s))"
      "set (past h) \<subseteq> set (past (fs_history s))" "set (future h) \<subseteq> insert (snapshot_now s) (set (future (fs_history s)))"
      by (auto simp: undo_def bl split: if_splits)
    have "shapes (undo_edit s) = shapes (go_to h snap s)" using Some r(1) by (simp add: undo_edit_def)
    also have "\<dots> \<subseteq> shapes s" unfolding go using r(2-4) by (auto simp: shapes_def)
    finally show ?thesis .
  qed (simp add: undo_edit_def)
  show "shapes (redo_edit s) \<subseteq> shapes s"
  proof (cases "redo (fs_history s) (snapshot_now s)")
    case (Some r)
    then obtain h snap where r: "r = (h, snap)" "snap \<in> set (future (fs_history s))"
      "set (past h) \<subseteq> insert (snapshot_now s) (set (past (fs_history s)))" "set (future h) \<subseteq> set (future (fs_history s))"
      by (auto simp: redo_def subset_insertI split: list.splits)
    have "shapes (redo_edit s) = shapes (go_to h snap s)" using Some r(1) by (simp add: redo_edit_def)
    also have "\<dots> \<subseteq> shapes s" unfolding go using r(2-4) by (auto simp: shapes_def)
    finally show ?thesis .
  qed (simp add: redo_edit_def)
qed

lemma subseq_set: "subseq xs ys \<Longrightarrow> set xs \<subseteq> set ys"
  by (induction rule: list_emb.induct) auto

section \<open>Rules an invariant of the draft needs\<close>

text \<open>A stored graph that the action takes in.\<close>

definition loads :: "(nat \<Rightarrow> string) \<Rightarrow> (shape \<Rightarrow> bool) \<Rightarrow> nat \<Rightarrow> json \<Rightarrow> bool" where
  "loads nano Q k g \<longleftrightarrow>
     (case fromGraph nano k (Some g) of
        (w, k') \<Rightarrow> Q (shape_of (wg_nodes w) (wg_edges w)) \<and> fresh_for nano k' (shape_of (wg_nodes w) (wg_edges w)))"

fun admits :: "Env \<Rightarrow> (shape \<Rightarrow> bool) \<Rightarrow> Store \<Rightarrow> Action \<Rightarrow> bool" where
  "admits env Q s (Load flow undoable) = loads (env_nano env) Q (st_drawn s) (fl_draft_graph flow)"
| "admits env Q s (ReplaceDraft g) = loads (env_nano env) Q (st_drawn s) g"
| "admits env Q s a = canvas_action a"

definition without_slot :: "string \<Rightarrow> string \<Rightarrow> (string \<times> string \<times> string \<times> string) list \<Rightarrow> (string \<times> string \<times> string \<times> string) list" where
  "without_slot s h E = filter (\<lambda>(i, s', h', t). \<not> (s' = s \<and> h' = h)) E"

lemma sig_without_slot [simp]: "map edge_sig (filter (not_slot s h) es) = without_slot s h (map edge_sig es)"
  by (simp add: filter_not_slot without_slot_def)

locale draft_rules =
  fixes Q :: "shape \<Rightarrow> bool"
  assumes distinct_ids: "Q (N, E) \<Longrightarrow> distinct (map fst N)"
    and fewer_edges: "Q (N, E) \<Longrightarrow> subseq E' E \<Longrightarrow> Q (N, E')"
    and new_edge: "Q (N, E) \<Longrightarrow> may_connect (N, E) s h t \<Longrightarrow> i \<notin> fst ` set E \<Longrightarrow> Q (N, without_slot s h E @ [(i, s, h, t)])"
    and new_block: "Q (N, E) \<Longrightarrow> i \<notin> fst ` set N \<Longrightarrow> ty \<noteq> Entry \<Longrightarrow> Q (N @ [(i, ty)], E)"
    and fewer_blocks: "Q (N, E) \<Longrightarrow> (\<And>i. i \<in> gone \<Longrightarrow> (i, Entry) \<notin> set N) \<Longrightarrow>
      Q (filter (\<lambda>(i, ty). i \<notin> gone) N, filter (\<lambda>(i, s, h, t). s \<notin> gone \<and> t \<notin> gone) E)"
begin

lemma keeps_now:
  assumes "holds_in nano Q s" "keeps_draft extra" "\<And>s. st_drawn s \<le> st_drawn (extra s)"
    "shape_of ns es = shape_of (fs_nodes s) (fs_edges s)"
  shows "holds_in nano Q (commit now ns es key extra po s)"
proof (rule holds_in_same [OF assms(1)])
  show "shapes (commit now ns es key extra po s) \<subseteq> shapes s"
    using shapes_commit [OF assms(2), of now ns es key po s] unfolding assms(4) by (simp add: shapes_def insert_absorb)
  show "st_drawn s \<le> st_drawn (commit now ns es key extra po s)"
    using assms(3) [of "s\<lparr>fs_nodes := ns, fs_edges := es, fs_history := h, fs_changeSeq := a, fs_contentSeq := b\<rparr>" for h a b]
    by (simp add: commit_def Let_def)
qed

lemma keeps_fewer:
  assumes "holds_in nano Q s" "keeps_draft extra" "\<And>s. st_drawn (extra s) = st_drawn s"
    "map node_sig ns = map node_sig (fs_nodes s)" "subseq (map edge_sig es) (map edge_sig (fs_edges s))"
  shows "holds_in nano Q (commit now ns es key extra po s)"
proof (rule holds_in_new [OF assms(1) shapes_commit [OF assms(2)]])
  have d: "st_drawn (commit now ns es key extra po s) = st_drawn s" by (rule drawn_commit) (rule assms(3))
  then show "st_drawn s \<le> st_drawn (commit now ns es key extra po s)" by simp
  have now: "Q (map node_sig (fs_nodes s), map edge_sig (fs_edges s))"
    "fresh_for nano (st_drawn s) (map node_sig (fs_nodes s), map edge_sig (fs_edges s))"
    using holds_now [OF assms(1)] by (simp_all add: shape_of_def)
  show "Q (shape_of ns es)" unfolding shape_of_def assms(4) by (rule fewer_edges [OF now(1) assms(5)])
  have "set (map edge_sig es) \<subseteq> set (map edge_sig (fs_edges s))" by (rule subseq_set [OF assms(5)])
  then show "fresh_for nano (st_drawn (commit now ns es key extra po s)) (shape_of ns es)"
    using now(2) unfolding d shape_of_def assms(4) fresh_for_def by (simp del: set_map) blast
qed

lemma removeBlocks_holds:
  assumes "holds_in nano Q s"
  shows "holds_in nano Q (removeBlocks now blocks s)"
proof -
  let ?gone = "set (filter (\<lambda>i. \<not> is_entry_id (fs_nodes s) i) blocks)"
  show ?thesis
  proof (cases "?gone = {}")
    case False
    let ?ns = "map (clear_goto ?gone) (filter (\<lambda>n. n_id n \<notin> ?gone) (fs_nodes s))"
    let ?es = "filter (\<lambda>e. e_source e \<notin> ?gone \<and> e_target e \<notin> ?gone) (fs_edges s)"
    let ?N = "map node_sig (fs_nodes s)" and ?E = "map edge_sig (fs_edges s)"
    have now: "Q (?N, ?E)" "fresh_for nano (st_drawn s) (?N, ?E)"
      using holds_now [OF assms] by (simp_all add: shape_of_def)
    have shape: "shape_of ?ns ?es = (filter (\<lambda>(i, ty). i \<notin> ?gone) ?N, filter (\<lambda>(i, s, h, t). s \<notin> ?gone \<and> t \<notin> ?gone) ?E)"
      by (simp add: shape_of_def comp_def filter_map del: set_filter) (simp add: node_sig_def edge_sig_def)
    have entry: "(i, Entry) \<notin> set ?N" if i: "i \<in> ?gone" for i
    proof
      assume "(i, Entry) \<in> set ?N"
      then obtain n where n: "n \<in> set (fs_nodes s)" "n_id n = i" "n_type n = Entry" by (auto simp: node_sig_def)
      have "distinct (map n_id (fs_nodes s))" using distinct_ids [OF now(1)] by (simp add: node_sig_def comp_def)
      then have "List.find (\<lambda>n. n_id n = i) (fs_nodes s) = Some n"
        using find_distinct [of n_id] n by blast
      then show False using i n(3) by (simp add: is_entry_id_def)
    qed
    let ?extra = "\<lambda>s'. s'\<lparr>fs_selectedId := (case fs_selectedId s of Some i \<Rightarrow> if i \<noteq> '''' \<and> i \<in> ?gone then None else Some i | None \<Rightarrow> None)\<rparr>"
    have "holds_in nano Q (commit now ?ns ?es None ?extra False s)"
    proof (rule holds_in_new [OF assms shapes_commit])
      have d: "st_drawn (commit now ?ns ?es None ?extra False s) = st_drawn s" by (rule drawn_commit) simp
      then show "st_drawn s \<le> st_drawn (commit now ?ns ?es None ?extra False s)" by simp
      show "Q (shape_of ?ns ?es)" unfolding shape by (rule fewer_blocks [OF now(1) entry])
      show "fresh_for nano (st_drawn (commit now ?ns ?es None ?extra False s)) (shape_of ?ns ?es)"
        unfolding d shape using now(2) by (fastforce simp: fresh_for_def)
    qed simp
    then show ?thesis using False by (simp only: removeBlocks_def Let_def if_False)
  qed (use assms in \<open>simp only: removeBlocks_def Let_def simp_thms if_True\<close>)
qed

lemma connected_holds:
  assumes inv: "holds_in nano Q s" and S: "Q (N, E)" "fresh_for nano k (N, E)" and inj: "inj nano" and k: "st_drawn s \<le> k"
    and c: "may_connect (N, E) source hdl target" and extra: "keeps_draft extra" "\<And>s. st_drawn (extra s) = Suc k"
    and ns: "map node_sig ns = N" and es: "map edge_sig es = E"
  shows "holds_in nano Q (commit now ns (filter (not_slot source hdl) es @ [toFlowEdge (newEdgeId nano k) source hdl target None]) key extra po s)"
    (is "holds_in nano Q ?s'")
proof (rule holds_in_new [OF inv shapes_commit [OF extra(1)]])
  have d: "st_drawn ?s' = Suc k" using drawn_commit [of extra "\<lambda>n. Suc k"] extra(2) by simp
  then show "st_drawn s \<le> st_drawn ?s'" using k by simp
  have shape: "shape_of ns (filter (not_slot source hdl) es @ [toFlowEdge (newEdgeId nano k) source hdl target None])
      = (N, without_slot source hdl E @ [(newEdgeId nano k, source, hdl, target)])"
    by (simp add: shape_of_def ns es [symmetric])
  show "Q (shape_of ns (filter (not_slot source hdl) es @ [toFlowEdge (newEdgeId nano k) source hdl target None]))"
    unfolding shape by (rule new_edge [OF S(1) c]) (use S(2) k in \<open>simp add: fresh_for_def\<close>)
  have new: "newEdgeId nano i \<noteq> newEdgeId nano k" if "Suc k \<le> i" for i
    using that injD [OF inj, of i k] by (auto simp: newEdgeId_def)
  have old: "newEdgeId nano i \<notin> fst ` set E" "newNodeId nano i \<notin> fst ` set N" if "Suc k \<le> i" for i
    using S(2) that unfolding fresh_for_def by simp_all
  have "fst ` set (without_slot source hdl E @ [(newEdgeId nano k, source, hdl, target)]) \<subseteq> insert (newEdgeId nano k) (fst ` set E)"
    by (auto simp: without_slot_def)
  then show "fresh_for nano (st_drawn ?s') (shape_of ns (filter (not_slot source hdl) es @ [toFlowEdge (newEdgeId nano k) source hdl target None]))"
    unfolding d shape fresh_for_def fst_conv snd_conv using new old by (meson insertE subsetD)
qed

lemma connect_holds:
  assumes inv: "holds_in nano Q s" and inj: "inj nano"
  shows "holds_in nano Q (snd (connect nano now source hdl target s))"
proof (cases "connectionProblem (fs_nodes s) (fs_edges s) source hdl target")
  case None
  note c = connectionProblem_None [OF None]
  have now: "Q (map node_sig (fs_nodes s), map edge_sig (fs_edges s))"
    "fresh_for nano (st_drawn s) (map node_sig (fs_nodes s), map edge_sig (fs_edges s))"
    using holds_now [OF inv] by (simp_all add: shape_of_def)
  show ?thesis unfolding connect_def None option.case Let_def snd_conv
  proof (rule holds_in_same)
    let ?es = "filter (not_slot source hdl) (fs_edges s) @ [toFlowEdge (newEdgeId nano (st_drawn s)) source hdl target None]"
    let ?f = "\<lambda>s'. s'\<lparr>st_drawn := Suc (st_drawn s)\<rparr>"
    have k: "keeps_draft ?f" by (simp add: keeps_draft_def)
    show "holds_in nano Q (commit now (fs_nodes s) ?es None ?f False s)"
      by (rule connected_holds [OF inv now inj order_refl c [unfolded shape_of_def] k]) simp_all
    show "shapes (commit now (fs_nodes s) ?es None (\<lambda>s. s\<lparr>st_drawn := st_drawn s + 1\<rparr>) False s)
        \<subseteq> shapes (commit now (fs_nodes s) ?es None ?f False s)"
      unfolding shapes_def commit_parts [OF k] commit_parts [OF keeps_draft_sets(3)] by simp
    show "st_drawn (commit now (fs_nodes s) ?es None ?f False s)
        \<le> st_drawn (commit now (fs_nodes s) ?es None (\<lambda>s. s\<lparr>st_drawn := st_drawn s + 1\<rparr>) False s)"
      by (simp add: commit_def Let_def)
  qed
qed (use inv in \<open>simp add: connect_def\<close>)

lemma addBlock_holds:
  assumes inv: "holds_in nano Q s" and inj: "inj nano" and t: "t \<noteq> Entry"
  shows "holds_in nano Q (snd (addBlock nano now t pos from s))"
proof -
  let ?i = "newNodeId nano (st_drawn s)"
  let ?N = "map node_sig (fs_nodes s)" and ?E = "map edge_sig (fs_edges s)"
  have now: "Q (?N, ?E)" "fresh_for nano (st_drawn s) (?N, ?E)"
    using holds_now [OF inv] by (simp_all add: shape_of_def)
  have Q': "Q (?N @ [(?i, t)], ?E)" by (rule new_block [OF now(1) _ t]) (use now(2) in \<open>auto simp: fresh_for_def\<close>)
  have "newNodeId nano j \<noteq> ?i" if "Suc (st_drawn s) \<le> j" for j
    using that injD [OF inj, of j "st_drawn s"] by (auto simp: newNodeId_def)
  then have fresh': "fresh_for nano (Suc (st_drawn s)) (?N @ [(?i, t)], ?E)" using now(2) by (auto simp: fresh_for_def)
  define nodes where "nodes = map deselect (fs_nodes s) @ [(made_block ?i t pos from s)\<lparr>fn_selected := Some True\<rparr>]"
  have n: "snd (addBlock nano now t pos from s) =
      (let (edges, drawn) = (case from of
               None \<Rightarrow> (fs_edges s, st_drawn s + 1)
             | Some (source, hdl) \<Rightarrow>
                 if connectionProblem nodes (fs_edges s) source hdl ?i = None
                 then (filter (not_slot source hdl) (fs_edges s)
                         @ [toFlowEdge (newEdgeId nano (st_drawn s + 1)) source hdl ?i None], st_drawn s + 2)
                 else (fs_edges s, st_drawn s + 1))
       in commit now nodes edges None (\<lambda>s. s\<lparr>fs_selectedId := Some ?i, st_drawn := drawn\<rparr>) False s)"
    by (simp only: addBlock_def nodes_def Let_def split_beta snd_conv)
  have N: "map node_sig nodes = ?N @ [(?i, t)]" by (simp add: nodes_def comp_def) (simp add: made_block_def Let_def node_sig_def toFlowNode_def)
  have plain: "holds_in nano Q (commit now nodes (fs_edges s) None (\<lambda>s. s\<lparr>fs_selectedId := Some ?i, st_drawn := st_drawn0\<rparr>) False s)"
    if "st_drawn0 = Suc (st_drawn s)" for st_drawn0
  proof (rule holds_in_new [OF inv shapes_commit])
    have d: "st_drawn (commit now nodes (fs_edges s) None (\<lambda>s. s\<lparr>fs_selectedId := Some ?i, st_drawn := st_drawn0\<rparr>) False s) = Suc (st_drawn s)"
      using that by (simp add: commit_def Let_def)
    show "st_drawn s \<le> st_drawn (commit now nodes (fs_edges s) None (\<lambda>s. s\<lparr>fs_selectedId := Some ?i, st_drawn := st_drawn0\<rparr>) False s)"
      unfolding d by simp
    show "Q (shape_of nodes (fs_edges s))" "fresh_for nano (st_drawn (commit now nodes (fs_edges s) None
        (\<lambda>s. s\<lparr>fs_selectedId := Some ?i, st_drawn := st_drawn0\<rparr>) False s)) (shape_of nodes (fs_edges s))"
      unfolding d shape_of_def N using Q' fresh' by simp_all
  qed simp
  show ?thesis
  proof (cases "\<exists>source hdl. from = Some (source, hdl) \<and> connectionProblem nodes (fs_edges s) source hdl ?i = None")
    case True
    then obtain source hdl where f: "from = Some (source, hdl)" "connectionProblem nodes (fs_edges s) source hdl ?i = None" by blast
    have "may_connect (?N @ [(?i, t)], ?E) source hdl ?i"
      using connectionProblem_None [OF f(2)] unfolding shape_of_def N .
    then show ?thesis unfolding n using f
      by (simp add: connected_holds [OF inv Q' fresh' inj _ _ _ _ N])
  next
    case False
    then show ?thesis unfolding n using plain [of "st_drawn s + 1"] by (auto split: option.splits)
  qed
qed

lemma onNodesChange_holds:
  assumes inv: "holds_in nano Q s" and canvas: "canvas_ok env" and plain: "list_all plain_node_change cs"
  shows "holds_in nano Q (onNodesChange (env_nodes env) now cs s)"
proof -
  let ?safe = "filter (\<lambda>c. \<not> removes_start (fs_nodes s) c) cs"
  let ?content = "filter is_content ?safe"
  let ?sel = "fold change_selected ?safe (fs_selectedId s)"
  let ?removed = "remdups (List.map_filter removed_id ?content)"
  show ?thesis
  proof (cases "?removed = []")
    case True
    have none: "removed_id c = None" if "c \<in> set ?safe" for c
    proof (cases c)
      case (NodeRemove i)
      then have "i \<in> set ?removed" using that by (force simp: in_map_filter)
      then show ?thesis unfolding True by simp
    qed simp_all
    have "list_all (\<lambda>c. plain_node_change c \<and> removed_id c = None) ?safe"
      using plain none by (auto simp: list_all_iff)
    then have "map node_core (env_nodes env ?safe (fs_nodes s)) = map node_core (fs_nodes s)"
      using canvas by (simp add: canvas_ok_def)
    then have shape: "shape_of (env_nodes env ?safe (fs_nodes s)) (fs_edges s) = shape_of (fs_nodes s) (fs_edges s)"
      by (rule shape_core)
    have select: "holds_in nano Q (s\<lparr>fs_nodes := env_nodes env ?safe (fs_nodes s), fs_selectedId := ?sel\<rparr>)"
      by (rule holds_in_same [OF inv]) (simp_all add: shapes_def shape)
    have moved: "holds_in nano Q (commit now (env_nodes env ?safe (fs_nodes s)) (fs_edges s) key (\<lambda>s. s\<lparr>fs_selectedId := ?sel\<rparr>) po s)" for key po
      by (rule keeps_now [OF inv]) (simp_all add: shape)
    have sealed: "holds_in nano Q (s'\<lparr>fs_history := seal (fs_history s')\<rparr>)" if "holds_in nano Q s'" for s'
      by (rule holds_in_same [OF that]) (auto simp: shapes_def seal_def)
    show ?thesis unfolding onNodesChange_def Let_def using inv select moved sealed True by (simp only: if_split simp_thms)
  next
    case False
    then have c: "?content \<noteq> []" by (auto simp: map_filter_simps)
    then have "?safe \<noteq> []" by (metis filter.simps(1))
    then show ?thesis unfolding onNodesChange_def Let_def using c False removeBlocks_holds [OF inv] by (simp only: if_split simp_thms)
  qed
qed

lemma onEdgesChange_holds:
  assumes inv: "holds_in nano Q s" and canvas: "canvas_ok env" and plain: "list_all plain_edge_change cs"
  shows "holds_in nano Q (onEdgesChange (env_edges env) now cs s)"
proof -
  let ?own = "filter (\<lambda>c. \<not> is_jump c) cs"
  let ?kept = "filter (\<lambda>e. EdgeRemove (e_id e) \<notin> set ?own) (fs_edges s)"
  have "list_all plain_edge_change ?own" using plain by (auto simp: list_all_iff)
  then have "map WorkEdge.truncate (env_edges env ?own (fs_edges s)) = map WorkEdge.truncate ?kept"
    using canvas by (simp add: canvas_ok_def)
  then have sig: "map edge_sig (env_edges env ?own (fs_edges s)) = map edge_sig ?kept" by (rule shape_truncate)
  have sub: "subseq (map edge_sig (env_edges env ?own (fs_edges s))) (map edge_sig (fs_edges s))"
    unfolding sig by (rule subseq_map) simp
  have edit: "holds_in nano Q (commit now (fs_nodes s) (env_edges env ?own (fs_edges s)) None id False s)"
    by (rule keeps_fewer [OF inv _ _ _ sub]) simp_all
  have "?kept = fs_edges s" if "list_all is_edge_select ?own"
    using that by (force simp: filter_id_conv list_all_iff)
  then have select: "holds_in nano Q (s\<lparr>fs_edges := env_edges env ?own (fs_edges s)\<rparr>)" if "list_all is_edge_select ?own"
    using that sig by (intro holds_in_same [OF inv]) (simp_all add: shapes_def shape_of_def)
  show ?thesis unfolding onEdgesChange_def Let_def using inv edit select by (simp only: if_split simp_thms) blast
qed

lemma loaded_shape:
  assumes "fromGraph nano k (Some g) = (w, k')" "loads nano Q k g"
  shows "Q (shape_of (map toFlowNode (wg_nodes w)) (map edge_to_flow (wg_edges w)))"
    "fresh_for nano k' (shape_of (map toFlowNode (wg_nodes w)) (map edge_to_flow (wg_edges w)))"
proof -
  have "shape_of (map toFlowNode (wg_nodes w)) (map edge_to_flow (wg_edges w)) = shape_of (wg_nodes w) (wg_edges w)"
    by (simp add: shape_of_def comp_def)
  then show "Q (shape_of (map toFlowNode (wg_nodes w)) (map edge_to_flow (wg_edges w)))"
    "fresh_for nano k' (shape_of (map toFlowNode (wg_nodes w)) (map edge_to_flow (wg_edges w)))"
    using assms by (simp_all add: loads_def)
qed

lemma load_holds:
  assumes inv: "holds_in nano Q s" and g: "loads nano Q (st_drawn s) (fl_draft_graph flow)"
  shows "holds_in nano Q (load nano now flow undoable s)"
proof -
  obtain w k' where w: "fromGraph nano (st_drawn s) (Some (fl_draft_graph flow)) = (w, k')" by fastforce
  let ?ns = "map toFlowNode (wg_nodes w)" and ?es = "map edge_to_flow (wg_edges w)"
  show ?thesis
  proof (rule holds_in_new [OF inv, of _ "shape_of ?ns ?es"])
    show "shapes (load nano now flow undoable s) \<subseteq> insert (shape_of ?ns ?es) (shapes s)"
    proof (cases undoable)
      case True
      then have "shapes (load nano now flow undoable s) = insert (shape_of ?ns ?es)
         (snap_shape ` (set (past (record_edit (fs_history s) (snapshot_now s) (snapshotOf ?ns ?es) None now))
            \<union> set (future (record_edit (fs_history s) (snapshot_now s) (snapshotOf ?ns ?es) None now))))"
        by (simp add: shapes_def load_def w Let_def)
      then show ?thesis using shapes_recorded by simp
    qed (simp add: shapes_def load_def w emptyHistory_def Let_def)
  qed (use loaded_shape [OF w g] fromGraph_drawn [OF w] in \<open>simp_all add: load_def w Let_def\<close>)
qed

lemma replaceDraft_holds:
  assumes inv: "holds_in nano Q s" and g: "loads nano Q (st_drawn s) raw"
  shows "holds_in nano Q (replaceDraft nano now raw s)"
proof -
  obtain w k' where w: "fromGraph nano (st_drawn s) (Some raw) = (w, k')" by fastforce
  let ?f = "\<lambda>s'. s'\<lparr>fs_selectedId := None, fs_preview := None, fs_proposal := None, fs_simNodeId := None,
      fs_graphEpoch := fs_graphEpoch s + 1, st_drawn := k'\<rparr>"
  have f: "keeps_draft ?f" by (simp add: keeps_draft_def)
  have d: "st_drawn (commit now ns es None ?f False s) = k'" for ns es by (rule drawn_commit [of _ "\<lambda>n. k'"]) simp
  have r: "replaceDraft nano now raw s =
      commit now (map toFlowNode (wg_nodes w)) (map edge_to_flow (wg_edges w)) None ?f False s"
    by (simp add: replaceDraft_def w)
  show ?thesis unfolding r
    by (rule holds_in_new [OF inv shapes_commit [OF f]])
      (simp_all only: d fromGraph_drawn [OF w] loaded_shape [OF w g])
qed

lemma perform_holds:
  assumes inv: "holds_in (env_nano env) Q s" and canvas: "canvas_ok env" and inj: "inj (env_nano env)"
    and a: "admits env Q s a"
  shows "holds_in (env_nano env) Q (perform env now a s)"
proof -
  have same: "holds_in (env_nano env) Q s'"
    if "shape_of (fs_nodes s') (fs_edges s') = shape_of (fs_nodes s) (fs_edges s)" "fs_history s' = fs_history s"
      "st_drawn s \<le> st_drawn s'" for s'
    by (rule holds_in_same [OF inv]) (use that in \<open>simp_all add: shapes_def\<close>)
  show ?thesis
  proof (cases a)
    case (Load flow undoable)
    then show ?thesis using load_holds [OF inv] a by simp
  next
    case (NodesChange cs)
    then show ?thesis using onNodesChange_holds [OF inv canvas] a by simp
  next
    case (EdgesChange cs)
    then show ?thesis using onEdgesChange_holds [OF inv canvas] a by simp
  next
    case (PreviewNodesChange cs)
    then show ?thesis using same by (auto simp: onPreviewNodesChange_def Let_def split: option.splits)
  next
    case (Connect source hdl target)
    then show ?thesis using connect_holds [OF inv inj] by simp
  next
    case (Disconnect source hdl)
    have "subseq (without_slot source hdl (map edge_sig (fs_edges s))) (map edge_sig (fs_edges s))"
      by (simp add: without_slot_def)
    then show ?thesis using Disconnect keeps_fewer [OF inv] by (simp add: disconnect_def)
  next
    case (AddBlock t pos via)
    then show ?thesis using addBlock_holds [OF inv inj] a by simp
  next
    case (UpdateConfig i patch key)
    let ?ns = "map (\<lambda>n. if n_id n \<noteq> i then n else patch_config patch n) (fs_nodes s)"
    have "map node_sig ?ns = map node_sig (fs_nodes s)" by simp
    then have "holds_in (env_nano env) Q (commit now ?ns (pruneEdges ?ns (fs_edges s)) key id False s)"
      by (intro keeps_fewer [OF inv]) (simp_all add: pruneEdges_def subseq_map prune_subseq)
    then show ?thesis using UpdateConfig by (simp only: perform.simps updateConfig_def Let_def)
  next
    case (SetLabel i label)
    have "holds_in (env_nano env) Q (commit now (map (\<lambda>n. if n_id n \<noteq> i then n else relabel label n) (fs_nodes s)) (fs_edges s) key id False s)" for key
      by (rule keeps_now [OF inv]) simp_all
    then show ?thesis using SetLabel by (simp add: setLabel_def)
  next
    case (RemoveBlocks blocks)
    then show ?thesis using removeBlocks_holds [OF inv] by simp
  next
    case Tidy
    then show ?thesis using keeps_now [OF inv] by (simp add: tidy_def Let_def)
  next
    case Undo
    then show ?thesis using holds_in_same [OF inv shapes_undo(1)] by (simp add: undo_edit_def go_to_def split: option.splits prod.splits)
  next
    case Redo
    then show ?thesis using holds_in_same [OF inv shapes_undo(2)] by (simp add: redo_edit_def go_to_def split: option.splits prod.splits)
  next
    case (ReplaceDraft g)
    then show ?thesis using replaceDraft_holds [OF inv] a by simp
  next
    case (ShowProposal job g instant)
    obtain w k' where w: "fromGraph (env_nano env) (st_drawn s) (Some g) = (w, k')" by fastforce
    show ?thesis using ShowProposal fromGraph_drawn [OF w] same by (simp add: showProposal_def w Let_def)
  next
    case (Select i)
    then show ?thesis using same by (simp add: select_def)
  next
    case (FocusBlock i)
    then show ?thesis using same by (simp add: focusBlock_def revealBlock_def select_def)
  next
    case RevealNext
    then show ?thesis using same by (simp add: revealNext_def split: option.splits)
  next
    case ContentGraph
    then show ?thesis using same by (auto simp: contentGraph_def split: option.splits)
  qed (use same in \<open>simp_all add: revealBlock_def setName_def setViewport_def markSaved_def setRevision_def setMeta_def
      enterPreview_def exitPreview_def clearProposal_def setSimNode_def Let_def\<close>)
qed

end

end
