(* ===== verification/Store_Invariants.thy ===== *)
theory Store_Invariants
  imports Store_Laws
begin

text \<open>
  The invariants the store promises, as interpretations of \<open>draft_rules\<close>: a sound draft after any
  sequence of actions, and one Start with no circle of connections after any sequence of edits. \<open>run\<close>
  is the step relation of the store.
\<close>

section \<open>The two invariants\<close>

text \<open>A sound draft: unique ids, a Start, edges between blocks and none into Start, one per exit.\<close>

fun draft_ok :: "shape \<Rightarrow> bool" where
  "draft_ok (N, E) \<longleftrightarrow> distinct (map fst N) \<and> Entry \<in> snd ` set N
     \<and> (\<forall>(i, s, h, t) \<in> set E. s \<in> fst ` set N \<and> (\<exists>ty. (t, ty) \<in> set N \<and> ty \<noteq> Entry))
     \<and> distinct (map (\<lambda>(i, s, h, t). (s, h)) E) \<and> distinct (map fst E)"

lemma draft_ok_iff:
  "draft_ok (N, E) \<longleftrightarrow> distinct (map fst N) \<and> Entry \<in> snd ` set N
     \<and> (\<forall>i s h t. (i, s, h, t) \<in> set E \<longrightarrow> s \<in> fst ` set N \<and> (\<exists>ty. (t, ty) \<in> set N \<and> ty \<noteq> Entry))
     \<and> distinct (map (\<lambda>(i, s, h, t). (s, h)) E) \<and> distinct (map fst E)"
  by auto

declare draft_ok.simps [simp del]

text \<open>One Start, and no circle of edges.\<close>

fun calling_ok :: "shape \<Rightarrow> bool" where
  "calling_ok (N, E) \<longleftrightarrow> draft_ok (N, E) \<and> length (filter (\<lambda>x. snd x = Entry) N) = 1 \<and> acyclic (shape_steps (N, E))"

lemma subseq_map_distinct: "subseq xs ys \<Longrightarrow> distinct (map f ys) \<Longrightarrow> distinct (map f xs)"
proof -
  have "subseq xs ys \<Longrightarrow> set xs \<subseteq> set ys \<and> (distinct (map f ys) \<longrightarrow> distinct (map f xs))"
    by (induction rule: list_emb.induct) auto
  then show "subseq xs ys \<Longrightarrow> distinct (map f ys) \<Longrightarrow> distinct (map f xs)" by blast
qed

lemma draft_fewer_edges: "draft_ok (N, E) \<Longrightarrow> subseq E' E \<Longrightarrow> draft_ok (N, E')"
proof -
  assume d: "draft_ok (N, E)" and E': "subseq E' E"
  have "distinct (map (\<lambda>(i, s, h, t). (s, h)) E')" "distinct (map fst E')"
    using d unfolding draft_ok_iff by (auto intro: subseq_map_distinct [OF E'])
  then show "draft_ok (N, E')" using d subseq_set [OF E'] unfolding draft_ok_iff by blast
qed

lemma slots_without: "(s, h) \<notin> set (map (\<lambda>(i, s, h, t). (s, h)) (without_slot s h E))"
  by (auto simp: without_slot_def)

lemma without_subseq: "subseq (without_slot s h E) E"
  by (simp add: without_slot_def)

lemma draft_new_edge:
  assumes d: "draft_ok (N, E)" and c: "may_connect (N, E) s h t" and i: "i \<notin> fst ` set E"
  shows "draft_ok (N, without_slot s h E @ [(i, s, h, t)])"
proof -
  have w: "draft_ok (N, without_slot s h E)" by (rule draft_fewer_edges [OF d without_subseq])
  have "i \<notin> set (map fst (without_slot s h E))" using i subseq_set [OF without_subseq [of s h E]] by auto
  moreover have "s \<in> fst ` set N" "\<exists>ty. (t, ty) \<in> set N \<and> ty \<noteq> Entry" using c by (simp_all add: may_connect_def)
  ultimately show ?thesis using w slots_without [of s h E] by (auto simp: draft_ok_iff simp del: set_map)
qed

lemma draft_fewer_blocks:
  assumes d: "draft_ok (N, E)" and e: "\<And>i. i \<in> gone \<Longrightarrow> (i, Entry) \<notin> set N"
  shows "draft_ok (filter (\<lambda>(i, ty). i \<notin> gone) N, filter (\<lambda>(i, s, h, t). s \<notin> gone \<and> t \<notin> gone) E)"
proof -
  let ?N = "filter (\<lambda>(i, ty). i \<notin> gone) N" and ?E = "filter (\<lambda>(i, s, h, t). s \<notin> gone \<and> t \<notin> gone) E"
  have E: "draft_ok (N, ?E)" by (rule draft_fewer_edges [OF d]) simp
  have N: "distinct (map fst ?N)" using d unfolding draft_ok_iff by (blast intro: distinct_map_filter)
  obtain i where "(i, Entry) \<in> set N" using d unfolding draft_ok_iff by auto
  then have "Entry \<in> snd ` set ?N" using e by (auto intro!: rev_image_eqI [of "(i, Entry)"])
  moreover have "s \<in> fst ` set ?N \<and> (\<exists>ty. (t, ty) \<in> set ?N \<and> ty \<noteq> Entry)" if "(i, s, h, t) \<in> set ?E" for i s h t
  proof -
    have "s \<notin> gone" "t \<notin> gone" "s \<in> fst ` set N" "\<exists>ty. (t, ty) \<in> set N \<and> ty \<noteq> Entry" using that d unfolding draft_ok_iff by auto
    then show ?thesis by force
  qed
  ultimately show ?thesis using E N unfolding draft_ok_iff by blast
qed

lemma draft_new_block:
  assumes d: "draft_ok (N, E)" and i: "i \<notin> fst ` set N"
  shows "draft_ok (N @ [(i, ty)], E)"
proof -
  have "s \<in> fst ` set (N @ [(i, ty)]) \<and> (\<exists>ty'. (t, ty') \<in> set (N @ [(i, ty)]) \<and> ty' \<noteq> Entry)" if "(j, s, h, t) \<in> set E" for j s h t
    using d that unfolding draft_ok_iff set_append image_Un by blast
  moreover have "distinct (map fst (N @ [(i, ty)]))" "Entry \<in> snd ` set (N @ [(i, ty)])"
    using d i unfolding draft_ok_iff by auto
  ultimately show ?thesis using d unfolding draft_ok_iff by blast
qed

interpretation sound: draft_rules draft_ok
proof (unfold_locales, goal_cases)
  case (1 N E)
  then show ?case by (simp add: draft_ok_iff)
next
  case (2 N E E')
  then show ?case by (rule draft_fewer_edges)
next
  case (3 N E s h t i)
  then show ?case by (rule draft_new_edge)
next
  case (4 N E i ty)
  then show ?case by (simp add: draft_new_block)
next
  case (5 N E gone)
  then show ?case by (rule draft_fewer_blocks)
qed

lemma shape_steps_mono: "set E' \<subseteq> set E \<Longrightarrow> shape_steps (N', E') \<subseteq> shape_steps (N, E)"
  unfolding shape_steps_def snd_conv by (rule image_mono)

text \<open>An edge that does not lead back closes no circle.\<close>

lemma acyclic_new_edge:
  assumes a: "acyclic (shape_steps (N, E))" and c: "may_connect (N, E) s h t"
  shows "acyclic (shape_steps (N, without_slot s h E @ [(i, s, h, t)]))"
proof -
  have "shape_steps (N, without_slot s h E) \<subseteq> shape_steps (N, E)" by (rule shape_steps_mono [OF subseq_set [OF without_subseq]])
  then have "acyclic (shape_steps (N, without_slot s h E))" by (rule acyclic_subset [OF a])
  moreover have "(t, s) \<notin> (shape_steps (N, without_slot s h E))\<^sup>*" using c by (simp add: may_connect_def without_slot_def)
  moreover have "shape_steps (N, without_slot s h E @ [(i, s, h, t)]) = insert (s, t) (shape_steps (N, without_slot s h E))"
    by (simp add: shape_steps_def)
  ultimately show ?thesis by (simp add: acyclic_insert)
qed

interpretation calling: draft_rules calling_ok
proof (unfold_locales, goal_cases)
  case (2 N E E')
  then show ?case using draft_fewer_edges acyclic_subset [OF _ shape_steps_mono [OF subseq_set]] by simp blast
next
  case (3 N E s h t i)
  then show ?case using draft_new_edge acyclic_new_edge by simp
next
  case (4 N E i ty)
  then show ?case using sound.new_block [of N E i ty] by (simp add: shape_steps_def)
next
  case (5 N E gone)
  have "filter (\<lambda>x. snd x = Entry) (filter (\<lambda>(i, ty). i \<notin> gone) N) = filter (\<lambda>x. snd x = Entry) N"
    using 5(2) by (auto simp: filter_filter intro!: filter_cong)
  moreover have "shape_steps (N', filter P E) \<subseteq> shape_steps (N, E)" for N' P by (rule shape_steps_mono) auto
  ultimately show ?case using 5 draft_fewer_blocks [of N E gone] acyclic_subset
    by (simp del: filter_filter) blast
qed (simp add: draft_ok_iff)

section \<open>Loaded drafts\<close>

text \<open>The raw draft does not use an identifier \<open>nanoid\<close> is still to give.\<close>

definition unused :: "(nat \<Rightarrow> string) \<Rightarrow> nat \<Rightarrow> json \<Rightarrow> bool" where
  "unused nano k g \<longleftrightarrow> (\<forall>i \<ge> k.
     newNodeId nano i \<notin> raw_ids (array_or_empty (ob_get (record_or_empty (Some g)) ''nodes''))
     \<and> newEdgeId nano i \<notin> raw_ids (array_or_empty (ob_get (record_or_empty (Some g)) ''edges'')))"

lemma read_edges_origin:
  "read_edges nano ns used eids k raws = (es, k') \<Longrightarrow>
     k \<le> k' \<and> (\<forall>e \<in> set es. e_id e \<in> raw_ids raws \<or> (\<exists>j. k \<le> j \<and> j < k' \<and> e_id e = newEdgeId nano j))"
proof (induction nano ns used eids k raws arbitrary: es k' rule: read_edges.induct)
  case (2 nano ns used eids k ob rest)
  show ?case
  proof (cases "read_edge nano ns used eids k ob")
    case None
    with 2 show ?thesis by auto
  next
    case (Some a)
    obtain e k1 where a: "a = (e, k1)" by (cases a)
    let ?used = "slotKey (e_source e) (e_sourceHandle e) # used"
    obtain es' k2 where r: "read_edges nano ns ?used (e_id e # eids) k1 rest = (es', k2)"
      by (cases "read_edges nano ns ?used (e_id e # eids) k1 rest")
    have es: "es = e # es'" "k' = k2" using "2.prems" Some a r by simp_all
    note E = take_edge_id [OF read_edge_Some(5) [OF Some [unfolded a]]]
    have IH: "k1 \<le> k2 \<and> (\<forall>e \<in> set es'. e_id e \<in> raw_ids rest \<or> (\<exists>j. k1 \<le> j \<and> j < k2 \<and> e_id e = newEdgeId nano j))"
      using "2.IH"(2) [OF Some a [symmetric]] r by simp
    have old: "e_id d \<in> raw_ids (JObj ob # rest) \<or> (\<exists>j. k \<le> j \<and> j < k' \<and> e_id d = newEdgeId nano j)" if "d \<in> set es'" for d
    proof -
      have "e_id d \<in> raw_ids rest \<or> (\<exists>j. k1 \<le> j \<and> j < k2 \<and> e_id d = newEdgeId nano j)" using IH that by blast
      then show ?thesis using E(1) es(2) order_trans by auto
    qed
    have "e_id e \<in> raw_ids (JObj ob # rest) \<or> (\<exists>j. k \<le> j \<and> j < k' \<and> e_id e = newEdgeId nano j)"
      using E(3) IH es(2) by (auto intro: less_le_trans)
    then show ?thesis using old IH E(1) es by auto
  qed
qed (auto simp: raw_ids_def)

lemma loads_draft_ok:
  assumes wf: "wf_json g" and inj: "inj nano" and u: "unused nano k g"
  shows "loads nano draft_ok k g"
proof -
  let ?g = "record_or_empty (Some g)"
  let ?rn = "array_or_empty (ob_get ?g ''nodes'')" and ?re = "array_or_empty (ob_get ?g ''edges'')"
  obtain w k' where w: "fromGraph nano k (Some g) = (w, k')" by fastforce
  have edge_inj: "newEdgeId nano i = newEdgeId nano j \<longleftrightarrow> i = j" "newNodeId nano i = newNodeId nano j \<longleftrightarrow> i = j" for i j
    using injD [OF inj, of i j] by (auto simp: newEdgeId_def newNodeId_def)
  have "fresh_ids nano k (Some g)" using u by (simp add: fresh_ids_def fresh_edge_ids_def unused_def edge_inj)
  then have ok: "wf_work w" using fromGraph_wf [OF _ _ w] wf by blast
  have node: "n_type t \<noteq> Entry \<and> (i, n_type t) \<in> set (map node_sig (wg_nodes w))" if "last_by n_id (wg_nodes w) i = Some t" "n_type t \<noteq> Entry" for i t
    using last_by_Some [OF that(1)] that(2) by (force simp: node_sig_def)
  have ends: "e_source e \<in> fst ` set (map node_sig (wg_nodes w))
      \<and> (\<exists>ty. (e_target e, ty) \<in> set (map node_sig (wg_nodes w)) \<and> ty \<noteq> Entry)" if "e \<in> set (wg_edges w)" for e
  proof -
    have e: "edge_ends (wg_nodes w) e" using ok that by (auto simp: wf_work_def edges_ok_def edge_ok_def)
    then obtain t where "last_by n_id (wg_nodes w) (e_target e) = Some t" "n_type t \<noteq> Entry"
      by (auto simp: edge_ends_def split: option.splits)
    moreover have "e_source e \<in> n_id ` set (wg_nodes w)" using e last_by_None [of n_id "wg_nodes w"] by (auto simp: edge_ends_def)
    moreover have "fst ` set (map node_sig (wg_nodes w)) = n_id ` set (wg_nodes w)" by (force simp: node_sig_def)
    ultimately show ?thesis using node by blast
  qed
  have slots: "distinct (map (\<lambda>e. (e_source e, e_sourceHandle e)) (wg_edges w))"
  proof -
    have "distinct (map (\<lambda>(s, h). slotKey s h) (map (\<lambda>e. (e_source e, e_sourceHandle e)) (wg_edges w)))"
      using ok by (simp add: wf_work_def edges_ok_def comp_def)
    then show ?thesis by (simp only: distinct_map)
  qed
  have "\<exists>n \<in> set (wg_nodes w). n_type n = Entry" using ok by (simp add: wf_work_def)
  then have entry: "Entry \<in> snd ` set (map node_sig (wg_nodes w))" by (force simp: node_sig_def)
  have "draft_ok (shape_of (wg_nodes w) (wg_edges w))"
    unfolding shape_of_def draft_ok_iff
  proof (intro conjI allI impI entry)
    show "distinct (map fst (map node_sig (wg_nodes w)))" using ok by (simp add: wf_work_def node_sig_def comp_def)
    show "distinct (map fst (map edge_sig (wg_edges w)))" using ok by (simp add: wf_work_def edge_sig_def comp_def)
    show "distinct (map (\<lambda>(i, s, h, t). (s, h)) (map edge_sig (wg_edges w)))" using slots by (simp add: edge_sig_def comp_def)
    fix i s h t assume "(i, s, h, t) \<in> set (map edge_sig (wg_edges w))"
    then obtain e where e: "e \<in> set (wg_edges w)" "s = e_source e" "t = e_target e" by (auto simp: edge_sig_def)
    show "s \<in> fst ` set (map node_sig (wg_nodes w))" "\<exists>ty. (t, ty) \<in> set (map node_sig (wg_nodes w)) \<and> ty \<noteq> Entry"
      unfolding e(2,3) using ends [OF e(1)] by (blast+)
  qed
  moreover have "fresh_for nano k' (shape_of (wg_nodes w) (wg_edges w))"
    unfolding fresh_for_def shape_of_def fst_conv snd_conv
  proof (intro allI impI)
    fix i assume i: "k' \<le> i"
    obtain ns0 fs where n0: "read_nodes [] ?rn = (ns0, fs)" by (cases "read_nodes [] ?rn")
    obtain ns k1 where n1: "ensure_start nano k ns0 = (ns, k1)" by (cases "ensure_start nano k ns0")
    obtain es k2 where e: "read_edges nano ns [] [] k1 ?re = (es, k2)" by (cases "read_edges nano ns [] [] k1 ?re")
    have w': "wg_nodes w = ns" "wg_edges w = es" "k' = k2" using w n0 n1 e by (auto simp: fromGraph_def Let_def)
    note E = read_edges_origin [OF e]
    have "wf_obj ?g" by (rule wf_record_or_empty) (simp add: wf)
    from read_nodes_ok [OF wf_array_get [OF this] n0] have rn: "n_id ` set ns0 \<subseteq> raw_ids ?rn" by (simp add: nodes_ok_def)
    have k: "k \<le> i" using fromGraph_drawn [OF w] i by simp
    have "newNodeId nano i \<notin> n_id ` set ns"
    proof (cases "\<exists>n \<in> set ns0. n_type n = Entry")
      case True
      then have "n_id ` set ns = n_id ` set ns0"
        using n1 mark_first_entry_ids [of ns0] by (metis (no_types, lifting) Pair_inject ensure_start_def list.set_map)
      then show ?thesis using rn u k by (auto simp: unused_def)
    next
      case False
      then have "ns = start_node (newNodeId nano k) # ns0" "k1 = Suc k" using n1 by (auto simp: ensure_start_def)
      moreover have "i \<noteq> k" using E i w'(3) calculation(2) by simp
      ultimately show ?thesis using rn u k edge_inj(2) by (auto simp: unused_def start_node_def)
    qed
    moreover have "newEdgeId nano i \<notin> e_id ` set es"
      using E u k i w'(3) edge_inj(1) by (fastforce simp: unused_def)
    ultimately show "newNodeId nano i \<notin> fst ` set (map node_sig (wg_nodes w)) \<and> newEdgeId nano i \<notin> fst ` set (map edge_sig (wg_edges w))"
      unfolding w' by (auto simp: node_sig_def edge_sig_def)
  qed
  ultimately show ?thesis by (simp add: loads_def w)
qed

section \<open>Everything the store can become\<close>

inductive run :: "Env \<Rightarrow> (Store \<Rightarrow> Action \<Rightarrow> bool) \<Rightarrow> Store \<Rightarrow> Store \<Rightarrow> bool"
  for env :: Env and ok :: "Store \<Rightarrow> Action \<Rightarrow> bool" and s0 :: Store where
  run_start: "run env ok s0 s0"
| run_step: "run env ok s0 s \<Longrightarrow> ok s a \<Longrightarrow> run env ok s0 (perform env now a s)"

lemma run_keeps:
  assumes "run env ok s0 s" "P s0" "\<And>s a now. P s \<Longrightarrow> ok s a \<Longrightarrow> P (perform env now a s)"
  shows "P s"
  using assms by (induction rule: run.induct) auto

text \<open>The actions the builder sends: graphs taken in are well-formed JSON whose ids \<open>nanoid\<close> does not give
  again, the canvas never adds or replaces by itself, and the palette has no second Start.\<close>

fun takes_in :: "Env \<Rightarrow> Store \<Rightarrow> Action \<Rightarrow> bool" where
  "takes_in env s (Load flow undoable) \<longleftrightarrow>
     wf_json (fl_draft_graph flow) \<and> unused (env_nano env) (st_drawn s) (fl_draft_graph flow)"
| "takes_in env s (ReplaceDraft g) \<longleftrightarrow> wf_json g \<and> unused (env_nano env) (st_drawn s) g"
| "takes_in env s a \<longleftrightarrow> canvas_action a"

lemma takes_in_admits: "inj (env_nano env) \<Longrightarrow> takes_in env s a \<Longrightarrow> admits env draft_ok s a"
  by (cases a) (simp_all add: loads_draft_ok)

lemma created_holds:
  assumes "loads nano Q 0 (fl_draft_graph flow)"
  shows "holds_in nano Q (createFlowStore nano flow)"
proof -
  obtain w k' where w: "fromGraph nano 0 (Some (fl_draft_graph flow)) = (w, k')" by fastforce
  have "shape_of (map toFlowNode (wg_nodes w)) (map edge_to_flow (wg_edges w)) = shape_of (wg_nodes w) (wg_edges w)"
    by (simp add: shape_of_def comp_def)
  then show ?thesis using assms
    by (simp add: holds_in_def shapes_def createFlowStore_def w emptyHistory_def loads_def)
qed

lemma run_draft_ok:
  assumes "canvas_ok env" "inj (env_nano env)" "wf_json (fl_draft_graph flow)" "unused (env_nano env) 0 (fl_draft_graph flow)"
    "run env (takes_in env) (createFlowStore (env_nano env) flow) s"
  shows "holds_in (env_nano env) draft_ok s"
  using assms(5)
proof (rule run_keeps)
  show "holds_in (env_nano env) draft_ok (createFlowStore (env_nano env) flow)"
    by (rule created_holds) (rule loads_draft_ok [OF assms(3,2,4)])
  show "holds_in (env_nano env) draft_ok (perform env now a s)" if "holds_in (env_nano env) draft_ok s" "takes_in env s a" for s a now
    by (rule sound.perform_holds [OF that(1) assms(1,2) takes_in_admits [OF assms(2) that(2)]])
qed

text \<open>Editing: any action that does not take in another graph.\<close>

fun edits :: "Action \<Rightarrow> bool" where
  "edits (Load flow undoable) = False"
| "edits (ReplaceDraft g) = False"
| "edits a = canvas_action a"

lemma run_calling_ok:
  assumes "canvas_ok env" "inj (env_nano env)" "holds_in (env_nano env) calling_ok s0" "run env (\<lambda>s a. edits a) s0 s"
  shows "holds_in (env_nano env) calling_ok s"
  using assms(4)
proof (rule run_keeps)
  show "holds_in (env_nano env) calling_ok (perform env now a s)" if "holds_in (env_nano env) calling_ok s" "edits a" for s a now
    by (rule calling.perform_holds [OF that(1) assms(1,2)]) (use that(2) in \<open>cases a; simp\<close>)
qed (rule assms(3))

end
