(* ===== verification/Store_Changes.thy ===== *)
theory Store_Changes
  imports Store_Invariants
begin

text \<open>
  What the store's counters and caches owe to the draft: no change of content without a step of the
  change counter, no change of call logic without a step of the content counter, and undo of an edit
  gives the graph before it.
\<close>

section \<open>No edit escapes autosave\<close>

lemma commit_dirty:
  assumes "keeps_draft extra"
  shows "fs_changeSeq s \<le> fs_changeSeq (commit now ns es key extra po s)"
    "\<not> sameSnapshot (snapshot_now s) (snapshotOf ns es) \<Longrightarrow> fs_changeSeq s < fs_changeSeq (commit now ns es key extra po s)"
  by (auto simp: commit_parts [OF assms] record_step_def Let_def)

lemma snapshot_core:
  assumes "map node_core ns = map node_core ms" "map n_pos ns = map n_pos ms"
  shows "snapshotOf ns es = snapshotOf ms es"
proof -
  have "map snap_node xs = map2 (\<lambda>(i, t, d) p. \<lparr>sn_id = i, sn_type = t, sn_pos = p, sn_data = d\<rparr>) (map node_core xs) (map n_pos xs)" for xs
    by (induction xs) (simp_all add: node_core_def snap_node_def)
  then show ?thesis unfolding snapshotOf_def using assms by metis
qed

lemma snapshot_truncate:
  fixes es fs :: "FlowEdge list"
  assumes "map WorkEdge.truncate es = map WorkEdge.truncate fs"
  shows "snapshotOf ns es = snapshotOf ns fs"
proof -
  have "map snap_edge xs = map snap_edge (map WorkEdge.truncate xs)" for xs :: "FlowEdge list"
    by (simp add: comp_def snap_edge_def WorkEdge.truncate_def)
  then show ?thesis unfolding snapshotOf_def using assms by metis
qed

text \<open>The draft is as autosave last heard of it, or the change counter moved.\<close>

definition noticed :: "Store \<Rightarrow> Store \<Rightarrow> bool" where
  "noticed s s' \<longleftrightarrow> fs_changeSeq s \<le> fs_changeSeq s'
     \<and> (sameSnapshot (snapshot_now s) (snapshot_now s') \<and> fs_name s' = fs_name s \<or> fs_changeSeq s < fs_changeSeq s')"

lemma noticed_commit:
  assumes "keeps_draft extra"
  shows "noticed s (commit now ns es key extra po s)"
  using commit_dirty(1) [OF assms] commit_dirty(2) [OF assms]
  unfolding noticed_def commit_parts(1,2,4) [OF assms] by blast

lemma noticed_same:
  "fs_changeSeq s' = fs_changeSeq s \<Longrightarrow> snapshot_now s' = snapshot_now s \<Longrightarrow> fs_name s' = fs_name s \<Longrightarrow> noticed s s'"
  by (simp add: noticed_def)

lemma noticed_removeBlocks: "noticed s (removeBlocks now blocks s)"
  unfolding removeBlocks_def Let_def using noticed_commit noticed_same by (simp only: if_split keeps_draft_sets simp_thms)

lemma noticed_onNodesChange:
  assumes "canvas_ok env" "list_all plain_node_change cs"
  shows "noticed s (onNodesChange (env_nodes env) now cs s)"
proof -
  let ?safe = "filter (\<lambda>c. \<not> removes_start (fs_nodes s) c) cs"
  let ?sel = "fold change_selected ?safe (fs_selectedId s)"
  have select: "noticed s (s\<lparr>fs_nodes := env_nodes env ?safe (fs_nodes s), fs_selectedId := ?sel\<rparr>)" if "filter is_content ?safe = []"
  proof (rule noticed_same)
    have no: "\<not> is_content c" if "c \<in> set ?safe" for c using that \<open>filter is_content ?safe = []\<close> by (auto simp: filter_empty_conv)
    have "removed_id c = None" if "\<not> is_content c" for c using that by (cases c) simp_all
    then have "list_all (\<lambda>c. plain_node_change c \<and> removed_id c = None) ?safe" "list_all (\<lambda>c. \<not> is_content c) ?safe"
      using no assms(2) by (auto simp: list_all_iff)
    then have "map node_core (env_nodes env ?safe (fs_nodes s)) = map node_core (fs_nodes s)"
      "map n_pos (env_nodes env ?safe (fs_nodes s)) = map n_pos (fs_nodes s)"
      using assms(1) unfolding canvas_ok_def by blast+
    from snapshot_core [OF this] show "snapshot_now (s\<lparr>fs_nodes := env_nodes env ?safe (fs_nodes s), fs_selectedId := ?sel\<rparr>) = snapshot_now s"
      by simp
  qed simp_all
  have moved: "noticed s (commit now (env_nodes env ?safe (fs_nodes s)) (fs_edges s) key (\<lambda>s. s\<lparr>fs_selectedId := ?sel\<rparr>) po s)" for key po
    by (rule noticed_commit) simp
  have sealed: "noticed s (s'\<lparr>fs_history := h\<rparr>)" if "noticed s s'" for s' h using that by (simp add: noticed_def)
  show ?thesis unfolding onNodesChange_def Let_def using select moved sealed noticed_removeBlocks noticed_same [of s s]
    by (simp only: if_split simp_thms) blast
qed

lemma noticed_onEdgesChange:
  assumes "canvas_ok env" "list_all plain_edge_change cs"
  shows "noticed s (onEdgesChange (env_edges env) now cs s)"
proof -
  let ?own = "filter (\<lambda>c. \<not> is_jump c) cs"
  have "list_all plain_edge_change ?own" using assms(2) by (auto simp: list_all_iff)
  then have t: "map WorkEdge.truncate (env_edges env ?own (fs_edges s))
      = map WorkEdge.truncate (filter (\<lambda>e. EdgeRemove (e_id e) \<notin> set ?own) (fs_edges s))"
    using assms(1) by (simp add: canvas_ok_def)
  have "filter (\<lambda>e. EdgeRemove (e_id e) \<notin> set ?own) (fs_edges s) = fs_edges s" if "list_all is_edge_select ?own"
    using that by (force simp: filter_id_conv list_all_iff)
  then have "noticed s (s\<lparr>fs_edges := env_edges env ?own (fs_edges s)\<rparr>)" if "list_all is_edge_select ?own"
    using that snapshot_truncate [OF t] by (intro noticed_same) simp_all
  then show ?thesis unfolding onEdgesChange_def Let_def using noticed_commit [OF keeps_draft_id] noticed_same [of s s]
    by (simp only: if_split simp_thms) blast
qed

lemma snapshot_map: "(\<And>n. snap_node (f n) = snap_node n) \<Longrightarrow> snapshotOf (map f ns) es = snapshotOf ns es"
  by (simp add: snapshotOf_def comp_def)

lemma snap_node_simps [simp]:
  "snap_node (deselect n) = snap_node n" "snap_node (n\<lparr>fn_selected := b\<rparr>) = snap_node n" "snap_node (toFlowNode m) = snap_node m"
  by (simp_all add: snap_node_def deselect_def toFlowNode_def)

lemma perform_noticed:
  assumes canvas: "canvas_ok env" and a: "canvas_action a"
  shows "noticed s (perform env now a s)"
proof (cases a)
  case (NodesChange cs)
  then show ?thesis using noticed_onNodesChange [OF canvas] a by simp
next
  case (EdgesChange cs)
  then show ?thesis using noticed_onEdgesChange [OF canvas] a by simp
next
  case (PreviewNodesChange cs)
  then show ?thesis by (auto simp: onPreviewNodesChange_def Let_def noticed_same split: option.splits)
next
  case (RemoveBlocks blocks)
  then show ?thesis using noticed_removeBlocks by simp
next
  case (Connect source hdl target)
  then show ?thesis by (auto simp: connect_def Let_def noticed_same keeps_draft_def intro!: noticed_commit split: option.splits)
next
  case (AddBlock t pos via)
  then show ?thesis by (simp add: addBlock_def Let_def noticed_commit split: prod.splits)
next
  case (Disconnect source hdl)
  then show ?thesis by (simp add: disconnect_def noticed_commit)
next
  case (SetLabel i label)
  then show ?thesis by (simp add: setLabel_def noticed_commit)
next
  case Tidy
  then show ?thesis by (simp add: tidy_def Let_def noticed_commit)
next
  case (UpdateConfig i patch key)
  then show ?thesis by (simp add: updateConfig_def Let_def noticed_commit)
next
  case (Select i)
  then show ?thesis by (auto simp: select_def snapshot_map intro!: noticed_same)
next
  case (FocusBlock i)
  then show ?thesis by (auto simp: focusBlock_def revealBlock_def select_def snapshot_map intro!: noticed_same)
next
  case (ShowProposal job g instant)
  then show ?thesis by (auto simp: showProposal_def Let_def snapshot_map intro!: noticed_same split: prod.splits)
next
  case (ReplaceDraft g)
  then show ?thesis by (auto simp: replaceDraft_def keeps_draft_def intro!: noticed_commit split: prod.splits)
next
  case (Load flow undoable)
  then show ?thesis by (simp add: load_def noticed_def Let_def split: prod.splits)
next
  case ContentGraph
  then show ?thesis by (auto simp: contentGraph_def noticed_same split: option.splits)
qed (simp_all add: Let_def revealBlock_def setName_def setViewport_def
    markSaved_def setRevision_def setMeta_def enterPreview_def exitPreview_def clearProposal_def setSimNode_def revealNext_def
    undo_edit_def redo_edit_def go_to_def noticed_def split: option.splits prod.splits)

section \<open>Undo brings the draft back\<close>

lemma snap_edge_back [simp]: "snap_edge (snap_to_edge (snap_edge e)) = snap_edge e"
  by (simp add: snap_edge_def snap_to_edge_def toFlowEdge_def)

lemma snap_node_back [simp]: "snap_node (snap_to_node (snap_node n)) = snap_node n"
  by (simp add: snap_node_def snap_to_node_def toFlowNode_def)

lemma snapshot_go_to: "snapshot_now (go_to h (snapshotOf ns es) s) = snapshotOf ns es"
  by (simp add: go_to_def fromSnapshot_def snapshotOf_def comp_def)

lemma graph_of_snapshot:
  assumes "snapshot_now s = snapshot_now s'" "fs_viewport s = fs_viewport s'" "fs_keepGraph s = fs_keepGraph s'"
    "fs_foreignNodes s = fs_foreignNodes s'"
  shows "graph s = graph s'"
proof -
  have n: "map stored_node xs = map (\<lambda>n. \<lparr>n_id = sn_id n, n_type = sn_type n, n_pos = round_pos (sn_pos n), n_data = drop_empty_label (sn_data n)\<rparr>)
      (map snap_node xs)" for xs :: "FlowNode list"
    by (simp add: stored_node_def snap_node_def)
  have e: "map WorkEdge.truncate xs = map (\<lambda>e. \<lparr>e_id = se_id e, e_source = se_source e, e_sourceHandle = the (se_sourceHandle e),
      e_target = se_target e, e_keep = the (se_data e)\<rparr>) (map snap_edge xs)" for xs :: "FlowEdge list"
    by (simp add: snap_edge_def WorkEdge.truncate_def)
  have "map snap_node (fs_nodes s) = map snap_node (fs_nodes s')" "map snap_edge (fs_edges s) = map snap_edge (fs_edges s')"
    using assms(1) by (simp_all add: snapshotOf_def)
  then have "map stored_node (fs_nodes s) = map stored_node (fs_nodes s')"
    "map WorkEdge.truncate (fs_edges s) = map WorkEdge.truncate (fs_edges s')" unfolding n e by simp_all
  then show ?thesis using assms(2-) unfolding graph_def toGraph_def by (simp add: map_map [symmetric, unfolded comp_def] del: map_map)
qed

lemma undo_commit:
  assumes "keeps_draft extra" "\<not> sameSnapshot (snapshot_now s) (snapshotOf ns es)"
  shows "snapshot_now (undo_edit (commit now ns es None extra po s)) = snapshot_now s"
    "graph (undo_edit (commit now ns es None extra po s)) = graph s"
    "snapshot_now (redo_edit (undo_edit (commit now ns es None extra po s))) = snapshotOf ns es"
proof -
  let ?s = "commit now ns es None extra po s"
  have p: "past (fs_history ?s) \<noteq> []" "last (past (fs_history ?s)) = snapshot_now s"
    using assms(2) by (auto simp: commit_parts [OF assms(1)] record_edit_def record_step_def Let_def HISTORY_LIMIT_def)
  let ?h = "\<lparr>past = butlast (past (fs_history ?s)), future = snapshot_now ?s # future (fs_history ?s), lastKey = None, lastAt = 0\<rparr>"
  have u: "undo_edit ?s = go_to ?h (snapshot_now s) ?s" using p by (simp add: undo_edit_def undo_def)
  have restored: "snapshot_now (undo_edit ?s) = snapshot_now s" unfolding u by (rule snapshot_go_to)
  then show "snapshot_now (undo_edit ?s) = snapshot_now s" .
  have parts: "fs_viewport (go_to h snap ?s) = fs_viewport s" "fs_keepGraph (go_to h snap ?s) = fs_keepGraph s"
    "fs_foreignNodes (go_to h snap ?s) = fs_foreignNodes s" for h snap
    by (simp_all add: go_to_def commit_parts [OF assms(1)] split: prod.splits)
  show "graph (undo_edit ?s) = graph s" by (rule graph_of_snapshot [OF restored]) (simp_all add: u parts)
  have "fs_history (undo_edit ?s) = ?h" unfolding u by (simp add: go_to_def split: prod.splits)
  then have "snapshot_now (redo_edit (undo_edit ?s)) = snapshot_now ?s"
    by (simp add: redo_edit_def redo_def snapshot_go_to)
  then show "snapshot_now (redo_edit (undo_edit ?s)) = snapshotOf ns es" by (simp add: commit_parts [OF assms(1)])
qed

section \<open>The cached graph\<close>

text \<open>The call logic of a graph: everything but positions and viewport, with values as JSON shows them.\<close>

definition logic_of :: "IvrGraph \<Rightarrow> ((string \<times> IvrNodeType \<times> json) + obj) list \<times> json list \<times> obj" where
  "logic_of g =
     (map (\<lambda>x. case x of Known n \<Rightarrow> Inl (n_id n, n_type n, wire (snap_data_json (n_data n))) | Foreign ob \<Rightarrow> Inr ob) (g_nodes g),
      map (\<lambda>e. wire (snap_edge_json (snap_edge e))) (g_edges g), g_keep g)"

definition node_logic :: "('a NodeInput_scheme) \<Rightarrow> string \<times> IvrNodeType \<times> json" where
  "node_logic n = (n_id n, n_type n, wire (snap_data_json (drop_empty_label (n_data n))))"

definition edge_logic :: "('b WorkEdge_scheme) \<Rightarrow> json" where
  "edge_logic e = wire (snap_edge_json (snap_edge e))"

lemma logic_graph:
  fixes s s' :: Store
  shows "logic_of (graph s) = logic_of (graph s') \<longleftrightarrow>
     map Inl (map node_logic (fs_nodes s)) @ map Inr (fs_foreignNodes s) = map Inl (map node_logic (fs_nodes s')) @ map Inr (fs_foreignNodes s')
     \<and> map edge_logic (fs_edges s) = map edge_logic (fs_edges s') \<and> fs_keepGraph s = fs_keepGraph s'"
proof -
  have "logic_of (graph s) = (map Inl (map node_logic (fs_nodes s)) @ map Inr (fs_foreignNodes s), map edge_logic (fs_edges s), fs_keepGraph s)"
    for s :: Store
    unfolding logic_of_def graph_def toGraph_def
    by (simp add: node_logic_def stored_node_def comp_def) (simp add: edge_logic_def snap_edge_def WorkEdge.truncate_def)
  then show ?thesis by simp
qed

lemma wire_data_label:
  assumes "wire (snap_data_json a) = wire (snap_data_json b)"
  shows "wire (snap_data_json (drop_empty_label a)) = wire (snap_data_json (drop_empty_label b))"
  using assms by (auto simp: snap_data_json_def opt_field_def drop_empty_label_def split: option.splits if_splits)

lemma map_eq_map_through:
  assumes "map f xs = map f' ys" and "\<And>x y. f x = f' y \<Longrightarrow> g x = g' y"
  shows "map g xs = map g' ys"
  using assms(1)
proof (induction xs arbitrary: ys)
  case (Cons x xs)
  then obtain y zs where "ys = y # zs" "f x = f' y" "map f xs = map f' zs" by (cases ys) auto
  then show ?case using Cons.IH [of zs] assms(2) [of x y] by simp
qed simp

lemma type_name_inj: "type_name a = type_name b \<longleftrightarrow> a = b"
  by (cases a; cases b) simp_all

lemma same_logic_snapshot:
  assumes "sameSnapshot (snapshotOf ns es) (snapshotOf ms fs)"
  shows "map node_logic ns = map node_logic ms" "map edge_logic es = map edge_logic fs"
proof -
  have w: "map (\<lambda>n. wire (snap_node_json (snap_node n))) ns = map (\<lambda>n. wire (snap_node_json (snap_node n))) ms"
    and e: "map (\<lambda>e. wire (snap_edge_json (snap_edge e))) es = map (\<lambda>e. wire (snap_edge_json (snap_edge e))) fs"
    using assms by (simp_all add: sameSnapshot_def snap_json_def snapshotOf_def comp_def split: if_splits)
  show "map edge_logic es = map edge_logic fs" unfolding edge_logic_def by (rule e)
  have "node_logic n = node_logic m" if "wire (snap_node_json (snap_node n)) = wire (snap_node_json (snap_node m))" for n m
    using that wire_data_label [of "n_data n" "n_data m"] type_name_inj
    by (auto simp: snap_node_json_def snap_node_def node_logic_def)
  then show "map node_logic ns = map node_logic ms" by (rule map_eq_map_through [OF w])
qed

definition kept :: "Store \<Rightarrow> Store \<Rightarrow> bool" where
  "kept s s' \<longleftrightarrow> st_cached s' = st_cached s \<and> fs_contentSeq s \<le> fs_contentSeq s'
     \<and> (fs_contentSeq s' = fs_contentSeq s \<longrightarrow> logic_of (graph s') = logic_of (graph s))"

lemma kept_same:
  assumes "map node_logic (fs_nodes s') = map node_logic (fs_nodes s)" "map edge_logic (fs_edges s') = map edge_logic (fs_edges s)"
    "fs_keepGraph s' = fs_keepGraph s" "fs_foreignNodes s' = fs_foreignNodes s" "st_cached s' = st_cached s" "fs_contentSeq s' = fs_contentSeq s"
  shows "kept s s'"
  using assms unfolding kept_def logic_graph by simp

lemma kept_commit: assumes "keeps_draft extra" shows "kept s (commit now ns es key extra False s)"
proof (cases "record_step (fs_history s) (snapshot_now s) (snapshotOf ns es) key now")
  case None
  then have same: "sameSnapshot (snapshot_now s) (snapshotOf ns es)" by (auto simp: record_step_def Let_def split: if_splits)
  show ?thesis by (rule kept_same) (simp_all add: commit_parts [OF assms] None same_logic_snapshot [OF same] del: map_eq_conv)
qed (simp add: kept_def commit_parts [OF assms])

lemma kept_moves:
  assumes "keeps_draft extra" "map node_logic ns = map node_logic (fs_nodes s)"
  shows "kept s (commit now ns (fs_edges s) key extra po s)"
proof (cases po)
  case True
  then show ?thesis by (intro kept_same) (simp_all add: commit_parts [OF assms(1)] assms(2) del: map_eq_conv)
qed (simp add: kept_commit [OF assms(1)])

lemma logic_core: "map node_core ns = map node_core ms \<Longrightarrow> map node_logic ns = map node_logic ms"
  by (rule map_eq_map_through) (auto simp: node_core_def node_logic_def)

lemma logic_truncate:
  assumes "map WorkEdge.truncate es = map WorkEdge.truncate fs"
  shows "map edge_logic es = map edge_logic fs"
  by (rule map_eq_map_through [OF assms]) (simp add: edge_logic_def snap_edge_def WorkEdge.truncate_def)

lemma node_logic_simps [simp]:
  "node_logic (deselect n) = node_logic n" "node_logic (n\<lparr>fn_selected := b\<rparr>) = node_logic n" "node_logic (at_place pos m) = node_logic m"
  by (simp_all add: node_logic_def deselect_def at_place_def)

lemma kept_removeBlocks: "kept s (removeBlocks now blocks s)"
  unfolding removeBlocks_def Let_def using kept_commit kept_same [of s s] by (simp only: if_split keeps_draft_sets simp_thms)

lemma kept_onNodesChange:
  assumes "canvas_ok env" "list_all plain_node_change cs"
  shows "kept s (onNodesChange (env_nodes env) now cs s)"
proof -
  let ?safe = "filter (\<lambda>c. \<not> removes_start (fs_nodes s) c) cs"
  let ?content = "filter is_content ?safe"
  let ?sel = "fold change_selected ?safe (fs_selectedId s)"
  let ?removed = "remdups (List.map_filter removed_id ?content)"
  show ?thesis
  proof (cases "?removed = []")
    case True
    have none: "removed_id c = None" if "c \<in> set ?safe" for c
    proof (cases c)
      case (NodeRemove i)
      then have "i \<in> set ?removed" using that by (force simp: in_map_filter)
      then show ?thesis unfolding True by simp
    qed simp_all
    then have "list_all (\<lambda>c. plain_node_change c \<and> removed_id c = None) ?safe" using assms(2) by (auto simp: list_all_iff)
    then have l: "map node_logic (env_nodes env ?safe (fs_nodes s)) = map node_logic (fs_nodes s)"
      using assms(1) by (intro logic_core) (simp add: canvas_ok_def)
    have select: "kept s (s\<lparr>fs_nodes := env_nodes env ?safe (fs_nodes s), fs_selectedId := ?sel\<rparr>)"
      by (rule kept_same) (simp_all add: l del: map_eq_conv)
    have moved: "kept s (commit now (env_nodes env ?safe (fs_nodes s)) (fs_edges s) key (\<lambda>s. s\<lparr>fs_selectedId := ?sel\<rparr>) po s)" for key po
      by (rule kept_moves [OF _ l]) simp
    have sealed: "kept s (s'\<lparr>fs_history := h\<rparr>)" if "kept s s'" for s' h
      using that by (simp add: kept_def graph_def)
    show ?thesis unfolding onNodesChange_def Let_def using select moved sealed kept_same [of s s] True by (simp only: if_split simp_thms)
  next
    case False
    then have c: "?content \<noteq> []" by (auto simp: map_filter_simps)
    then have "?safe \<noteq> []" by (metis filter.simps(1))
    then show ?thesis unfolding onNodesChange_def Let_def using c False kept_removeBlocks by (simp only: if_split simp_thms)
  qed
qed

lemma kept_onEdgesChange:
  assumes "canvas_ok env" "list_all plain_edge_change cs"
  shows "kept s (onEdgesChange (env_edges env) now cs s)"
proof -
  let ?own = "filter (\<lambda>c. \<not> is_jump c) cs"
  have "list_all plain_edge_change ?own" using assms(2) by (auto simp: list_all_iff)
  then have t: "map edge_logic (env_edges env ?own (fs_edges s))
      = map edge_logic (filter (\<lambda>e. EdgeRemove (e_id e) \<notin> set ?own) (fs_edges s))"
    using assms(1) by (intro logic_truncate) (simp add: canvas_ok_def)
  have all: "filter (\<lambda>e. EdgeRemove (e_id e) \<notin> set ?own) (fs_edges s) = fs_edges s" if "list_all is_edge_select ?own"
    using that by (force simp: filter_id_conv list_all_iff)
  have "kept s (s\<lparr>fs_edges := env_edges env ?own (fs_edges s)\<rparr>)" if "list_all is_edge_select ?own"
    using t unfolding all [OF that] by (intro kept_same) (simp_all del: map_eq_conv)
  then show ?thesis unfolding onEdgesChange_def Let_def using kept_commit [OF keeps_draft_id] kept_same [of s s]
    by (simp only: if_split simp_thms) blast
qed

lemma perform_kept:
  assumes canvas: "canvas_ok env" and a: "canvas_action a" "a \<noteq> ContentGraph"
  shows "kept s (perform env now a s)"
proof (cases a)
  case (NodesChange cs)
  then show ?thesis using kept_onNodesChange [OF canvas] a by simp
next
  case (EdgesChange cs)
  then show ?thesis using kept_onEdgesChange [OF canvas] a by simp
next
  case (PreviewNodesChange cs)
  then show ?thesis by (auto simp: onPreviewNodesChange_def Let_def kept_same split: option.splits)
next
  case (RemoveBlocks blocks)
  then show ?thesis using kept_removeBlocks by simp
next
  case (Connect source hdl target)
  then show ?thesis by (auto simp: connect_def Let_def kept_same keeps_draft_def intro!: kept_commit split: option.splits)
next
  case (Disconnect source hdl)
  then show ?thesis by (simp add: disconnect_def kept_commit)
next
  case (AddBlock t pos via)
  then show ?thesis by (simp add: addBlock_def Let_def kept_commit split: prod.splits)
next
  case (SetLabel i label)
  then show ?thesis by (simp add: setLabel_def kept_commit)
next
  case Tidy
  then show ?thesis by (simp add: tidy_def Let_def kept_moves)
next
  case (UpdateConfig i patch key)
  then show ?thesis by (simp add: updateConfig_def Let_def kept_commit)
next
  case (Select i)
  then show ?thesis by (auto simp: select_def intro!: kept_same)
next
  case (FocusBlock i)
  then show ?thesis by (auto simp: focusBlock_def revealBlock_def select_def intro!: kept_same)
next
  case (ShowProposal job g instant)
  then show ?thesis by (auto simp: showProposal_def Let_def intro!: kept_same split: prod.splits)
next
  case (ReplaceDraft g)
  then show ?thesis by (auto simp: replaceDraft_def keeps_draft_def intro!: kept_commit split: prod.splits)
next
  case RevealNext
  then show ?thesis by (auto simp: revealNext_def intro!: kept_same split: option.splits)
next
  case (SetName name)
  then show ?thesis by (auto simp: setName_def intro!: kept_same)
next
  case ClearProposal
  then show ?thesis by (auto simp: clearProposal_def intro!: kept_same)
qed (use a in \<open>simp_all add: Let_def load_def revealBlock_def setViewport_def kept_same
    markSaved_def setRevision_def setMeta_def enterPreview_def exitPreview_def setSimNode_def
    undo_edit_def redo_edit_def go_to_def kept_def logic_graph split: option.splits prod.splits\<close>)

text \<open>Only taking in a flow and the answer of a save move the saved mark.\<close>

lemma perform_saved:
  "case a of Load flow undoable \<Rightarrow> fs_savedSeq (perform env now a s) = fs_changeSeq (perform env now a s)
   | MarkSaved seq r \<Rightarrow> fs_savedSeq (perform env now a s) = max (fs_savedSeq s) seq
   | _ \<Rightarrow> fs_savedSeq (perform env now a s) = fs_savedSeq s"
proof -
  have c: "fs_savedSeq (commit now ns es key extra po s) = fs_savedSeq s" if "keeps_draft extra" for now ns es key extra po
    using commit_parts [OF that] by simp
  have remove: "fs_savedSeq (removeBlocks now bs s) = fs_savedSeq s" for bs
    by (simp add: removeBlocks_def Let_def c)
  show ?thesis
    by (cases a) (auto simp: load_def onNodesChange_def onEdgesChange_def onPreviewNodesChange_def connect_def disconnect_def
        addBlock_def updateConfig_def setLabel_def select_def focusBlock_def revealBlock_def setName_def setViewport_def
        tidy_def undo_edit_def redo_edit_def go_to_def markSaved_def setRevision_def setMeta_def enterPreview_def exitPreview_def
        showProposal_def revealNext_def clearProposal_def replaceDraft_def setSimNode_def contentGraph_def Let_def c remove keeps_draft_def
        split: option.splits prod.splits if_splits)
qed

end
