(* ===== verification/Store_Props.thy ===== *)
theory Store_Props
  imports Store_Changes
begin

text \<open>
  The properties of the store, over any sequence of its actions, and a concrete canvas and session
  they are tried on.
\<close>

section \<open>A concrete canvas\<close>

fun sample_change :: "NodeChange \<Rightarrow> FlowNode \<Rightarrow> FlowNode" where
  "sample_change (NodePosition i p d) n = (if n_id n = i then n\<lparr>n_pos := (case p of Some q \<Rightarrow> q | None \<Rightarrow> n_pos n)\<rparr> else n)"
| "sample_change (NodeSelect i b) n = (if n_id n = i then n\<lparr>fn_selected := Some b\<rparr> else n)"
| "sample_change (NodeDimensions i d) n = (if n_id n = i then n\<lparr>fn_ui := d\<rparr> else n)"
| "sample_change _ n = n"

fun sample_edge_change :: "EdgeChange \<Rightarrow> FlowEdge \<Rightarrow> FlowEdge" where
  "sample_edge_change (EdgeSelect i b) e = (if e_id e = i then e\<lparr>fe_selected := Some b\<rparr> else e)"
| "sample_edge_change _ e = e"

definition sample_env :: Env where
  "sample_env = \<lparr>env_nano = sample_nano,
     env_nodes = (\<lambda>cs ns. map (fold sample_change cs) (filter (\<lambda>n. NodeRemove (n_id n) \<notin> set cs) ns)),
     env_edges = (\<lambda>cs es. map (fold sample_edge_change cs) (filter (\<lambda>e. EdgeRemove (e_id e) \<notin> set cs) es))\<rparr>"

lemma sample_env_nano [simp]: "env_nano sample_env = sample_nano"
  by (simp add: sample_env_def)

lemma sample_inj: "inj (env_nano sample_env)"
  by (auto intro!: injI simp: sample_env_def sample_nano_def dest: arg_cong [of _ _ length])

lemma sample_canvas: "canvas_ok sample_env"
proof -
  have core: "node_core (sample_change c n) = node_core n" for c n by (cases c) (auto simp: node_core_def)
  have cores: "node_core (fold sample_change cs n) = node_core n" for cs n by (induction cs arbitrary: n) (simp_all add: core)
  have pos: "\<not> is_content c \<Longrightarrow> n_pos (sample_change c n) = n_pos n" for c n by (cases c) auto
  have poss: "list_all (\<lambda>c. \<not> is_content c) cs \<Longrightarrow> n_pos (fold sample_change cs n) = n_pos n" for cs n
    by (induction cs arbitrary: n) (simp_all add: pos)
  have "WorkEdge.truncate (sample_edge_change c e) = WorkEdge.truncate e" for c e by (cases c) (auto simp: WorkEdge.truncate_def)
  then have edge: "WorkEdge.truncate (fold sample_edge_change cs e) = WorkEdge.truncate e" for cs e by (induction cs arbitrary: e) simp_all
  have none: "filter (\<lambda>n. NodeRemove (n_id n) \<notin> set cs) ns = ns"
    if "list_all (\<lambda>c. plain_node_change c \<and> removed_id c = None) cs" for cs and ns :: "FlowNode list"
    using that by (force simp: list_all_iff filter_id_conv)
  show ?thesis unfolding canvas_ok_def by (auto simp: sample_env_def cores poss edge comp_def none)
qed

definition sample_flow :: Flow where
  "sample_flow = \<lparr>fl_id = 7, fl_name = ''Main line'', fl_revision = 3, fl_published_version = None, fl_published_at = None,
     fl_updated_at = '''', fl_numbers = [], fl_draft_graph = sample_draft\<rparr>"

abbreviation sample_store :: Store where
  "sample_store \<equiv> createFlowStore sample_nano sample_flow"

lemma sample_unused: "unused sample_nano 0 sample_draft"
  by (auto simp: unused_def sample_draft_def sample_play_def newNodeId_def newEdgeId_def sample_nano_def foreign_id_def array_or_empty_def)

definition sample_session :: Store where
  "sample_session = perform sample_env 1000 Undo (perform sample_env 900 (AddBlock Hangup None (Some (''p'', ''next''))) sample_store)"


lemma sample_shape: "shape_of (fs_nodes sample_store) (fs_edges sample_store)
    = ([(''s'', Entry), (''p'', Play)], [(''a'', ''s'', ''next'', ''p'')])" "st_drawn sample_store = 0"
    "fs_history sample_store = emptyHistory"
  by code_simp+

lemma sample_calling: "holds_in sample_nano calling_ok sample_store"
proof -
  have "acyclic {(''s'', ''p'')}" by (simp add: acyclic_insert) (simp add: acyclic_def)
  then have "calling_ok ([(''s'', Entry), (''p'', Play)], [(''a'', ''s'', ''next'', ''p'')])"
    by (simp add: draft_ok_iff shape_steps_def)
  moreover have "fresh_for sample_nano 0 ([(''s'', Entry), (''p'', Play)], [(''a'', ''s'', ''next'', ''p'')])"
    by (simp add: fresh_for_def newNodeId_def newEdgeId_def)
  ultimately show ?thesis unfolding holds_in_def shapes_def sample_shape by (simp add: emptyHistory_def)
qed

lemma sample_run: "(\<And>s a. a \<in> {AddBlock Hangup None (Some (''p'', ''next'')), Undo} \<Longrightarrow> ok s a) \<Longrightarrow> run sample_env ok sample_store sample_session"
  unfolding sample_session_def by (intro run.intros) simp_all

definition cache_ok :: "Store \<Rightarrow> bool" where
  "cache_ok s \<longleftrightarrow> (case st_cached s of None \<Rightarrow> True
     | Some (q, g) \<Rightarrow> q \<le> fs_contentSeq s \<and> (q = fs_contentSeq s \<longrightarrow> logic_of g = logic_of (graph s)))"

lemma run_cache_ok:
  assumes "canvas_ok env" "run env (\<lambda>s a. canvas_action a) (createFlowStore (env_nano env) flow) s"
  shows "cache_ok s"
  using assms(2)
proof (rule run_keeps)
  show "cache_ok (createFlowStore (env_nano env) flow)"
    by (simp add: cache_ok_def createFlowStore_def split: prod.splits)
  fix s a now assume s: "cache_ok s" and a: "canvas_action a"
  show "cache_ok (perform env now a s)"
  proof (cases "a = ContentGraph")
    case True
    then show ?thesis using s by (auto simp: cache_ok_def contentGraph_def graph_def split: option.splits)
  next
    case False
    then have "kept s (perform env now a s)" by (rule perform_kept [OF assms(1) a])
    then show ?thesis using s by (auto simp: cache_ok_def kept_def split: option.splits)
  qed
qed

section \<open>Properties\<close>

text \<open>C6. Whatever the customer, the canvas, the assistant and the server do, in any order, the draft stays sound, and
  so does every state undo or redo can bring back: ids are unique, there is a Start, every edge joins two blocks and
  none enters Start, no exit has two edges, and edge ids are unique.\<close>

theorem store_invariant:
  assumes "canvas_ok env" and "inj (env_nano env)"
    and "wf_json (fl_draft_graph flow)" and "unused (env_nano env) 0 (fl_draft_graph flow)"
    and "run env (takes_in env) (createFlowStore (env_nano env) flow) s"
  shows "draft_ok (shape_of (fs_nodes s) (fs_edges s))
    \<and> (\<forall>snap \<in> set (past (fs_history s)) \<union> set (future (fs_history s)). draft_ok (snap_shape snap))"
  using run_draft_ok [OF assms] by (auto simp: holds_in_def shapes_def)

theorem store_invariant_witness:
  "draft_ok (shape_of (fs_nodes sample_session) (fs_edges sample_session))
    \<and> list_all (\<lambda>snap. draft_ok (snap_shape snap)) (future (fs_history sample_session))"
proof -
  have "run sample_env (takes_in sample_env) (createFlowStore (env_nano sample_env) sample_flow) sample_session"
    unfolding sample_env_nano by (rule sample_run) auto
  from store_invariant [OF sample_canvas sample_inj _ _ this] show ?thesis
    using sample_wf sample_unused by (simp add: sample_flow_def list_all_iff)
qed

text \<open>C3. Editing never loops the call or makes a second Start: from a draft with one Start whose connections have no
  circle, every sequence of edits, undos and redos leads to such a draft.\<close>

theorem edits_keep_acyclic:
  assumes "canvas_ok env" and "inj (env_nano env)" and "holds_in (env_nano env) calling_ok s0"
    and "run env (\<lambda>s a. edits a) s0 s"
  shows "acyclic (edge_rel (fs_edges s)) \<and> length (filter (\<lambda>n. n_type n = Entry) (fs_nodes s)) = 1"
proof -
  have "calling_ok (shape_of (fs_nodes s) (fs_edges s))" using holds_now [OF run_calling_ok [OF assms]] by blast
  then show ?thesis unfolding shape_steps_of [of "fs_nodes s", symmetric] shape_of_def
    by (simp add: filter_map comp_def node_sig_def)
qed

theorem edits_keep_acyclic_witness:
  "acyclic (edge_rel (fs_edges sample_session)) \<and> length (filter (\<lambda>n. n_type n = Entry) (fs_nodes sample_session)) = 1"
proof (rule edits_keep_acyclic [OF sample_canvas sample_inj])
  show "holds_in (env_nano sample_env) calling_ok sample_store" using sample_calling by simp
  show "run sample_env (\<lambda>s a. edits a) sample_store sample_session" by (rule sample_run) auto
qed


text \<open>C16. No edit escapes autosave: after any action, either the draft's JSON and the name are what they were, or the
  change counter has moved on; it never goes back, and taking in what the server holds counts as saved.\<close>

theorem every_change_noticed:
  assumes "canvas_ok env" and "canvas_action a" and "s' = perform env now a s"
  shows "fs_changeSeq s \<le> fs_changeSeq s'
    \<and> (sameSnapshot (snapshot_now s) (snapshot_now s') \<and> fs_name s' = fs_name s \<or> fs_changeSeq s < fs_changeSeq s')
    \<and> (case a of Load flow undoable \<Rightarrow> fs_savedSeq s' = fs_changeSeq s'
        | MarkSaved seq r \<Rightarrow> fs_savedSeq s' = max (fs_savedSeq s) seq
        | _ \<Rightarrow> fs_savedSeq s' = fs_savedSeq s)"
proof -
  have "noticed s s'" unfolding assms(3) by (rule perform_noticed [OF assms(1,2)])
  moreover have "case a of Load flow undoable \<Rightarrow> fs_savedSeq s' = fs_changeSeq s'
      | MarkSaved seq r \<Rightarrow> fs_savedSeq s' = max (fs_savedSeq s) seq | _ \<Rightarrow> fs_savedSeq s' = fs_savedSeq s"
    unfolding assms(3) by (rule perform_saved)
  ultimately show ?thesis unfolding noticed_def by blast
qed

theorem every_change_noticed_witness:
  "fs_changeSeq sample_store < fs_changeSeq (perform sample_env 5 (SetLabel ''p'' ''Welcome'') sample_store)"
proof -
  have "\<not> sameSnapshot (snapshot_now sample_store) (snapshot_now (perform sample_env 5 (SetLabel ''p'' ''Welcome'') sample_store))"
    by code_simp
  then show ?thesis using every_change_noticed [OF sample_canvas _ refl, of "SetLabel ''p'' ''Welcome''" sample_store 5] by auto
qed

text \<open>The compile mirror never works on stale call logic: after any sequence of actions, the graph the content
  cache hands out differs from the current draft at most in positions and viewport.\<close>

theorem content_graph_fresh:
  assumes "canvas_ok env" and "run env (\<lambda>s a. canvas_action a) (createFlowStore (env_nano env) flow) s"
  shows "logic_of (fst (contentGraph s)) = logic_of (graph s)"
  using run_cache_ok [OF assms] by (auto simp: contentGraph_def cache_ok_def split: option.splits)

definition sample_cached :: Store where
  "sample_cached = perform sample_env 8 Tidy (perform sample_env 7 ContentGraph (perform sample_env 6 (SetLabel ''p'' ''Welcome'') sample_store))"

theorem content_graph_fresh_witness:
  "logic_of (fst (contentGraph sample_cached)) = logic_of (graph sample_cached)"
proof (rule content_graph_fresh [OF sample_canvas])
  show "run sample_env (\<lambda>s a. canvas_action a) (createFlowStore (env_nano sample_env) sample_flow) sample_cached"
    unfolding sample_cached_def sample_env_nano by (intro run.intros) simp_all
qed

text \<open>C31. Accepting a proposal is one undoable edit: when it changes the draft, undo restores exactly the graph that was
  there before, with its viewport and the blocks and fields carried along, and redo brings the accepted one back.\<close>

theorem accepted_proposal_undo:
  assumes "s' = replaceDraft nano now g s" and "\<not> sameSnapshot (snapshot_now s) (snapshot_now s')"
  shows "graph (undo_edit s') = graph s \<and> snapshot_now (redo_edit (undo_edit s')) = snapshot_now s'"
proof -
  obtain w k where w: "fromGraph nano (st_drawn s) (Some g) = (w, k)" by fastforce
  let ?f = "\<lambda>s'. s'\<lparr>fs_selectedId := None, fs_preview := None, fs_proposal := None, fs_simNodeId := None,
      fs_graphEpoch := fs_graphEpoch s + 1, st_drawn := k\<rparr>"
  have f: "keeps_draft ?f" by (simp add: keeps_draft_def)
  have s': "s' = commit now (map toFlowNode (wg_nodes w)) (map edge_to_flow (wg_edges w)) None ?f False s"
    using assms(1) by (simp add: replaceDraft_def w)
  show ?thesis using undo_commit [OF f] assms(2) unfolding s' commit_parts(1,2) [OF f] by blast
qed

theorem accepted_proposal_undo_witness:
  "graph (undo_edit (replaceDraft sample_nano 9 (JObj []) sample_store)) = graph sample_store"
proof -
  have "\<not> sameSnapshot (snapshot_now sample_store) (snapshot_now (replaceDraft sample_nano 9 (JObj []) sample_store))" by code_simp
  then show ?thesis using accepted_proposal_undo [OF refl] by blast
qed

lemma clear_goto_simps [simp]: "n_id (clear_goto gone n) = n_id n" "n_type (clear_goto gone n) = n_type n" "n_pos (clear_goto gone n) = n_pos n"
  by (auto simp: clear_goto_def split: option.splits json.splits)

lemma clear_goto_target:
  "'''' \<notin> gone \<Longrightarrow> n_type n = Goto \<Longrightarrow> ob_get (n_config (clear_goto gone n)) ''targetNodeId'' = Some (JStr t) \<Longrightarrow> t \<notin> gone"
  by (auto simp: clear_goto_def ob_simps split: option.splits json.splits if_splits)

lemma not_slot_new [simp]: "\<not> not_slot s h (toFlowEdge i s h t k)" "e_target (toFlowEdge i s h t k) = t"
  by (simp_all add: not_slot_def toFlowEdge_def)

lemma clear_goto_map: "map (\<lambda>n. (n_id n, n_type n, n_pos n)) (map (clear_goto gone) ns) = map (\<lambda>n. (n_id n, n_type n, n_pos n)) ns"
  by simp

text \<open>C29. Connecting does what it says or nothing: it is refused exactly when a block is missing, the target is Start
  or the block itself, the exit does not exist, or a path of other edges leads from the target back to the source; a
  refusal changes nothing, and otherwise the exit leads to the target and to nothing else, and every other edge stays.\<close>

theorem connect_exact:
  assumes "connect nano now source hdl target s = (problem, s')"
  shows "(problem = None \<longleftrightarrow>
      (\<exists>b t. List.find (\<lambda>n. n_id n = source) (fs_nodes s) = Some b \<and> List.find (\<lambda>n. n_id n = target) (fs_nodes s) = Some t
         \<and> n_type t \<noteq> Entry \<and> source \<noteq> target \<and> hdl \<in> set (node_exits b)
         \<and> (target, source) \<notin> (edge_rel (filter (not_slot source hdl) (fs_edges s)))\<^sup>*))
    \<and> (if problem = None
       then fs_nodes s' = fs_nodes s \<and> filter (not_slot source hdl) (fs_edges s') = filter (not_slot source hdl) (fs_edges s)
         \<and> map e_target (filter (\<lambda>e. \<not> not_slot source hdl e) (fs_edges s')) = [target]
       else s' = s)"
proof (cases "connectionProblem (fs_nodes s) (fs_edges s) source hdl target")
  case None
  have f: "keeps_draft (\<lambda>s. s\<lparr>st_drawn := st_drawn s + 1\<rparr>)" by (rule keeps_draft_sets)
  have s': "problem = None" "s' = commit now (fs_nodes s) (filter (not_slot source hdl) (fs_edges s)
      @ [toFlowEdge (newEdgeId nano (st_drawn s)) source hdl target None]) None (\<lambda>s. s\<lparr>st_drawn := st_drawn s + 1\<rparr>) False s"
    using assms None by (simp_all add: connect_def Let_def)
  show ?thesis using None [unfolded connectionProblem_iff] unfolding s'(2) commit_parts(1,2) [OF f] using s'(1)
    by (simp add: filter_empty_conv)
next
  case (Some p)
  then show ?thesis using assms connectionProblem_iff [of "fs_nodes s" "fs_edges s" source hdl target] by (auto simp: connect_def)
qed

theorem connect_exact_witness:
  "fst (connect sample_nano 3 ''p'' ''next'' ''s'' sample_store) \<noteq> None
    \<and> snd (connect sample_nano 3 ''p'' ''next'' ''s'' sample_store) = sample_store"
proof -
  have "fst (connect sample_nano 3 ''p'' ''next'' ''s'' sample_store) \<noteq> None" by code_simp
  then show ?thesis
    using connect_exact [of sample_nano 3 "''p''" "''next''" "''s''" sample_store "fst (connect sample_nano 3 ''p'' ''next'' ''s'' sample_store)"
        "snd (connect sample_nano 3 ''p'' ''next'' ''s'' sample_store)"] by simp
qed



section \<open>Overlays\<close>

fun overlay_action :: "Action \<Rightarrow> bool" where
  "overlay_action (PreviewNodesChange cs) = True"
| "overlay_action (EnterPreview p) = True"
| "overlay_action ExitPreview = True"
| "overlay_action (ShowProposal job g instant) = True"
| "overlay_action RevealNext = True"
| "overlay_action ClearProposal = True"
| "overlay_action (SetSimNode i) = True"
| "overlay_action _ = False"

text \<open>The read-only overlays never touch the draft: showing, measuring, revealing or leaving a published version or a
  proposal leaves the graph to be saved, its name, its undo history and the change and save counters as they are.\<close>

theorem overlays_leave_draft:
  assumes "overlay_action a" and "s' = perform env now a s"
  shows "graph s' = graph s \<and> fs_name s' = fs_name s \<and> fs_history s' = fs_history s \<and> fs_changeSeq s' = fs_changeSeq s
    \<and> fs_contentSeq s' = fs_contentSeq s \<and> fs_savedSeq s' = fs_savedSeq s"
proof -
  have snap: "snapshot_now s' = snapshot_now s \<and> fs_viewport s' = fs_viewport s \<and> fs_keepGraph s' = fs_keepGraph s
      \<and> fs_foreignNodes s' = fs_foreignNodes s \<and> fs_name s' = fs_name s \<and> fs_history s' = fs_history s \<and> fs_changeSeq s' = fs_changeSeq s
      \<and> fs_contentSeq s' = fs_contentSeq s \<and> fs_savedSeq s' = fs_savedSeq s"
    using assms(1) unfolding assms(2)
    by (cases a) (auto simp: onPreviewNodesChange_def enterPreview_def exitPreview_def showProposal_def revealNext_def
        clearProposal_def setSimNode_def snapshot_map Let_def split: option.splits prod.splits)
  then have "graph s' = graph s" by (intro graph_of_snapshot) simp_all
  then show ?thesis using snap by blast
qed

theorem overlays_leave_draft_witness:
  "graph (perform sample_env 2 (ShowProposal ''job'' (JObj []) False) sample_store) = graph sample_store"
  using overlays_leave_draft [OF _ refl, of "ShowProposal ''job'' (JObj []) False" sample_env 2 sample_store] by simp

text \<open>The answers of repeated \<open>revealNext\<close> calls, and the store after them.\<close>

fun reveals :: "nat \<Rightarrow> Store \<Rightarrow> bool list \<times> Store" where
  "reveals 0 s = ([], s)"
| "reveals (Suc n) s = (let (more, s1) = revealNext s; (answers, s2) = reveals n s1 in (more # answers, s2))"

lemma reveals_all:
  assumes "fs_proposal s = Some q" "length (po_order q) = po_revealed q + Suc n"
  shows "reveals (Suc n) s = (replicate n True @ [False], s\<lparr>fs_proposal := Some (q\<lparr>po_revealed := length (po_order q)\<rparr>)\<rparr>)"
  using assms
proof (induction n arbitrary: s q)
  case 0
  then show ?case by (simp add: revealNext_def)
next
  case (Suc n)
  let ?q = "q\<lparr>po_revealed := po_revealed q + 1\<rparr>"
  let ?s = "s\<lparr>fs_proposal := Some ?q\<rparr>"
  have step: "revealNext s = (True, ?s)" using Suc.prems by (simp add: revealNext_def)
  have "reveals (Suc n) ?s = (replicate n True @ [False], ?s\<lparr>fs_proposal := Some (?q\<lparr>po_revealed := length (po_order ?q)\<rparr>)\<rparr>)"
    by (rule Suc.IH) (use Suc.prems in simp_all)
  then show ?case unfolding reveals.simps(2) [of "Suc n"] step by simp
qed



end
