(* ===== verification/Assist.thy ===== *)
theory Assist
  imports Store
begin

text \<open>
  The Flow assistant's pure logic (\<open>flow/assist/model.ts\<close>): reading an untrusted job, the placeholder
  prompt ids of a proposal, creating the messages it still needs, and the graph that Accept writes. A
  graph is here the raw JSON object the server sent. What the source throws is the left side of a sum;
  the callback that creates a message is an argument.
\<close>

section \<open>Limits and texts\<close>

definition MESSAGE_MAX_CHARS :: nat where
  "MESSAGE_MAX_CHARS = 2000"

definition POLL_INTERVAL_MS :: nat where
  "POLL_INTERVAL_MS = 1500"

definition POLL_LIMIT_MS :: nat where
  "POLL_LIMIT_MS = 300000"

definition JOB_ERROR_TEXT :: "string \<Rightarrow> string option" where
  "JOB_ERROR_TEXT code =
     (if code = ''assistant_unavailable''
      then Some ''The flow assistant is unavailable right now. You can keep building by hand.''
      else if code = ''assistant_busy'' then Some ''The flow assistant is busy. Try again in a minute.''
      else if code = ''assistant_failed''
      then Some (''The flow assistant couldn'' @ [CHR 0x92] @ ''t finish that request. Try rewording it, or build it by hand.'')
      else None)"

abbreviation assistant_failed_text :: string where
  "assistant_failed_text \<equiv> the (JOB_ERROR_TEXT ''assistant_failed'')"

definition jobErrorText :: "string option \<Rightarrow> string" where
  "jobErrorText code =
     (case code of
        Some c \<Rightarrow> (case JOB_ERROR_TEXT c of Some t \<Rightarrow> t | None \<Rightarrow> assistant_failed_text)
      | None \<Rightarrow> assistant_failed_text)"

section \<open>Parsing\<close>

record Issue =
  iss_code :: string
  iss_message :: string
  iss_node_id :: "string option"
  iss_handle :: "string option"

record AssistNewPrompt =
  np_id :: jsnum
  np_name :: string
  np_text :: string

record AssistProposal =
  ap_graph :: obj
  ap_new_prompts :: "AssistNewPrompt list"
  ap_summary :: string
  ap_assumptions :: "string list"
  ap_issues :: "Issue list"
  ap_warnings :: "Issue list"

datatype AssistResult = Proposal AssistProposal | Clarify string | CannotBuild string

datatype AssistJobState = JobRunning | JobDone AssistResult | JobFailed string string

record AssistJob =
  aj_job_id :: string
  aj_conversation_id :: string
  aj_elapsed_ms :: jsnum
  aj_state :: AssistJobState

definition spoken_strs :: "json option \<Rightarrow> string list" where
  "spoken_strs v = filter (\<lambda>s. trim s \<noteq> '''') (strs v)"

fun issue_of :: "json \<Rightarrow> Issue option" where
  "issue_of (JObj i) =
     (case ob_get i ''message'' of
        Some (JStr m) \<Rightarrow>
          if m = '''' then None
          else Some \<lparr>iss_code = str_or ''invalid'' (ob_get i ''code''), iss_message = m,
                     iss_node_id = (case ob_get i ''node_id'' of Some (JStr s) \<Rightarrow> Some s | _ \<Rightarrow> None),
                     iss_handle = (case ob_get i ''handle'' of Some (JStr s) \<Rightarrow> Some s | _ \<Rightarrow> None)\<rparr>
      | _ \<Rightarrow> None)"
| "issue_of _ = None"

definition issues :: "json option \<Rightarrow> Issue list" where
  "issues v = List.map_filter issue_of (array_or_empty v)"

text \<open>\<open>id < 0\<close> and \<open>id >= 0\<close>, both false of NaN.\<close>

fun js_neg :: "jsnum \<Rightarrow> bool" where
  "js_neg (Fin r) = (r < 0)"
| "js_neg NegInf = True"
| "js_neg _ = False"

fun js_nonneg :: "jsnum \<Rightarrow> bool" where
  "js_nonneg (Fin r) = (r \<ge> 0)"
| "js_nonneg PosInf = True"
| "js_nonneg _ = False"

text \<open>One turn of the loop of \<open>newPrompts\<close>: \<^term>\<open>None\<close> skips the entry.\<close>

definition new_prompt :: "jsnum list \<Rightarrow> json \<Rightarrow> AssistNewPrompt option" where
  "new_prompt seen v =
     (case v of
        JObj p \<Rightarrow>
          (case (ob_get p ''placeholder_id'', ob_get p ''name'', ob_get p ''text'') of
             (Some (JNum i), Some (JStr name), Some (JStr text)) \<Rightarrow>
               if \<not> isInteger i \<or> js_nonneg i \<or> i \<in> set seen \<or> trim text = '''' then None
               else Some \<lparr>np_id = i, np_name = (if trim name = '''' then ''New message'' else trim name), np_text = text\<rparr>
           | _ \<Rightarrow> None)
      | _ \<Rightarrow> None)"

fun newPrompts_loop :: "jsnum list \<Rightarrow> json list \<Rightarrow> AssistNewPrompt list" where
  "newPrompts_loop seen [] = []"
| "newPrompts_loop seen (v # vs) =
     (case new_prompt seen v of
        None \<Rightarrow> newPrompts_loop seen vs
      | Some p \<Rightarrow> p # newPrompts_loop (np_id p # seen) vs)"

definition newPrompts :: "json option \<Rightarrow> AssistNewPrompt list" where
  "newPrompts v = newPrompts_loop [] (array_or_empty v)"

definition parseAssistResult :: "json option \<Rightarrow> AssistResult option" where
  "parseAssistResult raw =
     (case raw of
        Some (JObj r) \<Rightarrow>
          (if ob_get r ''kind'' = Some (JStr ''proposal'')
           then (case ob_get r ''draft_graph'' of
                   Some (JObj g) \<Rightarrow>
                     if is_array (ob_get g ''nodes'') \<and> is_array (ob_get g ''edges'')
                     then Some (Proposal \<lparr>ap_graph = g, ap_new_prompts = newPrompts (ob_get r ''new_prompts''),
                            ap_summary = str_or '''' (ob_get r ''summary''), ap_assumptions = spoken_strs (ob_get r ''assumptions''),
                            ap_issues = issues (ob_get r ''issues''), ap_warnings = issues (ob_get r ''warnings'')\<rparr>)
                     else None
                 | _ \<Rightarrow> None)
           else if ob_get r ''kind'' = Some (JStr ''clarify'')
           then (let q = str_or '''' (ob_get r ''question'') in if trim q \<noteq> '''' then Some (Clarify q) else None)
           else if ob_get r ''kind'' = Some (JStr ''cannot_build'')
           then (let m = str_or '''' (ob_get r ''message'') in if trim m \<noteq> '''' then Some (CannotBuild m) else None)
           else None)
      | _ \<Rightarrow> None)"

definition parseAssistJob :: "json option \<Rightarrow> AssistJob option" where
  "parseAssistJob raw =
     (case raw of
        Some (JObj r) \<Rightarrow>
          (case (ob_get r ''job_id'', ob_get r ''status'') of
             (Some (JStr job), Some (JStr status)) \<Rightarrow>
               (if status \<notin> set [''running'', ''done'', ''failed''] then None
                else Some \<lparr>aj_job_id = job, aj_conversation_id = str_or '''' (ob_get r ''conversation_id''),
                  aj_elapsed_ms = (case ob_get r ''elapsed_ms'' of Some (JNum n) \<Rightarrow> n | _ \<Rightarrow> Fin 0),
                  aj_state =
                    (if status = ''done''
                     then (case parseAssistResult (ob_get r ''result'') of
                             Some result \<Rightarrow> JobDone result
                           | None \<Rightarrow> JobFailed ''assistant_failed'' assistant_failed_text)
                     else if status = ''failed''
                     then (let err = record_or_empty (ob_get r ''error''); code = str_or '''' (ob_get err ''code'')
                           in JobFailed (if code = '''' then ''assistant_failed'' else code) (str_or '''' (ob_get err ''message'')))
                     else JobRunning)\<rparr>)
           | _ \<Rightarrow> None)
      | _ \<Rightarrow> None)"

section \<open>Placeholders\<close>

definition PROMPT_KEYS :: "string list" where
  "PROMPT_KEYS = [''prompts'', ''invalidPrompts'', ''noInputPrompts'']"

datatype AssistError =
    Unreadable
  | MissingMessageError jsnum
  | PromptCreateError AssistNewPrompt string

text \<open>\<open>configOf\<close>: reading \<open>data\<close> of \<open>null\<close> throws.\<close>

fun configOf :: "json \<Rightarrow> AssistError + obj option" where
  "configOf JNull = Inl Unreadable"
| "configOf (JObj node) =
     Inr (case ob_get node ''data'' of
            Some (JObj d) \<Rightarrow> (case ob_get d ''config'' of Some (JObj c) \<Rightarrow> Some c | _ \<Rightarrow> None)
          | _ \<Rightarrow> None)"
| "configOf _ = Inr None"

abbreviation graph_nodes :: "obj \<Rightarrow> json list" where
  "graph_nodes g \<equiv> array_or_empty (ob_get g ''nodes'')"

fun collect_id :: "json \<Rightarrow> jsnum list \<Rightarrow> jsnum list" where
  "collect_id (JNum i) out = (if js_neg i \<and> i \<notin> set out then out @ [i] else out)"
| "collect_id _ out = out"

definition collect_config :: "obj \<Rightarrow> jsnum list \<Rightarrow> jsnum list" where
  "collect_config c out = fold (\<lambda>key. fold collect_id (array_or_empty (ob_get c key))) PROMPT_KEYS out"

fun placeholders_loop :: "json list \<Rightarrow> jsnum list \<Rightarrow> AssistError + jsnum list" where
  "placeholders_loop [] out = Inr out"
| "placeholders_loop (node # nodes) out =
     (case configOf node of
        Inl err \<Rightarrow> Inl err
      | Inr None \<Rightarrow> placeholders_loop nodes out
      | Inr (Some c) \<Rightarrow> placeholders_loop nodes (collect_config c out))"

definition placeholderIds :: "obj \<Rightarrow> AssistError + jsnum list" where
  "placeholderIds g = placeholders_loop (graph_nodes g) []"

definition usedNewPrompts :: "AssistProposal \<Rightarrow> AssistError + AssistNewPrompt list" where
  "usedNewPrompts p =
     (case placeholderIds (ap_graph p) of
        Inl err \<Rightarrow> Inl err
      | Inr used \<Rightarrow> Inr (filter (\<lambda>q. np_id q \<in> set used) (ap_new_prompts p)))"

type_synonym mapping = "(jsnum \<times> jsnum) list"

definition promptsToCreate :: "AssistProposal \<Rightarrow> mapping \<Rightarrow> AssistError + AssistNewPrompt list" where
  "promptsToCreate p created =
     (case usedNewPrompts p of Inl err \<Rightarrow> Inl err | Inr qs \<Rightarrow> Inr (filter (\<lambda>q. ob_get created (np_id q) = None) qs))"

text \<open>The loop of \<open>createMissingPrompts\<close>: the mapping after it, and what it threw, if anything.\<close>

fun create_loop :: "(AssistNewPrompt \<Rightarrow> string + jsnum) \<Rightarrow> AssistNewPrompt list \<Rightarrow> mapping \<Rightarrow> mapping \<times> AssistError option" where
  "create_loop create [] m = (m, None)"
| "create_loop create (q # qs) m =
     (case create q of
        Inl cause \<Rightarrow> (m, Some (PromptCreateError q cause))
      | Inr i \<Rightarrow> create_loop create qs (ob_set m (np_id q) i))"

definition createMissingPrompts :: "AssistProposal \<Rightarrow> mapping \<Rightarrow> (AssistNewPrompt \<Rightarrow> string + jsnum) \<Rightarrow> mapping \<times> AssistError option" where
  "createMissingPrompts p m create =
     (case promptsToCreate p m of Inl err \<Rightarrow> (m, Some err) | Inr qs \<Rightarrow> create_loop create qs m)"

fun mapE :: "('a \<Rightarrow> 'e + 'b) \<Rightarrow> 'a list \<Rightarrow> 'e + 'b list" where
  "mapE f [] = Inr []"
| "mapE f (x # xs) =
     (case f x of Inl e \<Rightarrow> Inl e | Inr y \<Rightarrow> (case mapE f xs of Inl e \<Rightarrow> Inl e | Inr ys \<Rightarrow> Inr (y # ys)))"

fun swap :: "mapping \<Rightarrow> json \<Rightarrow> AssistError + json" where
  "swap m (JNum i) =
     (if js_nonneg i then Inr (JNum i)
      else case ob_get m i of None \<Rightarrow> Inl (MissingMessageError i) | Some made \<Rightarrow> Inr (JNum made))"
| "swap m v = Inr v"

text \<open>The loop over the keys in \<open>substitutePlaceholders\<close>.\<close>

fun swap_keys :: "mapping \<Rightarrow> obj \<Rightarrow> string list \<Rightarrow> obj \<Rightarrow> AssistError + obj" where
  "swap_keys m c [] next = Inr next"
| "swap_keys m c (key # keys) next =
     (case ob_get c key of
        Some (JArr xs) \<Rightarrow>
          (case mapE (swap m) xs of Inl err \<Rightarrow> Inl err | Inr ys \<Rightarrow> swap_keys m c keys (ob_set next key (JArr ys)))
      | _ \<Rightarrow> swap_keys m c keys next)"

fun swap_node :: "mapping \<Rightarrow> json \<Rightarrow> AssistError + json" where
  "swap_node m node =
     (case configOf node of
        Inl err \<Rightarrow> Inl err
      | Inr None \<Rightarrow> Inr node
      | Inr (Some c) \<Rightarrow>
          if \<not> list_ex (\<lambda>k. is_array (ob_get c k)) PROMPT_KEYS then Inr node
          else (case swap_keys m c PROMPT_KEYS c of
                  Inl err \<Rightarrow> Inl err
                | Inr next \<Rightarrow>
                    (case node of
                       JObj ob \<Rightarrow> Inr (JObj (ob_set ob ''data''
                                   (JObj (ob_set (record_or_empty (ob_get ob ''data'')) ''config'' (JObj next)))))
                     | _ \<Rightarrow> Inr node)))"

definition substitutePlaceholders :: "obj \<Rightarrow> mapping \<Rightarrow> AssistError + obj" where
  "substitutePlaceholders g m =
     (case mapE (swap_node m) (graph_nodes g) of Inl err \<Rightarrow> Inl err | Inr ns \<Rightarrow> Inr (ob_set g ''nodes'' (JArr ns)))"

definition proposalPromptName :: "AssistNewPrompt list \<Rightarrow> (jsnum \<Rightarrow> string option) \<Rightarrow> jsnum \<Rightarrow> string option" where
  "proposalPromptName ps existing i =
     (if js_neg i then Some (case last_by np_id ps i of Some p \<Rightarrow> np_name p | None \<Rightarrow> ''a new message'') else existing i)"

section \<open>Layout and the accepted draft\<close>

fun place_raw :: "(string \<times> Position) list \<Rightarrow> json \<Rightarrow> AssistError + json" where
  "place_raw pos JNull = Inl Unreadable"
| "place_raw pos (JObj n) =
     Inr (case ob_get n ''id'' of
            Some (JStr i) \<Rightarrow>
              (case ob_get pos i of
                 Some p \<Rightarrow> JObj (ob_set n ''position'' (JObj [(''x'', JNum (Fin (pos_x p))), (''y'', JNum (Fin (pos_y p)))]))
               | None \<Rightarrow> JObj n)
          | _ \<Rightarrow> JObj n)"
| "place_raw pos v = Inr v"

definition withTidyPositions :: "(nat \<Rightarrow> string) \<Rightarrow> nat \<Rightarrow> obj \<Rightarrow> AssistError + obj" where
  "withTidyPositions nano k g =
     (let (work, k') = fromGraph nano k (Some (JObj g));
          pos = tidyLayout (wg_nodes work) (wg_edges work)
      in case mapE (place_raw pos) (graph_nodes g) of Inl err \<Rightarrow> Inl err | Inr ns \<Rightarrow> Inr (ob_set g ''nodes'' (JArr ns)))"

definition acceptedGraph :: "(nat \<Rightarrow> string) \<Rightarrow> nat \<Rightarrow> obj \<Rightarrow> mapping \<Rightarrow> AssistError + obj" where
  "acceptedGraph nano k g m =
     (case substitutePlaceholders g m of
        Inl err \<Rightarrow> Inl err
      | Inr g1 \<Rightarrow> (case withTidyPositions nano k g1 of Inl err \<Rightarrow> Inl err | Inr g2 \<Rightarrow> Inr (filter (\<lambda>p. fst p \<noteq> ''viewport'') g2)))"

section \<open>What changed\<close>

datatype ProposalMark = NewBlock | ChangedBlock

record ProposalChanges =
  pc_marks :: "(string \<times> ProposalMark) list"
  pc_added :: nat
  pc_changed :: nat
  pc_removed :: nat

text \<open>\<open>stable\<close>: the value whose text is written, with the keys of every object in order.\<close>

fun stable :: "json \<Rightarrow> json" where
  "stable (JArr xs) = JArr (map stable xs)"
| "stable (JObj ob) = JObj (sort_key fst (map (\<lambda>(k, v). (k, stable v)) ob))"
| "stable v = wire v"

definition signature :: "WorkEdge list \<Rightarrow> WorkNode \<Rightarrow> json" where
  "signature edges n =
     (let outs = sort (map (\<lambda>e. e_sourceHandle e @ ''>'' @ e_target e) (filter (\<lambda>e. e_source e = n_id n) edges))
      in stable (JArr [JStr (type_name (n_type n)), JStr (case bd_label (n_data n) of Some l \<Rightarrow> l | None \<Rightarrow> ''''),
           JObj (n_config n), JArr (map JStr outs)]))"

definition mark_node :: "(string \<times> json) list \<Rightarrow> WorkEdge list \<Rightarrow> WorkNode \<Rightarrow> ProposalChanges \<Rightarrow> ProposalChanges" where
  "mark_node old edges n c =
     (if n_type n = Entry then c
      else case ob_get old (n_id n) of
        None \<Rightarrow> c\<lparr>pc_marks := ob_set (pc_marks c) (n_id n) NewBlock, pc_added := pc_added c + 1\<rparr>
      | Some was \<Rightarrow>
          if was \<noteq> signature edges n
          then c\<lparr>pc_marks := ob_set (pc_marks c) (n_id n) ChangedBlock, pc_changed := pc_changed c + 1\<rparr>
          else c)"

definition proposalChanges :: "(nat \<Rightarrow> string) \<Rightarrow> nat \<Rightarrow> json \<Rightarrow> json \<Rightarrow> ProposalChanges" where
  "proposalChanges nano k draft proposal =
     (let (before, k1) = fromGraph nano k (Some draft);
          (after, k2) = fromGraph nano k1 (Some proposal);
          old = fold (\<lambda>n m. ob_set m (n_id n) (signature (wg_edges before) n)) (wg_nodes before) [];
          c = fold (mark_node old (wg_edges after)) (wg_nodes after) \<lparr>pc_marks = [], pc_added = 0, pc_changed = 0, pc_removed = 0\<rparr>;
          kept = n_id ` set (wg_nodes after)
      in c\<lparr>pc_removed := length (filter (\<lambda>n. n_type n \<noteq> Entry \<and> n_id n \<notin> kept) (wg_nodes before))\<rparr>)"

end
