(* ===== verification/JS_Text.thy ===== *)
theory JS_Text
  imports Prelude "HOL-Library.Sublist"
begin

text \<open>
  The string methods the ladder and the troubleshooting pages call: \<open>toUpperCase\<close>, \<open>toLowerCase\<close>,
  \<open>includes\<close>, \<open>indexOf\<close> and \<open>split\<close>, on the eight-bit texts of the model.
\<close>

section \<open>Upper and lower case\<close>

definition upper_char :: "char \<Rightarrow> string" where
  "upper_char c =
     (let n = (of_char c :: nat) in
      if 97 \<le> n \<and> n \<le> 122 \<or> 224 \<le> n \<and> n \<le> 254 \<and> n \<noteq> 247 then [char_of (n - 32)]
      else if n = 154 \<or> n = 156 \<or> n = 158 then [char_of (n - 16)]
      else if n = 255 then [char_of (159 :: nat)]
      else if n = 223 then ''SS'' else [c])"

text \<open>The capitals of \<open>\<mu>\<close> and of the florin sign are not in the set; they stand for themselves here.\<close>

definition toUpperCase :: "string \<Rightarrow> string" where
  "toUpperCase s = concat (map upper_char s)"

definition lower_char :: "char \<Rightarrow> char" where
  "lower_char c =
     (let n = (of_char c :: nat) in
      if 65 \<le> n \<and> n \<le> 90 \<or> 192 \<le> n \<and> n \<le> 222 \<and> n \<noteq> 215 then char_of (n + 32)
      else if n = 138 \<or> n = 140 \<or> n = 142 then char_of (n + 16)
      else if n = 159 then char_of (255 :: nat) else c)"

definition toLowerCase :: "string \<Rightarrow> string" where
  "toLowerCase s = map lower_char s"

section \<open>Searching\<close>

fun has_text :: "string \<Rightarrow> string \<Rightarrow> bool" where
  "has_text [] p \<longleftrightarrow> p = []"
| "has_text (c # s) p \<longleftrightarrow> startsWith (c # s) p \<or> has_text s p"

lemma has_text_sublist: "has_text s p \<longleftrightarrow> sublist p s"
proof (induction s)
  case (Cons c s)
  have "startsWith (c # s) p \<longleftrightarrow> prefix p (c # s)"
    unfolding startsWith_def prefix_def by (metis append_eq_conv_conj)
  then show ?case using Cons by (simp add: sublist_Cons_right)
qed simp

text \<open>What stands before the first \<open>c\<close>: \<open>s\<close> itself when there is none.\<close>

abbreviation before_char :: "char \<Rightarrow> string \<Rightarrow> string" where
  "before_char c \<equiv> takeWhile (\<lambda>x. x \<noteq> c)"

fun split_on :: "char \<Rightarrow> string \<Rightarrow> string list" where
  "split_on c [] = [[]]"
| "split_on c (x # s) = (if x = c then [] # split_on c s else (case split_on c s of [] \<Rightarrow> [[x]] | w # ws \<Rightarrow> (x # w) # ws))"

lemma split_on_nonempty [simp]: "split_on c s \<noteq> []"
  by (induction s) (auto split: list.splits)

lemma join_split_on: "join [c] (split_on c s) = s"
proof (induction s)
  case (Cons x s)
  then show ?case by (cases "split_on c s"; cases "tl (split_on c s)") auto
qed simp

definition is_upper :: "char \<Rightarrow> bool" where
  "is_upper c \<longleftrightarrow> c \<in> set ''ABCDEFGHIJKLMNOPQRSTUVWXYZ''"

section \<open>Decimal numbers\<close>

lemma digit_cases: "is_digit c \<longleftrightarrow> (\<exists>d < 10. c = digit_char d)"
proof
  assume "is_digit c"
  then obtain d where "d < length ''0123456789''" "c = ''0123456789'' ! d" unfolding is_digit_def by (metis in_set_conv_nth)
  then show "\<exists>d < 10. c = digit_char d" by (intro exI [of _ d]) (simp add: digit_char_def)
next
  assume "\<exists>d < 10. c = digit_char d"
  then obtain d where d: "d < 10" "c = digit_char d" by blast
  then have "c = ''0123456789'' ! d" by (simp add: digit_char_def)
  moreover have "''0123456789'' ! d \<in> set ''0123456789''" using d(1) by (intro nth_mem) simp
  ultimately show "is_digit c" by (simp add: is_digit_def)
qed

lemma digit_val_char: "digit_val (digit_char n) = n mod 10"
proof -
  have "\<forall>d \<in> set [0..<10]. digit_val (''0123456789'' ! d) = d" by (simp add: upt_rec digit_val_def)
  then have "digit_val (''0123456789'' ! (n mod 10)) = n mod 10" by simp
  then show ?thesis by (simp add: digit_char_def)
qed

lemma digit_char_val: "is_digit c \<Longrightarrow> digit_char (digit_val c) = c \<and> digit_val c < 10"
  by (auto simp: digit_cases digit_val_char)

lemma digits_val_snoc [simp]: "digits_val (s @ [c]) = 10 * digits_val s + digit_val c" "digits_val [] = 0"
  by (simp_all add: digits_val_def)

lemma digit_char_mod [simp]: "digit_char (n mod 10) = digit_char n"
  by (simp add: digit_char_def)

lemma nat_str_digits: "list_all is_digit (nat_str n) \<and> nat_str n \<noteq> [] \<and> digits_val (nat_str n) = n"
proof (induction n rule: nat_str.induct)
  case (1 n)
  have d: "is_digit (digit_char n)" using digit_cases [of "digit_char n"] by (metis digit_char_mod mod_less_divisor zero_less_numeral)
  show ?case
  proof (cases "n < 10")
    case True
    then show ?thesis using d digits_val_snoc(1) [of "[]" "digit_char n"] by (subst (1 2 3) nat_str.simps) (simp add: digit_val_char)
  next
    case False
    then show ?thesis using 1 d by (subst (1 2 3) nat_str.simps) (simp add: digit_val_char)
  qed
qed

lemma nat_str_lead: "n \<noteq> 0 \<Longrightarrow> hd (nat_str n) \<noteq> CHR ''0''"
proof (induction n rule: nat_str.induct)
  case (1 n)
  show ?case
  proof (cases "n < 10")
    case True
    have "digit_char n \<noteq> CHR ''0''" using 1(2) True digit_val_char [of n] by (auto simp: digit_val_def)
    then show ?thesis using True by (subst nat_str.simps) simp
  next
    case False
    then have "hd (nat_str (n div 10)) \<noteq> CHR ''0''" using 1(1) by simp
    then show ?thesis using False nat_str_digits [of "n div 10"] by (subst nat_str.simps) simp
  qed
qed

lemma digits_val_pos: "list_all is_digit s \<Longrightarrow> s \<noteq> [] \<Longrightarrow> hd s \<noteq> CHR ''0'' \<Longrightarrow> digits_val s > 0"
proof (induction s rule: rev_induct)
  case (snoc c s)
  show ?case
  proof (cases "s = []")
    case True
    have "digit_char 0 = CHR ''0''" by (simp add: digit_char_def)
    moreover have "c \<noteq> CHR ''0''" "is_digit c" using True snoc.prems by simp_all
    ultimately have "digit_val c \<noteq> 0" using digit_char_val [of c] by metis
    then show ?thesis using True by (simp add: digits_val_def)
  next
    case False
    then show ?thesis using snoc by simp
  qed
qed simp

lemma nat_str_val: "list_all is_digit s \<Longrightarrow> s \<noteq> [] \<Longrightarrow> length s = 1 \<or> hd s \<noteq> CHR ''0'' \<Longrightarrow> nat_str (digits_val s) = s"
proof (induction s rule: rev_induct)
  case (snoc c s)
  have c: "digit_char (digit_val c) = c" "digit_val c < 10" using snoc.prems digit_char_val by auto
  show ?case
  proof (cases "s = []")
    case True
    then have "digits_val (s @ [c]) = digit_val c" by (simp add: digits_val_def)
    then show ?thesis using c True by (subst nat_str.simps) simp
  next
    case False
    then have hd: "hd s \<noteq> CHR ''0''" using snoc.prems by auto
    have IH: "nat_str (digits_val s) = s" using snoc False hd by simp
    have "digits_val s > 0" using digits_val_pos snoc.prems False hd by simp
    then have "\<not> digits_val (s @ [c]) < 10" "digits_val (s @ [c]) div 10 = digits_val s" "digits_val (s @ [c]) mod 10 = digit_val c"
      using c(2) by simp_all
    moreover have "digit_char (digits_val (s @ [c])) = c" using c calculation(3) by (metis digit_char_mod)
    ultimately show ?thesis using IH by (subst nat_str.simps) (simp del: digits_val_snoc)
  qed
qed simp

lemma nat_str_length: "length (nat_str n) \<le> 3 \<longleftrightarrow> n < 1000"
proof -
  have small: "length (nat_str n) = 1 \<longleftrightarrow> n < 10" for n using nat_str_digits [of "n div 10"] by (subst nat_str.simps) simp
  have len: "length (nat_str n) = Suc (length (nat_str (n div 10)))" if "\<not> n < 10" for n using that by (subst nat_str.simps) simp
  have pos: "length (nat_str n) \<ge> 1" for n using nat_str_digits [of n] by (simp add: Suc_le_eq)
  have two: "length (nat_str n) \<le> 2 \<longleftrightarrow> n < 100" for n
  proof (cases "n < 10")
    case True then show ?thesis using small [of n] by simp
  next
    case False
    have "length (nat_str (n div 10)) \<le> 1 \<longleftrightarrow> n div 10 < 10" using small [of "n div 10"] pos [of "n div 10"] by linarith
    then show ?thesis using False len [of n] by (simp add: div_less_iff_less_mult)
  qed
  show ?thesis
  proof (cases "n < 10")
    case True then show ?thesis using small [of n] by simp
  next
    case False
    then show ?thesis using len [of n] two [of "n div 10"] by (simp add: div_less_iff_less_mult)
  qed
qed

end
