(* ===== verification/JS_Numbers.thy ===== *)
theory JS_Numbers
  imports JS_Values JS_Text
begin

text \<open>
  Numbers as text: \<open>String(n)\<close> and \<open>toFixed\<close> on exact rationals. \<open>number_text\<close> writes the decimal digits of a
  number with up to 17 of them after the point; the forms with an exponent, for numbers from 10 to the 21 on and below a
  millionth, are left out, since no number the sources print is that large or small.
\<close>

definition int_str :: "int \<Rightarrow> string" where
  "int_str i = (if i < 0 then ''-'' @ nat_str (nat (- i)) else nat_str (nat i))"

fun fraction_digits :: "nat \<Rightarrow> rat \<Rightarrow> string" where
  "fraction_digits 0 x = []"
| "fraction_digits (Suc k) x =
     (if x = 0 then [] else nat_str (nat \<lfloor>10 * x\<rfloor>) @ fraction_digits k (10 * x - of_int \<lfloor>10 * x\<rfloor>))"

definition number_text :: "rat \<Rightarrow> string" where
  "number_text r =
     (let a = \<bar>r\<bar>; f = a - of_int \<lfloor>a\<rfloor>
      in (if r < 0 then ''-'' else '''') @ nat_str (nat \<lfloor>a\<rfloor>) @ (if f = 0 then '''' else ''.'' @ fraction_digits 17 f))"

definition padStart0 :: "nat \<Rightarrow> string \<Rightarrow> string" where
  "padStart0 k s = replicate (k - length s) (CHR ''0'') @ s"

text \<open>\<open>x.toFixed(f)\<close>: the closest multiple of the last place, the larger of two.\<close>

definition toFixed :: "nat \<Rightarrow> rat \<Rightarrow> string" where
  "toFixed f x =
     (let n = nat (round_half_up (\<bar>x\<bar> * 10 ^ f))
      in (if x < 0 then ''-'' else '''')
         @ (if f = 0 then nat_str n else nat_str (n div 10 ^ f) @ ''.'' @ padStart0 f (nat_str (n mod 10 ^ f))))"

lemma number_text_int: "number_text (of_int i) = int_str i"
  by (auto simp: number_text_def int_str_def)

end
