(* ===== verification/Conversation.thy ===== *)
theory Conversation
  imports Assist JS_Numbers
begin

text \<open>
  The Flow assistant panel's state machine (\<open>flow/assist/conversation.ts\<close>): the reducer over its twelve
  actions, what the panel derives from the state, and the customer texts of a refused start.
\<close>

section \<open>State and actions\<close>

datatype ProposalTurnState = Shown | Accepted | Discarded | Replaced

datatype Turn =
    CustomerTurn (turn_id: nat) (turn_text: string) bool
  | ProposalTurn (turn_id: nat) (turn_job: string) (turn_text: string) (turn_state: ProposalTurnState)
  | ClarifyTurn (turn_id: nat) (turn_text: string)
  | CannotBuildTurn (turn_id: nat) (turn_text: string)
  | ErrorTurn (turn_id: nat) (turn_text: string)

record ConversationState =
  conversationId :: "string option"
  turns :: "Turn list"
  nextId :: nat
  sending :: bool
  running :: "(string \<times> int) option"
  proposal :: "(string \<times> AssistProposal) option"
  refineOf :: "string option"
  accepting :: bool
  acceptError :: "string option"
  notice :: "string option"
  blocked :: "string option"
  announcement :: string
  announceSeq :: nat

datatype ConversationAction =
    Send
  | Started string string string bool int
  | StartFailed string bool
  | Done string AssistResult
  | Failed string string
  | Refine
  | CancelRefine
  | AcceptStart
  | AcceptFailed string
  | AcceptedNow
  | DiscardedNow
  | Reset

definition initialConversation :: ConversationState where
  "initialConversation =
     \<lparr>conversationId = None, turns = [], nextId = 1, sending = False, running = None, proposal = None, refineOf = None,
      accepting = False, acceptError = None, notice = None, blocked = None, announcement = '''', announceSeq = 0\<rparr>"

definition say :: "string \<Rightarrow> ConversationState \<Rightarrow> ConversationState" where
  "say text s = s\<lparr>announcement := text, announceSeq := announceSeq s + 1\<rparr>"

text \<open>\<open>append\<close> of one turn, given as a function of its id.\<close>

definition append_turn :: "(nat \<Rightarrow> Turn) \<Rightarrow> ConversationState \<Rightarrow> ConversationState" where
  "append_turn mk s = s\<lparr>turns := turns s @ [mk (nextId s)], nextId := nextId s + 1\<rparr>"

fun mark_turn :: "string option \<Rightarrow> ProposalTurnState \<Rightarrow> Turn \<Rightarrow> Turn" where
  "mark_turn job st (ProposalTurn i j text Shown) = ProposalTurn i j text (if job = None \<or> job = Some j then st else Shown)"
| "mark_turn job st t = t"

definition markProposal :: "Turn list \<Rightarrow> string option \<Rightarrow> ProposalTurnState \<Rightarrow> Turn list" where
  "markProposal ts job st = map (mark_turn job st) ts"

definition running_job :: "ConversationState \<Rightarrow> string option" where
  "running_job s = map_option fst (running s)"

fun conversationReducer :: "ConversationState \<Rightarrow> ConversationAction \<Rightarrow> ConversationState" where
  "conversationReducer s Send = s\<lparr>sending := True, notice := None\<rparr>"
| "conversationReducer s (Started job conv text refining now) =
     say ''The flow assistant is working on your request.''
       ((append_turn (\<lambda>i. CustomerTurn i text refining) s)
          \<lparr>conversationId := (if conv = '''' then conversationId s else Some conv), sending := False, running := Some (job, now)\<rparr>)"
| "conversationReducer s (StartFailed text block) =
     say text (s\<lparr>sending := False, notice := Some text, blocked := (if block then Some text else blocked s)\<rparr>)"
| "conversationReducer s (Done job (Proposal r)) =
     (if running_job s \<noteq> Some job then s
      else say ''A proposed flow is ready. It is shown on the canvas, and nothing has changed yet.''
        ((append_turn (\<lambda>i. ProposalTurn i job (if ap_summary r = '''' then ''Here is a proposed flow.'' else ap_summary r) Shown)
            (s\<lparr>turns := markProposal (turns s) None Replaced\<rparr>))
           \<lparr>running := None, proposal := Some (job, r), refineOf := None, acceptError := None\<rparr>))"
| "conversationReducer s (Done job (Clarify question)) =
     (if running_job s \<noteq> Some job then s
      else say (''The flow assistant asks: '' @ question) ((append_turn (\<lambda>i. ClarifyTurn i question) s)\<lparr>running := None\<rparr>))"
| "conversationReducer s (Done job (CannotBuild message)) =
     (if running_job s \<noteq> Some job then s
      else say message ((append_turn (\<lambda>i. CannotBuildTurn i message) s)\<lparr>running := None\<rparr>))"
| "conversationReducer s (Failed job text) =
     (if running_job s \<noteq> Some job then s
      else say text ((append_turn (\<lambda>i. ErrorTurn i text) s)\<lparr>running := None\<rparr>))"
| "conversationReducer s Refine =
     (case proposal s of Some (job, r) \<Rightarrow> s\<lparr>refineOf := Some job, notice := None\<rparr> | None \<Rightarrow> s)"
| "conversationReducer s CancelRefine = s\<lparr>refineOf := None\<rparr>"
| "conversationReducer s AcceptStart = s\<lparr>accepting := True, acceptError := None\<rparr>"
| "conversationReducer s (AcceptFailed text) = say text (s\<lparr>accepting := False, acceptError := Some text\<rparr>)"
| "conversationReducer s AcceptedNow =
     say ''The proposal is now your draft. Nothing is live until you publish.''
       (s\<lparr>turns := markProposal (turns s) (map_option fst (proposal s)) Accepted, proposal := None, refineOf := None,
          accepting := False, acceptError := None\<rparr>)"
| "conversationReducer s DiscardedNow =
     say ''Proposal discarded. Your draft is unchanged.''
       (s\<lparr>turns := markProposal (turns s) (map_option fst (proposal s)) Discarded, proposal := None, refineOf := None,
          accepting := False, acceptError := None\<rparr>)"
| "conversationReducer s Reset = initialConversation\<lparr>blocked := blocked s\<rparr>"

section \<open>Derived\<close>

definition canCompose :: "ConversationState \<Rightarrow> bool" where
  "canCompose s \<longleftrightarrow> blocked s = None \<and> \<not> sending s \<and> running s = None \<and> \<not> accepting s \<and> (proposal s = None \<or> refineOf s \<noteq> None)"

definition composeBlockedReason :: "ConversationState \<Rightarrow> string option" where
  "composeBlockedReason s =
     (if blocked s \<noteq> None \<and> blocked s \<noteq> Some '''' then blocked s
      else if sending s \<or> running s \<noteq> None then None
      else if accepting s then Some (''Adding the proposal to your draft'' @ [CHR 0x85])
      else if proposal s \<noteq> None \<and> refineOf s = None then Some ''Accept, refine or discard the proposal to continue.''
      else None)"

record AssistStartRequest =
  sr_message :: string
  sr_conversation_id :: "string option"
  sr_refine_job_id :: "string option"
  sr_draft_graph :: "IvrGraph option"

definition buildStartRequest :: "string \<Rightarrow> ConversationState \<Rightarrow> IvrGraph \<Rightarrow> AssistStartRequest" where
  "buildStartRequest text s draft =
     \<lparr>sr_message = take MESSAGE_MAX_CHARS (trim text),
      sr_conversation_id = (if conversationId s = Some '''' then None else conversationId s),
      sr_refine_job_id = (if refineOf s = Some '''' then None else refineOf s),
      sr_draft_graph = (if refineOf s = None \<or> refineOf s = Some '''' then Some draft else None)\<rparr>"

section \<open>Start errors\<close>

record StartFailure =
  sf_status :: "int option"
  sf_code :: "string option"
  sf_retryAfterS :: "int option"

definition pick_seconds :: "json option \<Rightarrow> int option" where
  "pick_seconds v = (case v of Some (JNum (Fin r)) \<Rightarrow> if r > 0 then Some \<lceil>r\<rceil> else None | _ \<Rightarrow> None)"

text \<open>An array is an object to \<open>typeof\<close>, without these properties.\<close>

definition readRetryAfter :: "json \<Rightarrow> int option" where
  "readRetryAfter raw =
     (case raw of
        JObj body \<Rightarrow>
          (case pick_seconds (ob_get body ''retry_after_s'') of
             Some n \<Rightarrow> Some n
           | None \<Rightarrow> pick_seconds (ob_get (record_or_empty (ob_get body ''detail'')) ''retry_after_s''))
      | _ \<Rightarrow> None)"

abbreviation apostrophe :: string where
  "apostrophe \<equiv> [CHR 0x92]"

definition startErrorText :: "StartFailure \<Rightarrow> string \<times> bool" where
  "startErrorText f =
     (if sf_code f = Some ''ivr_assist_not_enabled''
      then (''The flow assistant isn'' @ apostrophe @ ''t available for this account. You can keep building by hand.'', True)
      else if sf_code f = Some ''assist_busy''
      then (''The flow assistant is already working on a request for this flow. Try again in a minute.'', False)
      else if sf_code f = Some ''assist_rate_limited''
      then (case sf_retryAfterS f of
              Some n \<Rightarrow>
                if n = 0 then (''That'' @ apostrophe @ ''s a lot of requests in a row. Try again in a minute.'', False)
                else (''That'' @ apostrophe @ ''s a lot of requests in a row. Try again in '' @ int_str n @ '' second''
                        @ (if n = 1 then '''' else ''s'') @ ''.'', False)
            | None \<Rightarrow> (''That'' @ apostrophe @ ''s a lot of requests in a row. Try again in a minute.'', False))
      else if sf_code f = Some ''assist_daily_limit''
      then (''You'' @ apostrophe @ ''ve reached today'' @ apostrophe @ ''s limit for the flow assistant. You can keep building by hand.'', False)
      else if sf_code f = Some ''ivr_not_enabled''
      then (''IVR isn'' @ apostrophe @ ''t switched on for this account.'', True)
      else if sf_status f = Some 404
      then (''This flow doesn'' @ apostrophe @ ''t exist any more. Go back to IVR and open it again.'', True)
      else if sf_status f = Some 403
      then (''You don'' @ apostrophe @ ''t have permission to use the flow assistant on this flow.'', True)
      else if sf_status f = Some 422
      then (''The flow assistant couldn'' @ apostrophe @ ''t take that request. Shorten it and try again.'', False)
      else (the (JOB_ERROR_TEXT ''assistant_unavailable''), False))"

section \<open>The invariant of the conversation\<close>

fun is_shown :: "Turn \<Rightarrow> bool" where
  "is_shown (ProposalTurn i j text Shown) = True"
| "is_shown _ = False"

text \<open>Turn ids grow; the proposal on the canvas is the one turn that reads as shown; refining names it.\<close>

definition conversation_ok :: "ConversationState \<Rightarrow> bool" where
  "conversation_ok s \<longleftrightarrow>
     sorted_wrt (<) (map turn_id (turns s)) \<and> list_all (\<lambda>t. turn_id t < nextId s) (turns s)
     \<and> map turn_job (filter is_shown (turns s)) = (case proposal s of None \<Rightarrow> [] | Some (job, r) \<Rightarrow> [job])
     \<and> (refineOf s = None \<or> refineOf s = map_option fst (proposal s))"

lemma turn_id_mark [simp]: "turn_id (mark_turn job st t) = turn_id t"
  by (induction job st t rule: mark_turn.induct) simp_all

lemma turn_ids_mark [simp]: "map turn_id (markProposal ts job st) = map turn_id ts"
  by (simp add: markProposal_def)

lemma is_shown_iff: "is_shown t \<longleftrightarrow> (\<exists>i j text. t = ProposalTurn i j text Shown)"
  by (cases t rule: is_shown.cases) simp_all

lemma mark_shown:
  "st \<noteq> Shown \<Longrightarrow> is_shown (mark_turn job st t) \<longleftrightarrow> is_shown t \<and> job \<noteq> None \<and> job \<noteq> Some (turn_job t)"
  by (cases "(job, st, t)" rule: mark_turn.cases) (auto simp: is_shown_iff)

lemma filter_mark:
  assumes "st \<noteq> Shown"
  shows "map turn_job (filter is_shown (markProposal ts job st))
    = filter (\<lambda>j. job \<noteq> None \<and> job \<noteq> Some j) (map turn_job (filter is_shown ts))"
proof -
  have same: "turn_job (mark_turn job st t) = turn_job t" if "is_shown t" for t using that by (auto simp: is_shown_iff)
  show ?thesis
  proof (induction ts)
    case (Cons t ts)
    then show ?case using same [of t] by (auto simp: markProposal_def mark_shown [OF assms])
  qed (simp add: markProposal_def)
qed

lemma conversation_step: "conversation_ok s \<Longrightarrow> conversation_ok (conversationReducer s a)"
proof -
  assume s: "conversation_ok s"
  have ap: "sorted_wrt (<) (map turn_id ts @ [n]) \<longleftrightarrow> sorted_wrt (<) (map turn_id ts) \<and> list_all (\<lambda>t. turn_id t < n) ts" for ts n
    by (auto simp: sorted_wrt_append list_all_iff)
  have less: "list_all (\<lambda>t. turn_id t < n) (markProposal ts job st) = list_all (\<lambda>t. turn_id t < n) ts" for n ts job st
    by (simp add: markProposal_def list_all_iff)
  have le: "list_all (\<lambda>t. turn_id t < n) ts \<Longrightarrow> list_all (\<lambda>t. turn_id t < Suc n) ts" for n ts
    by (auto simp: list_all_iff)
  show ?thesis
  proof (cases "(s, a)" rule: conversationReducer.cases)
    case (4 s' job r)
    then show ?thesis using s
      by (auto simp: conversation_ok_def say_def append_turn_def ap less le filter_mark)
  next
    case (13 s')
    then show ?thesis using s by (auto simp: conversation_ok_def say_def less filter_mark split: option.splits)
  next
    case (12 s')
    then show ?thesis using s by (auto simp: conversation_ok_def say_def less filter_mark split: option.splits)
  qed (use s in \<open>auto simp: conversation_ok_def say_def append_turn_def initialConversation_def ap le split: option.splits\<close>)
qed

end
