(* ===== verification/Assist_Laws.thy ===== *)
theory Assist_Laws
  imports Conversation Graph_Laws
begin

text \<open>
  Facts about the Flow assistant's model: which values of a graph are placeholder ids, what substitution
  and the Tidy positions do to them, how the creation loop splits its work, and that the panel's state
  keeps its invariant.
\<close>

section \<open>Mapping with errors\<close>

lemma mapE_Inr: "mapE f xs = Inr ys \<Longrightarrow> list_all2 (\<lambda>x y. f x = Inr y) xs ys"
  by (induction xs arbitrary: ys) (auto simp: list_all2_Cons1 split: sum.splits)

lemma mapE_ok: "(\<exists>ys. mapE f xs = Inr ys) \<longleftrightarrow> (\<forall>x \<in> set xs. \<exists>y. f x = Inr y)"
  by (induction xs) (auto split: sum.splits)

section \<open>Placeholders of a graph\<close>

definition prompt_values :: "obj \<Rightarrow> json set" where
  "prompt_values c = (\<Union>key \<in> set PROMPT_KEYS. set (array_or_empty (ob_get c key)))"

definition node_values :: "json \<Rightarrow> json set" where
  "node_values node = (case configOf node of Inr (Some c) \<Rightarrow> prompt_values c | _ \<Rightarrow> {})"

text \<open>Numbers as JSON text can give them.\<close>

definition readable :: "obj \<Rightarrow> bool" where
  "readable g \<longleftrightarrow> JNull \<notin> set (graph_nodes g) \<and> (\<forall>node \<in> set (graph_nodes g). JNum NaN \<notin> node_values node)"

lemma configOf_Inr: "(\<exists>c. configOf node = Inr c) \<longleftrightarrow> node \<noteq> JNull"
  by (cases node) auto

lemma collect_ids: "set (fold collect_id xs out) = set out \<union> {i. JNum i \<in> set xs \<and> js_neg i}"
proof (induction xs arbitrary: out)
  case (Cons x xs)
  then show ?case by (cases x) auto
qed simp

lemma set_collect_config: "set (collect_config c out) = set out \<union> {i. JNum i \<in> prompt_values c \<and> js_neg i}"
proof -
  have "set (fold (\<lambda>key. fold collect_id (array_or_empty (ob_get c key))) keys out)
      = set out \<union> {i. JNum i \<in> (\<Union>key \<in> set keys. set (array_or_empty (ob_get c key))) \<and> js_neg i}" for keys
    by (induction keys arbitrary: out) (auto simp: collect_ids)
  then show ?thesis by (simp add: collect_config_def prompt_values_def)
qed

lemma placeholders_loop_set:
  "placeholders_loop nodes out = Inr used \<Longrightarrow>
     JNull \<notin> set nodes \<and> set used = set out \<union> {i. js_neg i \<and> (\<exists>node \<in> set nodes. JNum i \<in> node_values node)}"
proof (induction nodes out rule: placeholders_loop.induct)
  case (2 node nodes out)
  have nn: "node \<noteq> JNull" using "2.prems" by auto
  show ?case
  proof (cases "configOf node")
    case (Inr c)
    show ?thesis
    proof (cases c)
      case None
      then show ?thesis using 2 Inr nn by (auto simp: node_values_def)
    next
      case (Some c')
      then show ?thesis using 2 Inr nn by (auto simp: node_values_def set_collect_config)
    qed
  qed (use 2 in simp)
qed simp

lemma placeholders_loop_ok: "JNull \<notin> set nodes \<Longrightarrow> \<exists>used. placeholders_loop nodes out = Inr used"
proof (induction nodes out rule: placeholders_loop.induct)
  case (2 node nodes out)
  then obtain c where c: "configOf node = Inr c" using configOf_Inr [of node] by auto
  then show ?case using 2 by (cases c) auto
qed simp

section \<open>Swapping\<close>

lemma swap_ok: "(\<exists>v'. swap m v = Inr v') \<longleftrightarrow> (\<forall>i. v = JNum i \<and> \<not> js_nonneg i \<longrightarrow> ob_get m i \<noteq> None)"
  by (cases v) (auto split: option.splits)

lemma swap_clean: "swap m v = Inr v' \<Longrightarrow> \<forall>i \<in> set (map snd m). js_nonneg i \<Longrightarrow> v' = JNum i \<Longrightarrow> js_nonneg i"
  by (cases v) (fastforce split: if_splits option.splits dest: map_of_SomeD)+

lemma swap_keys_ok:
  "(\<exists>next'. swap_keys m c keys next = Inr next') \<longleftrightarrow>
     (\<forall>key \<in> set keys. \<forall>v \<in> set (array_or_empty (ob_get c key)). \<exists>v'. swap m v = Inr v')"
proof (induction keys arbitrary: "next")
  case (Cons key keys)
  show ?case
  proof (cases "\<exists>xs. ob_get c key = Some (JArr xs)")
    case True
    then obtain xs where xs: "ob_get c key = Some (JArr xs)" by blast
    then have a: "array_or_empty (ob_get c key) = xs" by (simp add: array_or_empty_def)
    show ?thesis
    proof (cases "mapE (swap m) xs")
      case (Inl e)
      then have "\<not> (\<forall>v \<in> set xs. \<exists>v'. swap m v = Inr v')" using mapE_ok [of "swap m" xs] by auto
      then show ?thesis using Inl xs a by auto
    next
      case (Inr ys)
      then have "\<forall>v \<in> set xs. \<exists>v'. swap m v = Inr v'" using mapE_ok [of "swap m" xs] by auto
      then show ?thesis using Cons [of "ob_set next key (JArr ys)"] Inr xs a by simp
    qed
  next
    case False
    then have "swap_keys m c (key # keys) next = swap_keys m c keys next" "array_or_empty (ob_get c key) = []"
      by (auto simp: array_or_empty_def split: option.splits json.splits)
    then show ?thesis using Cons by simp
  qed
qed simp

definition swapped :: "mapping \<Rightarrow> obj \<Rightarrow> obj \<Rightarrow> string \<Rightarrow> json option" where
  "swapped m c next k = (case ob_get c k of Some (JArr xs) \<Rightarrow> (case mapE (swap m) xs of Inr ys \<Rightarrow> Some (JArr ys) | Inl e \<Rightarrow> None)
     | _ \<Rightarrow> ob_get next k)"

lemma swap_keys_get:
  "swap_keys m c keys next = Inr next' \<Longrightarrow> distinct keys \<Longrightarrow>
     ob_get next' k = (if k \<in> set keys then swapped m c next k else ob_get next k)"
proof (induction keys arbitrary: "next")
  case (Cons key keys)
  show ?case
  proof (cases "\<exists>xs. ob_get c key = Some (JArr xs)")
    case True
    then obtain xs where xs: "ob_get c key = Some (JArr xs)" by blast
    then obtain ys where ys: "mapE (swap m) xs = Inr ys" using "Cons.prems" by (auto split: sum.splits)
    then have "swap_keys m c keys (ob_set next key (JArr ys)) = Inr next'" using "Cons.prems"(1) xs by simp
    from Cons.IH [OF this] show ?thesis using "Cons.prems"(2) xs ys
      by (auto simp: ob_simps swapped_def split: option.splits json.splits)
  next
    case False
    then have "swap_keys m c keys next = Inr next'" using "Cons.prems"(1) by (auto split: option.splits json.splits)
    from Cons.IH [OF this] show ?thesis using "Cons.prems"(2) False by (auto simp: swapped_def split: option.splits json.splits)
  qed
qed simp

lemma distinct_PROMPT_KEYS: "distinct PROMPT_KEYS"
  by (simp add: PROMPT_KEYS_def)

lemma swap_keys_values:
  assumes "swap_keys m c PROMPT_KEYS c = Inr next'" and m: "\<forall>i \<in> set (map snd m). js_nonneg i"
    and v: "JNum i \<in> prompt_values next'"
  shows "js_nonneg i"
proof -
  obtain key where key: "key \<in> set PROMPT_KEYS" "JNum i \<in> set (array_or_empty (ob_get next' key))"
    using v by (auto simp: prompt_values_def)
  have "ob_get next' key = swapped m c c key" using swap_keys_get [OF assms(1) distinct_PROMPT_KEYS] key(1) by simp
  then obtain xs ys where xs: "mapE (swap m) xs = Inr ys" "JNum i \<in> set ys"
    using key(2) by (auto simp: swapped_def array_or_empty_def split: option.splits json.splits sum.splits)
  then obtain v where "swap m v = Inr (JNum i)" using mapE_Inr [OF xs(1)] by (auto simp: list_all2_conv_all_nth in_set_conv_nth)
  then show ?thesis using swap_clean m by blast
qed

lemma js_neg_nonneg: "js_neg i \<Longrightarrow> \<not> js_nonneg i"
  by (cases i) auto

lemma no_array: "\<not> is_array v \<Longrightarrow> array_or_empty v = []"
  by (auto simp: is_array_def array_or_empty_def split: option.splits json.splits)

lemma no_prompt_values: "\<not> list_ex (\<lambda>k. is_array (ob_get d k)) PROMPT_KEYS \<Longrightarrow> prompt_values d = {}"
  by (auto simp: prompt_values_def list_ex_iff no_array)

lemma swap_node_Inr:
  assumes "swap_node m node = Inr node'" and m: "\<forall>i \<in> set (map snd m). js_nonneg i"
  shows "node' \<noteq> JNull" "JNum i \<in> node_values node' \<Longrightarrow> \<not> js_neg i"
proof -
  obtain c where c: "configOf node = Inr c" using assms(1) by (auto split: sum.splits)
  have ok: "node' \<noteq> JNull \<and> (JNum i \<in> node_values node' \<longrightarrow> \<not> js_neg i)"
  proof (cases "\<exists>d. c = Some d \<and> list_ex (\<lambda>k. is_array (ob_get d k)) PROMPT_KEYS")
    case True
    then obtain d where d: "c = Some d" "list_ex (\<lambda>k. is_array (ob_get d k)) PROMPT_KEYS" by blast
    obtain ob where ob: "node = JObj ob" using c d(1) by (cases node) auto
    obtain next' where n: "swap_keys m d PROMPT_KEYS d = Inr next'"
      and node': "node' = JObj (ob_set ob ''data'' (JObj (ob_set (record_or_empty (ob_get ob ''data'')) ''config'' (JObj next'))))"
      using assms(1) c d ob by (auto split: sum.splits)
    have "configOf node' = Inr (Some next')" by (simp add: node' ob_simps)
    then have "node_values node' = prompt_values next'" by (simp add: node_values_def)
    then show ?thesis using swap_keys_values [OF n m] node' js_neg_nonneg by auto
  next
    case False
    then have node': "node' = node" using assms(1) c by (auto split: option.splits if_splits)
    have "prompt_values d = {}" if "c = Some d" for d
      using False that by (intro no_prompt_values) blast
    then show ?thesis using c node' configOf_Inr [of node] by (auto simp: node_values_def split: option.splits)
  qed
  then show "node' \<noteq> JNull" "JNum i \<in> node_values node' \<Longrightarrow> \<not> js_neg i" by auto
qed

lemma swap_node_ok:
  "(\<exists>node'. swap_node m node = Inr node') \<longleftrightarrow> node \<noteq> JNull \<and> (\<forall>v \<in> node_values node. \<exists>v'. swap m v = Inr v')"
proof (cases "configOf node")
  case (Inl e)
  then show ?thesis using configOf_Inr [of node] by auto
next
  case (Inr c)
  then have nn: "node \<noteq> JNull" by auto
  show ?thesis
  proof (cases c)
    case None
    then show ?thesis using Inr nn by (simp add: node_values_def)
  next
    case (Some d)
    then obtain ob where ob: "node = JObj ob" using Inr by (cases node) auto
    have vals: "node_values node = prompt_values d" using Inr Some by (simp add: node_values_def)
    show ?thesis
    proof (cases "list_ex (\<lambda>k. is_array (ob_get d k)) PROMPT_KEYS")
      case True
      have "(\<exists>node'. swap_node m node = Inr node') \<longleftrightarrow> (\<exists>next'. swap_keys m d PROMPT_KEYS d = Inr next')"
        using Inr Some True ob by (auto split: sum.splits)
      then show ?thesis using swap_keys_ok [of m d PROMPT_KEYS d] nn vals by (auto simp: prompt_values_def)
    next
      case False
      then have "prompt_values d = {}" by (rule no_prompt_values)
      then show ?thesis using Inr Some False nn vals by simp
    qed
  qed
qed


section \<open>Accept\<close>

lemma substitute_ok:
  assumes r: "readable g" and ids: "placeholderIds g = Inr used"
  shows "(\<exists>g'. substitutePlaceholders g m = Inr g') \<longleftrightarrow> (\<forall>i \<in> set used. ob_get m i \<noteq> None)"
proof -
  have used: "set used = {i. js_neg i \<and> (\<exists>node \<in> set (graph_nodes g). JNum i \<in> node_values node)}"
    using placeholders_loop_set [of "graph_nodes g" "[]" used] ids by (simp add: placeholderIds_def)
  have neg: "js_neg i \<longleftrightarrow> \<not> js_nonneg i" if "JNum i \<in> node_values node" "node \<in> set (graph_nodes g)" for i node
  proof -
    have "i \<noteq> NaN" using r that by (auto simp: readable_def)
    then show ?thesis by (cases i) auto
  qed
  have "(\<exists>g'. substitutePlaceholders g m = Inr g') \<longleftrightarrow> (\<exists>ns. mapE (swap_node m) (graph_nodes g) = Inr ns)"
    by (auto simp: substitutePlaceholders_def split: sum.splits)
  also have "\<dots> \<longleftrightarrow> (\<forall>node \<in> set (graph_nodes g). \<forall>v \<in> node_values node. \<exists>v'. swap m v = Inr v')"
    using r unfolding mapE_ok swap_node_ok readable_def by blast
  also have "\<dots> \<longleftrightarrow> (\<forall>i \<in> set used. ob_get m i \<noteq> None)"
    unfolding swap_ok used using neg by blast
  finally show ?thesis .
qed

lemma substitute_clean:
  assumes "substitutePlaceholders g m = Inr g'" and "\<forall>i \<in> set (map snd m). js_nonneg i"
  shows "placeholderIds g' = Inr []"
proof -
  obtain ns where ns: "mapE (swap_node m) (graph_nodes g) = Inr ns" "g' = ob_set g ''nodes'' (JArr ns)"
    using assms(1) by (auto simp: substitutePlaceholders_def split: sum.splits)
  have from_node: "\<exists>node. swap_node m node = Inr node'" if "node' \<in> set ns" for node'
    using mapE_Inr [OF ns(1)] that by (auto simp: list_all2_conv_all_nth in_set_conv_nth)
  have nodes: "graph_nodes g' = ns" by (simp add: ns(2) ob_simps array_or_empty_def)
  have "JNull \<notin> set ns" using from_node swap_node_Inr(1) assms(2) by blast
  then obtain used where used: "placeholders_loop ns [] = Inr used" using placeholders_loop_ok by blast
  have "\<not> js_neg i" if n: "node' \<in> set ns" "JNum i \<in> node_values node'" for i node'
  proof -
    obtain node where "swap_node m node = Inr node'" using from_node [OF n(1)] by blast
    from swap_node_Inr(2) [OF this assms(2) n(2)] show ?thesis .
  qed
  then have "set used = {}" using placeholders_loop_set [OF used] by auto
  then show ?thesis using used nodes by (simp add: placeholderIds_def)
qed

lemma create_loop_split:
  "create_loop create qs m = (m', err) \<Longrightarrow>
     (\<exists>made rest. qs = made @ rest \<and> list_all (\<lambda>q. \<exists>i. create q = Inr i) made
        \<and> (\<forall>i. ob_get m' i \<noteq> None \<longleftrightarrow> ob_get m i \<noteq> None \<or> i \<in> np_id ` set made)
        \<and> (\<forall>i. i \<notin> np_id ` set made \<longrightarrow> ob_get m' i = ob_get m i)
        \<and> (rest = [] \<and> err = None \<or> (\<exists>q cause. rest \<noteq> [] \<and> q = hd rest \<and> create q = Inl cause \<and> err = Some (PromptCreateError q cause))))"
proof (induction create qs m arbitrary: m' err rule: create_loop.induct)
  case (2 create q qs m)
  show ?case
  proof (cases "create q")
    case (Inl e)
    then show ?thesis using "2.prems" by (intro exI [of _ "[]"] exI [of _ "q # qs"]) auto
  next
    case (Inr i)
    then have "create_loop create qs (ob_set m (np_id q) i) = (m', err)" using "2.prems" by simp
    from 2(1) [OF Inr this] obtain made rest where *:
      "qs = made @ rest" "list_all (\<lambda>q. \<exists>i. create q = Inr i) made"
      "\<forall>j. ob_get m' j \<noteq> None \<longleftrightarrow> ob_get (ob_set m (np_id q) i) j \<noteq> None \<or> j \<in> np_id ` set made"
      "\<forall>j. j \<notin> np_id ` set made \<longrightarrow> ob_get m' j = ob_get (ob_set m (np_id q) i) j"
      "rest = [] \<and> err = None \<or> (\<exists>q cause. rest \<noteq> [] \<and> q = hd rest \<and> create q = Inl cause \<and> err = Some (PromptCreateError q cause))"
      by blast
    show ?thesis
      by (rule exI [of _ "q # made"], rule exI [of _ rest]) (use * Inr in \<open>auto simp: ob_simps\<close>)
  qed
qed auto

lemma swap_Inl: "swap m v = Inl e \<Longrightarrow> \<exists>i. v = JNum i \<and> \<not> js_nonneg i \<and> ob_get m i = None \<and> e = MissingMessageError i"
  by (cases v) (auto split: if_splits option.splits)

lemma mapE_Inl: "mapE f xs = Inl e \<Longrightarrow> \<exists>x \<in> set xs. f x = Inl e"
  by (induction xs) (auto split: sum.splits)

lemma swap_keys_Inl:
  "swap_keys m c keys next = Inl e \<Longrightarrow> \<exists>key \<in> set keys. \<exists>v \<in> set (array_or_empty (ob_get c key)). swap m v = Inl e"
proof (induction keys arbitrary: "next")
  case (Cons key keys)
  show ?case
  proof (cases "\<exists>xs. ob_get c key = Some (JArr xs) \<and> mapE (swap m) xs = Inl e")
    case True
    then obtain xs where xs: "ob_get c key = Some (JArr xs)" "mapE (swap m) xs = Inl e" by blast
    then show ?thesis using mapE_Inl [OF xs(2)] by (auto simp: array_or_empty_def)
  next
    case False
    then obtain next' where "swap_keys m c keys next' = Inl e"
      using Cons.prems by (auto split: option.splits json.splits sum.splits)
    then show ?thesis using Cons.IH by auto
  qed
qed simp

lemma swap_node_Inl:
  "swap_node m node = Inl e \<Longrightarrow> node \<noteq> JNull \<Longrightarrow> \<exists>v \<in> node_values node. swap m v = Inl e"
  using configOf_Inr [of node]
  by (auto simp: node_values_def prompt_values_def split: option.splits if_splits sum.splits json.splits dest!: swap_keys_Inl)

definition same_configs :: "json list \<Rightarrow> json list \<Rightarrow> bool" where
  "same_configs = list_all2 (\<lambda>a b. configOf a = configOf b)"

lemma placeholders_same_configs:
  "same_configs ns ns' \<Longrightarrow> placeholders_loop ns out = placeholders_loop ns' out"
proof (induction ns arbitrary: ns' out)
  case (Cons n ns)
  then obtain n' ns'' where ns': "ns' = n' # ns''" "configOf n = configOf n'" "same_configs ns ns''"
    by (auto simp: same_configs_def list_all2_Cons1)
  then show ?case using Cons.IH [OF ns'(3)] by (auto split: sum.splits option.splits)
qed (simp add: same_configs_def)

lemma place_raw_config: "place_raw pos n = Inr n' \<Longrightarrow> configOf n = configOf n'"
  by (cases n) (auto simp: ob_simps split: option.splits json.splits)

lemma place_raw_ok: "n \<noteq> JNull \<Longrightarrow> \<exists>n'. place_raw pos n = Inr n'"
  by (cases n) auto

lemma tidy_placeholders:
  assumes "JNull \<notin> set (graph_nodes g)"
  shows "\<exists>g'. withTidyPositions nano k g = Inr g' \<and> placeholderIds g' = placeholderIds g"
proof -
  define pos where "pos = (let (work, k') = fromGraph nano k (Some (JObj g)) in tidyLayout (wg_nodes work) (wg_edges work))"
  have "\<exists>ns. mapE (place_raw pos) (graph_nodes g) = Inr ns"
    unfolding mapE_ok using assms place_raw_ok by metis
  then obtain ns where ns: "mapE (place_raw pos) (graph_nodes g) = Inr ns" by blast
  have "same_configs (graph_nodes g) ns"
    unfolding same_configs_def using mapE_Inr [OF ns] by (rule list_all2_mono) (rule place_raw_config)
  from placeholders_same_configs [OF this] ns show ?thesis
    by (auto simp: withTidyPositions_def pos_def placeholderIds_def Let_def ob_simps array_or_empty_def split: prod.splits)
qed

lemma newPrompts_loop_ids:
  "distinct (map np_id (newPrompts_loop seen vs)) \<and> np_id ` set (newPrompts_loop seen vs) \<inter> set seen = {}
     \<and> list_all (\<lambda>q. js_neg (np_id q)) (newPrompts_loop seen vs)"
proof (induction seen vs rule: newPrompts_loop.induct)
  case (2 seen v vs)
  have new: "js_neg (np_id q) \<and> np_id q \<notin> set seen" if "new_prompt seen v = Some q" for q
    using that by (cases "np_id q") (auto simp: new_prompt_def split: json.splits option.splits if_splits)
  show ?case
  proof (cases "new_prompt seen v")
    case None
    then show ?thesis using 2(1) by simp
  next
    case (Some q)
    then show ?thesis using 2(2) [OF Some] new [OF Some] by auto
  qed
qed simp

lemma parsed_proposal:
  assumes "parseAssistResult raw = Some (Proposal p)"
  shows "distinct (map np_id (ap_new_prompts p))" "list_all (\<lambda>q. js_neg (np_id q)) (ap_new_prompts p)"
proof -
  obtain v where "ap_new_prompts p = newPrompts v"
    using assms by (auto simp: parseAssistResult_def Let_def split: option.splits json.splits if_splits)
  then show "distinct (map np_id (ap_new_prompts p))" "list_all (\<lambda>q. js_neg (np_id q)) (ap_new_prompts p)"
    using newPrompts_loop_ids by (simp_all add: newPrompts_def)
qed

lemma accept_steps:
  assumes r: "readable g" and ids: "placeholderIds g = Inr used" and m: "\<forall>i \<in> set (map snd m). js_nonneg i"
  shows "case acceptedGraph nano k g m of
      Inr g' \<Rightarrow> (\<forall>i \<in> set used. ob_get m i \<noteq> None) \<and> placeholderIds g' = Inr [] \<and> ob_get g' ''viewport'' = None
    | Inl e \<Rightarrow> (\<exists>i \<in> set used. ob_get m i = None \<and> e = MissingMessageError i)"
proof (cases "substitutePlaceholders g m")
  case (Inl e)
  then have *: "mapE (swap_node m) (graph_nodes g) = Inl e" by (auto simp: substitutePlaceholders_def split: sum.splits)
  obtain node where node: "node \<in> set (graph_nodes g)" "swap_node m node = Inl e" using mapE_Inl [OF *] by blast
  then have "node \<noteq> JNull" using r by (auto simp: readable_def)
  then obtain v where v: "v \<in> node_values node" "swap m v = Inl e" using swap_node_Inl [OF node(2)] by blast
  then obtain i where i: "v = JNum i" "\<not> js_nonneg i" "ob_get m i = None" "e = MissingMessageError i" using swap_Inl by blast
  have "i \<noteq> NaN" using r node(1) v(1) i(1) by (auto simp: readable_def)
  then have "js_neg i" using i(2) by (cases i) auto
  then have "i \<in> set used"
    using placeholders_loop_set [of "graph_nodes g" "[]" used] ids node(1) v(1) i(1) by (auto simp: placeholderIds_def)
  then show ?thesis using Inl i by (auto simp: acceptedGraph_def)
next
  case (Inr g1)
  have all: "\<forall>i \<in> set used. ob_get m i \<noteq> None" using substitute_ok [OF r ids, of m] Inr by auto
  have none: "placeholderIds g1 = Inr []" by (rule substitute_clean [OF Inr m])
  then have "JNull \<notin> set (graph_nodes g1)"
    using placeholders_loop_set [of "graph_nodes g1" "[]" "[]"] by (auto simp: placeholderIds_def)
  then obtain g2 where g2: "withTidyPositions nano k g1 = Inr g2" "placeholderIds g2 = placeholderIds g1"
    using tidy_placeholders by blast
  have keep: "ob_get (filter (\<lambda>p. fst p \<noteq> ''viewport'') g2) key = (if key = ''viewport'' then None else ob_get g2 key)" for key
    by (induction g2) auto
  show ?thesis using Inr g2 all none keep [of "''nodes''"] keep [of "''viewport''"]
    by (simp add: acceptedGraph_def placeholderIds_def)
qed

lemma conversation_reachable: "conversation_ok (foldl conversationReducer initialConversation acts)"
proof (induction acts rule: rev_induct)
  case Nil
  then show ?case by (simp add: conversation_ok_def initialConversation_def)
qed (simp add: conversation_step)

end
