(* ===== verification/Assist_Props.thy ===== *)
theory Assist_Props
  imports Assist_Laws
begin

text \<open>
  What the Flow assistant guarantees: an accepted draft holds no placeholder id, a retry of Accept makes
  no message twice, and the panel asks about the proposal it shows.
\<close>

section \<open>A sample proposal\<close>

definition sample_graph :: obj where
  "sample_graph = [(''nodes'', JArr [JObj [(''id'', JStr ''n1''), (''type'', JStr ''menu''),
        (''data'', JObj [(''config'', JObj [(''prompts'', JArr [JNum (Fin (-1)), JNum (Fin 7), JNum (Fin (-2))])])])]]),
        (''edges'', JArr [])]"

definition sample_raw :: obj where
  "sample_raw = [(''kind'', JStr ''proposal''), (''draft_graph'', JObj sample_graph),
     (''new_prompts'', JArr [JObj [(''placeholder_id'', JNum (Fin (-1))), (''name'', JStr ''Hi''), (''text'', JStr ''Welcome'')],
        JObj [(''placeholder_id'', JNum (Fin (-2))), (''name'', JStr ''Keys''), (''text'', JStr ''Press one'')]])]"

definition sample_prompts :: "AssistNewPrompt list" where
  "sample_prompts = [\<lparr>np_id = Fin (-1), np_name = ''Hi'', np_text = ''Welcome''\<rparr>,
     \<lparr>np_id = Fin (-2), np_name = ''Keys'', np_text = ''Press one''\<rparr>]"

definition sample_proposal :: AssistProposal where
  "sample_proposal = \<lparr>ap_graph = sample_graph, ap_new_prompts = sample_prompts, ap_summary = '''', ap_assumptions = [],
     ap_issues = [], ap_warnings = []\<rparr>"

definition sample_create :: "AssistNewPrompt \<Rightarrow> string + jsnum" where
  "sample_create q = (if np_name q = ''Hi'' then Inr (Fin 9) else Inl ''offline'')"

lemma sample_graph_ids: "placeholderIds sample_graph = Inr [Fin (-1), Fin (-2)]"
  by (simp add: placeholderIds_def sample_graph_def array_or_empty_def collect_config_def PROMPT_KEYS_def)

lemma sample_readable: "readable sample_graph"
  by (simp add: readable_def sample_graph_def array_or_empty_def node_values_def prompt_values_def PROMPT_KEYS_def)

lemma sample_texts: "trim ''Hi'' = ''Hi''" "trim ''Keys'' = ''Keys''" "trim ''Welcome'' = ''Welcome''" "trim ''Press one'' = ''Press one''"
  by code_simp+

lemma sample_lists: "is_array (ob_get sample_graph ''nodes'')" "is_array (ob_get sample_graph ''edges'')"
  by (simp_all add: sample_graph_def is_array_def)

lemma sample_new: "newPrompts (ob_get sample_raw ''new_prompts'') = sample_prompts"
  by (simp add: sample_raw_def sample_prompts_def newPrompts_def new_prompt_def array_or_empty_def sample_texts)

lemma sample_parsed: "parseAssistResult (Some (JObj sample_raw)) = Some (Proposal sample_proposal)"
  using sample_new sample_lists
  by (simp add: sample_raw_def sample_proposal_def parseAssistResult_def array_or_empty_def issues_def spoken_strs_def
      strs_def str_or_def map_filter_simps)

definition sample_actions :: "ConversationAction list" where
  "sample_actions = [Send, Started ''j1'' ''c1'' ''a menu'' False 0, Done ''j1'' (Proposal sample_proposal), Refine]"

section \<open>Properties\<close>

text \<open>C11. Accept of a proposal writes a draft without a placeholder id and without a stored camera exactly
  when every placeholder the graph uses has a real message id; otherwise it throws
  \<open>MissingMessageError\<close> naming a placeholder that has none, and writes nothing.\<close>

theorem accept_never_saves_placeholder:
  assumes "readable g" and "placeholderIds g = Inr used" and "\<forall>i \<in> set (map snd m). js_nonneg i"
  shows "case acceptedGraph nano k g m of
      Inr g' \<Rightarrow> (\<forall>i \<in> set used. ob_get m i \<noteq> None) \<and> placeholderIds g' = Inr [] \<and> ob_get g' ''viewport'' = None
    | Inl e \<Rightarrow> (\<exists>i \<in> set used. ob_get m i = None \<and> e = MissingMessageError i)"
  by (rule accept_steps [OF assms])

theorem accept_never_saves_placeholder_witness:
  "readable sample_graph \<and> placeholderIds sample_graph = Inr [Fin (-1), Fin (-2)]
   \<and> (case acceptedGraph (\<lambda>n. ''x'') 0 sample_graph [(Fin (-1), Fin 9)] of
        Inr g' \<Rightarrow> False
      | Inl e \<Rightarrow> e = MissingMessageError (Fin (-2)))"
  using accept_never_saves_placeholder [OF sample_readable sample_graph_ids, of "[(Fin (-1), Fin 9)]" "\<lambda>n. ''x''" 0]
  by (auto simp: sample_readable sample_graph_ids split: sum.splits)



text \<open>C32. Whatever happens in the panel, its turns keep increasing ids below the next one, the proposal on the
  canvas is the one turn marked as shown, and refining is of that proposal only; when the composer is open
  the request refines the shown proposal if there is one and carries the draft if there is none.\<close>

theorem conversation_requests:
  "let s = foldl conversationReducer initialConversation acts; req = buildStartRequest text s draft in
     conversation_ok s
     \<and> (canCompose s \<and> '''' \<notin> fst ` set_option (proposal s) \<longrightarrow>
          sr_refine_job_id req = map_option fst (proposal s)
          \<and> sr_draft_graph req = (if proposal s = None then Some draft else None))"
proof -
  define s where "s = foldl conversationReducer initialConversation acts"
  have "conversation_ok s" unfolding s_def by (rule conversation_reachable)
  moreover have "refineOf s = map_option fst (proposal s)" if "canCompose s"
    using that calculation by (auto simp: canCompose_def conversation_ok_def split: option.splits)
  ultimately show ?thesis unfolding s_def [symmetric] Let_def
    by (auto simp: buildStartRequest_def split: option.splits)
qed

theorem conversation_requests_witness:
  "let s = foldl conversationReducer initialConversation sample_actions; draft = fst (emptyGraph (\<lambda>n. ''x'') 0);
       req = buildStartRequest ''shorter'' s draft in
     canCompose s \<and> proposal s = Some (''j1'', sample_proposal) \<and> sr_refine_job_id req = Some ''j1'' \<and> sr_draft_graph req = None"
proof -
  have s: "canCompose (foldl conversationReducer initialConversation sample_actions)"
    "proposal (foldl conversationReducer initialConversation sample_actions) = Some (''j1'', sample_proposal)"
    by (simp_all add: sample_actions_def canCompose_def say_def append_turn_def running_job_def initialConversation_def)
  then show ?thesis using conversation_requests [of sample_actions "''shorter''" "fst (emptyGraph (\<lambda>n. ''x'') 0)"]
    by (simp add: Let_def)
qed

end
