(* ===== verification/Ladder_Order.thy ===== *)
theory Ladder_Order
  imports JS_Text "HOL-Library.Product_Lexorder" "HOL-Library.Multiset"
begin

text \<open>
  The column order of the SIP ladder (\<open>components/sip-ladder/ladderOrder.ts\<close>): the four passes of
  \<open>orderLadderColumns\<close> over the participants and the wire messages. Ranks are the source's numbers,
  multiples of a quarter, as exact rationals; its maps are HOL maps and its sets are sets.
\<close>

section \<open>Types and ranks\<close>

datatype NodeRole = Carrier_ingress | Sbc_vip | Sbc | Media_server | Carrier_egress | Unknown_node

record OrderParticipant =
  op_id :: string
  op_role :: NodeRole

record OrderWireMessage =
  om_src :: string
  om_dst :: string
  om_isInviteRequest :: bool

datatype EndpointTag = Orig_tag | Term_tag

record OrderedColumns =
  orderedIds :: "string list"
  bLegInsertIndex :: nat
  endpointTags :: "string \<rightharpoonup> EndpointTag"

type_synonym ranks = "string \<rightharpoonup> rat"

definition RANK_ORIG_EXTERNAL :: rat where
  "RANK_ORIG_EXTERNAL = 0"

definition RANK_EXTERNAL_VIP :: rat where
  "RANK_EXTERNAL_VIP = 1"

definition RANK_SBC_A :: rat where
  "RANK_SBC_A = 2"

definition RANK_MEDIA :: rat where
  "RANK_MEDIA = 3"

definition RANK_SIGNALING_VIP :: rat where
  "RANK_SIGNALING_VIP = 4"

definition RANK_EGRESS_EXTERNAL :: rat where
  "RANK_EGRESS_EXTERNAL = 5"

definition RANK_TERM_EXTERNAL :: rat where
  "RANK_TERM_EXTERNAL = 6"

definition RANK_EPSILON :: rat where
  "RANK_EPSILON = 1 / 4"

lemmas rank_defs = RANK_ORIG_EXTERNAL_def RANK_EXTERNAL_VIP_def RANK_SBC_A_def RANK_MEDIA_def
  RANK_SIGNALING_VIP_def RANK_EGRESS_EXTERNAL_def RANK_TERM_EXTERNAL_def RANK_EPSILON_def

section \<open>Vocabulary\<close>

definition is_alnum :: "char \<Rightarrow> bool" where
  "is_alnum c \<longleftrightarrow> is_upper c \<or> is_digit c"

text \<open>The standalone token \<open>FS\<close>: the flag says whether a token may start here.\<close>

fun fs_token :: "bool \<Rightarrow> string \<Rightarrow> bool" where
  "fs_token ok [] = False"
| "fs_token ok (c # s) =
     (ok \<and> startsWith (c # s) ''FS'' \<and> (case drop 2 (c # s) of [] \<Rightarrow> True | d # t \<Rightarrow> \<not> is_alnum d)
      \<or> fs_token (\<not> is_alnum c) s)"

definition isPlatformAlias :: "string \<Rightarrow> bool" where
  "isPlatformAlias name =
     (let upper = toUpperCase name in
      if has_text upper ''SBC'' \<or> has_text upper ''VIP'' \<or> has_text upper ''FREESWITCH'' \<or> has_text upper ''SERVICES'' then True
      else fs_token True upper)"

definition matchesCarrierVocab :: "string \<Rightarrow> bool" where
  "matchesCarrierVocab name =
     (let head = toUpperCase (before_char (CHR ''-'') name) in head = ''BW'' \<or> head = ''BANDWIDTH'' \<or> head = ''SINCH'')"

text \<open>The flag \<open>i\<close> of a regular expression folds the case of ASCII letters only, one character at a time.\<close>

definition fold_case :: "string \<Rightarrow> string" where
  "fold_case s = map (\<lambda>c. let n = (of_char c :: nat) in if 97 \<le> n \<and> n \<le> 122 then char_of (n - 32) else c) s"

definition SIGVIP_NAME_RE :: "string \<Rightarrow> bool" where
  "SIGVIP_NAME_RE name =
     (let s = fold_case name in
      has_text s ''SIGVIP'' \<or> has_text s ''SIG-VIP'' \<or> has_text s ''SIG_VIP'' \<or> has_text s ''SIGNALING'')"

section \<open>Pass 1: activity and the two external endpoints\<close>

definition roleById :: "OrderParticipant list \<Rightarrow> string \<rightharpoonup> NodeRole" where
  "roleById ps = fold (\<lambda>p m. m(op_id p \<mapsto> op_role p)) ps Map.empty"

definition isExternal :: "OrderParticipant list \<Rightarrow> string \<Rightarrow> bool" where
  "isExternal ps i =
     (case roleById ps i of
        Some Carrier_ingress \<Rightarrow> True
      | Some Carrier_egress \<Rightarrow> True
      | None \<Rightarrow> \<not> isPlatformAlias i
      | Some Unknown_node \<Rightarrow> \<not> isPlatformAlias i
      | Some r \<Rightarrow> False)"

record LadderScan =
  firstActivity :: "string \<rightharpoonup> nat"
  sentInviteExternals :: "string set"
  receivedInviteExternals :: "string set"
  sc_orig :: "string option"
  sc_term :: "string option"

definition note_activity :: "nat \<Rightarrow> string \<Rightarrow> (string \<rightharpoonup> nat) \<Rightarrow> string \<rightharpoonup> nat" where
  "note_activity i x m = (if m x = None then m(x \<mapsto> i) else m)"

definition scan_message :: "(string \<Rightarrow> bool) \<Rightarrow> nat \<times> OrderWireMessage \<Rightarrow> LadderScan \<Rightarrow> LadderScan" where
  "scan_message ext im s =
     (let (i, m) = im;
          s = s\<lparr>firstActivity := note_activity i (om_dst m) (note_activity i (om_src m) (firstActivity s))\<rparr>
      in if \<not> om_isInviteRequest m then s
         else let s = (if ext (om_src m)
                       then s\<lparr>sentInviteExternals := insert (om_src m) (sentInviteExternals s),
                              sc_orig := (if sc_orig s = None then Some (om_src m) else sc_orig s)\<rparr>
                       else s)
              in if ext (om_dst m)
                 then s\<lparr>receivedInviteExternals := insert (om_dst m) (receivedInviteExternals s), sc_term := Some (om_dst m)\<rparr>
                 else s)"

definition scan_all :: "(string \<Rightarrow> bool) \<Rightarrow> OrderWireMessage list \<Rightarrow> LadderScan" where
  "scan_all ext ms =
     (let s = fold (scan_message ext) (enumerate 0 ms)
                \<lparr>firstActivity = Map.empty, sentInviteExternals = {}, receivedInviteExternals = {}, sc_orig = None, sc_term = None\<rparr>
      in if sc_term s \<noteq> None \<and> sc_term s = sc_orig s then s\<lparr>sc_term := None\<rparr> else s)"

text \<open>The loop of \<open>isSignalingVip\<close>; the flag is \<open>receivesAnything\<close>.\<close>

fun vip_loop :: "(string \<Rightarrow> bool) \<Rightarrow> string \<Rightarrow> OrderWireMessage list \<Rightarrow> bool \<Rightarrow> bool" where
  "vip_loop ext i [] receives = receives"
| "vip_loop ext i (m # ms) receives =
     (if om_dst m = i \<and> ext (om_src m) then False
      else let receives = (receives \<or> om_dst m = i)
           in if om_src m = i \<and> ext (om_dst m) then False else vip_loop ext i ms receives)"

definition isSignalingVip :: "(string \<Rightarrow> bool) \<Rightarrow> OrderWireMessage list \<Rightarrow> string \<Rightarrow> bool" where
  "isSignalingVip ext ms i = (if SIGVIP_NAME_RE i then True else vip_loop ext i ms False)"

section \<open>Pass 2: ranks\<close>

definition rank_participant ::
  "(string \<Rightarrow> bool) \<Rightarrow> OrderWireMessage list \<Rightarrow> LadderScan \<Rightarrow> OrderParticipant \<Rightarrow> rat option" where
  "rank_participant ext ms s p =
     (if ext (op_id p)
      then (if sc_orig s = Some (op_id p) then Some RANK_ORIG_EXTERNAL
            else if sc_term s = Some (op_id p) then Some RANK_TERM_EXTERNAL
            else if op_id p \<in> receivedInviteExternals s then Some RANK_EGRESS_EXTERNAL
            else if op_id p \<in> sentInviteExternals s then Some RANK_ORIG_EXTERNAL
            else None)
      else case op_role p of
             Sbc_vip \<Rightarrow> Some (if isSignalingVip ext ms (op_id p) then RANK_SIGNALING_VIP else RANK_EXTERNAL_VIP)
           | Sbc \<Rightarrow> Some RANK_SBC_A
           | Media_server \<Rightarrow> Some RANK_MEDIA
           | _ \<Rightarrow> None)"

definition rank_step ::
  "(string \<Rightarrow> bool) \<Rightarrow> OrderWireMessage list \<Rightarrow> LadderScan \<Rightarrow> OrderParticipant \<Rightarrow> ranks \<times> string list \<Rightarrow> ranks \<times> string list" where
  "rank_step ext ms s p st =
     (let (rk, unresolved) = st in
      case rank_participant ext ms s p of
        Some r \<Rightarrow> (rk(op_id p \<mapsto> r), unresolved)
      | None \<Rightarrow> (rk, unresolved @ [op_id p]))"

section \<open>Pass 3: the unclassifiable\<close>

definition clampInside :: "rat \<Rightarrow> rat" where
  "clampInside r = min (max r (RANK_ORIG_EXTERNAL + RANK_EPSILON)) (RANK_TERM_EXTERNAL - RANK_EPSILON)"

abbreviation peer_of :: "string \<Rightarrow> OrderWireMessage \<Rightarrow> string" where
  "peer_of i m \<equiv> (if om_src m = i then om_dst m else om_src m)"

definition find_anchor :: "OrderWireMessage list \<Rightarrow> ranks \<Rightarrow> string \<Rightarrow> OrderWireMessage option" where
  "find_anchor ms rk i =
     List.find (\<lambda>m. (om_src m = i \<or> om_dst m = i) \<and> om_src m \<noteq> om_dst m \<and> rk (peer_of i m) \<noteq> None) ms"

definition anchored_rank :: "ranks \<Rightarrow> string \<Rightarrow> OrderWireMessage \<Rightarrow> rat" where
  "anchored_rank rk i m =
     (let peerRank = the (rk (peer_of i m))
      in clampInside (if om_src m = i then peerRank - RANK_EPSILON else peerRank + RANK_EPSILON))"

text \<open>One round of the \<open>while\<close> loop: the first unresolved node with an anchor is ranked and spliced out.\<close>

fun place_round :: "OrderWireMessage list \<Rightarrow> ranks \<Rightarrow> string list \<Rightarrow> (ranks \<times> string list) option" where
  "place_round ms rk [] = None"
| "place_round ms rk (i # is) =
     (case find_anchor ms rk i of
        Some m \<Rightarrow> Some (rk(i \<mapsto> anchored_rank rk i m), is)
      | None \<Rightarrow> map_option (apsnd (Cons i)) (place_round ms rk is))"

lemma place_round_length: "place_round ms rk is = Some (rk', is') \<Longrightarrow> length is = Suc (length is')"
  by (induction ms rk "is" arbitrary: is' rule: place_round.induct) (auto split: option.splits)

function place_loop :: "OrderWireMessage list \<Rightarrow> ranks \<Rightarrow> string list \<Rightarrow> ranks \<times> string list" where
  "place_loop ms rk is =
     (case place_round ms rk is of None \<Rightarrow> (rk, is) | Some (rk', is') \<Rightarrow> place_loop ms rk' is')"
  by pat_completeness auto
termination
  by (relation "measure (\<lambda>(ms, rk, is). length is)") (auto dest: place_round_length)

declare place_loop.simps [simp del]

definition all_ranks :: "(string \<Rightarrow> bool) \<Rightarrow> OrderWireMessage list \<Rightarrow> LadderScan \<Rightarrow> OrderParticipant list \<Rightarrow> ranks" where
  "all_ranks ext ms s ps =
     (let (rk, unresolved) = fold (rank_step ext ms s) ps (Map.empty, []);
          (rk, rest) = place_loop ms rk unresolved
      in fold (\<lambda>i rk. rk(i \<mapsto> clampInside (RANK_MEDIA + RANK_EPSILON))) rest rk)"

section \<open>Pass 4: the sort\<close>

definition MAX_SAFE_INTEGER :: nat where
  "MAX_SAFE_INTEGER = 2 ^ 53 - 1"

definition inputOrder :: "OrderParticipant list \<Rightarrow> string \<rightharpoonup> nat" where
  "inputOrder ps = fold (\<lambda>(i, p) m. m(op_id p \<mapsto> i)) (enumerate 0 ps) Map.empty"

definition column_key :: "ranks \<Rightarrow> LadderScan \<Rightarrow> OrderParticipant list \<Rightarrow> string \<Rightarrow> rat \<times> nat \<times> nat" where
  "column_key rk s ps i =
     (the (rk i), case firstActivity s i of Some n \<Rightarrow> n | None \<Rightarrow> MAX_SAFE_INTEGER, the (inputOrder ps i))"

text \<open>\<open>findIndex\<close>, or the length when there is none.\<close>

fun index_or_end :: "('a \<Rightarrow> bool) \<Rightarrow> 'a list \<Rightarrow> nat" where
  "index_or_end P [] = 0"
| "index_or_end P (x # xs) = (if P x then 0 else Suc (index_or_end P xs))"

definition tag_endpoints :: "LadderScan \<Rightarrow> string \<rightharpoonup> EndpointTag" where
  "tag_endpoints s =
     (let t = (case sc_orig s of Some i \<Rightarrow> Map.empty(i \<mapsto> Orig_tag) | None \<Rightarrow> Map.empty)
      in case sc_term s of Some i \<Rightarrow> t(i \<mapsto> Term_tag) | None \<Rightarrow> t)"

definition orderLadderColumns :: "OrderParticipant list \<Rightarrow> OrderWireMessage list \<Rightarrow> OrderedColumns" where
  "orderLadderColumns ps ms =
     (let ext = isExternal ps;
          s = scan_all ext ms;
          rk = all_ranks ext ms s ps;
          cols = sort_key (column_key rk s ps) (map op_id ps)
      in \<lparr>orderedIds = cols,
          bLegInsertIndex = index_or_end (\<lambda>i. the (rk i) \<ge> RANK_EGRESS_EXTERNAL) cols,
          endpointTags = tag_endpoints s\<rparr>)"

end
