(* ===== verification/Ladder_Props.thy ===== *)
theory Ladder_Props
  imports Ladder_Order
begin

text \<open>
  Correctness of the ladder's column order: what the first pass finds of the wire messages, where ranks
  can lie, and the topology the sorted columns keep.
\<close>

section \<open>What pass 1 finds\<close>

abbreviation invites_from :: "(string \<Rightarrow> bool) \<Rightarrow> OrderWireMessage list \<Rightarrow> OrderWireMessage list" where
  "invites_from ext ms \<equiv> filter (\<lambda>m. om_isInviteRequest m \<and> ext (om_src m)) ms"

abbreviation invites_to :: "(string \<Rightarrow> bool) \<Rightarrow> OrderWireMessage list \<Rightarrow> OrderWireMessage list" where
  "invites_to ext ms \<equiv> filter (\<lambda>m. om_isInviteRequest m \<and> ext (om_dst m)) ms"

text \<open>The source of the first INVITE from outside and the target of the last one to the outside.\<close>

definition origination :: "(string \<Rightarrow> bool) \<Rightarrow> OrderWireMessage list \<Rightarrow> string option" where
  "origination ext ms = (case invites_from ext ms of [] \<Rightarrow> None | m # _ \<Rightarrow> Some (om_src m))"

definition last_target :: "(string \<Rightarrow> bool) \<Rightarrow> OrderWireMessage list \<Rightarrow> string option" where
  "last_target ext ms = (case rev (invites_to ext ms) of [] \<Rightarrow> None | m # _ \<Rightarrow> Some (om_dst m))"

definition termination_end :: "(string \<Rightarrow> bool) \<Rightarrow> OrderWireMessage list \<Rightarrow> string option" where
  "termination_end ext ms = (if last_target ext ms = origination ext ms then None else last_target ext ms)"

definition touches :: "string \<Rightarrow> OrderWireMessage \<Rightarrow> bool" where
  "touches i m \<longleftrightarrow> om_src m = i \<or> om_dst m = i"

definition first_touch :: "OrderWireMessage list \<Rightarrow> string \<rightharpoonup> nat" where
  "first_touch ms i = (if list_ex (touches i) ms then Some (index_or_end (touches i) ms) else None)"

lemma index_or_end_snoc: "index_or_end P (xs @ [x]) = (if list_ex P xs then index_or_end P xs else length xs + (if P x then 0 else 1))"
  by (induction xs) auto

lemma first_touch_snoc:
  "first_touch (ms @ [m]) = note_activity (length ms) (om_dst m) (note_activity (length ms) (om_src m) (first_touch ms))"
  by (rule ext) (auto simp: first_touch_def note_activity_def index_or_end_snoc touches_def)

lemma scan_fold:
  "fold (scan_message e) (enumerate 0 ms)
      \<lparr>firstActivity = Map.empty, sentInviteExternals = {}, receivedInviteExternals = {}, sc_orig = None, sc_term = None\<rparr>
   = \<lparr>firstActivity = first_touch ms, sentInviteExternals = om_src ` set (invites_from e ms),
      receivedInviteExternals = om_dst ` set (invites_to e ms), sc_orig = origination e ms, sc_term = last_target e ms\<rparr>"
proof (induction ms rule: rev_induct)
  case Nil
  show ?case by (auto simp: first_touch_def origination_def last_target_def)
next
  case (snoc m ms)
  have o: "origination e (ms @ [m]) = (if om_isInviteRequest m \<and> e (om_src m) \<and> origination e ms = None then Some (om_src m) else origination e ms)"
    by (auto simp: origination_def split: list.splits)
  have t: "last_target e (ms @ [m]) = (if om_isInviteRequest m \<and> e (om_dst m) then Some (om_dst m) else last_target e ms)"
    by (auto simp: last_target_def)
  have step: "fold (scan_message e) (enumerate 0 (ms @ [m])) s0 = scan_message e (length ms, m) (fold (scan_message e) (enumerate 0 ms) s0)" for s0
    by (simp add: enumerate_append_eq)
  show ?case unfolding step snoc
    by (simp add: scan_message_def first_touch_snoc o t Let_def)
qed

lemma scan_spec:
  "scan_all e ms = \<lparr>firstActivity = first_touch ms, sentInviteExternals = om_src ` set (invites_from e ms),
      receivedInviteExternals = om_dst ` set (invites_to e ms), sc_orig = origination e ms, sc_term = termination_end e ms\<rparr>"
  by (cases "last_target e ms = origination e ms"; cases "origination e ms") (simp_all add: scan_all_def scan_fold termination_end_def Let_def)

section \<open>Ranks\<close>

definition inside :: "rat \<Rightarrow> bool" where
  "inside r \<longleftrightarrow> 1 / 4 \<le> r \<and> r \<le> 23 / 4"

lemma inside_clamp: "inside (clampInside r)"
  by (auto simp: inside_def clampInside_def rank_defs)

text \<open>Every rank comes from pass 2 or lies inside the two ends.\<close>

definition ranked_by :: "(OrderParticipant \<Rightarrow> rat option) \<Rightarrow> OrderParticipant list \<Rightarrow> ranks \<Rightarrow> bool" where
  "ranked_by f ps rk \<longleftrightarrow> (\<forall>i r. rk i = Some r \<longrightarrow> inside r \<or> (\<exists>p \<in> set ps. op_id p = i \<and> f p = Some r))"

lemma ranked_by_set: "ranked_by f ps rk \<Longrightarrow> inside r \<Longrightarrow> ranked_by f ps (rk(i \<mapsto> r))"
  by (simp add: ranked_by_def)

text \<open>The state between the passes, for participants with different names.\<close>

definition placed :: "(OrderParticipant \<Rightarrow> rat option) \<Rightarrow> OrderParticipant list \<Rightarrow> ranks \<times> string list \<Rightarrow> bool" where
  "placed f ps st \<longleftrightarrow> ranked_by f ps (fst st) \<and> (\<forall>p \<in> set ps. f p \<noteq> None \<longrightarrow> fst st (op_id p) = f p)
     \<and> (\<forall>p \<in> set ps. fst st (op_id p) \<noteq> None \<or> op_id p \<in> set (snd st))
     \<and> (\<forall>p \<in> set ps. op_id p \<in> set (snd st) \<longrightarrow> f p = None)"

lemma rank_pass:
  assumes "distinct (map op_id ps)"
  shows "placed (rank_participant e ms s) ps (fold (rank_step e ms s) ps (Map.empty, []))
    \<and> set (snd (fold (rank_step e ms s) ps (Map.empty, []))) \<subseteq> op_id ` set ps"
  using assms
proof (induction ps rule: rev_induct)
  case Nil
  show ?case by (simp add: placed_def ranked_by_def)
next
  case (snoc p ps)
  obtain rk un where st: "fold (rank_step e ms s) ps (Map.empty, []) = (rk, un)" by fastforce
  have new: "op_id p \<notin> op_id ` set ps" using snoc.prems by auto
  have IH: "placed (rank_participant e ms s) ps (rk, un)" "set un \<subseteq> op_id ` set ps" using snoc st by simp_all
  have neq: "op_id q \<noteq> op_id p" if "q \<in> set ps" for q using new that by (metis imageI)
  show ?case
  proof (cases "rank_participant e ms s p")
    case None
    then have "fold (rank_step e ms s) (ps @ [p]) (Map.empty, []) = (rk, un @ [op_id p])" by (simp add: st) (simp add: rank_step_def)
    then show ?thesis using None IH new neq by (auto simp: placed_def ranked_by_def)
  next
    case (Some r)
    then have "fold (rank_step e ms s) (ps @ [p]) (Map.empty, []) = (rk(op_id p \<mapsto> r), un)" by (simp add: st) (simp add: rank_step_def)
    then show ?thesis using Some IH new neq by (auto simp: placed_def ranked_by_def)
  qed
qed

lemma place_round_Some:
  "place_round ms rk is = Some (rk', is') \<Longrightarrow>
     \<exists>i r. i \<in> set is \<and> inside r \<and> rk' = rk(i \<mapsto> r) \<and> set is' \<subseteq> set is \<and> set is \<subseteq> insert i (set is')"
proof (induction ms rk "is" arbitrary: is' rule: place_round.induct)
  case (2 ms rk i "is")
  show ?case
  proof (cases "find_anchor ms rk i")
    case None
    then obtain is'' where "place_round ms rk is = Some (rk', is'')" "is' = i # is''" using "2.prems" by auto
    then show ?thesis using 2(1) [OF None, of is''] by auto
  next
    case (Some m)
    then have "rk' = rk(i \<mapsto> anchored_rank rk i m)" "is' = is" using "2.prems" by simp_all
    moreover have "inside (anchored_rank rk i m)" by (simp add: anchored_rank_def Let_def inside_clamp)
    ultimately show ?thesis by (intro exI [of _ i] exI [of _ "anchored_rank rk i m"]) auto
  qed
qed simp

lemma placed_update:
  assumes "placed f ps (rk, is)" "i \<in> set is" "inside r" "set is' \<subseteq> set is" "set is \<subseteq> insert i (set is')"
  shows "placed f ps (rk(i \<mapsto> r), is')"
  using assms unfolding placed_def by (auto simp: ranked_by_set)

lemma place_loop_placed: "placed f ps (rk, is) \<Longrightarrow> placed f ps (place_loop ms rk is)"
proof (induction ms rk "is" rule: place_loop.induct)
  case (1 ms rk "is")
  show ?case
  proof (cases "place_round ms rk is")
    case None
    then show ?thesis using "1.prems" by (simp add: place_loop.simps)
  next
    case (Some st)
    then obtain rk' is' where st: "place_round ms rk is = Some (rk', is')" by (cases st) auto
    then have "placed f ps (rk', is')" using place_round_Some [OF st] placed_update [OF "1.prems"] by blast
    then show ?thesis using 1(1) [OF st] st by (subst place_loop.simps) simp
  qed
qed

lemma all_ranks_spec:
  assumes "distinct (map op_id ps)"
  shows "ranked_by (rank_participant e ms s) ps (all_ranks e ms s ps)"
    and "p \<in> set ps \<Longrightarrow> \<exists>r. all_ranks e ms s ps (op_id p) = Some r"
    and "p \<in> set ps \<Longrightarrow> rank_participant e ms s p = Some r \<Longrightarrow> all_ranks e ms s ps (op_id p) = Some r"
proof -
  obtain rk un where st: "fold (rank_step e ms s) ps (Map.empty, []) = (rk, un)" by fastforce
  obtain rk2 rest where st2: "place_loop ms rk un = (rk2, rest)" by fastforce
  have "placed (rank_participant e ms s) ps (rk, un)" using rank_pass [OF assms, of e ms s] st by simp
  then have 2: "placed (rank_participant e ms s) ps (rk2, rest)" using place_loop_placed [of _ ps rk un ms] st2 by simp
  have "placed (rank_participant e ms s) ps (fold (\<lambda>i rk. rk(i \<mapsto> clampInside (RANK_MEDIA + RANK_EPSILON))) rest rk2, [])"
    using 2
  proof (induction rest arbitrary: rk2)
    case (Cons i rest)
    have "placed (rank_participant e ms s) ps (rk2(i \<mapsto> clampInside (RANK_MEDIA + RANK_EPSILON)), rest)"
      by (rule placed_update [OF Cons.prems]) (auto simp: inside_clamp)
    from Cons.IH [OF this] show ?case by (simp only: fold_simps)
  qed simp
  then have *: "placed (rank_participant e ms s) ps (all_ranks e ms s ps, [])" by (simp add: all_ranks_def st st2)
  show "ranked_by (rank_participant e ms s) ps (all_ranks e ms s ps)" using * by (simp add: placed_def)
  show "\<exists>r. all_ranks e ms s ps (op_id p) = Some r" if "p \<in> set ps" using * that by (fastforce simp: placed_def)
  show "all_ranks e ms s ps (op_id p) = Some r" if "p \<in> set ps" "rank_participant e ms s p = Some r"
    using * that by (fastforce simp: placed_def)
qed


section \<open>The sort\<close>

lemma sorted_key_before:
  assumes "sort_key k xs = us @ x # vs" "u \<in> set us"
  shows "k u \<le> k x"
proof -
  have "sorted (map k (us @ x # vs))" unfolding assms(1) [symmetric] by (rule sorted_sort_key)
  then show ?thesis using assms(2) by (simp add: sorted_append)
qed

lemma index_or_end_sorted:
  assumes up: "\<And>x y. P x \<Longrightarrow> k x \<le> k y \<Longrightarrow> P y" and "sorted (map k xs)"
  shows "(\<forall>x \<in> set (take (index_or_end P xs) xs). \<not> P x) \<and> (\<forall>x \<in> set (drop (index_or_end P xs) xs). P x)"
  using assms(2) by (induction xs) (auto intro: up)

section \<open>The order\<close>

abbreviation ladder_ranks :: "OrderParticipant list \<Rightarrow> OrderWireMessage list \<Rightarrow> ranks" where
  "ladder_ranks ps ms \<equiv> all_ranks (isExternal ps) ms (scan_all (isExternal ps) ms) ps"

lemma column_rank_le: "column_key rk s ps i \<le> column_key rk s ps j \<Longrightarrow> the (rk i) \<le> the (rk j)"
  by (auto simp: column_key_def less_eq_prod_def)

lemma rank_values: "rank_participant e ms s p = Some r \<Longrightarrow> r \<in> {0, 1, 2, 3, 4, 5, 6}"
  by (auto simp: rank_participant_def rank_defs split: if_splits NodeRole.splits)

lemma ladder_rank:
  assumes "distinct (map op_id ps)" "p \<in> set ps"
  obtains r where "ladder_ranks ps ms (op_id p) = Some r" "0 \<le> r" "r \<le> 6"
    "r = 0 \<or> r = 6 \<Longrightarrow> \<exists>q \<in> set ps. op_id q = op_id p \<and> rank_participant (isExternal ps) ms (scan_all (isExternal ps) ms) q = Some r"
proof -
  obtain r where r: "ladder_ranks ps ms (op_id p) = Some r" using all_ranks_spec(2) [OF assms] by blast
  have "inside r \<or> (\<exists>q \<in> set ps. op_id q = op_id p \<and> rank_participant (isExternal ps) ms (scan_all (isExternal ps) ms) q = Some r)"
    using all_ranks_spec(1) [OF assms(1), of "isExternal ps" ms "scan_all (isExternal ps) ms"] r by (simp add: ranked_by_def)
  then show thesis using that [OF r] rank_values by (fastforce simp: inside_def)
qed

lemma rank_zero:
  "rank_participant e ms (scan_all e ms) p = Some 0 \<Longrightarrow>
     origination e ms = Some (op_id p)
     \<or> e (op_id p) \<and> op_id p \<in> om_src ` set (invites_from e ms) \<and> op_id p \<notin> om_dst ` set (invites_to e ms)"
  by (auto simp: rank_participant_def scan_spec rank_defs split: if_splits NodeRole.splits)

lemma rank_six: "rank_participant e ms (scan_all e ms) p = Some 6 \<Longrightarrow> termination_end e ms = Some (op_id p)"
  by (auto simp: rank_participant_def scan_spec rank_defs split: if_splits NodeRole.splits)

lemma role_of_participant: "distinct (map op_id ps) \<Longrightarrow> p \<in> set ps \<Longrightarrow> roleById ps (op_id p) = Some (op_role p)"
proof (induction ps rule: rev_induct)
  case (snoc q ps)
  have "op_id p \<noteq> op_id q" if "p \<in> set ps" using snoc.prems(1) that by (auto simp: image_iff)
  then show ?case using snoc by (auto simp: roleById_def)
qed simp

lemma ordered_perm: "mset (orderedIds (orderLadderColumns ps ms)) = mset (map op_id ps)"
  by (simp add: orderLadderColumns_def Let_def)

lemma ordered_ids: "orderedIds (orderLadderColumns ps ms) = sort_key (column_key (ladder_ranks ps ms) (scan_all (isExternal ps) ms) ps) (map op_id ps)"
  by (simp add: orderLadderColumns_def Let_def)

lemma term_is_last:
  assumes d: "distinct (map op_id ps)" and p: "p \<in> set ps" and t: "termination_end (isExternal ps) ms = Some (op_id p)"
  shows "last (orderedIds (orderLadderColumns ps ms)) = op_id p"
proof -
  let ?xs = "orderedIds (orderLadderColumns ps ms)"
  have e: "isExternal ps (op_id p)" using t
    by (auto simp: termination_end_def last_target_def rev_filter dest!: filter_eq_ConsD split: if_splits list.splits)
  have no: "origination (isExternal ps) ms \<noteq> Some (op_id p)" using t by (auto simp: termination_end_def split: if_splits)
  have "rank_participant (isExternal ps) ms (scan_all (isExternal ps) ms) p = Some 6"
    using t e no by (simp add: rank_participant_def scan_spec rank_defs)
  then have six: "ladder_ranks ps ms (op_id p) = Some 6" by (rule all_ranks_spec(3) [OF d p])
  have "set ?xs = op_id ` set ps" unfolding ordered_ids by simp
  then have ne: "?xs \<noteq> []" "op_id p \<in> set ?xs" using p by auto
  then obtain q where q: "q \<in> set ps" "last ?xs = op_id q" using \<open>set ?xs = op_id ` set ps\<close> last_in_set [OF ne(1)] by auto
  have "column_key (ladder_ranks ps ms) (scan_all (isExternal ps) ms) ps (op_id p)
      \<le> column_key (ladder_ranks ps ms) (scan_all (isExternal ps) ms) ps (last ?xs)"
  proof (cases "op_id p = last ?xs")
    case False
    then have "op_id p \<in> set (butlast ?xs)" using ne by (metis append_butlast_last_id in_set_conv_decomp_last rotate1.simps(2) set_ConsD set_rotate1)
    then show ?thesis using sorted_key_before [of _ "map op_id ps" "butlast ?xs" "last ?xs" "[]"] ne(1) unfolding ordered_ids [symmetric]
      by (metis append_butlast_last_id ordered_ids)
  qed simp
  then have le: "6 \<le> the (ladder_ranks ps ms (op_id q))" using six q(2) column_rank_le by fastforce
  obtain r where r: "ladder_ranks ps ms (op_id q) = Some r" "r \<le> 6"
    "r = 0 \<or> r = 6 \<Longrightarrow> \<exists>p \<in> set ps. op_id p = op_id q \<and> rank_participant (isExternal ps) ms (scan_all (isExternal ps) ms) p = Some r"
    using ladder_rank [OF d q(1), of ms] by metis
  then obtain p' where "op_id p' = op_id q" "rank_participant (isExternal ps) ms (scan_all (isExternal ps) ms) p' = Some 6" using le by auto
  then show ?thesis using rank_six t q(2) by fastforce
qed

lemma origination_sent:
  "origination e ms = Some i \<Longrightarrow> e i \<and> i \<in> om_src ` set (invites_from e ms)"
proof -
  assume "origination e ms = Some i"
  then obtain m rest where m: "invites_from e ms = m # rest" "om_src m = i" by (auto simp: origination_def split: list.splits)
  then have "m \<in> set (invites_from e ms)" by simp
  then show ?thesis using m(2) by auto
qed

lemma left_of_orig:
  assumes d: "distinct (map op_id ps)" and xs: "orderedIds (orderLadderColumns ps ms) = us @ i # vs"
    and i: "origination (isExternal ps) ms = Some i" and x: "x \<in> set us"
  shows "isExternal ps x \<and> x \<in> om_src ` set (invites_from (isExternal ps) ms) \<and> the (first_touch ms x) \<le> the (first_touch ms i)"
proof -
  let ?e = "isExternal ps" and ?rk = "ladder_ranks ps ms" and ?s = "scan_all (isExternal ps) ms"
  have set: "set (us @ i # vs) = op_id ` set ps" unfolding xs [symmetric] ordered_ids by simp
  then have "i \<in> op_id ` set ps" "x \<in> op_id ` set ps" using x by auto
  then obtain p q where p: "p \<in> set ps" "i = op_id p" and q: "q \<in> set ps" "x = op_id q" by blast
  have "rank_participant ?e ms ?s p = Some 0"
    using i p(2) origination_sent [OF i] by (simp add: rank_participant_def scan_spec rank_defs)
  then have zero: "?rk i = Some 0" unfolding p(2) by (rule all_ranks_spec(3) [OF d p(1)])
  have key: "column_key ?rk ?s ps x \<le> column_key ?rk ?s ps i"
    using xs unfolding ordered_ids by (rule sorted_key_before) (rule x)
  then have "the (?rk x) \<le> 0" using column_rank_le [OF key] zero by simp
  moreover obtain r where r: "?rk x = Some r" "0 \<le> r"
    "r = 0 \<or> r = 6 \<Longrightarrow> \<exists>p \<in> set ps. op_id p = x \<and> rank_participant ?e ms ?s p = Some r"
    using ladder_rank [OF d q(1), of ms] q(2) by metis
  ultimately have r0: "r = 0" by simp
  then obtain p' where "op_id p' = x" "rank_participant ?e ms ?s p' = Some 0" using r(3) by auto
  then have sent: "?e x \<and> x \<in> om_src ` set (invites_from ?e ms)" using rank_zero [of ?e ms p'] origination_sent by auto
  have touched: "first_touch ms j \<noteq> None" if "j \<in> om_src ` set (invites_from ?e ms)" for j
    using that by (auto simp: first_touch_def touches_def list_ex_iff)
  have "the (first_touch ms x) \<le> the (first_touch ms i)"
    using key r(1) r0 zero touched [of x] touched [of i] sent origination_sent [OF i]
    by (auto simp: column_key_def scan_spec less_eq_prod_def)
  then show ?thesis using sent by simp
qed

lemma b_leg_splice:
  fixes ms :: "OrderWireMessage list"
  assumes d: "distinct (map op_id ps)" and p: "p \<in> set ps"
  defines "out \<equiv> orderLadderColumns ps ms"
  shows "op_role p \<in> {Sbc_vip, Sbc, Media_server} \<Longrightarrow> op_id p \<in> set (take (bLegInsertIndex out) (orderedIds out))"
    and "isExternal ps (op_id p) \<Longrightarrow> op_id p \<in> om_dst ` set (invites_to (isExternal ps) ms) \<Longrightarrow>
      origination (isExternal ps) ms \<noteq> Some (op_id p) \<Longrightarrow> op_id p \<in> set (drop (bLegInsertIndex out) (orderedIds out))"
proof -
  let ?e = "isExternal ps" and ?rk = "ladder_ranks ps ms" and ?s = "scan_all (isExternal ps) ms"
  let ?P = "\<lambda>i. the (?rk i) \<ge> RANK_EGRESS_EXTERNAL"
  have b: "bLegInsertIndex out = index_or_end ?P (orderedIds out)" by (simp add: out_def orderLadderColumns_def Let_def)
  have "sorted (map (column_key ?rk ?s ps) (orderedIds out))" unfolding out_def ordered_ids by (rule sorted_sort_key)
  from index_or_end_sorted [OF _ this, of ?P] column_rank_le
  have split: "(\<forall>x \<in> set (take (bLegInsertIndex out) (orderedIds out)). \<not> ?P x) \<and> (\<forall>x \<in> set (drop (bLegInsertIndex out) (orderedIds out)). ?P x)"
    unfolding b by (meson order_trans)
  have "op_id p \<in> set (orderedIds out)" unfolding out_def ordered_ids using p by simp
  then have cases: "op_id p \<in> set (take (bLegInsertIndex out) (orderedIds out)) \<or> op_id p \<in> set (drop (bLegInsertIndex out) (orderedIds out))"
    by (metis Un_iff append_take_drop_id set_append)
  show "op_id p \<in> set (take (bLegInsertIndex out) (orderedIds out))" if role: "op_role p \<in> {Sbc_vip, Sbc, Media_server}"
  proof -
    have "\<not> ?e (op_id p)" using role role_of_participant [OF d p] by (auto simp: isExternal_def)
    then obtain r where r: "rank_participant ?e ms ?s p = Some r" "r < 5"
      using role by (auto simp: rank_participant_def rank_defs)
    then have "?rk (op_id p) = Some r" using all_ranks_spec(3) [OF d p] by blast
    then have "\<not> ?P (op_id p)" using r(2) by (simp add: rank_defs)
    then show ?thesis using cases split by blast
  qed
  show "op_id p \<in> set (drop (bLegInsertIndex out) (orderedIds out))"
    if "?e (op_id p)" "op_id p \<in> om_dst ` set (invites_to ?e ms)" "origination ?e ms \<noteq> Some (op_id p)"
  proof -
    have "\<exists>r \<ge> 5. rank_participant ?e ms ?s p = Some r" using that by (auto simp: rank_participant_def scan_spec rank_defs)
    then obtain r where r: "rank_participant ?e ms ?s p = Some r" "r \<ge> 5" by blast
    then have "?rk (op_id p) = Some r" using all_ranks_spec(3) [OF d p] by blast
    then have "?P (op_id p)" using r(2) by (simp add: rank_defs)
    then show ?thesis using cases split by blast
  qed
qed

section \<open>Properties\<close>

definition ladder_columns0 :: "OrderParticipant list" where
  "ladder_columns0 =
     [\<lparr>op_id = ''Sinch-2'', op_role = Carrier_ingress\<rparr>, \<lparr>op_id = ''West-SBC'', op_role = Sbc\<rparr>,
      \<lparr>op_id = ''Sinch-1'', op_role = Carrier_ingress\<rparr>, \<lparr>op_id = ''BW-DAL'', op_role = Carrier_egress\<rparr>]"

definition ladder_wire0 :: "OrderWireMessage list" where
  "ladder_wire0 =
     [\<lparr>om_src = ''Sinch-2'', om_dst = ''West-SBC'', om_isInviteRequest = False\<rparr>,
      \<lparr>om_src = ''Sinch-1'', om_dst = ''West-SBC'', om_isInviteRequest = True\<rparr>,
      \<lparr>om_src = ''Sinch-2'', om_dst = ''West-SBC'', om_isInviteRequest = True\<rparr>,
      \<lparr>om_src = ''West-SBC'', om_dst = ''BW-DAL'', om_isInviteRequest = True\<rparr>]"

lemma ladder_columns0_distinct: "distinct (map op_id ladder_columns0)"
  by (simp add: ladder_columns0_def)

text \<open>C23. The ladder shows every participant once. The endpoint that took the last INVITE to the outside is the
  rightmost column unless it is the origination itself; whoever stands left of the origination is another
  outside source of an INVITE that was active no later; and the place for the B-leg columns is right of every
  platform column and left of every outside endpoint that was sent an INVITE.\<close>

theorem ladder_topology:
  assumes "distinct (map op_id ps)"
  shows "let out = orderLadderColumns ps ms; e = isExternal ps in
     mset (orderedIds out) = mset (map op_id ps)
     \<and> (\<forall>p \<in> set ps. termination_end e ms = Some (op_id p) \<longrightarrow> last (orderedIds out) = op_id p)
     \<and> (\<forall>us i vs. orderedIds out = us @ i # vs \<and> origination e ms = Some i \<longrightarrow>
          (\<forall>x \<in> set us. e x \<and> x \<in> om_src ` set (invites_from e ms) \<and> the (first_touch ms x) \<le> the (first_touch ms i)))
     \<and> (\<forall>p \<in> set ps. op_role p \<in> {Sbc_vip, Sbc, Media_server} \<longrightarrow> op_id p \<in> set (take (bLegInsertIndex out) (orderedIds out)))
     \<and> (\<forall>p \<in> set ps. e (op_id p) \<and> op_id p \<in> om_dst ` set (invites_to e ms) \<and> origination e ms \<noteq> Some (op_id p) \<longrightarrow>
          op_id p \<in> set (drop (bLegInsertIndex out) (orderedIds out)))"
  unfolding Let_def
proof (intro conjI ballI allI impI)
  show "mset (orderedIds (orderLadderColumns ps ms)) = mset (map op_id ps)" by (rule ordered_perm)
qed (use assms term_is_last left_of_orig b_leg_splice in blast)+

theorem ladder_topology_witness:
  "distinct (map op_id ladder_columns0) \<and> last (orderedIds (orderLadderColumns ladder_columns0 ladder_wire0)) = ''BW-DAL''"
proof -
  have "termination_end (isExternal ladder_columns0) ladder_wire0 = Some ''BW-DAL''"
    by (simp add: termination_end_def last_target_def origination_def isExternal_def roleById_def ladder_columns0_def ladder_wire0_def)
  moreover have "\<lparr>op_id = ''BW-DAL'', op_role = Carrier_egress\<rparr> \<in> set ladder_columns0" by (simp add: ladder_columns0_def)
  ultimately show ?thesis
    using ladder_topology [OF ladder_columns0_distinct, of ladder_wire0] ladder_columns0_distinct unfolding Let_def by fastforce
qed

text \<open>A carrier that spoke first without an INVITE and sends a duplicate INVITE later stands left of the
  origination, which the module's header places leftmost always.\<close>

theorem sibling_left_of_orig:
  "orderedIds (orderLadderColumns ladder_columns0 ladder_wire0) = [''Sinch-2'', ''Sinch-1'', ''West-SBC'', ''BW-DAL'']
   \<and> origination (isExternal ladder_columns0) ladder_wire0 = Some ''Sinch-1''"
  by code_simp

end
