(* ===== verification/Call_Grouping.thy ===== *)
theory Call_Grouping
  imports JS_Numbers "HOL-Library.Product_Lexorder" "HOL-Library.Option_ord"
begin

text \<open>
  The call grouping of the Troubleshooting page (\<open>pages/troubleshooting/callGrouping.ts\<close>): union-find over
  Call-IDs with path compression, the A leg of a group, its result, duration and B-leg attempts. The two
  \<open>while\<close> loops of \<open>find\<close> are partial functions, so a walk that never ends is \<^term>\<open>None\<close>.
  \<open>coll\<close> is the sort key of \<open>localeCompare\<close>. Objects are listed in the order of their entries;
  the name \<open>__proto__\<close> is left out.
\<close>

section \<open>Messages and legs\<close>

record HomerSearchResult =
  hr_timestamp :: string
  hr_timestamp_ns :: "rat option"
  hr_callid :: string
  hr_method :: string
  hr_status :: "int option"
  hr_cseq :: "string option"
  hr_attestation :: "json option"

datatype HomerLegRole = RoleA | RoleB

record HomerLegInfo =
  li_role :: HomerLegRole
  li_a_callid :: string
  li_attempt :: "json option"

type_synonym legs = "(string \<times> HomerLegInfo) list"

record LegAttempt =
  la_callid :: string
  la_attempt :: "rat option"
  la_finalStatus :: "int option"

record CallGroup =
  cg_representative :: HomerSearchResult
  cg_callIds :: "string list"
  cg_messages :: "HomerSearchResult list"
  cg_finalStatus :: "int option"
  cg_durationSec :: "int option"
  cg_attestation :: "json option"
  cg_aLegCallId :: "string option"
  cg_attempts :: "LegAttempt list"
  cg_ladderCorrelations :: "(string \<times> string list) list"

section \<open>Small SIP helpers\<close>

definition cseq_digits :: "string \<Rightarrow> string" where
  "cseq_digits s = takeWhile is_digit (dropWhile is_ws s)"

definition cseqNumber :: "HomerSearchResult \<Rightarrow> nat option" where
  "cseqNumber m =
     (case hr_cseq m of
        Some s \<Rightarrow> if cseq_digits s = [] then None else Some (digits_val (cseq_digits s))
      | None \<Rightarrow> None)"

definition cseq_method :: "string \<Rightarrow> string option" where
  "cseq_method s =
     (let rest = dropWhile is_digit (dropWhile is_ws s);
          word = takeWhile (\<lambda>c. \<not> is_ws c) (dropWhile is_ws rest)
      in if cseq_digits s \<noteq> [] \<and> rest \<noteq> [] \<and> is_ws (hd rest) \<and> word \<noteq> [] then Some word else None)"

definition txnMethod :: "HomerSearchResult \<Rightarrow> string" where
  "txnMethod m =
     toUpperCase (case hr_cseq m of
       Some s \<Rightarrow> (case cseq_method s of Some w \<Rightarrow> w | None \<Rightarrow> hr_method m)
     | None \<Rightarrow> hr_method m)"

definition isInviteRequest :: "HomerSearchResult \<Rightarrow> bool" where
  "isInviteRequest m \<longleftrightarrow> toUpperCase (hr_method m) = ''INVITE'' \<and> hr_status m = None"

definition isByeRequest :: "HomerSearchResult \<Rightarrow> bool" where
  "isByeRequest m \<longleftrightarrow> toUpperCase (hr_method m) = ''BYE'' \<and> hr_status m = None"

definition validNs :: "rat option \<Rightarrow> bool" where
  "validNs ns = (case ns of Some n \<Rightarrow> n > 0 | None \<Rightarrow> False)"

definition isLegInfo :: "json \<Rightarrow> HomerLegInfo option" where
  "isLegInfo value =
     (case value of
        JObj v \<Rightarrow>
          (case (ob_get v ''role'', ob_get v ''a_callid'') of
             (Some (JStr r), Some (JStr a)) \<Rightarrow>
               if r = ''A'' then Some \<lparr>li_role = RoleA, li_a_callid = a, li_attempt = ob_get v ''attempt''\<rparr>
               else if r = ''B'' then Some \<lparr>li_role = RoleB, li_a_callid = a, li_attempt = ob_get v ''attempt''\<rparr>
               else None
           | _ \<Rightarrow> None)
      | _ \<Rightarrow> None)"

section \<open>The outcome of a leg\<close>

record LegOutcome =
  lo_status :: "int option"
  lo_answer :: "HomerSearchResult option"

abbreviation final_status :: "HomerSearchResult \<Rightarrow> bool" where
  "final_status m \<equiv> (case hr_status m of Some s \<Rightarrow> s \<ge> 200 | None \<Rightarrow> False)"

abbreviation success_status :: "HomerSearchResult \<Rightarrow> bool" where
  "success_status m \<equiv> (case hr_status m of Some s \<Rightarrow> s \<ge> 200 \<and> s < 300 | None \<Rightarrow> False)"

fun lowest_seq :: "HomerSearchResult list \<Rightarrow> nat option \<Rightarrow> nat option" where
  "lowest_seq [] seq = seq"
| "lowest_seq (r # rs) seq =
     (case cseqNumber r of
        Some n \<Rightarrow> lowest_seq rs (if seq = None \<or> n < the seq then Some n else seq)
      | None \<Rightarrow> lowest_seq rs seq)"

definition inviteResponses :: "HomerSearchResult list \<Rightarrow> HomerSearchResult list" where
  "inviteResponses ms = filter (\<lambda>m. final_status m \<and> txnMethod m = ''INVITE'') ms"

definition initialSeq :: "HomerSearchResult list \<Rightarrow> nat option" where
  "initialSeq ms =
     (let seq = (case List.find isInviteRequest ms of Some r \<Rightarrow> cseqNumber r | None \<Rightarrow> None)
      in if seq = None then lowest_seq (inviteResponses ms) None else seq)"

definition initial_finals :: "HomerSearchResult list \<Rightarrow> HomerSearchResult list" where
  "initial_finals ms =
     filter (\<lambda>r. initialSeq ms = None \<or> cseqNumber r = None \<or> cseqNumber r = initialSeq ms) (inviteResponses ms)"

definition initialInviteOutcome :: "HomerSearchResult list \<Rightarrow> LegOutcome" where
  "initialInviteOutcome ms =
     (let finals = initial_finals ms in
      case List.find success_status finals of
        Some answer \<Rightarrow> \<lparr>lo_status = hr_status answer, lo_answer = Some answer\<rparr>
      | None \<Rightarrow> \<lparr>lo_status = (if finals = [] then None else hr_status (last finals)), lo_answer = None\<rparr>)"

fun best_status :: "(int \<Rightarrow> bool) \<Rightarrow> HomerSearchResult list \<Rightarrow> int option \<Rightarrow> int option" where
  "best_status P [] best = best"
| "best_status P (m # ms) best =
     (case hr_status m of
        Some s \<Rightarrow> best_status P ms (if P s \<and> (best = None \<or> s > the best) then Some s else best)
      | None \<Rightarrow> best_status P ms best)"

definition legacyFinalStatus :: "HomerSearchResult list \<Rightarrow> int option" where
  "legacyFinalStatus ms =
     (case best_status (\<lambda>s. s \<ge> 200) ms None of
        Some s \<Rightarrow> Some s
      | None \<Rightarrow> best_status (\<lambda>s. s \<ge> 100 \<and> s < 200) ms None)"

definition secondsBetween :: "rat option \<Rightarrow> rat option \<Rightarrow> int option" where
  "secondsBetween startNs endNs =
     (if \<not> validNs startNs \<or> \<not> validNs endNs \<or> the endNs < the startNs then None
      else Some (round_half_up ((the endNs - the startNs) / 1000000000)))"

definition legacyDuration :: "HomerSearchResult list \<Rightarrow> int option" where
  "legacyDuration ms =
     (case (List.find isInviteRequest ms, List.find (\<lambda>m. toUpperCase (hr_method m) = ''BYE'') (rev ms)) of
        (Some firstInvite, Some lastBye) \<Rightarrow> secondsBetween (hr_timestamp_ns firstInvite) (hr_timestamp_ns lastBye)
      | _ \<Rightarrow> None)"

abbreviation is_role_a :: "legs \<Rightarrow> string \<Rightarrow> bool" where
  "is_role_a legs cid \<equiv> map_option li_role (ob_get legs cid) = Some RoleA"

text \<open>The loop of \<open>pickALeg\<close> over the members that point at an A leg.\<close>

fun pointed_leg :: "legs \<Rightarrow> string set \<Rightarrow> string list \<Rightarrow> string option" where
  "pointed_leg legs present [] = None"
| "pointed_leg legs present (cid # cids) =
     (case ob_get legs cid of
        Some info \<Rightarrow> if li_a_callid info \<in> present then Some (li_a_callid info) else pointed_leg legs present cids
      | None \<Rightarrow> pointed_leg legs present cids)"

definition pickALeg :: "string list \<Rightarrow> HomerSearchResult list \<Rightarrow> legs \<Rightarrow> string option" where
  "pickALeg cids ms legs =
     (case List.find (is_role_a legs) cids of
        Some cid \<Rightarrow> Some cid
      | None \<Rightarrow>
          (case pointed_leg legs (set cids) cids of
             Some target \<Rightarrow> Some target
           | None \<Rightarrow> map_option hr_callid (List.find isInviteRequest ms)))"

text \<open>A row of \<open>buildAttempts\<close> with its start.\<close>

definition attempt_number :: "HomerLegInfo \<Rightarrow> rat option" where
  "attempt_number info = (case li_attempt info of Some (JNum (Fin a)) \<Rightarrow> Some a | _ \<Rightarrow> None)"

definition attempt_row :: "(string \<times> HomerSearchResult list) list \<Rightarrow> legs \<Rightarrow> string \<Rightarrow> LegAttempt \<times> rat" where
  "attempt_row byCallId legs cid =
     (let ms = (case ob_get byCallId cid of Some ms \<Rightarrow> ms | None \<Rightarrow> [])
      in (\<lparr>la_callid = cid, la_attempt = Option.bind (ob_get legs cid) attempt_number,
           la_finalStatus = lo_status (initialInviteOutcome ms)\<rparr>,
          case ms of m # _ \<Rightarrow> (case hr_timestamp_ns m of Some n \<Rightarrow> n | None \<Rightarrow> 0) | [] \<Rightarrow> 0))"

definition buildAttempts ::
  "string list \<Rightarrow> string option \<Rightarrow> (string \<times> HomerSearchResult list) list \<Rightarrow> legs \<Rightarrow> LegAttempt list" where
  "buildAttempts cids aLeg byCallId legs =
     (let rows = map (attempt_row byCallId legs) (filter (\<lambda>cid. \<not> (aLeg = Some cid \<or> is_role_a legs cid)) cids);
          allNumbered = list_all (\<lambda>r. la_attempt (fst r) \<noteq> None) rows
      in map fst (sort_key (\<lambda>r. (if allNumbered then la_attempt (fst r) else None, snd r)) rows))"

section \<open>Union-find\<close>

type_synonym parents = "string \<rightharpoonup> string"

text \<open>The first loop of \<open>find\<close>: up to the root.\<close>

partial_function (option) walk_up :: "parents \<Rightarrow> string \<Rightarrow> string option" where
  "walk_up p r = (case p r of Some up \<Rightarrow> if up \<noteq> r then walk_up p up else Some r | None \<Rightarrow> Some r)"

text \<open>The second loop: path compression.\<close>

partial_function (option) compress :: "parents \<Rightarrow> string \<Rightarrow> string \<Rightarrow> parents option" where
  "compress p r current =
     (if current \<noteq> r
      then compress (p(current \<mapsto> r)) r (case p current of Some up \<Rightarrow> up | None \<Rightarrow> current)
      else Some p)"

declare walk_up.simps [code] compress.simps [code]

definition find_set :: "parents \<Rightarrow> string \<Rightarrow> (string \<times> parents) option" where
  "find_set p i = Option.bind (walk_up p i) (\<lambda>r. map_option (Pair r) (compress p r i))"

definition ensure :: "string \<Rightarrow> parents \<Rightarrow> parents" where
  "ensure i p = (if p i = None then p(i \<mapsto> i) else p)"

definition union_sets :: "parents \<Rightarrow> string \<Rightarrow> string \<Rightarrow> parents option" where
  "union_sets p a b =
     Option.bind (find_set (ensure b (ensure a p)) a) (\<lambda>(rootA, p).
     Option.bind (find_set p b) (\<lambda>(rootB, p).
     Some (if rootA \<noteq> rootB then p(rootB \<mapsto> rootA) else p)))"

fun union_links :: "parents \<Rightarrow> (string \<times> string) list \<Rightarrow> parents option" where
  "union_links p [] = Some p"
| "union_links p ((a, b) # es) = Option.bind (union_sets p a b) (\<lambda>p. union_links p es)"

section \<open>Grouping\<close>

definition legMap :: "(string \<times> json) list option \<Rightarrow> legs" where
  "legMap legs = (case legs of Some es \<Rightarrow> List.map_filter (\<lambda>(cid, v). map_option (Pair cid) (isLegInfo v)) es | None \<Rightarrow> [])"

text \<open>Link source 1: every entry is made known, then joined to its related Call-IDs.\<close>

fun link_correlations :: "parents \<Rightarrow> (string \<times> string list) list \<Rightarrow> parents option" where
  "link_correlations p [] = Some p"
| "link_correlations p ((cid, related) # cs) =
     Option.bind (union_links (ensure cid p) (map (Pair cid) related)) (\<lambda>p. link_correlations p cs)"

definition leg_links :: "legs \<Rightarrow> (string \<times> string) list" where
  "leg_links lm = map (\<lambda>(cid, info). (li_a_callid info, cid))
     (filter (\<lambda>(cid, info). li_a_callid info \<noteq> '''' \<and> li_a_callid info \<noteq> cid) lm)"

fun group_rows ::
  "parents \<Rightarrow> (string \<times> HomerSearchResult list) list \<Rightarrow> HomerSearchResult list \<Rightarrow> (string \<times> HomerSearchResult list) list option" where
  "group_rows p groups [] = Some groups"
| "group_rows p groups (row # rows) =
     Option.bind (find_set p (hr_callid row)) (\<lambda>(r, p).
       group_rows p
         (ob_set groups r (case ob_get groups r of Some existing \<Rightarrow> existing @ [row] | None \<Rightarrow> [row])) rows)"

definition by_call_id :: "HomerSearchResult list \<Rightarrow> (string \<times> HomerSearchResult list) list" where
  "by_call_id ms =
     fold (\<lambda>m b. ob_set b (hr_callid m) (case ob_get b (hr_callid m) of Some l \<Rightarrow> l @ [m] | None \<Rightarrow> [m])) ms []"

definition result_status :: "LegOutcome \<Rightarrow> HomerSearchResult list \<Rightarrow> int option" where
  "result_status aOutcome ms =
     (case lo_status aOutcome of
        Some s \<Rightarrow> Some s
      | None \<Rightarrow>
          (case List.find (\<lambda>m. success_status m \<and> txnMethod m = ''INVITE'') ms of
             Some m \<Rightarrow> hr_status m
           | None \<Rightarrow> legacyFinalStatus ms))"

definition or_else :: "'a option \<Rightarrow> 'a option \<Rightarrow> 'a option" where
  "or_else a b = (case a of Some x \<Rightarrow> Some x | None \<Rightarrow> b)"

definition talk_time :: "LegOutcome \<Rightarrow> HomerSearchResult list \<Rightarrow> HomerSearchResult list \<Rightarrow> int option" where
  "talk_time aOutcome aMessages ms =
     (let direct =
        (case lo_answer aOutcome of
           Some answer \<Rightarrow>
             if validNs (hr_timestamp_ns answer)
             then (let afterAnswer = (\<lambda>m. isByeRequest m \<and> validNs (hr_timestamp_ns m)
                         \<and> the (hr_timestamp_ns m) \<ge> the (hr_timestamp_ns answer))
                   in case or_else (List.find afterAnswer aMessages) (List.find afterAnswer ms) of
                        Some bye \<Rightarrow> secondsBetween (hr_timestamp_ns answer) (hr_timestamp_ns bye)
                      | None \<Rightarrow> None)
             else None
         | None \<Rightarrow> None)
      in or_else direct (legacyDuration ms))"

definition ladder_correlations :: "string list \<Rightarrow> (string \<times> string list) list" where
  "ladder_correlations linked = (if length linked > 1 then fold (\<lambda>cid b. ob_set b cid linked) linked [] else [])"

definition call_group :: "(string \<Rightarrow> 'k::linorder) \<Rightarrow> legs \<Rightarrow> HomerSearchResult list \<Rightarrow> CallGroup" where
  "call_group coll lm rows =
     (let ms = sort_key (\<lambda>m. coll (hr_timestamp m)) rows;
          byCallId = by_call_id ms;
          callIds = ob_keys byCallId;
          aLeg = pickALeg callIds ms lm;
          aMessages = (case aLeg of Some a \<Rightarrow> (case ob_get byCallId a of Some l \<Rightarrow> l | None \<Rightarrow> []) | None \<Rightarrow> []);
          aOutcome = initialInviteOutcome aMessages
      in \<lparr>cg_representative = (case or_else (List.find isInviteRequest aMessages) (List.find isInviteRequest ms) of
                                 Some m \<Rightarrow> m | None \<Rightarrow> hd ms),
          cg_callIds = callIds, cg_messages = ms, cg_finalStatus = result_status aOutcome ms,
          cg_durationSec = talk_time aOutcome aMessages ms,
          cg_attestation = Option.bind (List.find (\<lambda>m. hr_attestation m \<noteq> None) ms) hr_attestation,
          cg_aLegCallId = aLeg, cg_attempts = buildAttempts callIds aLeg byCallId lm,
          cg_ladderCorrelations = ladder_correlations (filter (\<lambda>cid. aLeg = Some cid \<or> \<not> is_role_a lm cid) callIds)\<rparr>)"

definition groupMessagesByCall ::
  "(string \<Rightarrow> 'k::linorder) \<Rightarrow> HomerSearchResult list \<Rightarrow> (string \<times> string list) list \<Rightarrow> (string \<times> json) list option \<Rightarrow> CallGroup list option" where
  "groupMessagesByCall coll results correlations legs =
     (let lm = legMap legs; p = fold (\<lambda>row. ensure (hr_callid row)) results Map.empty in
      Option.bind (link_correlations p correlations) (\<lambda>p.
      Option.bind (union_links p (leg_links lm)) (\<lambda>p.
      Option.bind (group_rows p [] results) (\<lambda>groups.
        Some (rev (sort_key (\<lambda>g. coll (hr_timestamp (cg_representative g))) (rev (map (call_group coll lm \<circ> snd) groups))))))))"

section \<open>Display\<close>

text \<open>The parts of the failover summary; the arrow that joins them is not in the character set.\<close>

definition summarizeAttempts :: "LegAttempt list \<Rightarrow> string list option" where
  "summarizeAttempts attempts =
     (if length attempts < 2 then None
      else Some (map (\<lambda>a. case la_finalStatus a of Some s \<Rightarrow> int_str s | None \<Rightarrow> [CHR 0x97]) attempts))"

record CorrelationNotice =
  cn_status :: "string option"
  cn_reason :: "string option"
  cn_truncated :: bool

definition deriveCorrelationNotice :: "obj option \<Rightarrow> CorrelationNotice option" where
  "deriveCorrelationNotice response =
     (case response of
        None \<Rightarrow> None
      | Some r \<Rightarrow>
          (let status = (case ob_get r ''correlation_status'' of Some (JStr s) \<Rightarrow> if s \<noteq> '''' then Some s else None | _ \<Rightarrow> None);
               truncated = (ob_get r ''correlation_truncated'' = Some (JBool True));
               statusBad = (status \<noteq> None \<and> status \<noteq> Some ''ok'')
           in if \<not> statusBad \<and> \<not> truncated then None
              else Some \<lparr>cn_status = status,
                cn_reason = (case ob_get r ''correlation_reason'' of Some (JStr s) \<Rightarrow> if trim s \<noteq> '''' then Some (trim s) else None | _ \<Rightarrow> None),
                cn_truncated = truncated\<rparr>))"

end
