(* ===== verification/Union_Find.thy ===== *)
theory Union_Find
  imports Call_Grouping "HOL-Library.Multiset"
begin

text \<open>
  The union-find of \<open>callGrouping.ts\<close>: both loops of \<open>find\<close> end on a forest, path compression moves no
  root, and \<open>union\<close> joins exactly two classes. What the grouping relies on is the locale
  \<open>merging_list\<close>: a run of merges leaves the connectivity of the links merged.
\<close>

section \<open>Connectivity\<close>

definition linked :: "('k \<times> 'k) set \<Rightarrow> ('k \<times> 'k) set" where
  "linked E = (E \<union> E\<inverse>)\<^sup>*"

lemma linked_refl [simp]: "(x, x) \<in> linked E"
  by (simp add: linked_def)

lemma linked_sym: "(x, y) \<in> linked E \<Longrightarrow> (y, x) \<in> linked E"
proof -
  have "sym ((E \<union> E\<inverse>)\<^sup>*)" by (rule sym_rtrancl) (auto simp: sym_def)
  then show "(x, y) \<in> linked E \<Longrightarrow> (y, x) \<in> linked E" by (simp add: linked_def symD)
qed

lemma linked_trans: "(x, y) \<in> linked E \<Longrightarrow> (y, z) \<in> linked E \<Longrightarrow> (x, z) \<in> linked E"
  unfolding linked_def by (rule rtrancl_trans)

lemma linked_base: "e \<in> E \<Longrightarrow> e \<in> linked E"
  by (cases e) (auto simp: linked_def)

lemma linked_mono: "E \<subseteq> F \<Longrightarrow> linked E \<subseteq> linked F"
  unfolding linked_def by (intro rtrancl_mono) auto

text \<open>The least equivalence relation over the edges.\<close>

lemma linked_least:
  assumes "E \<subseteq> R" and "\<And>x. (x, x) \<in> R" and "\<And>x y. (x, y) \<in> R \<Longrightarrow> (y, x) \<in> R"
    and "\<And>x y z. (x, y) \<in> R \<Longrightarrow> (y, z) \<in> R \<Longrightarrow> (x, z) \<in> R"
  shows "linked E \<subseteq> R"
proof
  fix p assume "p \<in> linked E"
  then obtain x y where p: "p = (x, y)" "(x, y) \<in> (E \<union> E\<inverse>)\<^sup>*" by (cases p) (auto simp: linked_def)
  from p(2) have "(x, y) \<in> R"
  proof (induction rule: rtrancl_induct)
    case (step y z)
    then show ?case using assms by blast
  qed (rule assms(2))
  then show "p \<in> R" by (simp add: p)
qed

lemma linked_linked: "linked (linked E \<union> F) = linked (E \<union> F)"
proof
  have "linked E \<union> F \<subseteq> linked (E \<union> F)" using linked_mono [of E "E \<union> F"] linked_base by blast
  then show "linked (linked E \<union> F) \<subseteq> linked (E \<union> F)"
    by (rule linked_least) (auto intro: linked_sym linked_trans)
  have "E \<union> F \<subseteq> linked E \<union> F" using linked_base by blast
  then show "linked (E \<union> F) \<subseteq> linked (linked E \<union> F)" by (rule linked_mono)
qed

definition joined :: "('k \<times> 'k) set \<Rightarrow> 'k \<Rightarrow> 'k \<Rightarrow> ('k \<times> 'k) set" where
  "joined R a b = R \<union> {(x, y). (x, a) \<in> R \<and> (b, y) \<in> R \<or> (x, b) \<in> R \<and> (a, y) \<in> R}"

lemma joined_linked:
  assumes "equiv UNIV R"
  shows "joined R a b = linked (R \<union> {(a, b)})"
proof
  have r: "(x, x) \<in> R" and s: "(x, y) \<in> R \<Longrightarrow> (y, x) \<in> R" and t: "(x, y) \<in> R \<Longrightarrow> (y, z) \<in> R \<Longrightarrow> (x, z) \<in> R" for x y z
    using assms by (auto simp: equiv_def refl_on_def dest: symD transD)
  have ab: "(a, b) \<in> linked (R \<union> {(a, b)})" by (rule linked_base) simp
  have R: "(x, y) \<in> R \<Longrightarrow> (x, y) \<in> linked (R \<union> {(a, b)})" for x y by (rule linked_base) simp
  show "joined R a b \<subseteq> linked (R \<union> {(a, b)})"
  proof
    fix e assume "e \<in> joined R a b"
    then obtain x y where e: "e = (x, y)" "(x, y) \<in> R \<or> (x, a) \<in> R \<and> (b, y) \<in> R \<or> (x, b) \<in> R \<and> (a, y) \<in> R"
      by (cases e) (auto simp: joined_def)
    from e(2) have "(x, y) \<in> linked (R \<union> {(a, b)})"
    proof (elim disjE conjE)
      assume "(x, a) \<in> R" "(b, y) \<in> R"
      then show ?thesis using R linked_trans [OF linked_trans [OF _ ab]] by blast
    next
      assume "(x, b) \<in> R" "(a, y) \<in> R"
      then show ?thesis using R linked_trans [OF linked_trans [OF _ linked_sym [OF ab]]] by blast
    qed (rule R)
    then show "e \<in> linked (R \<union> {(a, b)})" by (simp add: e)
  qed
  show "linked (R \<union> {(a, b)}) \<subseteq> joined R a b"
  proof (rule linked_least)
    show "R \<union> {(a, b)} \<subseteq> joined R a b" using r by (auto simp: joined_def)
    show "(x, x) \<in> joined R a b" for x using r by (simp add: joined_def)
    show "(x, y) \<in> joined R a b \<Longrightarrow> (y, x) \<in> joined R a b" for x y unfolding joined_def using s by auto
    show "(x, y) \<in> joined R a b \<Longrightarrow> (y, z) \<in> joined R a b \<Longrightarrow> (x, z) \<in> joined R a b" for x y z
      unfolding joined_def by simp (metis s t)
  qed
qed

section \<open>What the client of a union-find structure may rely on\<close>

locale merging =
  fixes ok :: "'p \<Rightarrow> bool"
    and same :: "'p \<Rightarrow> ('k \<times> 'k) set"
    and merge :: "'p \<Rightarrow> 'k \<Rightarrow> 'k \<Rightarrow> 'p option"
  assumes same_equiv: "ok p \<Longrightarrow> equiv UNIV (same p)"
    and merge_returns: "ok p \<Longrightarrow> \<exists>p'. merge p a b = Some p' \<and> ok p' \<and> same p' = joined (same p) a b"

locale merging_list = merging ok same merge
  for ok :: "'p \<Rightarrow> bool" and same :: "'p \<Rightarrow> ('k \<times> 'k) set" and merge :: "'p \<Rightarrow> 'k \<Rightarrow> 'k \<Rightarrow> 'p option" +
  fixes run :: "'p \<Rightarrow> ('k \<times> 'k) list \<Rightarrow> 'p option"
  assumes run_Nil: "run p [] = Some p"
    and run_Cons: "run p ((a, b) # es) = Option.bind (merge p a b) (\<lambda>p. run p es)"
begin

lemma run_connects: "ok p \<Longrightarrow> \<exists>p'. run p es = Some p' \<and> ok p' \<and> same p' = linked (same p \<union> set es)"
proof (induction es arbitrary: p)
  case Nil
  have "linked (same p) \<subseteq> same p"
    by (rule linked_least) (use same_equiv [OF Nil] in \<open>auto simp: equiv_def refl_on_def dest: symD transD\<close>)
  then show ?case using Nil linked_base [of _ "same p"] by (auto simp: run_Nil)
next
  case (Cons e es)
  obtain a b where e: "e = (a, b)" by fastforce
  obtain p1 where p1: "merge p a b = Some p1" "ok p1" "same p1 = joined (same p) a b" using merge_returns [OF Cons.prems] by blast
  obtain p2 where p2: "run p1 es = Some p2" "ok p2" "same p2 = linked (same p1 \<union> set es)" using Cons.IH [OF p1(2)] by blast
  have "same p2 = linked (same p \<union> set (e # es))"
    unfolding p2(3) p1(3) joined_linked [OF same_equiv [OF Cons.prems]] linked_linked by (simp add: e)
  then show ?case using p1 p2 by (simp add: e run_Cons)
qed

end

section \<open>Roots\<close>

inductive root_in :: "parents \<Rightarrow> string \<Rightarrow> string \<Rightarrow> nat \<Rightarrow> bool" for p where
  root_here: "p x = None \<or> p x = Some x \<Longrightarrow> root_in p x x 0"
| root_up: "p x = Some y \<Longrightarrow> y \<noteq> x \<Longrightarrow> root_in p y r n \<Longrightarrow> root_in p x r (Suc n)"

inductive_cases root_in_0E: "root_in p x r 0"
inductive_cases root_in_SucE: "root_in p x r (Suc n)"
inductive_cases root_inE: "root_in p x r n"

lemma root_in_det: "root_in p x r n \<Longrightarrow> root_in p x r' n' \<Longrightarrow> r' = r \<and> n' = n"
proof (induction arbitrary: n' rule: root_in.induct)
  case (root_here x)
  from root_here.prems show ?case
  proof (cases rule: root_in.cases)
    case (root_up y n)
    then show ?thesis using root_here.hyps by simp
  qed simp
next
  case (root_up x y r n)
  from root_up.prems show ?case
  proof (cases rule: root_in.cases)
    case root_here
    then show ?thesis using root_up.hyps by simp
  next
    case (root_up y' n'')
    then have "y' = y" using \<open>p x = Some y\<close> by simp
    then show ?thesis using root_up \<open>\<And>n'. root_in p y r' n' \<Longrightarrow> r' = r \<and> n' = n\<close> by simp
  qed
qed

lemma root_is_top: "root_in p x r n \<Longrightarrow> p r = None \<or> p r = Some r"
  by (induction rule: root_in.induct) auto

lemma root_of_root: "root_in p x r n \<Longrightarrow> root_in p r r 0"
  using root_is_top root_here by blast

definition root_of :: "parents \<Rightarrow> string \<Rightarrow> string \<Rightarrow> bool" where
  "root_of p x r \<longleftrightarrow> (\<exists>n. root_in p x r n)"

lemma root_of_det: "root_of p x r \<Longrightarrow> root_of p x r' \<Longrightarrow> r' = r"
  using root_in_det by (auto simp: root_of_def)

lemma root_of_up: "p x = Some y \<Longrightarrow> root_of p y r \<Longrightarrow> root_of p x r"
proof -
  assume *: "p x = Some y" "root_of p y r"
  then obtain n where n: "root_in p y r n" by (auto simp: root_of_def)
  show "root_of p x r"
  proof (cases "y = x")
    case True then show ?thesis using *(2) by simp
  next
    case False then show ?thesis using root_up [OF *(1) False n] by (auto simp: root_of_def)
  qed
qed

definition forest :: "parents \<Rightarrow> bool" where
  "forest p \<longleftrightarrow> (\<forall>x. \<exists>r. root_of p x r)"

definition same_root :: "parents \<Rightarrow> (string \<times> string) set" where
  "same_root p = {(x, y). \<exists>r. root_of p x r \<and> root_of p y r}"

lemma same_root_equiv: "forest p \<Longrightarrow> equiv UNIV (same_root p)"
proof (rule equivI)
  assume f: "forest p"
  show "refl_on UNIV (same_root p)" using f by (auto simp: refl_on_def same_root_def forest_def)
  show "sym (same_root p)" by (auto simp: sym_def same_root_def)
  show "trans (same_root p)" unfolding trans_def same_root_def using root_of_det by blast
qed simp

section \<open>The loops\<close>

lemma walk_up_root: "root_in p x r n \<Longrightarrow> walk_up p x = Some r"
proof (induction rule: root_in.induct)
  case (root_here x)
  then show ?case by (subst walk_up.simps) auto
next
  case (root_up x y r n)
  then show ?case by (subst walk_up.simps) simp
qed

text \<open>Pointing a node at its own root changes no root, and no path that does not run through the node.\<close>

lemma point_at_root:
  assumes c: "root_in p c r m" "c \<noteq> r"
  shows "root_of (p(c \<mapsto> r)) x s \<longleftrightarrow> root_of p x s"
proof -
  let ?q = "p(c \<mapsto> r)"
  have rr: "root_in ?q r r 0" using root_is_top [OF c(1)] c(2) by (intro root_here) auto
  have to: "root_of ?q x s" if "root_in p x s n" for x n
    using that
  proof (induction rule: root_in.induct)
    case (root_here x)
    then have "x \<noteq> c" using c by (auto elim: root_inE)
    then have "root_in ?q x x 0" using root_here by (intro root_in.root_here) simp
    then show ?case unfolding root_of_def by blast
  next
    case (root_up x y t n)
    show ?case
    proof (cases "x = c")
      case True
      then have "root_in p c t (Suc n)" using root_up.hyps root_in.root_up by blast
      then have "t = r" using root_in_det [OF c(1)] by blast
      moreover have "root_of ?q c r" by (rule root_of_up [of ?q c r]) (use rr in \<open>auto simp only: root_of_def fun_upd_same\<close>)
      ultimately show ?thesis using True by (simp only:)
    next
      case False
      then have "?q x = Some y" using root_up.hyps by simp
      from root_of_up [OF this root_up.IH] show ?thesis .
    qed
  qed
  have "root_of p x s" if "root_in ?q x s n" for n
    using that
  proof (induction rule: root_in.induct)
    case (root_here x)
    then have "x \<noteq> c" using c(2) by auto
    then show ?case using root_here root_in.root_here [of p x] by (auto simp: root_of_def)
  next
    case (root_up x y t n)
    show ?case
    proof (cases "x = c")
      case True
      then have "y = r" using root_up.hyps(1) by simp
      then have "t = r" using root_up.hyps(3) root_in_det [OF rr] by blast
      then show ?thesis using True c(1) by (auto simp: root_of_def)
    next
      case False
      then show ?thesis using root_up.hyps root_up.IH root_of_up [of p x y t] by simp
    qed
  qed
  then show ?thesis using to by (auto simp: root_of_def)
qed

lemma path_kept: "root_in p y r n \<Longrightarrow> root_in p c r m \<Longrightarrow> n < m \<Longrightarrow> root_in (p(c \<mapsto> v)) y r n"
proof (induction rule: root_in.induct)
  case (root_here x)
  then have "x \<noteq> c" using root_in_det [OF root_in.root_here [of p x]] by blast
  then show ?case using root_here by (intro root_in.root_here) simp
next
  case (root_up x y r n)
  have "root_in p x r (Suc n)" using root_up.hyps by (rule root_in.root_up)
  then have "x \<noteq> c" using root_in_det [of p x r "Suc n" r m] root_up.prems by auto
  then show ?case using root_up by (intro root_in.root_up [of _ x y]) auto
qed

lemma compress_spec:
  "root_in p x r n \<Longrightarrow> \<exists>q. compress p r x = Some q \<and> root_of q = root_of p"
proof (induction n arbitrary: p x)
  case 0
  then have "x = r" by (auto elim: root_in_0E)
  then show ?case by (subst compress.simps) simp
next
  case (Suc n)
  from Suc.prems obtain y where y: "p x = Some y" "y \<noteq> x" "root_in p y r n" by (auto elim: root_in_SucE)
  have xr: "x \<noteq> r" using root_of_root [OF Suc.prems] root_in_det [OF Suc.prems] by blast
  have "root_in (p(x \<mapsto> r)) y r n" using path_kept [OF y(3) Suc.prems] by simp
  from Suc.IH [OF this] obtain q where q: "compress (p(x \<mapsto> r)) r y = Some q" "root_of q = root_of (p(x \<mapsto> r))" by blast
  have "root_of (p(x \<mapsto> r)) = root_of p" using point_at_root [OF Suc.prems xr] by (intro ext) simp
  then show ?case using q xr y(1) by (subst compress.simps) simp
qed

lemma find_set_spec:
  assumes "forest p"
  obtains r q where "find_set p x = Some (r, q)" "root_of p x r" "root_of q = root_of p" "forest q"
proof -
  obtain r n where r: "root_in p x r n" using assms unfolding forest_def root_of_def by blast
  obtain q where q: "compress p r x = Some q" "root_of q = root_of p" using compress_spec [OF r] by blast
  show thesis
    by (rule that [of r q]) (use q walk_up_root [OF r] assms r in \<open>auto simp: find_set_def forest_def root_of_def\<close>)
qed

lemma same_root_iff: "root_of p x r \<Longrightarrow> root_of p y s \<Longrightarrow> (x, y) \<in> same_root p \<longleftrightarrow> r = s"
  unfolding same_root_def using root_of_det by blast

lemma same_root_cong: "root_of q = root_of p \<Longrightarrow> same_root q = same_root p"
  by (simp add: same_root_def)

lemma root_of_ensure: "root_of (ensure i p) = root_of p"
proof (cases "p i = None")
  case True
  have to: "root_in (p(i \<mapsto> i)) x r n" if "root_in p x r n" for x r n
    using that
  proof (induction rule: root_in.induct)
    case (root_up x y r n)
    then show ?case using True by (intro root_in.root_up [of _ x y]) auto
  next
    case (root_here x)
    then show ?case by (intro root_in.root_here) simp
  qed
  have from_new: "root_in p x r n" if "root_in (p(i \<mapsto> i)) x r n" for x r n
    using that
  proof (induction rule: root_in.induct)
    case (root_here x)
    then show ?case using True by (cases "x = i") (auto intro: root_in.root_here)
  next
    case (root_up x y r n)
    then have "x \<noteq> i" by auto
    then show ?case using root_up by (intro root_in.root_up [of _ x y]) auto
  qed
  have "root_of (p(i \<mapsto> i)) = root_of p" unfolding root_of_def using to from_new by blast
  then show ?thesis using True by (simp add: ensure_def)
next
  case False
  then have "ensure i p = p" by (auto simp: ensure_def)
  then show ?thesis by simp
qed

lemma forest_ensure [simp]: "forest (ensure i p) \<longleftrightarrow> forest p"
  by (simp add: forest_def root_of_ensure)


lemma root_of_attach:
  assumes f: "forest p" and ab: "root_of p a a" "root_of p b b" "a \<noteq> b"
  shows "root_of (p(b \<mapsto> a)) x r \<longleftrightarrow> (if root_of p x b then r = a else root_of p x r)"
proof -
  let ?q = "p(b \<mapsto> a)"
  have top_a: "p a = None \<or> p a = Some a" using ab(1) root_is_top unfolding root_of_def by blast
  have qa: "root_of ?q a a" using root_here [of ?q a] top_a ab(3) unfolding root_of_def by auto
  have qb: "root_of ?q b a" by (rule root_of_up [of ?q b a, OF _ qa]) simp
  have to: "root_of ?q x (if t = b then a else t)" if "root_in p x t n" for x t n
    using that
  proof (induction rule: root_in.induct)
    case (root_here x)
    show ?case
    proof (cases "x = b")
      case True
      then show ?thesis using qb by (simp only: if_True refl)
    next
      case False
      then have "root_in ?q x x 0" using root_here by (intro root_in.root_here) simp
      then show ?thesis using False unfolding root_of_def by auto
    qed
  next
    case (root_up x y t n)
    have "x \<noteq> b" using root_up.hyps ab(2) root_is_top unfolding root_of_def by fastforce
    then have "?q x = Some y" using root_up.hyps by simp
    from root_of_up [OF this root_up.IH] show ?case .
  qed
  obtain t n where t: "root_in p x t n" using f unfolding forest_def root_of_def by blast
  have "root_of p x t" using t unfolding root_of_def by blast
  then show ?thesis using to [OF t] root_of_det [of ?q x] root_of_det [of p x] by metis
qed

lemma union_sets_spec:
  assumes f: "forest p"
  shows "\<exists>q. union_sets p a b = Some q \<and> forest q \<and> same_root q = joined (same_root p) a b"
proof -
  let ?p = "ensure b (ensure a p)"
  have f0: "forest ?p" and r0: "root_of ?p = root_of p" using f by (simp_all add: root_of_ensure)
  obtain ra p1 where 1: "find_set ?p a = Some (ra, p1)" "root_of ?p a ra" "root_of p1 = root_of ?p" "forest p1"
    by (rule find_set_spec [OF f0])
  obtain rb p2 where 2: "find_set p1 b = Some (rb, p2)" "root_of p1 b rb" "root_of p2 = root_of p1" "forest p2"
    by (rule find_set_spec [OF 1(4)])
  have a: "root_of p a ra" and b: "root_of p b rb" and p2: "root_of p2 = root_of p" using 1 2 r0 by simp_all
  have tops: "root_of p2 ra ra" "root_of p2 rb rb" using a b root_of_root unfolding p2 root_of_def by blast+
  show ?thesis
  proof (cases "ra = rb")
    case True
    have "joined (same_root p) a b = same_root p"
      unfolding joined_def same_root_def using a b root_of_det True by blast
    then show ?thesis using 1 2 True same_root_cong [OF p2] by (simp add: union_sets_def)
  next
    case False
    let ?q = "p2(rb \<mapsto> ra)"
    have q: "root_of ?q x r \<longleftrightarrow> (if root_of p x rb then r = ra else root_of p x r)" for x r
      using root_of_attach [OF 2(4) tops False] by (simp add: p2)
    have "forest ?q" unfolding forest_def q using f unfolding forest_def by metis
    moreover have "(x, y) \<in> same_root ?q \<longleftrightarrow> (x, y) \<in> joined (same_root p) a b" for x y
    proof -
      obtain rx ry where xy: "root_of p x rx" "root_of p y ry" using f unfolding forest_def by blast
      have "root_of ?q x (if rx = rb then ra else rx)" "root_of ?q y (if ry = rb then ra else ry)"
        unfolding q using xy root_of_det by auto
      then have "(x, y) \<in> same_root ?q \<longleftrightarrow> (if rx = rb then ra else rx) = (if ry = rb then ra else ry)"
        by (rule same_root_iff)
      also have "\<dots> \<longleftrightarrow> rx = ry \<or> rx = ra \<and> rb = ry \<or> rx = rb \<and> ra = ry" using False by auto
      also have "\<dots> \<longleftrightarrow> (x, y) \<in> joined (same_root p) a b"
        unfolding joined_def using same_root_iff xy a b by simp
      finally show ?thesis .
    qed
    then have "same_root ?q = joined (same_root p) a b" by auto
    ultimately show ?thesis using 1 2 False by (simp add: union_sets_def)
  qed
qed


interpretation calls: merging_list forest same_root union_sets union_links
  by unfold_locales (simp_all add: same_root_equiv union_sets_spec)

end
