(* ===== verification/Call_Props.thy ===== *)
theory Call_Props
  imports Union_Find "HOL-Library.List_Lexorder"
begin

text \<open>
  Correctness of the call grouping: the groups are the classes of the links between Call-IDs, and a
  failed attempt never hides an answer.
\<close>

section \<open>Groups of Call-IDs\<close>

definition correlation_links :: "(string \<times> string list) list \<Rightarrow> (string \<times> string) set" where
  "correlation_links cs = {(cid, other). \<exists>related. (cid, related) \<in> set cs \<and> other \<in> set related}"

definition call_links :: "(string \<times> string list) list \<Rightarrow> (string \<times> json) list option \<Rightarrow> (string \<times> string) set" where
  "call_links cs legs = correlation_links cs \<union> set (leg_links (legMap legs))"

lemma link_correlations_spec:
  "forest p \<Longrightarrow> \<exists>q. link_correlations p cs = Some q \<and> forest q \<and> same_root q = linked (same_root p \<union> correlation_links cs)"
proof (induction cs arbitrary: p)
  case Nil
  then show ?case using calls.run_connects [OF Nil, of "[]"] by (simp add: correlation_links_def)
next
  case (Cons c cs)
  obtain cid related where c: "c = (cid, related)" by fastforce
  have f: "forest (ensure cid p)" "same_root (ensure cid p) = same_root p"
    using Cons.prems same_root_cong [OF root_of_ensure] by simp_all
  obtain p1 where p1: "union_links (ensure cid p) (map (Pair cid) related) = Some p1" "forest p1"
      "same_root p1 = linked (same_root p \<union> set (map (Pair cid) related))"
    using calls.run_connects [OF f(1), of "map (Pair cid) related"] f(2) by auto
  obtain p2 where p2: "link_correlations p1 cs = Some p2" "forest p2" "same_root p2 = linked (same_root p1 \<union> correlation_links cs)"
    using Cons.IH [OF p1(2)] by blast
  have "set (map (Pair cid) related) \<union> correlation_links cs = correlation_links (c # cs)"
    by (auto simp: correlation_links_def c)
  then have "same_root p2 = linked (same_root p \<union> correlation_links (c # cs))"
    unfolding p2(3) p1(3) linked_linked by (simp add: Un_assoc)
  then show ?case using p1 p2 by (simp add: c)
qed

lemma fresh_forest: "forest (fold (\<lambda>row. ensure (hr_callid row)) rows Map.empty)"
  "same_root (fold (\<lambda>row. ensure (hr_callid row)) rows Map.empty) = Id"
proof -
  have none: "root_of Map.empty x r \<longleftrightarrow> r = x" for x r
    using root_here [of Map.empty x] root_of_det [of Map.empty x x r] unfolding root_of_def by auto
  have "root_of (fold (\<lambda>row. ensure (hr_callid row)) rows p) = root_of p" for p
    by (induction rows arbitrary: p) (simp_all add: root_of_ensure)
  then have r: "root_of (fold (\<lambda>row. ensure (hr_callid row)) rows Map.empty) = root_of Map.empty" by blast
  show "forest (fold (\<lambda>row. ensure (hr_callid row)) rows Map.empty)"
    unfolding forest_def r none by blast
  show "same_root (fold (\<lambda>row. ensure (hr_callid row)) rows Map.empty) = Id"
    unfolding same_root_def r none by auto
qed

lemma linked_Id: "linked (Id \<union> E) = linked E"
proof
  show "linked (Id \<union> E) \<subseteq> linked E"
  proof (rule linked_least)
    show "Id \<union> E \<subseteq> linked E" using linked_base by auto
  qed (auto intro: linked_sym dest: linked_trans)
qed (intro linked_mono; simp)

lemma all_links:
  fixes rows :: "HomerSearchResult list"
  obtains p q where "link_correlations (fold (\<lambda>row. ensure (hr_callid row)) rows Map.empty) cs = Some p"
    "union_links p (leg_links (legMap legs)) = Some q" "forest q" "same_root q = linked (call_links cs legs)"
proof -
  obtain p where p: "link_correlations (fold (\<lambda>row. ensure (hr_callid row)) rows Map.empty) cs = Some p" "forest p"
      "same_root p = linked (correlation_links cs)"
    using link_correlations_spec [OF fresh_forest(1), of rows cs] by (auto simp: fresh_forest(2) linked_Id)
  obtain q where q: "union_links p (leg_links (legMap legs)) = Some q" "forest q" "same_root q = linked (same_root p \<union> set (leg_links (legMap legs)))"
    using calls.run_connects [OF p(2)] by blast
  show thesis by (rule that [OF p(1) q(1,2)]) (simp add: q(3) p(3) linked_linked call_links_def)
qed

section \<open>Grouping the rows\<close>

abbreviation rows_of :: "parents \<Rightarrow> HomerSearchResult list \<Rightarrow> string \<Rightarrow> HomerSearchResult list" where
  "rows_of p rows r \<equiv> filter (\<lambda>row. root_of p (hr_callid row) r) rows"

definition grouped :: "parents \<Rightarrow> HomerSearchResult list \<Rightarrow> (string \<times> HomerSearchResult list) list \<Rightarrow> bool" where
  "grouped p rows groups \<longleftrightarrow> distinct (ob_keys groups)
     \<and> (\<forall>r. ob_get groups r = (if rows_of p rows r = [] then None else Some (rows_of p rows r)))"

lemma grouped_cong: "root_of q = root_of p \<Longrightarrow> grouped q rows groups = grouped p rows groups"
  by (simp add: grouped_def)

lemma grouped_snoc:
  assumes "grouped p rows groups" and "root_of p (hr_callid row) r"
  shows "grouped p (rows @ [row]) (ob_set groups r (case ob_get groups r of Some existing \<Rightarrow> existing @ [row] | None \<Rightarrow> [row]))"
proof -
  have "root_of p (hr_callid row) r' \<longleftrightarrow> r' = r" for r' using assms(2) root_of_det by blast
  then show ?thesis using assms(1) by (auto simp: grouped_def ob_simps)
qed

lemma group_rows_spec:
  "forest p \<Longrightarrow> grouped p before groups \<Longrightarrow> \<exists>gs. group_rows p groups rows = Some gs \<and> grouped p (before @ rows) gs"
proof (induction rows arbitrary: p groups before)
  case (Cons row rows)
  obtain r q where q: "find_set p (hr_callid row) = Some (r, q)" "root_of p (hr_callid row) r" "root_of q = root_of p" "forest q"
    by (rule find_set_spec [OF Cons.prems(1)])
  have "grouped q (before @ [row]) (ob_set groups r (case ob_get groups r of Some existing \<Rightarrow> existing @ [row] | None \<Rightarrow> [row]))"
    unfolding grouped_cong [OF q(3)] by (rule grouped_snoc [OF Cons.prems(2) q(2)])
  from Cons.IH [OF q(4) this] show ?case using q(1) grouped_cong [OF q(3)] by simp
qed simp

text \<open>The groups split the rows.\<close>

lemma grouped_entry:
  assumes "grouped p rows groups" "(r, ms) \<in> set groups"
  shows "ms = rows_of p rows r" "ms \<noteq> []"
proof -
  have "distinct (map fst groups)" using assms(1) by (simp add: grouped_def)
  then have "ob_get groups r = Some ms" using assms(2) by (rule map_of_is_SomeI)
  moreover have "ob_get groups r = (if rows_of p rows r = [] then None else Some (rows_of p rows r))"
    using assms(1) unfolding grouped_def by blast
  ultimately show "ms = rows_of p rows r" "ms \<noteq> []" by (auto split: if_splits)
qed

lemma mset_grouped:
  assumes "forest p" and "grouped p rows groups"
  shows "mset (concat (map snd groups)) = mset rows"
proof (rule multiset_eqI)
  fix row :: HomerSearchResult
  have d: "distinct (map fst groups)" and get: "\<And>r. ob_get groups r = (if rows_of p rows r = [] then None else Some (rows_of p rows r))"
    using assms(2) by (auto simp: grouped_def)
  have snd_of: "snd g = rows_of p rows (fst g)" if "g \<in> set groups" for g
    using grouped_entry(1) [OF assms(2), of "fst g" "snd g"] that by simp
  obtain r where r: "root_of p (hr_callid row) r" using assms(1) by (auto simp: forest_def)
  have one: "root_of p (hr_callid row) r' \<longleftrightarrow> r' = r" for r' using r root_of_det by blast
  have zero: "count (mset (rows_of p rows r')) row = 0" if "r' \<noteq> r" for r' using that one by (auto simp: count_mset)
  have "count (mset (concat (map snd gs))) row = (if r \<in> fst ` set gs then count (mset rows) row else 0)"
    if "set gs \<subseteq> set groups" "distinct (map fst gs)" for gs
    using that
  proof (induction gs)
    case (Cons g gs)
    have g: "snd g = rows_of p rows (fst g)" using Cons.prems snd_of by simp
    show ?case
    proof (cases "fst g = r")
      case True
      then have "count (mset (snd g)) row = count (mset rows) row" using g one by (simp add: r)
      then show ?thesis using Cons True by (auto simp: image_iff)
    next
      case False
      then show ?thesis using Cons g zero [OF False] by auto
    qed
  qed simp
  from this [of groups] d have "count (mset (concat (map snd groups))) row = (if r \<in> fst ` set groups then count (mset rows) row else 0)" by simp
  moreover have "count (mset rows) row = 0" if "r \<notin> fst ` set groups"
  proof -
    have "ob_get groups r = None" using that by (simp add: map_of_eq_None_iff)
    then have "rows_of p rows r = []" using get [of r] by (auto split: if_splits)
    then show ?thesis using one by (auto simp: filter_empty_conv)
  qed
  ultimately show "count (mset (concat (map snd groups))) row = count (mset rows) row" by auto
qed


lemma grouped_same:
  assumes f: "forest p" and g: "grouped p rows groups" and m: "(r, ms) \<in> set groups" "m \<in> set ms" and m': "m' \<in> set rows"
  shows "m' \<in> set ms \<longleftrightarrow> (hr_callid m, hr_callid m') \<in> same_root p"
proof -
  have ms: "ms = rows_of p rows r" by (rule grouped_entry(1) [OF g m(1)])
  then have r: "root_of p (hr_callid m) r" using m(2) by simp
  obtain r' where r': "root_of p (hr_callid m') r'" using f by (auto simp: forest_def)
  have "m' \<in> set ms \<longleftrightarrow> root_of p (hr_callid m') r" using ms m' by simp
  also have "\<dots> \<longleftrightarrow> r = r'" using r' root_of_det by blast
  finally show ?thesis unfolding same_root_iff [OF r r'] .
qed

section \<open>One group\<close>

lemma group_messages [simp]: "cg_messages (call_group coll lm rows) = sort_key (\<lambda>m. coll (hr_timestamp m)) rows"
  by (simp add: call_group_def Let_def)

lemma by_call_id_get:
  "ob_get (by_call_id ms) cid = (let l = filter (\<lambda>m. hr_callid m = cid) ms in if l = [] then None else Some l)"
  "distinct (ob_keys (by_call_id ms))"
proof -
  have "ob_get (by_call_id ms) cid = (let l = filter (\<lambda>m. hr_callid m = cid) ms in if l = [] then None else Some l)
    \<and> distinct (ob_keys (by_call_id ms))" for cid
  proof (induction ms arbitrary: cid rule: rev_induct)
    case (snoc m ms)
    have "by_call_id (ms @ [m]) = ob_set (by_call_id ms) (hr_callid m)
        (case ob_get (by_call_id ms) (hr_callid m) of Some l \<Rightarrow> l @ [m] | None \<Rightarrow> [m])" by (simp add: by_call_id_def)
    moreover have "ob_get (by_call_id ms) c = (if filter (\<lambda>m. hr_callid m = c) ms = [] then None else Some (filter (\<lambda>m. hr_callid m = c) ms))" for c
      using snoc by (simp add: Let_def)
    ultimately show ?case using snoc by (simp add: ob_simps Let_def)
  qed (simp add: by_call_id_def)
  then show "ob_get (by_call_id ms) cid = (let l = filter (\<lambda>m. hr_callid m = cid) ms in if l = [] then None else Some l)"
    "distinct (ob_keys (by_call_id ms))" by blast+
qed

lemma leg_messages:
  "(case ob_get (by_call_id ms) a of Some l \<Rightarrow> l | None \<Rightarrow> []) = filter (\<lambda>m. hr_callid m = a) ms"
  by (auto simp: by_call_id_get(1) Let_def)

lemma callIds_set: "set (ob_keys (by_call_id ms)) = hr_callid ` set ms"
proof -
  have "cid \<in> set (ob_keys (by_call_id ms)) \<longleftrightarrow> ob_get (by_call_id ms) cid \<noteq> None" for cid
    by (simp add: map_of_eq_None_iff)
  moreover have "ob_get (by_call_id ms) cid \<noteq> None \<longleftrightarrow> cid \<in> hr_callid ` set ms" for cid
    by (auto simp: by_call_id_get(1) Let_def filter_empty_conv)
  ultimately show ?thesis by blast
qed

text \<open>The messages of the A leg.\<close>

definition a_leg_messages :: "CallGroup \<Rightarrow> HomerSearchResult list" where
  "a_leg_messages g = (case cg_aLegCallId g of Some a \<Rightarrow> filter (\<lambda>m. hr_callid m = a) (cg_messages g) | None \<Rightarrow> [])"

lemma call_group_status:
  "cg_finalStatus (call_group coll lm rows)
    = result_status (initialInviteOutcome (a_leg_messages (call_group coll lm rows))) (cg_messages (call_group coll lm rows))"
  by (simp add: call_group_def a_leg_messages_def Let_def leg_messages split: option.splits)

lemma or_else_find_in: "or_else (List.find P xs) (List.find P ys) = Some m \<Longrightarrow> m \<in> set xs \<union> set ys"
  by (auto simp: or_else_def dest: find_Some_in split: option.splits)

lemma representative_in:
  assumes "rows \<noteq> []"
  shows "cg_representative (call_group coll lm rows) \<in> set rows"
proof -
  let ?ms = "sort_key (\<lambda>m. coll (hr_timestamp m)) rows"
  define as where "as = (case pickALeg (ob_keys (by_call_id ?ms)) ?ms lm of Some a \<Rightarrow> filter (\<lambda>m. hr_callid m = a) ?ms | None \<Rightarrow> [])"
  have "cg_representative (call_group coll lm rows)
      = (case or_else (List.find isInviteRequest as) (List.find isInviteRequest ?ms) of Some m \<Rightarrow> m | None \<Rightarrow> hd ?ms)"
    by (cases "pickALeg (ob_keys (by_call_id ?ms)) ?ms lm") (simp_all add: call_group_def Let_def leg_messages as_def)
  moreover have "set as \<subseteq> set rows" by (auto simp: as_def split: option.splits)
  moreover have "hd ?ms \<in> set rows"
    using assms hd_in_set [of ?ms] by (metis set_sort mset_sort mset_zero_iff)
  ultimately show ?thesis using or_else_find_in [of isInviteRequest as ?ms] by (fastforce split: option.splits)
qed

section \<open>The result of a group\<close>

lemma outcome_answered:
  assumes "m \<in> set (initial_finals ms)" "success_status m"
  shows "\<exists>s. lo_status (initialInviteOutcome ms) = Some s \<and> 200 \<le> s \<and> s < 300"
proof -
  have "List.find success_status (initial_finals ms) \<noteq> None"
    unfolding find_None_all using assms by blast
  then obtain a where a: "List.find success_status (initial_finals ms) = Some a" by blast
  then have "success_status a" using find_Some_in by metis
  then obtain s where "hr_status a = Some s" "200 \<le> s" "s < 300" by (cases "hr_status a") auto
  then show ?thesis using a by (simp add: initialInviteOutcome_def)
qed

lemma outcome_none: "lo_status (initialInviteOutcome ms) = None \<longleftrightarrow> initial_finals ms = []"
proof -
  have "hr_status m \<noteq> None" if "m \<in> set (initial_finals ms)" for m
    using that by (auto simp: initial_finals_def inviteResponses_def split: option.splits)
  moreover have "a \<in> set (initial_finals ms)" if "List.find success_status (initial_finals ms) = Some a" for a
    using that find_Some_in by metis
  ultimately show ?thesis
    by (cases "List.find success_status (initial_finals ms)"; cases "initial_finals ms = []") (auto simp: initialInviteOutcome_def Let_def)
qed

section \<open>The whole result\<close>

lemma grouping_spec:
  obtains gs groups p where "groupMessagesByCall coll results cs legs = Some gs"
    "forest p" "same_root p = linked (call_links cs legs)" "grouped p results groups"
    "gs = rev (sort_key (\<lambda>g. coll (hr_timestamp (cg_representative g))) (rev (map (call_group coll (legMap legs) \<circ> snd) groups)))"
proof -
  obtain p0 p where p: "link_correlations (fold (\<lambda>row. ensure (hr_callid row)) results Map.empty) cs = Some p0"
    "union_links p0 (leg_links (legMap legs)) = Some p" "forest p" "same_root p = linked (call_links cs legs)"
    by (rule all_links)
  have "grouped p [] []" by (simp add: grouped_def)
  from group_rows_spec [OF p(3) this, of results] obtain groups where g: "group_rows p [] results = Some groups" "grouped p results groups"
    by auto
  show thesis by (rule that [OF _ p(3,4) g(2) refl]) (simp add: groupMessagesByCall_def Let_def p(1,2) g(1))
qed

lemma mset_concat_map: "mset (concat (map f xs)) = (\<Sum>x \<in># mset xs. mset (f x))"
  by (induction xs) auto

lemma attempts_ids:
  "mset (map la_callid (buildAttempts cids aLeg b legs)) = mset (filter (\<lambda>cid. \<not> (aLeg = Some cid \<or> is_role_a legs cid)) cids)"
proof -
  have row: "map (\<lambda>r. la_callid (fst r)) (map (attempt_row b legs) xs) = xs" for xs
    by (induction xs) (simp_all add: attempt_row_def Let_def)
  have srt: "mset (map la_callid (map fst (sort_key f xs))) = mset (map (\<lambda>r. la_callid (fst r)) xs)" for f :: "LegAttempt \<times> rat \<Rightarrow> rat option \<times> rat" and xs
    by (simp add: image_mset.compositionality comp_def)
  show ?thesis unfolding buildAttempts_def Let_def srt row ..
qed

lemma call_group_attempts:
  "mset (map la_callid (cg_attempts (call_group coll lm rows)))
    = mset (filter (\<lambda>cid. cg_aLegCallId (call_group coll lm rows) \<noteq> Some cid \<and> \<not> is_role_a lm cid) (cg_callIds (call_group coll lm rows)))"
proof -
  define g where "g = call_group coll lm rows"
  obtain b where "cg_attempts g = buildAttempts (cg_callIds g) (cg_aLegCallId g) b lm"
    by (simp add: g_def call_group_def Let_def)
  then show ?thesis unfolding g_def [symmetric] by (simp only: attempts_ids de_Morgan_disj)
qed

lemma in_result:
  assumes "grouped p results groups"
    and "g \<in> set (rev (sort_key k (rev (map (call_group coll lm \<circ> snd) groups))))"
  obtains r rows where "(r, rows) \<in> set groups" "g = call_group coll lm rows" "rows \<noteq> []"
proof -
  from assms(2) obtain e where e: "e \<in> set groups" "g = call_group coll lm (snd e)" by auto
  show thesis by (rule that [of "fst e" "snd e"]) (use e grouped_entry(2) [OF assms(1), of "fst e" "snd e"] in auto)
qed

lemma success_value: "success_status a \<Longrightarrow> \<exists>s. hr_status a = Some s \<and> 200 \<le> s \<and> s < 300"
  by (cases "hr_status a") auto

lemma find_witness: "x \<in> set xs \<Longrightarrow> P x \<Longrightarrow> \<exists>a. List.find P xs = Some a \<and> P a"
  by (induction xs) auto

lemma result_from_group:
  assumes "lo_status out = None" "m \<in> set ms" "success_status m" "txnMethod m = ''INVITE''"
  shows "\<exists>s. result_status out ms = Some s \<and> 200 \<le> s \<and> s < 300"
proof -
  let ?P = "\<lambda>m. success_status m \<and> txnMethod m = ''INVITE''"
  obtain a where a: "List.find ?P ms = Some a" "?P a" using find_witness [of m ms ?P] assms(2-4) by blast
  obtain s where s: "hr_status a = Some s" "200 \<le> s" "s < 300" using success_value a(2) by blast
  have "result_status out ms = hr_status a" unfolding result_status_def assms(1) a(1) by (simp only: option.case)
  then show ?thesis using s by simp
qed

lemma result_from_leg: "lo_status out = Some s \<Longrightarrow> result_status out ms = Some s"
  by (simp add: result_status_def)

section \<open>A failover call\<close>

definition coll0 :: "string \<Rightarrow> nat list" where
  "coll0 s = map of_char s"

definition row0 :: "string \<Rightarrow> string \<Rightarrow> string \<Rightarrow> int option \<Rightarrow> HomerSearchResult" where
  "row0 t cid meth st = \<lparr>hr_timestamp = t, hr_timestamp_ns = None, hr_callid = cid, hr_method = meth, hr_status = st,
     hr_cseq = Some ''1 INVITE'', hr_attestation = None\<rparr>"

definition rows0 :: "HomerSearchResult list" where
  "rows0 = [row0 ''1'' ''a'' ''INVITE'' None, row0 ''2'' ''b'' ''INVITE'' None, row0 ''3'' ''b'' ''x'' (Some 503), row0 ''4'' ''a'' ''x'' (Some 200)]"

definition links0 :: "(string \<times> string list) list" where
  "links0 = [(''a'', [''b''])]"

definition groups0 :: "CallGroup list" where
  "groups0 = (case groupMessagesByCall coll0 rows0 links0 None of Some gs \<Rightarrow> gs | None \<Rightarrow> [])"

lemma groups0_one: "length groups0 = 1"
  by code_simp

lemma groups0_result: "groupMessagesByCall coll0 rows0 links0 None = Some groups0"
  using groups0_one by (cases "groupMessagesByCall coll0 rows0 links0 None") (simp_all add: groups0_def)

lemma groups0_answered: "list_ex success_status (initial_finals (a_leg_messages (hd groups0)))"
  by code_simp

section \<open>Properties\<close>

text \<open>C9. Grouping always returns. The groups split the messages, every message in exactly one of them; two
  messages are in one group exactly when their Call-IDs are connected by the correlations and the leg map
  together; every group's representative is one of its messages; and the newest call comes first.\<close>

theorem groups_are_calls:
  "\<exists>gs. groupMessagesByCall coll results cs legs = Some gs
     \<and> mset (concat (map cg_messages gs)) = mset results
     \<and> (\<forall>g \<in> set gs. cg_representative g \<in> set (cg_messages g)
          \<and> (\<forall>m \<in> set (cg_messages g). \<forall>m' \<in> set results.
                m' \<in> set (cg_messages g) \<longleftrightarrow> (hr_callid m, hr_callid m') \<in> linked (call_links cs legs)))
     \<and> sorted_wrt (\<lambda>g g'. coll (hr_timestamp (cg_representative g')) \<le> coll (hr_timestamp (cg_representative g))) gs"
proof -
  obtain gs groups p where gs: "groupMessagesByCall coll results cs legs = Some gs"
    and p: "forest p" "same_root p = linked (call_links cs legs)" "grouped p results groups"
    and eq: "gs = rev (sort_key (\<lambda>g. coll (hr_timestamp (cg_representative g))) (rev (map (call_group coll (legMap legs) \<circ> snd) groups)))"
    by (rule grouping_spec)
  have "mset (concat (map cg_messages gs)) = mset (concat (map snd groups))"
  proof -
    have "mset (concat (map cg_messages gs)) = mset (concat (map cg_messages (map (call_group coll (legMap legs) \<circ> snd) groups)))"
      unfolding eq mset_concat_map by simp
    also have "\<dots> = mset (concat (map snd groups))" by (induction groups) auto
    finally show ?thesis .
  qed
  then have "mset (concat (map cg_messages gs)) = mset results" using mset_grouped [OF p(1,3)] by simp
  moreover have "cg_representative g \<in> set (cg_messages g)
      \<and> (\<forall>m \<in> set (cg_messages g). \<forall>m' \<in> set results. m' \<in> set (cg_messages g) \<longleftrightarrow> (hr_callid m, hr_callid m') \<in> linked (call_links cs legs))"
    if mem: "g \<in> set gs" for g
  proof -
    obtain r rows where g: "(r, rows) \<in> set groups" "g = call_group coll (legMap legs) rows" "rows \<noteq> []"
      by (rule in_result [OF p(3) mem [unfolded eq]])
    show ?thesis using g(2) representative_in [OF g(3)] grouped_same [OF p(1,3) g(1)] p(2) by simp
  qed
  moreover have "sorted_wrt (\<lambda>g g'. coll (hr_timestamp (cg_representative g')) \<le> coll (hr_timestamp (cg_representative g))) gs"
    unfolding eq sorted_wrt_rev using sorted_sort_key [of "\<lambda>g. coll (hr_timestamp (cg_representative g))"] by (simp add: sorted_map)
  ultimately show ?thesis using gs by blast
qed

theorem groups_are_calls_witness:
  "(''a'', ''b'') \<in> linked (call_links links0 None)
   \<and> (\<exists>gs. groupMessagesByCall coll0 rows0 links0 None = Some gs
        \<and> (\<forall>g \<in> set gs. row0 ''1'' ''a'' ''INVITE'' None \<in> set (cg_messages g) \<longrightarrow> row0 ''3'' ''b'' ''x'' (Some 503) \<in> set (cg_messages g)))"
proof -
  have ab: "(''a'', ''b'') \<in> linked (call_links links0 None)"
    by (rule linked_base) (simp add: call_links_def correlation_links_def links0_def)
  have rows: "row0 ''3'' ''b'' ''x'' (Some 503) \<in> set rows0" by (simp add: rows0_def)
  have ids: "hr_callid (row0 t cid meth st) = cid" for t cid meth st by (simp add: row0_def)
  show ?thesis using groups_are_calls [of coll0 rows0 links0 None] ab rows ids by metis
qed

text \<open>C18. When the A leg's first INVITE was answered, or the A leg has no final response and some INVITE of the
  call was answered, the call's result is a success, whatever other attempts failed with; and the attempts list
  every leg of the call that is not an A leg once.\<close>

theorem answer_never_masked:
  assumes "groupMessagesByCall coll results cs legs = Some gs" and "g \<in> set gs"
    and "(\<exists>m \<in> set (initial_finals (a_leg_messages g)). success_status m)
         \<or> initial_finals (a_leg_messages g) = [] \<and> (\<exists>m \<in> set (cg_messages g). success_status m \<and> txnMethod m = ''INVITE'')"
  shows "(\<exists>s. cg_finalStatus g = Some s \<and> 200 \<le> s \<and> s < 300)
     \<and> mset (map la_callid (cg_attempts g))
         = mset (filter (\<lambda>cid. cg_aLegCallId g \<noteq> Some cid \<and> \<not> is_role_a (legMap legs) cid) (cg_callIds g))"
proof -
  obtain gs' groups p where gs: "groupMessagesByCall coll results cs legs = Some gs'" and p: "grouped p results groups"
    and eq: "gs' = rev (sort_key (\<lambda>g. coll (hr_timestamp (cg_representative g))) (rev (map (call_group coll (legMap legs) \<circ> snd) groups)))"
    by (rule grouping_spec)
  have mem: "g \<in> set gs'" using assms(1,2) gs by simp
  obtain r rows where g: "g = call_group coll (legMap legs) rows"
    by (rule in_result [OF p mem [unfolded eq]])
  have status: "cg_finalStatus g = result_status (initialInviteOutcome (a_leg_messages g)) (cg_messages g)"
    unfolding g by (rule call_group_status)
  from assms(3) have "\<exists>s. cg_finalStatus g = Some s \<and> 200 \<le> s \<and> s < 300"
  proof
    assume "\<exists>m \<in> set (initial_finals (a_leg_messages g)). success_status m"
    then show ?thesis unfolding status using outcome_answered result_from_leg by metis
  next
    assume "initial_finals (a_leg_messages g) = [] \<and> (\<exists>m \<in> set (cg_messages g). success_status m \<and> txnMethod m = ''INVITE'')"
    then show ?thesis unfolding status using outcome_none result_from_group by metis
  qed
  moreover have "mset (map la_callid (cg_attempts g))
      = mset (filter (\<lambda>cid. cg_aLegCallId g \<noteq> Some cid \<and> \<not> is_role_a (legMap legs) cid) (cg_callIds g))"
    unfolding g by (rule call_group_attempts)
  ultimately show ?thesis by (rule conjI)
qed

theorem answer_never_masked_witness:
  "groupMessagesByCall coll0 rows0 links0 None = Some groups0
   \<and> (\<exists>s. cg_finalStatus (hd groups0) = Some s \<and> 200 \<le> s \<and> s < 300)"
proof -
  have "hd groups0 \<in> set groups0" using groups0_one by (intro hd_in_set) force
  from answer_never_masked [OF groups0_result this] groups0_answered groups0_result
  show ?thesis unfolding list_ex_iff by blast
qed

end
