(* ===== verification/Autosave.thy ===== *)
theory Autosave
  imports Assist Store_Changes
begin

text \<open>
  Autosave of the builder (\<open>flow/useAutosave.ts\<close>) with the error readers it calls
  (\<open>pages/ivr/ivrData.ts\<close>). The hook's refs are one record. What happens later is an event: the timer
  fires, the PUT lands, a fetch is answered, the page is left. Whatever awaits the PUT runs right after it
  lands. The server's answers are the arguments of the events.
\<close>

section \<open>API errors\<close>

text \<open>What an API call throws: an \<open>ApiError\<close> with its status, message and body, or something else.\<close>

datatype Failure = ApiFailure int string "json option" | OtherFailure

record IvrErrorBody =
  ie_code :: "string option"
  ie_currentRevision :: "int option"
  ie_errors :: "Issue list"
  ie_flows :: "string list"

fun issue_as :: "json \<Rightarrow> Issue option" where
  "issue_as (JObj i) =
     (case ob_get i ''message'' of
        Some (JStr m) \<Rightarrow>
          Some \<lparr>iss_code = str_or ''invalid'' (ob_get i ''code''), iss_message = m,
                iss_node_id = (case ob_get i ''node_id'' of Some (JStr s) \<Rightarrow> Some s | _ \<Rightarrow> None),
                iss_handle = (case ob_get i ''handle'' of Some (JStr s) \<Rightarrow> Some s | _ \<Rightarrow> None)\<rparr>
      | _ \<Rightarrow> None)"
| "issue_as _ = None"

definition asIssues :: "json option \<Rightarrow> Issue list" where
  "asIssues v = List.map_filter issue_as (array_or_empty v)"

fun flow_name :: "json \<Rightarrow> string option" where
  "flow_name (JStr f) = Some f"
| "flow_name (JObj f) = (case ob_get f ''name'' of Some (JStr n) \<Rightarrow> Some n | _ \<Rightarrow> None)"
| "flow_name _ = None"

text \<open>Revisions are whole numbers.\<close>

definition readIvrError :: "Failure \<Rightarrow> IvrErrorBody" where
  "readIvrError err =
     (case err of
        ApiFailure status msg (Some (JObj body)) \<Rightarrow>
          (let inner = record_or_empty (ob_get body ''detail'');
               merged = spread inner body;
               code = (case ob_get body ''detail'' of
                         Some (JStr d) \<Rightarrow> Some d
                       | _ \<Rightarrow> (case ob_get inner ''code'' of
                                 Some (JStr c) \<Rightarrow> Some c
                               | _ \<Rightarrow> (case ob_get inner ''detail'' of Some (JStr d) \<Rightarrow> Some d | _ \<Rightarrow> None)))
           in \<lparr>ie_code = code,
               ie_currentRevision = (case ob_get merged ''current_revision'' of Some (JNum (Fin r)) \<Rightarrow> Some \<lfloor>r\<rfloor> | _ \<Rightarrow> None),
               ie_errors = asIssues (ob_get merged ''errors''),
               ie_flows = List.map_filter flow_name (array_or_empty (ob_get merged ''flows''))\<rparr>)
      | _ \<Rightarrow> \<lparr>ie_code = None, ie_currentRevision = None, ie_errors = [], ie_flows = []\<rparr>)"

fun isIvrError :: "Failure \<Rightarrow> int \<Rightarrow> string \<Rightarrow> bool" where
  "isIvrError (ApiFailure st msg body) status code \<longleftrightarrow> st = status \<and> ie_code (readIvrError (ApiFailure st msg body)) = Some code"
| "isIvrError OtherFailure status code \<longleftrightarrow> False"

definition prompt_in_use_text :: "string list \<Rightarrow> string" where
  "prompt_in_use_text flows =
     (if flows \<noteq> []
      then ''This message is still used by '' @ join '', '' (map (\<lambda>f. [CHR 0x93] @ f @ [CHR 0x94]) flows)
           @ ''. Remove it from '' @ (if length flows = 1 then ''that flow'' else ''those flows'') @ '' first.''
      else ''This message is still used by a flow. Remove it from the flow first.'')"

definition code_text :: "string \<Rightarrow> string list \<Rightarrow> string option" where
  "code_text code flows =
     (if code = ''ivr_not_enabled'' then Some (''IVR isn'' @ [CHR 0x92] @ ''t switched on for this account.'')
      else if code = ''customer_id required'' then Some ''Pick a customer first.''
      else if code = ''stale_revision'' then Some ''This flow was changed somewhere else since you opened it.''
      else if code = ''flow_in_use'' then Some ''A number still uses this flow. Point the number at another flow first.''
      else if code = ''prompt_in_use'' then Some (prompt_in_use_text flows)
      else if code = ''invalid_flow'' then Some ''The flow has problems to fix before it can be published.''
      else None)"

definition status_text :: "int \<Rightarrow> string option" where
  "status_text status =
     (if status = 429 then Some ''Too many previews in a minute. Wait a moment and try again.''
      else if status = 503 then Some ''The IVR service is temporarily unavailable. Try again in a minute.''
      else if status = 403 then Some (''You don'' @ [CHR 0x92] @ ''t have permission to do that.'')
      else if status = 404 then Some ''That item no longer exists. Refresh the page.''
      else if status = 413 then Some ''That file is too large.''
      else None)"

fun ivrErrorText :: "Failure \<Rightarrow> string \<Rightarrow> string" where
  "ivrErrorText OtherFailure fallback = fallback"
| "ivrErrorText (ApiFailure status msg body) fallback =
     (let e = readIvrError (ApiFailure status msg body) in
      case Option.bind (ie_code e) (\<lambda>c. code_text c (ie_flows e)) of
        Some t \<Rightarrow> t
      | None \<Rightarrow>
          (case status_text status of
             Some t \<Rightarrow> t
           | None \<Rightarrow> if status \<ge> 500 then fallback
                     else if msg \<noteq> '''' \<and> \<not> startsWith msg ''{'' then msg else fallback))"

section \<open>State\<close>

datatype SaveStatus =
    Saved "int option"
  | Pending
  | Saving
  | SaveError string "nat option"
  | Conflict "int option"
  | Readonly

record FlowUpdate =
  fu_draft_graph :: IvrGraph
  fu_revision :: int
  fu_name :: "string option"

text \<open>A PUT on its way, and who waits for it: the debounce timer, or \<open>flush\<close>.\<close>

record Put =
  put_seq :: nat
  put_body :: FlowUpdate

datatype Waiter = ThenSave | FlushWait

datatype Timer = RetryTimer nat | QuietTimer

record Hook =
  hk_store :: Store
  hk_status :: SaveStatus
  hk_inFlight :: "Put option"
  hk_waiters :: "Waiter list"
  hk_timer :: "Timer option"
  hk_attempt :: nat
  hk_savedName :: string
  hk_mounted :: bool

definition QUIET_MS :: nat where
  "QUIET_MS = 1200"

definition RETRY_MS :: "nat list" where
  "RETRY_MS = [2000, 5000, 15000, 30000]"

definition useAutosave :: "Store \<Rightarrow> bool \<Rightarrow> Hook" where
  "useAutosave s readOnly =
     \<lparr>hk_store = s, hk_status = (if readOnly then Readonly else Saved None), hk_inFlight = None, hk_waiters = [],
      hk_timer = None, hk_attempt = 0, hk_savedName = fs_name s, hk_mounted = True\<rparr>"

abbreviation dirty :: "Hook \<Rightarrow> bool" where
  "dirty h \<equiv> fs_changeSeq (hk_store h) > fs_savedSeq (hk_store h)"

section \<open>Operations\<close>

definition clearTimer :: "Hook \<Rightarrow> Hook" where
  "clearTimer h = h\<lparr>hk_timer := None\<rparr>"

definition put_of :: "Store \<Rightarrow> string \<Rightarrow> int option \<Rightarrow> Put" where
  "put_of s savedName revisionOverride =
     (let name = (if trim (fs_name s) = '''' then ''Untitled flow'' else trim (fs_name s))
      in \<lparr>put_seq = fs_changeSeq s,
          put_body = \<lparr>fu_draft_graph = graph s,
                      fu_revision = (case revisionOverride of Some r \<Rightarrow> r | None \<Rightarrow> fs_revision s),
                      fu_name = (if name \<noteq> savedName then Some name else None)\<rparr>\<rparr>)"

definition save :: "bool \<Rightarrow> int option \<Rightarrow> Hook \<Rightarrow> Hook" where
  "save readOnly revisionOverride h =
     (if readOnly then h
      else if hk_inFlight h \<noteq> None then h
      else h\<lparr>hk_status := Saving, hk_inFlight := Some (put_of (hk_store h) (hk_savedName h) revisionOverride)\<rparr>)"

text \<open>The subscriber to the store, called with the state before.\<close>

definition on_store_change :: "bool \<Rightarrow> Store \<Rightarrow> Hook \<Rightarrow> Hook" where
  "on_store_change readOnly prev h =
     (let s = hk_store h in
      if readOnly \<or> \<not> hk_mounted h then h
      else if fs_changeSeq s = fs_changeSeq prev \<and> fs_savedSeq s = fs_savedSeq prev then h
      else case hk_status h of
             Conflict r \<Rightarrow> h
           | SaveError m w \<Rightarrow> h
           | st \<Rightarrow> if \<not> dirty h then h
                   else (clearTimer (if st \<noteq> Saving then h\<lparr>hk_status := Pending\<rparr> else h))\<lparr>hk_timer := Some QuietTimer\<rparr>)"

definition set_store :: "bool \<Rightarrow> (Store \<Rightarrow> Store) \<Rightarrow> Hook \<Rightarrow> Hook" where
  "set_store readOnly f h = on_store_change readOnly (hk_store h) (h\<lparr>hk_store := f (hk_store h)\<rparr>)"

definition meta_of_answer :: "Flow \<Rightarrow> MetaPatch" where
  "meta_of_answer flow =
     \<lparr>mp_id = None, mp_publishedVersion = Some (fl_published_version flow), mp_publishedAt = Some (fl_published_at flow),
      mp_numbers = Some (fl_numbers flow)\<rparr>"

text \<open>The body of \<open>run\<close> in \<open>save\<close> after the request is answered, up to its \<open>finally\<close>.\<close>

definition put_answered :: "bool \<Rightarrow> int \<Rightarrow> Put \<Rightarrow> Failure + Flow \<Rightarrow> Hook \<Rightarrow> Hook" where
  "put_answered readOnly now put answer h =
     (case answer of
        Inr flow \<Rightarrow>
          (let h = h\<lparr>hk_savedName := fl_name flow\<rparr>;
               h = set_store readOnly (markSaved (put_seq put) (fl_revision flow)) h;
               h = set_store readOnly (setMeta (meta_of_answer flow)) h;
               h = h\<lparr>hk_attempt := 0\<rparr>
           in h\<lparr>hk_status := (if dirty h then Pending else Saved (Some now)), hk_inFlight := None\<rparr>)
      | Inl err \<Rightarrow>
          (if isIvrError err 409 ''stale_revision''
           then h\<lparr>hk_status := Conflict (ie_currentRevision (readIvrError err)), hk_inFlight := None\<rparr>
           else let wait = RETRY_MS ! min (hk_attempt h) (length RETRY_MS - 1)
                in h\<lparr>hk_attempt := hk_attempt h + 1,
                     hk_status := SaveError (ivrErrorText err (''Couldn'' @ [CHR 0x92] @ ''t save your changes.'')) (Some wait),
                     hk_timer := Some (RetryTimer wait), hk_inFlight := None\<rparr>))"

definition flush_rest :: "bool \<Rightarrow> Hook \<Rightarrow> Hook" where
  "flush_rest readOnly h = (if \<not> dirty h then h else save readOnly None h)"

fun resume :: "bool \<Rightarrow> Waiter \<Rightarrow> Hook \<Rightarrow> Hook" where
  "resume readOnly ThenSave h = save readOnly None h"
| "resume readOnly FlushWait h = flush_rest readOnly h"

definition put_lands :: "bool \<Rightarrow> int \<Rightarrow> Failure + Flow \<Rightarrow> Hook \<Rightarrow> Hook" where
  "put_lands readOnly now answer h =
     (case hk_inFlight h of
        None \<Rightarrow> h
      | Some put \<Rightarrow>
          (let h' = put_answered readOnly now put answer h
           in fold (resume readOnly) (hk_waiters h') (h'\<lparr>hk_waiters := []\<rparr>)))"

definition timer_fires :: "bool \<Rightarrow> Hook \<Rightarrow> Hook" where
  "timer_fires readOnly h =
     (case hk_timer h of
        None \<Rightarrow> h
      | Some (RetryTimer w) \<Rightarrow> save readOnly None (h\<lparr>hk_timer := None\<rparr>)
      | Some QuietTimer \<Rightarrow>
          (if hk_inFlight h \<noteq> None then h\<lparr>hk_timer := None, hk_waiters := hk_waiters h @ [ThenSave]\<rparr>
           else save readOnly None (h\<lparr>hk_timer := None\<rparr>)))"

definition is_conflict :: "SaveStatus \<Rightarrow> bool" where
  "is_conflict st = (case st of Conflict r \<Rightarrow> True | _ \<Rightarrow> False)"

definition flush :: "bool \<Rightarrow> Hook \<Rightarrow> Hook" where
  "flush readOnly h =
     (if readOnly then h
      else if is_conflict (hk_status h) then h
      else let h = clearTimer h
           in if hk_inFlight h \<noteq> None then h\<lparr>hk_waiters := hk_waiters h @ [FlushWait]\<rparr> else flush_rest readOnly h)"

text \<open>\<open>keepMine\<close> asks the server for the revision when the conflict did not carry it.\<close>

definition keep_at :: "bool \<Rightarrow> int \<Rightarrow> Hook \<Rightarrow> Hook" where
  "keep_at readOnly r h = save readOnly (Some r) (set_store readOnly (setRevision r) h)"

definition keepMine :: "bool \<Rightarrow> Hook \<Rightarrow> Hook" where
  "keepMine readOnly h = (case hk_status h of Conflict (Some r) \<Rightarrow> keep_at readOnly r h | _ \<Rightarrow> h)"

definition keepMine_answered :: "bool \<Rightarrow> Failure + Flow \<Rightarrow> Hook \<Rightarrow> Hook" where
  "keepMine_answered readOnly answer h =
     (case answer of
        Inr flow \<Rightarrow> keep_at readOnly (fl_revision flow) h
      | Inl err \<Rightarrow> h\<lparr>hk_status := SaveError (ivrErrorText err (''Couldn'' @ [CHR 0x92] @ ''t reach the server.'')) None\<rparr>)"

definition loadLatest_answered :: "(nat \<Rightarrow> string) \<Rightarrow> bool \<Rightarrow> int \<Rightarrow> Failure + Flow \<Rightarrow> Hook \<Rightarrow> Hook" where
  "loadLatest_answered nano readOnly now answer h =
     (case answer of
        Inr flow \<Rightarrow>
          (let h = (clearTimer h)\<lparr>hk_savedName := fl_name flow\<rparr>;
               h = set_store readOnly (load nano now flow False) h
           in h\<lparr>hk_status := Saved (Some now)\<rparr>)
      | Inl err \<Rightarrow> h\<lparr>hk_status := SaveError (ivrErrorText err (''Couldn'' @ [CHR 0x92] @ ''t load the latest version.'')) None\<rparr>)"

text \<open>Whether leaving the page asks first.\<close>

definition onBeforeUnload :: "bool \<Rightarrow> Hook \<Rightarrow> bool" where
  "onBeforeUnload readOnly h \<longleftrightarrow> \<not> readOnly \<and> (dirty h \<or> hk_status h = Saving \<or> is_conflict (hk_status h))"

definition unmount :: "bool \<Rightarrow> Hook \<Rightarrow> Hook" where
  "unmount readOnly h =
     (let h = clearTimer (h\<lparr>hk_mounted := False\<rparr>)
      in if readOnly then h
         else if dirty h \<and> \<not> is_conflict (hk_status h) \<and> hk_inFlight h = None then save readOnly None h
         else h)"

end
