(* ===== verification/Autosave_Props.thy ===== *)
theory Autosave_Props
  imports Autosave Store_Props
begin

text \<open>
  What autosave guarantees over a whole session of the builder: an inductive relation interleaves edits,
  the timer, answers of the server and the conflict dialog, and carries along what the server last
  acknowledged.
\<close>

section \<open>Sessions\<close>

text \<open>What the customer would lose: the draft as JSON, and the name.\<close>

definition content :: "Store \<Rightarrow> json \<times> string" where
  "content s = (wire (snap_json (snapshot_now s)), fs_name s)"

text \<open>Every store action of the builder but the two that autosave itself performs.\<close>

fun builder_action :: "Action \<Rightarrow> bool" where
  "builder_action (MarkSaved seq r) = False"
| "builder_action (SetRevision r) = False"
| "builder_action a = canvas_action a"

fun takes_server :: "Action \<Rightarrow> bool" where
  "takes_server (Load flow undoable) = True"
| "takes_server _ = False"

text \<open>
  A session of the builder: the hook, what the server last said it holds, and what the PUT on its way
  carries. The fetches of the conflict dialog are answered while no PUT is on its way.
\<close>

definition sent_now :: "Hook \<Rightarrow> Hook \<Rightarrow> json \<times> string \<Rightarrow> json \<times> string" where
  "sent_now h h' sent = (if hk_inFlight h = None then content (hk_store h') else sent)"

inductive session :: "Env \<Rightarrow> Hook \<Rightarrow> json \<times> string \<Rightarrow> json \<times> string \<Rightarrow> bool" for env where
  session_start: "fs_changeSeq s = fs_savedSeq s \<Longrightarrow> session env (useAutosave s False) (content s) (content s)"
| session_edit: "session env h held sent \<Longrightarrow> builder_action a \<Longrightarrow>
    takes_server a \<longrightarrow> hk_inFlight h = None \<Longrightarrow> h' = set_store False (perform env now a) h \<Longrightarrow>
    session env h' (if takes_server a then content (hk_store h') else held) (sent_now h h' sent)"
| session_timer: "session env h held sent \<Longrightarrow> h' = timer_fires False h \<Longrightarrow> session env h' held (sent_now h h' sent)"
| session_flush: "session env h held sent \<Longrightarrow> h' = flush False h \<Longrightarrow> session env h' held (sent_now h h' sent)"
| session_lands: "session env h held sent \<Longrightarrow> h' = put_lands False now answer h \<Longrightarrow> hk_inFlight h \<noteq> None \<Longrightarrow>
    session env h' (case answer of Inr flow \<Rightarrow> sent | Inl err \<Rightarrow> held) (content (hk_store h'))"
| session_keep: "session env h held sent \<Longrightarrow> h' = keepMine False h \<Longrightarrow> session env h' held (sent_now h h' sent)"
| session_keep_answered: "session env h held sent \<Longrightarrow> hk_inFlight h = None \<Longrightarrow> h' = keepMine_answered False answer h \<Longrightarrow>
    session env h' held (sent_now h h' sent)"
| session_latest_answered: "session env h held sent \<Longrightarrow> hk_inFlight h = None \<Longrightarrow>
    h' = loadLatest_answered (env_nano env) False now answer h \<Longrightarrow>
    session env h' (case answer of Inr flow \<Rightarrow> content (hk_store h') | Inl err \<Rightarrow> held) (sent_now h h' sent)"

section \<open>The invariant\<close>

definition session_core :: "Hook \<Rightarrow> json \<times> string \<Rightarrow> json \<times> string \<Rightarrow> bool" where
  "session_core h held sent \<longleftrightarrow>
     hk_mounted h \<and> hk_status h \<noteq> Readonly
     \<and> (hk_status h = Saving \<longleftrightarrow> hk_inFlight h \<noteq> None)
     \<and> (\<forall>put. hk_inFlight h = Some put \<longrightarrow> fs_savedSeq (hk_store h) \<le> put_seq put \<and> put_seq put \<le> fs_changeSeq (hk_store h)
          \<and> (put_seq put = fs_changeSeq (hk_store h) \<longrightarrow> sent = content (hk_store h))
          \<and> (fs_changeSeq (hk_store h) > max (fs_savedSeq (hk_store h)) (put_seq put) \<longrightarrow> hk_timer h = Some QuietTimer \<or> hk_waiters h \<noteq> []))
     \<and> (hk_waiters h \<noteq> [] \<longrightarrow> hk_inFlight h \<noteq> None)
     \<and> fs_savedSeq (hk_store h) \<le> fs_changeSeq (hk_store h)
     \<and> (fs_savedSeq (hk_store h) = fs_changeSeq (hk_store h) \<longrightarrow> held = content (hk_store h))
     \<and> (\<forall>t. hk_status h = Saved t \<longrightarrow> \<not> dirty h)"

definition session_ok :: "Hook \<Rightarrow> json \<times> string \<Rightarrow> json \<times> string \<Rightarrow> bool" where
  "session_ok h held sent \<longleftrightarrow> session_core h held sent \<and> (hk_status h = Pending \<and> dirty h \<longrightarrow> hk_timer h \<noteq> None)"

lemma noticed_content: "noticed s s' \<Longrightarrow> fs_changeSeq s' = fs_changeSeq s \<Longrightarrow> content s' = content s"
  by (auto simp: noticed_def content_def sameSnapshot_def split: if_splits)

lemma store_save [simp]: "hk_store (save ro r h) = hk_store h"
  by (simp add: save_def)

lemma save_ok: "session_core h held sent \<Longrightarrow> session_ok (save False r h) held (sent_now h (save False r h) sent)"
  by (auto simp: session_core_def session_ok_def save_def sent_now_def put_of_def Let_def)

lemma flush_rest_ok: "session_core h held sent \<Longrightarrow> session_ok (flush_rest False h) held (sent_now h (flush_rest False h) sent)"
proof (cases "dirty h")
  case True
  then show "session_core h held sent \<Longrightarrow> session_ok (flush_rest False h) held (sent_now h (flush_rest False h) sent)"
    using save_ok by (simp add: flush_rest_def)
next
  case False
  then show "session_core h held sent \<Longrightarrow> session_ok (flush_rest False h) held (sent_now h (flush_rest False h) sent)"
    by (auto simp: flush_rest_def session_ok_def session_core_def sent_now_def)
qed

lemma resume_ok: "session_core h held (content (hk_store h)) \<Longrightarrow> session_ok (resume False w h) held (content (hk_store h)) \<and> hk_store (resume False w h) = hk_store h"
  using save_ok [of h held "content (hk_store h)" None] flush_rest_ok [of h held "content (hk_store h)"]
  by (cases w) (auto simp: sent_now_def flush_rest_def split: if_splits)

lemma resume_all_ok:
  "session_core h held (content (hk_store h)) \<Longrightarrow> ws \<noteq> [] \<or> session_ok h held (content (hk_store h)) \<Longrightarrow>
     session_ok (fold (resume False) ws h) held (content (hk_store h)) \<and> hk_store (fold (resume False) ws h) = hk_store h"
proof (induction ws arbitrary: h)
  case (Cons w ws)
  have r: "session_ok (resume False w h) held (content (hk_store h))" "hk_store (resume False w h) = hk_store h"
    using resume_ok [OF Cons.prems(1)] by simp_all
  then have "session_core (resume False w h) held (content (hk_store (resume False w h)))" by (simp add: session_ok_def)
  from Cons.IH [OF this] r show ?case by simp
qed simp

lemma timer_ok: "session_ok h held sent \<Longrightarrow> session_ok (timer_fires False h) held (sent_now h (timer_fires False h) sent)"
proof -
  assume ok: "session_ok h held sent"
  show ?thesis
  proof (cases "hk_timer h")
    case None
    then show ?thesis using ok by (auto simp: timer_fires_def sent_now_def session_ok_def session_core_def)
  next
    case (Some t)
    have core: "session_core (h\<lparr>hk_timer := None\<rparr>) held sent" if "hk_inFlight h = None"
      using ok that by (auto simp: session_ok_def session_core_def)
    show ?thesis
    proof (cases "hk_inFlight h")
      case None
      then have "timer_fires False h = save False None (h\<lparr>hk_timer := None\<rparr>)"
        using Some by (cases t) (simp_all add: timer_fires_def)
      then show ?thesis using save_ok [OF core [OF None], of None] None by (simp add: sent_now_def)
    next
      case put: (Some put)
      then show ?thesis using ok Some
        by (cases t) (auto simp: timer_fires_def save_def sent_now_def session_ok_def session_core_def)
    qed
  qed
qed


lemma flush_ok: "session_ok h held sent \<Longrightarrow> session_ok (flush False h) held (sent_now h (flush False h) sent)"
proof -
  assume ok: "session_ok h held sent"
  show ?thesis
  proof (cases "is_conflict (hk_status h)")
    case True
    then show ?thesis using ok by (auto simp: flush_def sent_now_def session_ok_def session_core_def)
  next
    case False
    show ?thesis
    proof (cases "hk_inFlight h")
      case None
      then have "session_core (clearTimer h) held sent" using ok by (auto simp: session_ok_def session_core_def clearTimer_def)
      from flush_rest_ok [OF this] show ?thesis using False None by (simp add: flush_def Let_def sent_now_def clearTimer_def)
    next
      case (Some put)
      then show ?thesis using ok False
        by (auto simp: flush_def Let_def sent_now_def clearTimer_def session_ok_def session_core_def)
    qed
  qed
qed

lemma set_store_ok:
  assumes ok: "session_ok h held sent" and n: "noticed (hk_store h) (f (hk_store h))"
    and saved: "fs_savedSeq (f (hk_store h)) = fs_savedSeq (hk_store h)"
  shows "session_ok (set_store False f h) held (sent_now h (set_store False f h) sent)"
proof -
  have le: "fs_changeSeq (hk_store h) \<le> fs_changeSeq (f (hk_store h))" using n by (simp add: noticed_def)
  have same: "content (f (hk_store h)) = content (hk_store h)" if "fs_changeSeq (f (hk_store h)) = fs_changeSeq (hk_store h)"
    using noticed_content [OF n that] .
  have "fs_changeSeq (f (hk_store h)) > fs_savedSeq (hk_store h)" if "fs_changeSeq (f (hk_store h)) \<noteq> fs_changeSeq (hk_store h)"
    using that le ok by (simp add: session_ok_def session_core_def)
  then show ?thesis using ok le same
    by (cases "hk_status h"; cases "fs_changeSeq (f (hk_store h)) = fs_changeSeq (hk_store h)")
      (auto simp: set_store_def on_store_change_def Let_def saved clearTimer_def sent_now_def session_ok_def session_core_def)
qed

lemma load_ok:
  assumes ok: "session_ok h held sent" and saved: "fs_savedSeq (f (hk_store h)) = fs_changeSeq (f (hk_store h))"
    and le: "fs_changeSeq (hk_store h) < fs_changeSeq (f (hk_store h))" and none: "hk_inFlight h = None"
  shows "session_ok (set_store False f h) (content (hk_store (set_store False f h))) (sent_now h (set_store False f h) sent)"
  using assms
  by (cases "hk_status h")
    (auto simp: set_store_def on_store_change_def Let_def clearTimer_def sent_now_def session_ok_def session_core_def)


lemma set_revision_seqs [simp]:
  "fs_changeSeq (setRevision r s) = fs_changeSeq s" "fs_savedSeq (setRevision r s) = fs_savedSeq s"
  "content (setRevision r s) = content s" "noticed s (setRevision r s)"
  by (simp_all add: setRevision_def content_def noticed_same)

lemma inFlight_set_store [simp]: "hk_inFlight (set_store ro f h) = hk_inFlight h" "hk_waiters (set_store ro f h) = hk_waiters h"
  "hk_store (set_store ro f h) = f (hk_store h)"
  by (auto simp: set_store_def on_store_change_def Let_def clearTimer_def split: SaveStatus.splits)

lemma edit_ok:
  assumes canvas: "canvas_ok env" and ok: "session_ok h held sent" and a: "builder_action a" and none: "takes_server a \<longrightarrow> hk_inFlight h = None"
  shows "session_ok (set_store False (perform env now a) h)
    (if takes_server a then content (hk_store (set_store False (perform env now a) h)) else held)
    (sent_now h (set_store False (perform env now a) h) sent)"
proof -
  have can: "canvas_action a" using a by (cases a) auto
  note saved = perform_saved [where a = a and env = env and now = now and s = "hk_store h"]
  show ?thesis
  proof (cases "takes_server a")
    case True
    then obtain flow u where l: "a = Load flow u" by (cases a) auto
    have "fs_changeSeq (hk_store h) < fs_changeSeq (perform env now a (hk_store h))" by (simp add: l load_def Let_def split: prod.splits)
    moreover have "fs_savedSeq (perform env now a (hk_store h)) = fs_changeSeq (perform env now a (hk_store h))" using saved by (simp add: l)
    ultimately show ?thesis using load_ok [OF ok, of "perform env now a"] True none by simp
  next
    case False
    have "fs_savedSeq (perform env now a (hk_store h)) = fs_savedSeq (hk_store h)" using saved False a by (cases a) auto
    from set_store_ok [where f = "perform env now a", OF ok perform_noticed [OF canvas can] this] show ?thesis using False by simp
  qed
qed

lemma keep_at_ok: "session_ok h held sent \<Longrightarrow> session_ok (keep_at False r h) held (sent_now h (keep_at False r h) sent)"
proof -
  assume ok: "session_ok h held sent"
  let ?h = "set_store False (setRevision r) h"
  have "session_ok ?h held (sent_now h ?h sent)" by (rule set_store_ok [OF ok]) simp_all
  then have "session_core ?h held (sent_now h ?h sent)" by (simp add: session_ok_def)
  from save_ok [OF this, of "Some r"] show ?thesis by (simp add: keep_at_def sent_now_def split: if_splits)
qed

lemma keep_ok: "session_ok h held sent \<Longrightarrow> session_ok (keepMine False h) held (sent_now h (keepMine False h) sent)"
proof -
  assume ok: "session_ok h held sent"
  have same: "session_ok h held (sent_now h h sent)" using ok by (auto simp: sent_now_def session_ok_def session_core_def)
  show ?thesis
  proof (cases "\<exists>r. hk_status h = Conflict (Some r)")
    case True
    then show ?thesis using keep_at_ok [OF ok] by (auto simp: keepMine_def)
  next
    case False
    then have "keepMine False h = h" by (auto simp: keepMine_def split: SaveStatus.splits option.splits)
    then show ?thesis using same by simp
  qed
qed

lemma keep_answered_ok:
  "session_ok h held sent \<Longrightarrow> hk_inFlight h = None \<Longrightarrow>
     session_ok (keepMine_answered False answer h) held (sent_now h (keepMine_answered False answer h) sent)"
proof (cases answer)
  case (Inl err)
  then show "session_ok h held sent \<Longrightarrow> hk_inFlight h = None \<Longrightarrow> ?thesis"
    by (auto simp: keepMine_answered_def sent_now_def session_ok_def session_core_def)
next
  case (Inr flow)
  then show "session_ok h held sent \<Longrightarrow> hk_inFlight h = None \<Longrightarrow> ?thesis"
    using keep_at_ok by (simp add: keepMine_answered_def)
qed

lemma latest_answered_ok:
  assumes ok: "session_ok h held sent" and none: "hk_inFlight h = None"
  shows "session_ok (loadLatest_answered nano False now answer h)
     (case answer of Inr flow \<Rightarrow> content (hk_store (loadLatest_answered nano False now answer h)) | Inl err \<Rightarrow> held)
     (sent_now h (loadLatest_answered nano False now answer h) sent)"
proof (cases answer)
  case (Inr flow)
  have load: "fs_savedSeq (load nano now flow False s) = fs_changeSeq (load nano now flow False s)" for s
    by (simp add: load_def Let_def split: prod.splits)
  have m: "hk_mounted h" "hk_waiters h = []" using ok none by (simp_all add: session_ok_def session_core_def)
  have mt: "hk_mounted (set_store False f h') = hk_mounted h'" for f h'
    by (auto simp: set_store_def on_store_change_def Let_def clearTimer_def split: SaveStatus.splits)
  show ?thesis using m none load
    by (simp add: loadLatest_answered_def Inr Let_def session_ok_def session_core_def mt) (simp add: clearTimer_def)
next
  case (Inl err)
  then show ?thesis using ok none by (auto simp: loadLatest_answered_def sent_now_def session_ok_def session_core_def)
qed


lemma saved_store:
  "fs_changeSeq (setMeta m (markSaved q r s)) = fs_changeSeq s" "fs_savedSeq (setMeta m (markSaved q r s)) = max (fs_savedSeq s) q"
  "content (setMeta m (markSaved q r s)) = content s"
  by (simp_all add: setMeta_def markSaved_def content_def Let_def)

lemma answered_Inr:
  fixes now :: int and put :: Put and flow :: Flow
  assumes "hk_status h = Saving" "hk_mounted h"
  defines "s \<equiv> hk_store h" and "h1 \<equiv> put_answered False now put (Inr flow) h"
  shows "hk_store h1 = setMeta (meta_of_answer flow) (markSaved (put_seq put) (fl_revision flow) s)"
    and "hk_status h1 = (if fs_changeSeq s > max (fs_savedSeq s) (put_seq put) then Pending else Saved (Some now))"
    and "hk_inFlight h1 = None" "hk_waiters h1 = hk_waiters h" "hk_mounted h1" "hk_timer h1 = None \<Longrightarrow> hk_timer h = None"
proof -
  define h0 where "h0 = set_store False (markSaved (put_seq put) (fl_revision flow)) (h\<lparr>hk_savedName := fl_name flow\<rparr>)"
  have h0: "hk_store h0 = markSaved (put_seq put) (fl_revision flow) s" "hk_mounted h0" "hk_waiters h0 = hk_waiters h"
    "hk_timer h0 = None \<Longrightarrow> hk_timer h = None"
    unfolding h0_def set_store_def on_store_change_def Let_def using assms(1,2)
    by (auto simp: s_def clearTimer_def split: if_splits)
  have meta: "set_store False (setMeta m) h0 = h0\<lparr>hk_store := setMeta m (hk_store h0)\<rparr>" for m
    by (simp add: set_store_def on_store_change_def Let_def setMeta_def)
  have h1: "h1 = (let h = (h0\<lparr>hk_store := setMeta (meta_of_answer flow) (hk_store h0)\<rparr>)\<lparr>hk_attempt := 0\<rparr>
      in h\<lparr>hk_status := (if dirty h then Pending else Saved (Some now)), hk_inFlight := None\<rparr>)"
    by (simp only: h1_def put_answered_def h0_def [symmetric] meta Let_def sum.case)
  show "hk_store h1 = setMeta (meta_of_answer flow) (markSaved (put_seq put) (fl_revision flow) s)"
    "hk_status h1 = (if fs_changeSeq s > max (fs_savedSeq s) (put_seq put) then Pending else Saved (Some now))"
    "hk_inFlight h1 = None" "hk_waiters h1 = hk_waiters h" "hk_mounted h1" "hk_timer h1 = None \<Longrightarrow> hk_timer h = None"
    unfolding h1 Let_def using h0 by (simp_all add: saved_store)
qed

lemma lands_ok:
  assumes ok: "session_ok h held sent" and put: "hk_inFlight h = Some put"
  shows "session_ok (put_lands False now answer h) (case answer of Inr flow \<Rightarrow> sent | Inl err \<Rightarrow> held)
    (content (hk_store (put_lands False now answer h)))"
proof -
  let ?held = "case answer of Inr flow \<Rightarrow> sent | Inl err \<Rightarrow> held"
  define h1 where "h1 = put_answered False now put answer h"
  define h2 where "h2 = h1\<lparr>hk_waiters := []\<rparr>"
  have c: "session_core h held sent" and st: "hk_status h = Saving" "hk_mounted h"
    using ok put by (simp_all add: session_ok_def session_core_def)
  have "session_core h2 ?held (content (hk_store h2)) \<and> (hk_waiters h1 \<noteq> [] \<or> session_ok h2 ?held (content (hk_store h2)))"
  proof (cases answer)
    case (Inr flow)
    note a = answered_Inr [OF st, where now = now and put = put and flow = flow, folded Inr, folded h1_def]
    have "session_core h2 ?held (content (hk_store h2))"
      using c put unfolding h2_def session_core_def by (auto simp: Inr a saved_store max_def)
    moreover have "hk_waiters h1 \<noteq> [] \<or> hk_timer h2 \<noteq> None" if "dirty h2"
      using c put that a(6) unfolding h2_def session_core_def by (auto simp: a saved_store)
    ultimately show ?thesis unfolding session_ok_def by blast
  next
    case (Inl err)
    then have "session_ok h2 held (content (hk_store h2))"
      using c put unfolding h2_def h1_def session_ok_def session_core_def by (auto simp: put_answered_def Let_def)
    then show ?thesis using Inl by (simp add: session_ok_def)
  qed
  moreover have "put_lands False now answer h = fold (resume False) (hk_waiters h1) h2"
    by (simp add: put_lands_def put h1_def h2_def Let_def)
  ultimately show ?thesis using resume_all_ok [of h2 ?held "hk_waiters h1"] by simp
qed

lemma session_invariant: "canvas_ok env \<Longrightarrow> session env h held sent \<Longrightarrow> session_ok h held sent"
proof -
  assume canvas: "canvas_ok env"
  show "session env h held sent \<Longrightarrow> session_ok h held sent"
  proof (induction rule: session.induct)
    case (session_start s)
    then show ?case by (simp add: useAutosave_def session_ok_def session_core_def)
  next
    case (session_lands h held sent h' now answer)
    then obtain put where "hk_inFlight h = Some put" by blast
    then show ?case unfolding session_lands(2) by (rule lands_ok [OF session_lands.IH])
  next
    case (session_edit h held sent a h' now)
    show ?case unfolding session_edit(4) by (rule edit_ok [OF canvas session_edit.IH session_edit(2,3)])
  next
    case (session_timer h held sent h')
    show ?case unfolding session_timer(2) by (rule timer_ok [OF session_timer.IH])
  next
    case (session_flush h held sent h')
    show ?case unfolding session_flush(2) by (rule flush_ok [OF session_flush.IH])
  next
    case (session_keep h held sent h')
    show ?case unfolding session_keep(2) by (rule keep_ok [OF session_keep.IH])
  next
    case (session_keep_answered h held sent h' answer)
    show ?case unfolding session_keep_answered(3) by (rule keep_answered_ok [OF session_keep_answered.IH session_keep_answered(2)])
  next
    case (session_latest_answered h held sent h' now answer)
    show ?case unfolding session_latest_answered(3) by (rule latest_answered_ok [OF session_latest_answered.IH session_latest_answered(2)])
  qed
qed

section \<open>Properties\<close>

definition hook0 :: Hook where
  "hook0 = useAutosave sample_store False"

definition hook1 :: Hook where
  "hook1 = set_store False (perform sample_env 5 (SetLabel ''p'' ''Welcome'')) hook0"

lemma hook1_session: "session sample_env hook1 (content sample_store) (sent_now hook0 hook1 (content sample_store))"
proof -
  have "fs_changeSeq sample_store = fs_savedSeq sample_store" by code_simp
  then have "session sample_env hook0 (content sample_store) (content sample_store)"
    unfolding hook0_def by (rule session_start)
  from session_edit [OF this _ _ hook1_def] show ?thesis by simp
qed

lemma hook1_dirty: "dirty hook1"
  by code_simp



section \<open>Two gaps\<close>

text \<open>After a failed fetch of the conflict dialog the status is an error without a retry timer, and an edit
  then starts none: the subscriber takes the error to mean that one runs.\<close>

theorem no_timer_after_failed_fetch:
  assumes "hk_inFlight h = None" "hk_timer h = None"
  shows "let h' = set_store False f (keepMine_answered False (Inl err) h) in hk_timer h' = None \<and> hk_inFlight h' = None"
  using assms by (auto simp: keepMine_answered_def set_store_def on_store_change_def Let_def)

text \<open>An edit made while a PUT is on its way is not sent when the builder is left before the PUT lands.\<close>

theorem edit_lost_at_unmount:
  assumes "hk_inFlight h = Some put" "hk_waiters h = []" "fs_changeSeq (hk_store h) > max (fs_savedSeq (hk_store h)) (put_seq put)"
  shows "let h' = put_lands False now (Inr flow) (unmount False h) in dirty h' \<and> hk_timer h' = None \<and> hk_inFlight h' = None"
  using assms
  by (simp add: unmount_def clearTimer_def put_lands_def put_answered_def set_store_def on_store_change_def Let_def saved_store)

end
