(* ===== verification/Wav.thy ===== *)
theory Wav
  imports JS_Values JS_Text "HOL-Library.Word"
begin

text \<open>
  The pure half of greeting transcoding (\<open>pages/voicemail/audio/wav.ts\<close>): channel and rate conversion,
  the canonical PCM16 encoder, the RIFF parser and the greeting limits. A buffer is a list of bytes; a
  sample of a \<open>Float32Array\<close> is its exact value, and the rounding of sums to single precision is not
  modelled. Conversion takes finite samples, the encoder any.
\<close>

section \<open>Limits\<close>

definition GREETING_SAMPLE_RATE :: nat where
  "GREETING_SAMPLE_RATE = 16000"

definition GREETING_MAX_SECONDS :: nat where
  "GREETING_MAX_SECONDS = 120"

definition GREETING_MIN_SECONDS :: nat where
  "GREETING_MIN_SECONDS = 1"

definition GREETING_MAX_BYTES :: nat where
  "GREETING_MAX_BYTES = 5000000"

definition WAV_HEADER_BYTES :: nat where
  "WAV_HEADER_BYTES = 44"

section \<open>Channel and rate conversion\<close>

definition add_channel :: "nat \<Rightarrow> rat \<Rightarrow> rat list \<Rightarrow> rat list \<Rightarrow> rat list" where
  "add_channel n scale channel out = map (\<lambda>i. out ! i + channel ! i * scale) [0..<n]"

definition downmixToMono :: "rat list list \<Rightarrow> rat list" where
  "downmixToMono channels =
     (case channels of
        [] \<Rightarrow> []
      | [c] \<Rightarrow> c
      | _ \<Rightarrow> (let n = Min (set (map length channels)); scale = 1 / of_nat (length channels)
              in fold (add_channel n scale) channels (replicate n 0)))"

definition resampledLength :: "nat \<Rightarrow> rat \<Rightarrow> rat \<Rightarrow> nat" where
  "resampledLength inputLength fromRate toRate = nat (max 0 (round_half_up ((of_nat inputLength * toRate) / fromRate)))"

datatype RangeError = RangeError

text \<open>One output slot when there are fewer: the average of the samples that fall in it.\<close>

definition box_sample :: "rat list \<Rightarrow> rat \<Rightarrow> nat \<Rightarrow> rat" where
  "box_sample input ratio i =
     (let start = nat \<lfloor>of_nat i * ratio\<rfloor>;
          stop = min (length input) (max (start + 1) (nat \<lfloor>of_nat (i + 1) * ratio\<rfloor>));
          tot = sum_list (map (\<lambda>j. input ! j) [start..<stop])
      in if stop > start then tot / of_nat (stop - start) else 0)"

abbreviation sample_or_zero :: "rat list \<Rightarrow> nat \<Rightarrow> rat" where
  "sample_or_zero input i \<equiv> (if i < length input then input ! i else 0)"

text \<open>One output slot when there are more: linear interpolation.\<close>

definition line_sample :: "rat list \<Rightarrow> rat \<Rightarrow> nat \<Rightarrow> rat" where
  "line_sample input ratio i =
     (let pos = of_nat i * ratio;
          left = nat \<lfloor>pos\<rfloor>;
          right = min (left + 1) (length input - 1);
          frac = pos - of_nat left
      in sample_or_zero input left * (1 - frac) + sample_or_zero input right * frac)"

definition resampleFallback :: "rat list \<Rightarrow> rat \<Rightarrow> rat \<Rightarrow> RangeError + rat list" where
  "resampleFallback input fromRate toRate =
     (if \<not> fromRate > 0 \<or> \<not> toRate > 0 then Inl RangeError
      else if fromRate = toRate then Inr input
      else let outLength = resampledLength (length input) fromRate toRate; ratio = fromRate / toRate
           in Inr (map (if ratio > 1 then box_sample input ratio else line_sample input ratio) [0..<outLength]))"

definition peakLevel :: "rat list \<Rightarrow> rat" where
  "peakLevel samples = fold (\<lambda>s peak. if \<bar>s\<bar> > peak then \<bar>s\<bar> else peak) samples 0"

text \<open>The loop of \<open>concatSamples\<close>; \<open>out.set\<close> writes the chunk at the offset.\<close>

fun concat_loop :: "nat \<Rightarrow> 'a list list \<Rightarrow> nat \<Rightarrow> 'a list \<Rightarrow> 'a list" where
  "concat_loop tot [] offset out = out"
| "concat_loop tot (chunk # chunks) offset out =
     (if offset \<ge> tot then out
      else let n = min (length chunk) (tot - offset)
           in concat_loop tot chunks (offset + n) (take offset out @ take n chunk @ drop (offset + n) out))"

definition concatSamples :: "rat list list \<Rightarrow> nat option \<Rightarrow> rat list" where
  "concatSamples chunks maxSamples =
     (let n = sum_list (map length chunks);
          tot = (case maxSamples of Some m \<Rightarrow> min m n | None \<Rightarrow> n)
      in concat_loop tot chunks 0 (replicate tot 0))"

section \<open>Encoding\<close>

type_synonym bytes = "8 word list"

definition wavByteLength :: "nat \<Rightarrow> nat" where
  "wavByteLength sampleCount = WAV_HEADER_BYTES + sampleCount * 2"

definition floatToPcm16 :: "jsnum \<Rightarrow> int" where
  "floatToPcm16 sample =
     (let s = (case sample of Fin r \<Rightarrow> max (-1) (min 1 r) | _ \<Rightarrow> 0)
      in if s < 0 then round_half_up (s * 32768) else round_half_up (s * 32767))"

text \<open>A \<open>DataView\<close> write of some bytes at an offset inside the buffer.\<close>

definition set_bytes :: "nat \<Rightarrow> bytes \<Rightarrow> bytes \<Rightarrow> bytes" where
  "set_bytes offset bs view = take offset view @ bs @ drop (offset + length bs) view"

definition le_bytes :: "nat \<Rightarrow> int \<Rightarrow> bytes" where
  "le_bytes k v = map (\<lambda>i. word_of_int (v div 256 ^ i)) [0..<k]"

abbreviation setUint16 :: "nat \<Rightarrow> int \<Rightarrow> bytes \<Rightarrow> bytes" where
  "setUint16 offset v \<equiv> set_bytes offset (le_bytes 2 v)"

abbreviation setUint32 :: "nat \<Rightarrow> int \<Rightarrow> bytes \<Rightarrow> bytes" where
  "setUint32 offset v \<equiv> set_bytes offset (le_bytes 4 v)"

definition ascii :: "string \<Rightarrow> bytes" where
  "ascii text = map (\<lambda>c. word_of_nat (of_char c)) text"

definition writeAscii :: "nat \<Rightarrow> string \<Rightarrow> bytes \<Rightarrow> bytes" where
  "writeAscii offset text view = set_bytes offset (ascii text) view"

fun write_samples :: "nat \<Rightarrow> jsnum list \<Rightarrow> bytes \<Rightarrow> bytes" where
  "write_samples offset [] view = view"
| "write_samples offset (s # samples) view = write_samples (offset + 2) samples (setUint16 offset (floatToPcm16 s) view)"

definition encodeWavPcm16 :: "jsnum list \<Rightarrow> jsnum \<Rightarrow> RangeError + bytes" where
  "encodeWavPcm16 samples sampleRate =
     (case sampleRate of
        Fin r \<Rightarrow>
          (if \<not> isInteger sampleRate \<or> r \<le> 0 then Inl RangeError
           else let rate = \<lfloor>r\<rfloor>;
                    dataBytes = length samples * 2;
                    view = replicate (WAV_HEADER_BYTES + dataBytes) 0;
                    view = writeAscii 0 ''RIFF'' view;
                    view = setUint32 4 (36 + int dataBytes) view;
                    view = writeAscii 8 ''WAVE'' view;
                    view = writeAscii 12 ''fmt '' view;
                    view = setUint32 16 16 view;
                    view = setUint16 20 1 view;
                    view = setUint16 22 1 view;
                    view = setUint32 24 rate view;
                    view = setUint32 28 (rate * 2) view;
                    view = setUint16 32 2 view;
                    view = setUint16 34 16 view;
                    view = writeAscii 36 ''data'' view;
                    view = setUint32 40 (int dataBytes) view
                in Inr (write_samples WAV_HEADER_BYTES samples view))
      | _ \<Rightarrow> Inl RangeError)"

section \<open>Parsing\<close>

record WavFmt =
  wf_audioFormat :: nat
  wf_channels :: nat
  wf_sampleRate :: nat
  wf_bitsPerSample :: nat

record WavInfo = WavFmt +
  wi_dataOffset :: nat
  wi_dataBytes :: nat
  wi_durationSec :: rat

datatype WavFormatError = NotRiff | TruncatedFmt | DataBeforeFmt | NoDataChunk | NoFmtChunk

fun le_value :: "bytes \<Rightarrow> nat" where
  "le_value [] = 0"
| "le_value (b # bs) = unat b + 256 * le_value bs"

definition get_uint :: "nat \<Rightarrow> bytes \<Rightarrow> nat \<Rightarrow> nat" where
  "get_uint k view offset = le_value (take k (drop offset view))"

definition readAscii :: "bytes \<Rightarrow> nat \<Rightarrow> nat \<Rightarrow> string" where
  "readAscii view offset n = map (\<lambda>b. char_of (unat b)) (take n (drop offset view))"

definition read_fmt :: "bytes \<Rightarrow> nat \<Rightarrow> WavFmt" where
  "read_fmt view body =
     \<lparr>wf_audioFormat = get_uint 2 view body, wf_channels = get_uint 2 view (body + 2),
      wf_sampleRate = get_uint 4 view (body + 4), wf_bitsPerSample = get_uint 2 view (body + 14)\<rparr>"

definition data_info :: "bytes \<Rightarrow> nat \<Rightarrow> nat \<Rightarrow> WavFmt \<Rightarrow> WavInfo" where
  "data_info view csize body fmt =
     (let dataBytes = min csize (length view - body);
          bytesPerSecond = of_nat (wf_sampleRate fmt) * of_nat (wf_channels fmt) * (of_nat (wf_bitsPerSample fmt) / 8)
      in WavFmt.extend fmt
           \<lparr>wi_dataOffset = body, wi_dataBytes = dataBytes,
            wi_durationSec = (if bytesPerSecond > 0 then of_nat dataBytes / bytesPerSecond else 0)\<rparr>)"

text \<open>The walk over the chunks.\<close>

function parse_chunks :: "bytes \<Rightarrow> nat \<Rightarrow> WavFmt option \<Rightarrow> WavFormatError + WavInfo" where
  "parse_chunks view offset fmt =
     (if offset + 8 \<le> length view
      then let chunk = readAscii view offset 4;
               csize = get_uint 4 view (offset + 4);
               body = offset + 8;
               onward = body + csize + csize mod 2
           in if chunk = ''fmt ''
              then (if csize < 16 \<or> body + 16 > length view then Inl TruncatedFmt
                    else parse_chunks view onward (Some (read_fmt view body)))
              else if chunk = ''data''
              then (case fmt of None \<Rightarrow> Inl DataBeforeFmt | Some f \<Rightarrow> Inr (data_info view csize body f))
              else parse_chunks view onward fmt
      else Inl (if fmt = None then NoFmtChunk else NoDataChunk))"
  by pat_completeness auto
termination
  by (relation "measure (\<lambda>(view, offset, fmt). length view - offset)") auto

declare parse_chunks.simps [simp del]

definition parseWav :: "bytes \<Rightarrow> WavFormatError + WavInfo" where
  "parseWav buffer =
     (if length buffer < 12 \<or> readAscii buffer 0 4 \<noteq> ''RIFF'' \<or> readAscii buffer 8 4 \<noteq> ''WAVE'' then Inl NotRiff
      else parse_chunks buffer 12 None)"

section \<open>Greeting limits\<close>

definition pad2 :: "nat \<Rightarrow> string" where
  "pad2 n = (if n < 10 then CHR ''0'' # nat_str n else nat_str n)"

definition greetingProblem :: "rat \<Rightarrow> nat \<Rightarrow> string \<Rightarrow> string option" where
  "greetingProblem durationSec nbytes noun =
     (if \<not> durationSec \<ge> of_nat GREETING_MIN_SECONDS
      then Some (''That recording is too short '' @ [CHR 0x97] @ '' a '' @ noun @ '' needs at least a second of audio.'')
      else if durationSec > of_nat GREETING_MAX_SECONDS + 1 / 20
      then (let m = nat \<lfloor>durationSec / 60\<rfloor>; s = nat (round_half_up (durationSec - 60 * of_nat m))
            in Some (''That clip is '' @ nat_str m @ '':'' @ pad2 s @ '' long '' @ [CHR 0x97] @ '' '' @ noun
                     @ ''s can be up to 2:00. Trim it and try again.''))
      else if nbytes > GREETING_MAX_BYTES
      then Some (''That '' @ noun @ '' is larger than 5 MB once converted. Try a shorter clip.'')
      else None)"

definition isApiGreetingFormat :: "WavInfo \<Rightarrow> bool" where
  "isApiGreetingFormat info \<longleftrightarrow>
     wf_audioFormat info = 1 \<and> wf_channels info = 1 \<and> wf_bitsPerSample info = 16
     \<and> (wf_sampleRate info = 8000 \<or> wf_sampleRate info = 16000)"

end
