(* ===== verification/Wav_Props.thy ===== *)
theory Wav_Props
  imports Wav
begin

text \<open>
  Correctness of the greeting encoder and parser: little-endian fields are read back where they were
  written, the encoded file parses to its own samples, and conversion keeps within the input's level.
\<close>

section \<open>Bytes\<close>

lemma length_le_bytes [simp]: "length (le_bytes k v) = k"
  by (simp add: le_bytes_def)

lemma le_bytes_Suc: "le_bytes (Suc k) v = word_of_int v # le_bytes k (v div 256)"
proof -
  have "[0..<Suc k] = 0 # map Suc [0..<k]" by (simp add: upt_conv_Cons map_Suc_upt del: upt_Suc)
  then show ?thesis by (simp add: le_bytes_def comp_def zdiv_zmult2_eq del: upt_Suc)
qed

lemma le_value_bytes: "int (le_value (le_bytes k v)) = v mod 256 ^ k"
proof (induction k arbitrary: v)
  case (Suc k)
  have "int (unat (word_of_int v :: 8 word)) = v mod 256" by (simp add: uint_word_of_int)
  then have "int (le_value (le_bytes (Suc k) v)) = v mod 256 + 256 * (v div 256 mod 256 ^ k)"
    using Suc by (simp add: le_bytes_Suc)
  also have "\<dots> = v mod 256 ^ Suc k" by (simp add: zmod_zmult2_eq)
  finally show ?case .
qed (simp add: le_bytes_def)

lemma length_set_bytes [simp]: "offset + length bs \<le> length view \<Longrightarrow> length (set_bytes offset bs view) = length view"
  by (simp add: set_bytes_def)

text \<open>Reading where a write went, before it, and after it.\<close>

lemma take_set_same: "offset + length bs \<le> length view \<Longrightarrow> k = length bs \<Longrightarrow> take k (drop offset (set_bytes offset bs view)) = bs"
  by (simp add: set_bytes_def)

lemma take_set_other:
  assumes "a + k \<le> offset \<or> offset + length bs \<le> a" "offset + length bs \<le> length view"
  shows "take k (drop a (set_bytes offset bs view)) = take k (drop a view)"
proof (rule nth_equalityI)
  have len: "length (set_bytes offset bs view) = length view" using assms(2) by simp
  then show "length (take k (drop a (set_bytes offset bs view))) = length (take k (drop a view))" by simp
  fix i assume "i < length (take k (drop a (set_bytes offset bs view)))"
  then have i: "i < k" "a + i < length view" using len by auto
  have "set_bytes offset bs view ! (a + i) = view ! (a + i)"
    using assms i by (auto simp: set_bytes_def nth_append min_def)
  then show "take k (drop a (set_bytes offset bs view)) ! i = take k (drop a view) ! i" using i len by simp
qed

lemma length_ascii [simp]: "length (ascii t) = length t"
  by (simp add: ascii_def)

lemma read_ascii: "map (\<lambda>b. char_of (unat b)) (ascii t) = t"
proof -
  have "char_of (unat (word_of_nat (of_char c) :: 8 word)) = c" for c
    by (simp add: unat_of_nat)
  then show ?thesis by (simp add: ascii_def comp_def)
qed

lemma length_write_samples: "offset + 2 * length samples \<le> length view \<Longrightarrow> length (write_samples offset samples view) = length view"
  by (induction offset samples view rule: write_samples.induct) auto

lemma write_samples_before:
  "a + k \<le> offset \<Longrightarrow> offset + 2 * length samples \<le> length view \<Longrightarrow>
     take k (drop a (write_samples offset samples view)) = take k (drop a view)"
  by (induction offset samples view rule: write_samples.induct) (simp_all add: take_set_other)

lemma write_samples_at:
  "offset + 2 * length samples \<le> length view \<Longrightarrow> i < length samples \<Longrightarrow>
     take 2 (drop (offset + 2 * i) (write_samples offset samples view)) = le_bytes 2 (floatToPcm16 (samples ! i))"
proof (induction offset samples view arbitrary: i rule: write_samples.induct)
  case (2 offset s samples view)
  show ?case
  proof (cases i)
    case 0
    then show ?thesis using "2.prems" by (simp add: write_samples_before take_set_same)
  next
    case (Suc j)
    have "offset + 2 + 2 * length samples \<le> length (setUint16 offset (floatToPcm16 s) view)" "j < length samples"
      using "2.prems" Suc by simp_all
    from "2.IH" [OF this] show ?thesis using Suc by (simp add: add.commute add.left_commute)
  qed
qed simp

section \<open>The header\<close>

text \<open>Writes at ascending places do not touch one another.\<close>

definition write_all :: "(nat \<times> bytes) list \<Rightarrow> bytes \<Rightarrow> bytes" where
  "write_all ws view = fold (\<lambda>(pos, bs). set_bytes pos bs) ws view"

lemma length_write_all: "\<forall>(pos, bs) \<in> set ws. pos + length bs \<le> length view \<Longrightarrow> length (write_all ws view) = length view"
  unfolding write_all_def by (induction ws arbitrary: view) auto

lemma read_write_all:
  assumes "\<forall>(pos, bs) \<in> set ws. pos + length bs \<le> length view"
    and "sorted_wrt (\<lambda>(pos, bs) (pos', bs'). pos + length bs \<le> pos') ws"
    and "(pos, bs) \<in> set ws"
  shows "take (length bs) (drop pos (write_all ws view)) = bs"
  using assms
proof (induction ws rule: rev_induct)
  case (snoc w ws)
  obtain pos' bs' where w: "w = (pos', bs')" by fastforce
  have eq: "write_all (ws @ [w]) view = set_bytes pos' bs' (write_all ws view)" by (simp add: write_all_def w)
  have len: "length (write_all ws view) = length view" by (rule length_write_all) (use snoc.prems(1) in auto)
  have fit: "pos' + length bs' \<le> length (write_all ws view)" using snoc.prems(1) len by (auto simp: w)
  show ?case
  proof (cases "(pos, bs) \<in> set ws")
    case True
    then have before: "pos + length bs \<le> pos'" using snoc.prems(2) by (auto simp: sorted_wrt_append w)
    have "take (length bs) (drop pos (write_all ws view)) = bs" using snoc True by (simp add: sorted_wrt_append)
    then show ?thesis unfolding eq using take_set_other [OF _ fit, of pos "length bs"] before by simp
  next
    case False
    then have "pos = pos'" "bs = bs'" using snoc.prems(3) by (auto simp: w)
    then show ?thesis unfolding eq using take_set_same [OF fit refl] by simp
  qed
qed simp

definition header_writes :: "nat \<Rightarrow> int \<Rightarrow> (nat \<times> bytes) list" where
  "header_writes n rate =
     [(0, ascii ''RIFF''), (4, le_bytes 4 (36 + int n)), (8, ascii ''WAVE''), (12, ascii ''fmt ''), (16, le_bytes 4 16),
      (20, le_bytes 2 1), (22, le_bytes 2 1), (24, le_bytes 4 rate), (28, le_bytes 4 (rate * 2)), (32, le_bytes 2 2),
      (34, le_bytes 2 16), (36, ascii ''data''), (40, le_bytes 4 (int n))]"

lemma header_writes_fit: "length view \<ge> 44 \<Longrightarrow> \<forall>(pos, bs) \<in> set (header_writes n rate). pos + length bs \<le> length view"
  by (auto simp: header_writes_def)

lemma header_writes_sorted: "sorted_wrt (\<lambda>(pos, bs) (pos', bs'). pos + length bs \<le> pos') (header_writes n rate)"
  by (simp add: header_writes_def)

definition wav_header :: "nat \<Rightarrow> int \<Rightarrow> bytes \<Rightarrow> bytes" where
  "wav_header dataBytes rate view =
     setUint32 40 (int dataBytes) (writeAscii 36 ''data'' (setUint16 34 16 (setUint16 32 2 (setUint32 28 (rate * 2)
       (setUint32 24 rate (setUint16 22 1 (setUint16 20 1 (setUint32 16 16 (writeAscii 12 ''fmt '' (writeAscii 8 ''WAVE''
         (setUint32 4 (36 + int dataBytes) (writeAscii 0 ''RIFF'' view))))))))))))"

lemma encode_header:
  "encodeWavPcm16 samples (Fin r) =
     (if \<not> isInteger (Fin r) \<or> r \<le> 0 then Inl RangeError
      else Inr (write_samples 44 samples (wav_header (length samples * 2) \<lfloor>r\<rfloor> (replicate (44 + length samples * 2) 0))))"
  by (simp add: encodeWavPcm16_def wav_header_def WAV_HEADER_BYTES_def Let_def)

lemma wav_header_writes: "wav_header n rate view = write_all (header_writes n rate) view"
  by (simp add: wav_header_def write_all_def header_writes_def writeAscii_def)

lemma header_fields:
  assumes "length view \<ge> 44"
  shows "length (wav_header n rate view) = length view"
    and "(pos, bs) \<in> set (header_writes n rate) \<Longrightarrow> k = length bs \<Longrightarrow> take k (drop pos (wav_header n rate view)) = bs"
  unfolding wav_header_writes
  using length_write_all [OF header_writes_fit [OF assms]] read_write_all [OF header_writes_fit [OF assms] header_writes_sorted]
  by simp_all

lemma encoded_fields:
  assumes "encodeWavPcm16 samples (Fin r) = Inr v"
  defines "n \<equiv> 2 * length samples"
  shows "length v = 44 + n" "readAscii v 0 4 = ''RIFF''" "readAscii v 8 4 = ''WAVE''" "readAscii v 12 4 = ''fmt ''"
    and "get_uint 4 v 16 = 16" "get_uint 2 v 20 = 1" "get_uint 2 v 22 = 1" "int (get_uint 4 v 24) = \<lfloor>r\<rfloor> mod 2 ^ 32"
    and "get_uint 2 v 34 = 16" "readAscii v 36 4 = ''data''" "get_uint 4 v 40 = n mod 2 ^ 32"
    and "i < length samples \<Longrightarrow> take 2 (drop (44 + 2 * i) v) = le_bytes 2 (floatToPcm16 (samples ! i))"
proof -
  define view :: bytes where "view = replicate (44 + n) 0"
  have len: "length view = 44 + n" "length view \<ge> 44" by (simp_all add: view_def)
  have v: "v = write_samples 44 samples (wav_header n \<lfloor>r\<rfloor> view)"
    using assms(1) by (simp add: encode_header n_def view_def mult.commute split: if_splits)
  note h = header_fields(1) [OF len(2), of n "\<lfloor>r\<rfloor>"] and f = header_fields(2) [OF len(2), of _ _ n "\<lfloor>r\<rfloor>", unfolded header_writes_def]
  have fit: "44 + 2 * length samples \<le> length (wav_header n \<lfloor>r\<rfloor> view)" using h len by (simp add: n_def)
  have b: "take k (drop a v) = take k (drop a (wav_header n \<lfloor>r\<rfloor> view))" if "a + k \<le> 44" for a k
    unfolding v by (rule write_samples_before [OF that fit])
  show "length v = 44 + n" unfolding v using length_write_samples [OF fit] h len by simp
  show "readAscii v 0 4 = ''RIFF''" unfolding readAscii_def using b [of 0 4] f [of 0 "ascii ''RIFF''" 4] read_ascii [of "''RIFF''"] by simp
  show "readAscii v 8 4 = ''WAVE''" unfolding readAscii_def using b [of 8 4] f [of 8 "ascii ''WAVE''" 4] read_ascii [of "''WAVE''"] by simp
  show "readAscii v 12 4 = ''fmt ''" unfolding readAscii_def using b [of 12 4] f [of 12 "ascii ''fmt ''" 4] read_ascii [of "''fmt ''"] by simp
  show "readAscii v 36 4 = ''data''" unfolding readAscii_def using b [of 36 4] f [of 36 "ascii ''data''" 4] read_ascii [of "''data''"] by simp
  have val: "int (get_uint k v a) = x mod 256 ^ k" if "take k (drop a (wav_header n \<lfloor>r\<rfloor> view)) = le_bytes k x" "a + k \<le> 44" for k a x
    unfolding get_uint_def b [OF that(2)] that(1) by (rule le_value_bytes)
  show "get_uint 4 v 16 = 16" using val [OF f [of 16 "le_bytes 4 (16)" 4]] by simp
  show "get_uint 2 v 20 = 1" using val [OF f [of 20 "le_bytes 2 (1)" 2]] by simp
  show "get_uint 2 v 22 = 1" using val [OF f [of 22 "le_bytes 2 (1)" 2]] by simp
  show "int (get_uint 4 v 24) = \<lfloor>r\<rfloor> mod 2 ^ 32" using val [OF f [of 24 "le_bytes 4 (\<lfloor>r\<rfloor>)" 4]] by simp
  show "get_uint 2 v 34 = 16" using val [OF f [of 34 "le_bytes 2 (16)" 2]] by simp
  have "int (get_uint 4 v 40) = int (n mod 2 ^ 32)" using val [OF f [of 40 "le_bytes 4 (int n)" 4]] by (simp add: zmod_int)
  then show "get_uint 4 v 40 = n mod 2 ^ 32" by linarith
  show "take 2 (drop (44 + 2 * i) v) = le_bytes 2 (floatToPcm16 (samples ! i))" if "i < length samples"
    unfolding v by (rule write_samples_at [OF fit that])
qed

lemma pcm16_range: "- 32768 \<le> floatToPcm16 s \<and> floatToPcm16 s \<le> 32767"
proof -
  have lo: "- 32768 \<le> round_half_up (x * 32768)" if "-1 \<le> x" for x :: rat
    using that by (simp add: round_half_up_def le_floor_iff)
  have hi: "round_half_up (x * 32767) \<le> 32767" if "x \<le> 1" for x :: rat
    using that by (simp add: round_half_up_def floor_le_iff)
  have neg: "round_half_up (x * 32768) \<le> 0" if "x < 0" for x :: rat
    using that by (simp add: round_half_up_def floor_le_iff)
  have pos: "0 \<le> round_half_up (x * 32767)" if "0 \<le> x" for x :: rat
    using that by (simp add: round_half_up_def le_floor_iff)
  show ?thesis
  proof (cases s)
    case (Fin r)
    define x where "x = max (-1) (min 1 r)"
    have x: "-1 \<le> x" "x \<le> 1" by (auto simp: x_def)
    show ?thesis using lo [OF x(1)] hi [OF x(2)] neg [of x] pos [of x] by (auto simp: floatToPcm16_def Fin Let_def x_def [symmetric])
  qed (simp_all add: floatToPcm16_def round_half_up_def)
qed

text \<open>The signed value of two bytes.\<close>

definition int16_at :: "bytes \<Rightarrow> nat \<Rightarrow> int" where
  "int16_at view offset = sint (word_of_nat (get_uint 2 view offset) :: 16 word)"

lemma int16_le_bytes:
  assumes "- 32768 \<le> x" "x \<le> 32767"
  shows "sint (word_of_nat (le_value (le_bytes 2 x)) :: 16 word) = x"
proof -
  have "(word_of_nat (le_value (le_bytes 2 x)) :: 16 word) = word_of_int (x mod 65536)"
  proof -
    have "int (le_value (le_bytes 2 x)) = x mod 65536" using le_value_bytes [of 2 x] by simp
    then show ?thesis by (metis of_int_of_nat_eq)
  qed
  also have "\<dots> = word_of_int x" by (simp add: word_of_int_eq_iff take_bit_eq_mod)
  finally have "sint (word_of_nat (le_value (le_bytes 2 x)) :: 16 word) = signed_take_bit 15 x" by (simp add: sint_sbintrunc')
  then show ?thesis using assms by (simp add: signed_take_bit_int_eq_self)
qed


lemma encoded_parse:
  assumes e: "encodeWavPcm16 samples (Fin r) = Inr v" and r: "r < 2 ^ 32" and n: "length samples < 2 ^ 31"
  shows "parseWav v = Inr \<lparr>wf_audioFormat = 1, wf_channels = 1, wf_sampleRate = nat \<lfloor>r\<rfloor>, wf_bitsPerSample = 16,
    wi_dataOffset = 44, wi_dataBytes = 2 * length samples, wi_durationSec = of_nat (length samples) / r\<rparr>"
proof -
  note f = encoded_fields [OF e]
  have int: "of_int \<lfloor>r\<rfloor> = r" "r > 0" using e by (auto simp: encode_header split: if_splits)
  have "\<lfloor>r\<rfloor> < 2 ^ 32" "0 \<le> \<lfloor>r\<rfloor>" using r int by (simp_all add: floor_less_iff)
  then have rate: "get_uint 4 v 24 = nat \<lfloor>r\<rfloor>" using f(8) by simp
  have csize: "get_uint 4 v 40 = 2 * length samples" using f(11) n by simp
  have fmt: "read_fmt v 20 = \<lparr>wf_audioFormat = 1, wf_channels = 1, wf_sampleRate = nat \<lfloor>r\<rfloor>, wf_bitsPerSample = 16\<rparr>"
    using f(6,7,9) rate by (simp add: read_fmt_def)
  have one: "parse_chunks v 12 None = parse_chunks v 36 (Some (read_fmt v 20))"
    using f(1,4,5) by (subst parse_chunks.simps) simp
  have two: "parse_chunks v 36 (Some g) = Inr (data_info v (2 * length samples) 44 g)" for g
    using f(1,10) csize by (subst parse_chunks.simps) simp
  have "of_nat (nat \<lfloor>r\<rfloor>) = r" using int by (metis of_int_of_nat_eq zle_int nat_0_le floor_le_zero zero_le_floor less_le)
  moreover have "1 \<le> r" using int by (metis of_int_0_less_iff of_int_1_le_iff int_one_le_iff_zero_less)
  ultimately show ?thesis using f(1-3) int
    by (simp add: parseWav_def one two fmt data_info_def WavFmt.defs Let_def)
qed

section \<open>Conversion\<close>

lemma concat_loop_spec:
  "length out = tot \<Longrightarrow> offset \<le> tot \<Longrightarrow> tot \<le> offset + length (concat chunks) \<Longrightarrow>
     concat_loop tot chunks offset out = take offset out @ take (tot - offset) (concat chunks)"
proof (induction tot chunks offset out rule: concat_loop.induct)
  case (2 tot chunk chunks offset out)
  show ?case
  proof (cases "offset \<ge> tot")
    case True
    then show ?thesis using "2.prems" by simp
  next
    case False
    define n where "n = min (length chunk) (tot - offset)"
    define out' where "out' = take offset out @ take n chunk @ drop (offset + n) out"
    have "concat_loop tot (chunk # chunks) offset out = concat_loop tot chunks (offset + n) out'"
      using False by (simp add: n_def out'_def Let_def)
    also have "\<dots> = take (offset + n) out' @ take (tot - (offset + n)) (concat chunks)"
      using "2.IH" [OF False n_def] "2.prems" False by (simp add: n_def out'_def) 
    finally show ?thesis using "2.prems" False by (auto simp: out'_def n_def min_def)
  qed
qed simp

lemma concatSamples_spec:
  "concatSamples chunks m = (case m of Some m \<Rightarrow> take m (concat chunks) | None \<Rightarrow> concat chunks)"
proof -
  have n: "sum_list (map length chunks) = length (concat chunks)" by (simp add: length_concat)
  show ?thesis unfolding concatSamples_def n Let_def
    by (subst concat_loop_spec) (auto simp: min_def split: option.splits)
qed

lemma peakLevel_ge: "0 \<le> peakLevel xs \<and> (\<forall>x \<in> set xs. \<bar>x\<bar> \<le> peakLevel xs)"
proof -
  have "p \<le> fold (\<lambda>s peak. if \<bar>s\<bar> > peak then \<bar>s\<bar> else peak) xs p
      \<and> (\<forall>x \<in> set xs. \<bar>x\<bar> \<le> fold (\<lambda>s peak. if \<bar>s\<bar> > peak then \<bar>s\<bar> else peak) xs p)" for p :: rat
  proof (induction xs arbitrary: p)
    case (Cons x xs)
    show ?case using Cons [of p] Cons [of "\<bar>x\<bar>"] by (auto intro: order_trans)
  qed simp
  then show ?thesis by (auto simp: peakLevel_def)
qed

lemma peakLevel_least: "0 \<le> P \<Longrightarrow> \<forall>x \<in> set xs. \<bar>x\<bar> \<le> P \<Longrightarrow> peakLevel xs \<le> P"
proof -
  have "p \<le> P \<Longrightarrow> \<forall>x \<in> set xs. \<bar>x\<bar> \<le> P \<Longrightarrow> fold (\<lambda>s peak. if \<bar>s\<bar> > peak then \<bar>s\<bar> else peak) xs p \<le> P" for p
    by (induction xs arbitrary: p) auto
  then show "0 \<le> P \<Longrightarrow> \<forall>x \<in> set xs. \<bar>x\<bar> \<le> P \<Longrightarrow> peakLevel xs \<le> P" by (simp add: peakLevel_def)
qed

lemma sum_list_abs_le: "\<forall>x \<in> set xs. \<bar>x\<bar> \<le> (P :: rat) \<Longrightarrow> \<bar>sum_list xs\<bar> \<le> of_nat (length xs) * P"
proof (induction xs)
  case (Cons x xs)
  then have "\<bar>x + sum_list xs\<bar> \<le> P + of_nat (length xs) * P" by (intro order_trans [OF abs_triangle_ineq] add_mono) auto
  then show ?case by (simp add: algebra_simps)
qed simp

lemma box_sample_peak: "\<bar>box_sample input ratio i\<bar> \<le> peakLevel input"
proof -
  define start where "start = nat \<lfloor>of_nat i * ratio\<rfloor>"
  define stop where "stop = min (length input) (max (start + 1) (nat \<lfloor>of_nat (i + 1) * ratio\<rfloor>))"
  let ?xs = "map (\<lambda>j. input ! j) [start..<stop]"
  have "\<forall>x \<in> set ?xs. \<bar>x\<bar> \<le> peakLevel input" using peakLevel_ge [of input] by (auto simp: stop_def)
  from sum_list_abs_le [OF this] have "\<bar>sum_list ?xs\<bar> \<le> of_nat (stop - start) * peakLevel input" by simp
  then have "\<bar>sum_list ?xs / of_nat (stop - start)\<bar> \<le> peakLevel input" if "stop > start"
    using that by (simp add: pos_divide_le_eq abs_divide mult.commute)
  then show ?thesis using peakLevel_ge [of input]
    unfolding box_sample_def Let_def start_def [symmetric] unfolding stop_def [symmetric] by auto
qed

lemma line_sample_peak:
  assumes "ratio > 0"
  shows "\<bar>line_sample input ratio i\<bar> \<le> peakLevel input"
proof -
  define left where "left = nat \<lfloor>of_nat i * ratio\<rfloor>"
  define a where "a = sample_or_zero input left"
  define b where "b = sample_or_zero input (min (left + 1) (length input - 1))"
  define frac where "frac = of_nat i * ratio - of_nat left"
  have ab: "\<bar>a\<bar> \<le> peakLevel input" "\<bar>b\<bar> \<le> peakLevel input" using peakLevel_ge [of input] by (auto simp: a_def b_def)
  define x where "x = of_nat i * ratio"
  have "0 \<le> x" using assms by (simp add: x_def)
  then have "of_nat left = (of_int \<lfloor>x\<rfloor> :: rat)" unfolding left_def x_def [symmetric] by (simp add: of_nat_nat)
  then have "frac = x - of_int \<lfloor>x\<rfloor>" by (simp add: frac_def x_def)
  then have frac: "0 \<le> frac" "frac \<le> 1" using floor_correct [of x] by simp_all
  have "\<bar>a * (1 - frac) + b * frac\<bar> \<le> \<bar>a\<bar> * (1 - frac) + \<bar>b\<bar> * frac"
    using frac by (intro order_trans [OF abs_triangle_ineq]) (simp add: abs_mult)
  also have "\<dots> \<le> peakLevel input * (1 - frac) + peakLevel input * frac"
    using frac ab by (intro add_mono mult_right_mono) auto
  also have "\<dots> = peakLevel input" by (simp add: algebra_simps)
  finally show ?thesis unfolding line_sample_def Let_def a_def b_def frac_def left_def .
qed

lemma greeting_ok_iff:
  "greetingProblem (of_nat n / of_nat GREETING_SAMPLE_RATE) (wavByteLength n) noun = None \<longleftrightarrow> 16000 \<le> n \<and> n \<le> 1920800"
proof -
  have "(1 :: rat) \<le> of_nat n / 16000 \<longleftrightarrow> of_nat 16000 \<le> (of_nat n :: rat)" "of_nat n / 16000 > (120 :: rat) + 1 / 20 \<longleftrightarrow> (of_nat 1920800 :: rat) < of_nat n"
    by (simp_all add: field_simps)
  then have "(1 :: rat) \<le> of_nat n / 16000 \<longleftrightarrow> 16000 \<le> n" "of_nat n / 16000 > (120 :: rat) + 1 / 20 \<longleftrightarrow> n > 1920800"
    unfolding of_nat_le_iff of_nat_less_iff by blast+
  then show ?thesis
    by (auto simp: greetingProblem_def wavByteLength_def GREETING_SAMPLE_RATE_def GREETING_MIN_SECONDS_def GREETING_MAX_SECONDS_def
        GREETING_MAX_BYTES_def WAV_HEADER_BYTES_def Let_def)
qed

text \<open>A clip just under three minutes is reported as \<open>2:60\<close>.\<close>

lemma greeting_two_sixty:
  "greetingProblem (1797 / 10) 0 ''greeting'' = Some (''That clip is 2:60 long '' @ [CHR 0x97] @ '' greetings can be up to 2:00. Trim it and try again.'')"
  by code_simp

section \<open>Properties\<close>

text \<open>C19. A greeting the encoder writes is read back by the parser as mono 16-bit PCM at the rate given, with the
  data right after the 44 bytes of the header and the length and duration of the samples; the file has the
  announced size, and each sample is found at its place with its 16-bit value.\<close>

theorem wav_roundtrip:
  assumes "encodeWavPcm16 samples (Fin r) = Inr v" and "r < 2 ^ 32" and "length samples < 2 ^ 31"
  shows "parseWav v = Inr \<lparr>wf_audioFormat = 1, wf_channels = 1, wf_sampleRate = nat \<lfloor>r\<rfloor>, wf_bitsPerSample = 16,
      wi_dataOffset = 44, wi_dataBytes = 2 * length samples, wi_durationSec = of_nat (length samples) / r\<rparr>
    \<and> length v = wavByteLength (length samples)
    \<and> (\<forall>i < length samples. int16_at v (44 + 2 * i) = floatToPcm16 (samples ! i))"
proof -
  have "int16_at v (44 + 2 * i) = floatToPcm16 (samples ! i)" if "i < length samples" for i
    unfolding int16_at_def get_uint_def encoded_fields(12) [OF assms(1) that] using int16_le_bytes pcm16_range by blast
  then show ?thesis using encoded_parse [OF assms] encoded_fields(1) [OF assms(1)]
    by (simp add: wavByteLength_def WAV_HEADER_BYTES_def)
qed

theorem wav_roundtrip_witness:
  "\<exists>v. encodeWavPcm16 [Fin (1 / 2), Fin (-1), NaN] (Fin 16000) = Inr v \<and> int16_at v 46 = -32768
     \<and> (\<exists>info. parseWav v = Inr info \<and> isApiGreetingFormat info)"
proof -
  obtain v where v: "encodeWavPcm16 [Fin (1 / 2), Fin (-1), NaN] (Fin 16000) = Inr v" by (simp add: encode_header)
  have "floatToPcm16 (Fin (-1)) = -32768" by code_simp
  then have "int16_at v 46 = -32768" using wav_roundtrip [OF v] by (auto dest: spec [of _ 1])
  moreover have "\<exists>info. parseWav v = Inr info \<and> isApiGreetingFormat info" using wav_roundtrip [OF v] by (simp add: isApiGreetingFormat_def)
  ultimately show ?thesis using v by blast
qed

text \<open>The fallback resampler gives as many samples as announced and is never louder than its input.\<close>

theorem resample_never_louder:
  assumes "resampleFallback input fromRate toRate = Inr out"
  shows "(fromRate \<noteq> toRate \<longrightarrow> length out = resampledLength (length input) fromRate toRate) \<and> peakLevel out \<le> peakLevel input"
proof -
  have pos: "fromRate / toRate > 0" using assms by (auto simp: resampleFallback_def split: if_splits)
  have "\<forall>x \<in> set out. \<bar>x\<bar> \<le> peakLevel input"
    using assms peakLevel_ge [of input] box_sample_peak line_sample_peak [OF pos]
    by (auto simp: resampleFallback_def Let_def split: if_splits)
  then have "peakLevel out \<le> peakLevel input" using peakLevel_least peakLevel_ge [of input] by blast
  then show ?thesis using assms by (auto simp: resampleFallback_def Let_def split: if_splits)
qed

theorem resample_never_louder_witness:
  "resampleFallback [1, -1 / 2, 1 / 4] 3 2 = Inr [1, -1 / 8] \<and> peakLevel [1, -1 / 8 :: rat] \<le> peakLevel [1, -1 / 2, 1 / 4]"
proof -
  have "resampleFallback [1, -1 / 2, 1 / 4] 3 2 = Inr [1, -1 / 8]" by code_simp
  from resample_never_louder [OF this] this show ?thesis by blast
qed

end
