(* ===== verification/Ip_Entry.thy ===== *)
theory Ip_Entry
  imports JS_Text
begin

text \<open>
  The originating-IP entry of the onboarding form (\<open>utils/ip.ts\<close>): dotted quads, IPv6 with one
  compression and an embedded IPv4 tail, and CIDR blocks within the accepted widths.
\<close>

section \<open>Addresses\<close>

abbreviation digits_1_3 :: "string \<Rightarrow> bool" where
  "digits_1_3 p \<equiv> list_all is_digit p \<and> 1 \<le> length p \<and> length p \<le> 3"

definition octet_ok :: "string \<Rightarrow> bool" where
  "octet_ok p \<longleftrightarrow> digits_1_3 p \<and> (length p = 1 \<or> hd p \<noteq> CHR ''0'') \<and> digits_val p \<le> 255"

definition isValidIpv4 :: "string \<Rightarrow> bool" where
  "isValidIpv4 addr = (let parts = split_on (CHR ''.'') addr in if length parts \<noteq> 4 then False else list_all octet_ok parts)"

text \<open>The match of an embedded IPv4 tail: what stands up to the last colon, and the tail after it.\<close>

definition v4_tail :: "string \<Rightarrow> (string \<times> string) option" where
  "v4_tail s =
     (let tail = rev (before_char (CHR '':'') (rev s)); head = take (length s - length tail) s;
          parts = split_on (CHR ''.'') tail
      in if head \<noteq> [] \<and> list_all (\<lambda>c. c \<noteq> CHR 0x0A \<and> c \<noteq> CHR 0x0D) head \<and> length parts = 4 \<and> list_all (\<lambda>p. digits_1_3 p) parts
         then Some (head, tail) else None)"

text \<open>\<open>split('::')\<close>, from left to right.\<close>

fun split_double :: "string \<Rightarrow> string list" where
  "split_double [] = [[]]"
| "split_double [c] = [[c]]"
| "split_double (c # d # s) =
     (if c = CHR '':'' \<and> d = CHR '':'' then [] # split_double s
      else (case split_double (d # s) of [] \<Rightarrow> [[c]] | w # ws \<Rightarrow> (c # w) # ws))"

definition is_hex :: "char \<Rightarrow> bool" where
  "is_hex c \<longleftrightarrow> c \<in> set ''0123456789abcdefABCDEF''"

definition parseGroups :: "string \<Rightarrow> string list option" where
  "parseGroups part =
     (if part = '''' then Some []
      else let groups = split_on (CHR '':'') part
           in if list_all (\<lambda>g. list_all is_hex g \<and> 1 \<le> length g \<and> length g \<le> 4) groups then Some groups else None)"

definition groups_ok :: "string \<Rightarrow> bool" where
  "groups_ok s =
     (if s = ''::'' then True
      else let halves = split_double s
           in if length halves > 2 then False
              else case parseGroups (halves ! 0) of
                     None \<Rightarrow> False
                   | Some head \<Rightarrow>
                       if length halves = 1 then length head = 8
                       else case parseGroups (halves ! 1) of None \<Rightarrow> False | Some tail \<Rightarrow> length head + length tail \<le> 7)"

definition isValidIpv6 :: "string \<Rightarrow> bool" where
  "isValidIpv6 addr =
     (case v4_tail addr of
        Some (head, tail) \<Rightarrow> if \<not> isValidIpv4 tail then False else groups_ok (head @ ''0:0'')
      | None \<Rightarrow> groups_ok addr)"

section \<open>The entry\<close>

text \<open>\<^term>\<open>Inr\<close> is the accepted value, \<^term>\<open>Inl\<close> the message shown.\<close>

definition validate_cidr :: "string \<Rightarrow> string \<Rightarrow> string \<Rightarrow> string + string" where
  "validate_cidr entry addr prefixStr =
     (if \<not> digits_1_3 prefixStr then Inl (''\"'' @ entry @ ''\" has an invalid CIDR prefix'')
      else let prefix = digits_val prefixStr in
        if isValidIpv4 addr
        then (if prefix > 32 then Inl (''\"/'' @ nat_str prefix @ ''\" is not a valid IPv4 prefix'')
              else if prefix < 24 then Inl (''CIDR block too large '' @ [CHR 0x97] @ '' /24 is the widest IPv4 block accepted'')
              else Inr entry)
        else if isValidIpv6 addr
        then (if prefix > 128 then Inl (''\"/'' @ nat_str prefix @ ''\" is not a valid IPv6 prefix'')
              else if prefix < 64 then Inl (''CIDR block too large '' @ [CHR 0x97] @ '' /64 is the widest IPv6 block accepted'')
              else Inr entry)
        else Inl (''\"'' @ addr @ ''\" is not a valid IP address''))"

definition validateIpOrCidr :: "string \<Rightarrow> string + string" where
  "validateIpOrCidr raw =
     (let entry = trim raw in
      if entry = '''' then Inl ''Enter an IP address or CIDR block''
      else if CHR ''/'' \<in> set entry
      then validate_cidr entry (before_char (CHR ''/'') entry) (tl (dropWhile (\<lambda>c. c \<noteq> CHR ''/'') entry))
      else if isValidIpv4 entry \<or> isValidIpv6 entry then Inr entry
      else Inl (''\"'' @ entry @ ''\" is not a valid IPv4 or IPv6 address''))"

section \<open>Laws\<close>

lemma split_on_join:
  "xs \<noteq> [] \<Longrightarrow> list_all (\<lambda>x. c \<notin> set x) xs \<Longrightarrow> split_on c (join [c] xs) = xs"
proof (induction "[c]" xs rule: join.induct)
  case (2 x)
  have "split_on c x = [x]" if "c \<notin> set x" for x using that by (induction x) auto
  then show ?case using 2 by simp
next
  case (3 x y xs)
  have "split_on c (w @ c # s) = w # split_on c s" if "c \<notin> set w" for w s using that by (induction w) auto
  then show ?case using 3 by simp
qed simp

lemma octet_iff: "octet_ok p \<longleftrightarrow> (\<exists>n \<le> 255. p = nat_str n)"
proof
  assume p: "octet_ok p"
  then have "nat_str (digits_val p) = p" by (intro nat_str_val) (auto simp: octet_ok_def)
  then show "\<exists>n \<le> 255. p = nat_str n" using p by (intro exI [of _ "digits_val p"]) (auto simp: octet_ok_def)
next
  assume "\<exists>n \<le> 255. p = nat_str n"
  then obtain n where n: "n \<le> 255" "p = nat_str n" by blast
  have "length p = 1 \<or> hd p \<noteq> CHR ''0''"
  proof (cases "n = 0")
    case True
    then show ?thesis using n(2) by (simp add: nat_str.simps)
  qed (use n nat_str_lead in simp)
  moreover have "length p \<le> 3" using n nat_str_length [of n] by simp
  moreover have "1 \<le> length p" using n nat_str_digits [of n] by (simp add: Suc_le_eq)
  ultimately show "octet_ok p" using n nat_str_digits [of n] by (simp add: octet_ok_def)
qed

lemma dot_not_digit: "list_all is_digit s \<Longrightarrow> CHR ''.'' \<notin> set s"
proof -
  have "\<not> is_digit (CHR ''.'')" by (simp add: is_digit_def)
  then show "list_all is_digit s \<Longrightarrow> CHR ''.'' \<notin> set s" unfolding list_all_iff by blast
qed

lemma octets_iff: "list_all octet_ok ps \<longleftrightarrow> (\<exists>ns. ps = map nat_str ns \<and> (\<forall>n \<in> set ns. n \<le> 255))"
proof
  assume "list_all octet_ok ps"
  then have "\<forall>p \<in> set ps. digits_val p \<le> 255 \<and> nat_str (digits_val p) = p"
    by (auto simp: list_all_iff octet_iff nat_str_digits)
  then show "\<exists>ns. ps = map nat_str ns \<and> (\<forall>n \<in> set ns. n \<le> 255)"
    by (intro exI [of _ "map digits_val ps"]) (auto simp: map_idI)
next
  assume "\<exists>ns. ps = map nat_str ns \<and> (\<forall>n \<in> set ns. n \<le> 255)"
  then show "list_all octet_ok ps" unfolding list_all_iff octet_iff by fastforce
qed

text \<open>A dotted quad is the decimal text of four numbers up to 255.\<close>

lemma ipv4_iff:
  "isValidIpv4 addr \<longleftrightarrow> (\<exists>ns. length ns = 4 \<and> (\<forall>n \<in> set ns. n \<le> 255) \<and> addr = join ''.'' (map nat_str ns))"
proof
  assume "isValidIpv4 addr"
  then have v: "length (split_on (CHR ''.'') addr) = 4" "list_all octet_ok (split_on (CHR ''.'') addr)"
    by (auto simp: isValidIpv4_def Let_def split: if_splits)
  then obtain ns where ns: "split_on (CHR ''.'') addr = map nat_str ns" "\<forall>n \<in> set ns. n \<le> 255" by (auto simp: octets_iff)
  then show "\<exists>ns. length ns = 4 \<and> (\<forall>n \<in> set ns. n \<le> 255) \<and> addr = join ''.'' (map nat_str ns)"
    using v(1) join_split_on [of "CHR ''.''" addr] by (intro exI [of _ ns]) simp
next
  assume "\<exists>ns. length ns = 4 \<and> (\<forall>n \<in> set ns. n \<le> 255) \<and> addr = join ''.'' (map nat_str ns)"
  then obtain ns where ns: "length ns = 4" "\<forall>n \<in> set ns. n \<le> 255" "addr = join ''.'' (map nat_str ns)" by blast
  have "split_on (CHR ''.'') addr = map nat_str ns"
    unfolding ns(3) by (rule split_on_join) (use ns(1) nat_str_digits dot_not_digit in \<open>auto simp: list_all_iff\<close>)
  then show "isValidIpv4 addr" using ns by (auto simp: isValidIpv4_def octets_iff)
qed

lemma split_slash:
  "CHR ''/'' \<in> set e \<Longrightarrow> e = a @ ''/'' @ p \<and> CHR ''/'' \<notin> set a \<longleftrightarrow> a = before_char (CHR ''/'') e \<and> p = tl (dropWhile (\<lambda>c. c \<noteq> CHR ''/'') e)"
proof (induction e arbitrary: a)
  case (Cons c e)
  show ?case using Cons by (cases a) auto
qed simp

lemma cidr_accepted:
  "validate_cidr e a p = Inr v \<longleftrightarrow> v = e \<and> digits_1_3 p
     \<and> (isValidIpv4 a \<and> 24 \<le> digits_val p \<and> digits_val p \<le> 32
        \<or> \<not> isValidIpv4 a \<and> isValidIpv6 a \<and> 64 \<le> digits_val p \<and> digits_val p \<le> 128)"
proof (cases "digits_1_3 p")
  case True
  show ?thesis
    by (cases "isValidIpv4 a"; cases "isValidIpv6 a"; cases "digits_val p < 24"; cases "digits_val p > 32"; cases "digits_val p < 64";
        cases "digits_val p > 128") (use True in \<open>simp_all add: validate_cidr_def Let_def eq_commute\<close>)
next
  case False
  then show ?thesis unfolding validate_cidr_def by (simp only: if_True if_False not_False_eq_True sum.distinct) blast
qed

lemma plain_accepted:
  "CHR ''/'' \<notin> set (trim raw) \<Longrightarrow>
     validateIpOrCidr raw = Inr v \<longleftrightarrow> v = trim raw \<and> (isValidIpv4 v \<or> isValidIpv6 v)"
proof -
  assume no: "CHR ''/'' \<notin> set (trim raw)"
  have empty: "\<not> isValidIpv4 ''''" "\<not> isValidIpv6 ''''" by code_simp+
  show ?thesis using no empty
    by (cases "trim raw = ''''"; cases "isValidIpv4 (trim raw)"; cases "isValidIpv6 (trim raw)")
      (auto simp only: validateIpOrCidr_def Let_def simp_thms if_True if_False sum.inject sum.distinct)
qed




end
