(* ===== verification/Transcript.thy ===== *)
theory Transcript
  imports Compile JS_Numbers
begin

text \<open>
  What callers hear: the walk over a compiled plan that says, block by block, what is played and where each
  choice leads (\<open>describePlan\<close> in \<open>flow/compile/ivr.ts\<close>), with the wording of numbers and messages it shares
  with the canvas (\<open>flow/model/summary.ts\<close>). The names of messages are an argument, as in the code.
\<close>

section \<open>Wording\<close>

abbreviation quoted :: "string \<Rightarrow> string" where
  "quoted n \<equiv> [CHR 0x93] @ n @ [CHR 0x94]"

definition quoteList :: "string list \<Rightarrow> string" where
  "quoteList names =
     (let qs = map quoted names
      in if length qs \<le> 1 then join '''' qs else join '', '' (butlast qs) @ '' then '' @ last qs)"

abbreviation prettyNumber :: "string \<Rightarrow> string" where
  "prettyNumber \<equiv> fmt"

fun own_number_in :: "string \<Rightarrow> DestinationGroup list \<Rightarrow> string" where
  "own_number_in did [] = prettyNumber did"
| "own_number_in did (g # gs) =
     (case List.find (\<lambda>n. dn_did n = did) (dgr_numbers g) of
        Some hit \<Rightarrow>
          (case dn_name hit of
             Some (c # cs) \<Rightarrow> (c # cs) @ '' '' @ [CHR 0xB7] @ '' '' @ prettyNumber did
           | _ \<Rightarrow> prettyNumber did)
      | None \<Rightarrow> own_number_in did gs)"

definition describeOwnNumber :: "string \<Rightarrow> Destinations option \<Rightarrow> string" where
  "describeOwnNumber did ds = own_number_in did (case ds of Some gs \<Rightarrow> gs | None \<Rightarrow> [])"

text \<open>\<open>timezoneLabel(tz)\<close> without what follows the first blank before a bracket, \<open>.replace(/ \(.*$/, '')\<close>.\<close>

fun before_bracket :: "string \<Rightarrow> string" where
  "before_bracket (c # d # cs) = (if c = CHR '' '' \<and> d = CHR ''('' then [] else c # before_bracket (d # cs))"
| "before_bracket cs = cs"

section \<open>One block\<close>

record TranscriptBranch =
  tb_label :: string
  tb_toId :: PlanRef
  tb_toTitle :: string
  tb_earlier :: bool

record TranscriptEntry =
  te_nodeId :: string
  te_type :: "IvrNodeType option"
  te_title :: string
  te_says :: string
  te_branches :: "TranscriptBranch list"

record TranscriptContext =
  tc_promptName :: "PromptId \<Rightarrow> string option"
  tc_destinations :: "Destinations option"

definition promptPhrase :: "PromptId list \<Rightarrow> TranscriptContext \<Rightarrow> string" where
  "promptPhrase ps ctx =
     quoteList (map (\<lambda>i. case tc_promptName ctx i of Some n \<Rightarrow> n | None \<Rightarrow> ''a deleted message'') ps)"

definition titleOf :: "IvrNode list \<Rightarrow> PlanRef \<Rightarrow> JsError + string" where
  "titleOf nodes r =
     (case Option.bind r (byId nodes) of None \<Rightarrow> Inr ''The call ends'' | Some n \<Rightarrow> blockTitle n)"

text \<open>The configuration of a stored block; a block of an unknown type may have none.\<close>

fun config_of :: "IvrNode \<Rightarrow> JsError + obj" where
  "config_of (Known n) = Inr (n_config n)"
| "config_of (Foreign ob) =
     (case ob_get ob ''data'' of
        Some (JObj data) \<Rightarrow> (case ob_get data ''config'' of Some (JObj c) \<Rightarrow> Inr c | _ \<Rightarrow> Inl TypeError)
      | _ \<Rightarrow> Inl TypeError)"

fun type_of :: "IvrNode \<Rightarrow> IvrNodeType option" where
  "type_of (Known n) = Some (n_type n)"
| "type_of (Foreign ob) = None"

definition holidays_text :: "string list \<Rightarrow> string" where
  "holidays_text ds =
     (if ds = [] then ''''
      else '', closed on '' @ nat_str (length ds) @ '' holiday'' @ (if length ds = 1 then '''' else ''s''))"

text \<open>The sentence of a block, \<open>says\<close> in the switch of \<open>describePlan\<close>.\<close>

fun says_of :: "TranscriptContext \<Rightarrow> IvrNode \<Rightarrow> PlanNode \<Rightarrow> JsError + string" where
  "says_of ctx node (PPlay ps next) =
     Inr (if ps \<noteq> [] then ''Plays '' @ promptPhrase ps ctx @ ''.'' else ''Plays nothing yet.'')"
| "says_of ctx node (PMenu ps ds t retries bad noi ni nm) =
     Inr (''Plays '' @ (if ps \<noteq> [] then promptPhrase ps ctx else ''nothing yet'') @ '' and listens for a key, asking ''
          @ (if retries = 0 then ''once'' else ''up to '' @ number_text (retries + 1) @ '' times'') @ ''.'')"
| "says_of ctx node (PHours tz w dates op cl) =
     (case config_of node of
        Inl err \<Rightarrow> Inl err
      | Inr c \<Rightarrow> Inr (''Checks your hours ('' @ before_bracket (timezoneLabel tz) @ ''): '' @ formatWeekly (cfg_day c)
                      @ holidays_text dates @ ''.''))"
| "says_of ctx node (PCaller mode vs ma nm) =
     Inr (if mode = ''anonymous'' then ''Checks whether the caller withheld their number.''
          else ''Checks whether the caller'' @ [CHR 0x92] @ ''s number '' @ (if mode = ''prefix'' then ''starts with'' else ''is'')
            @ '' '' @ join '', '' vs @ ''.'')"
| "says_of ctx node (PTransfer dest pass ring na) =
     Inr (''Transfers the caller to ''
          @ (case dest of
               ToExternal e \<Rightarrow> ''the outside number '' @ prettyNumber e
             | ToOwn did product \<Rightarrow> describeOwnNumber did (tc_destinations ctx))
          @ '', ringing up to '' @ number_text ring @ '' seconds and showing ''
          @ (if pass then ''the caller'' @ [CHR 0x92] @ ''s number'' else ''this IVR'' @ [CHR 0x92] @ ''s number'') @ ''.'')"
| "says_of ctx node (PVoicemail did) = Inr (''Sends the caller to voicemail: '' @ describeOwnNumber did (tc_destinations ctx) @ ''.'')"
| "says_of ctx node (PHangup ps) =
     Inr (if ps \<noteq> [] then ''Plays '' @ promptPhrase ps ctx @ '', then hangs up.'' else ''Hangs up.'')"

text \<open>The choices of a block with where they lead, in the order of the calls to \<open>branch\<close>; the keys of a menu in
  keypad order.\<close>

fun choices :: "PlanNode \<Rightarrow> (string \<times> PlanRef) list" where
  "choices (PPlay ps next) = [(''Then'', next)]"
| "choices (PMenu ps ds t retries bad noi ni nm) =
     List.map_filter (\<lambda>d. map_option (Pair (''Press '' @ d)) (ob_get ds d)) DIGIT_ORDER
     @ [(''No key pressed'', ni), (''Wrong key'', nm)]"
| "choices (PHours tz w dates op cl) = [(''Open'', op), (''Closed'', cl)]"
| "choices (PCaller mode vs ma nm) =
     [(if mode = ''anonymous'' then ''Withheld'' else ''Matches'', ma),
      (if mode = ''anonymous'' then ''Not withheld'' else ''Doesn'' @ [CHR 0x92] @ ''t match'', nm)]"
| "choices (PTransfer dest pass ring na) = [(''No answer or busy'', na)]"
| "choices (PVoicemail did) = []"
| "choices (PHangup ps) = []"

section \<open>One line on the canvas\<close>

record SummaryContext =
  sm_promptName :: "PromptId \<Rightarrow> string option"
  sm_destinations :: "Destinations option"
  sm_titleOf :: "string \<Rightarrow> string option"

definition promptNames :: "PromptId list \<Rightarrow> SummaryContext \<Rightarrow> string list" where
  "promptNames ps ctx = map (\<lambda>i. case sm_promptName ctx i of Some n \<Rightarrow> n | None \<Rightarrow> ''a deleted message'') ps"

text \<open>The first two values of a caller check, and how many there are besides.\<close>

definition shown_values :: "string list \<Rightarrow> string" where
  "shown_values vs = join '', '' (take 2 vs) @ (if length vs > 2 then '' +'' @ nat_str (length vs - 2) @ '' more'' else '''')"

definition summarizeBlock :: "'a NodeInput_scheme \<Rightarrow> SummaryContext \<Rightarrow> string" where
  "summarizeBlock n ctx =
     (let c = n_config n; names = promptNames (cfg_ids c ''prompts'') ctx in
      case n_type n of
        Entry \<Rightarrow> ''A caller dials one of this flow'' @ [CHR 0x92] @ ''s numbers''
      | Play \<Rightarrow> if names \<noteq> [] then ''Plays '' @ quoteList names else ''No message chosen yet''
      | Menu \<Rightarrow>
          (let digits = strs (ob_get c ''digits'');
               keys = (if digits \<noteq> [] then ''keys '' @ join '', '' digits else ''no keys yet'')
           in if names \<noteq> [] then ''Plays '' @ quoteList names @ '', listens for '' @ keys else ''Listens for '' @ keys)
      | Schedule \<Rightarrow> formatWeekly (cfg_day c) @ '' ('' @ before_bracket (timezoneLabel (cfg_str c ''tz'')) @ '')''
      | Condition \<Rightarrow>
          (let values = strs (ob_get c ''values'') in
           if cfg_str c ''mode'' = ''anonymous'' then ''Is the caller ID withheld?''
           else if values = [] then ''No numbers to check yet''
           else if cfg_str c ''mode'' = ''prefix'' then ''Number starts with '' @ shown_values values
           else ''Number is '' @ shown_values values)
      | Dial \<Rightarrow>
          (let t = record_or_empty (ob_get c ''target''); did = cfg_str t ''did''; number = cfg_str t ''number'' in
           if ob_get t ''kind'' = Some (JStr ''own'')
           then (if did \<noteq> '''' then describeOwnNumber did (sm_destinations ctx) else ''No destination chosen yet'')
           else (if number \<noteq> '''' then ''Outside number '' @ prettyNumber number else ''No destination chosen yet''))
      | Voicemail \<Rightarrow>
          (let did = cfg_str c ''did''
           in if did \<noteq> '''' then ''Mailbox '' @ describeOwnNumber did (sm_destinations ctx) else ''No mailbox chosen yet'')
      | Goto \<Rightarrow>
          (case Option.bind (no_empty (goto_target c)) (sm_titleOf ctx) of
             Some (x # xs) \<Rightarrow> ''Back to '' @ (x # xs)
           | _ \<Rightarrow> ''No block chosen yet'')
      | Hangup \<Rightarrow> if names \<noteq> [] then ''Plays '' @ quoteList names @ '', then hangs up'' else ''Ends the call'')"

section \<open>The walk\<close>

text \<open>\<open>enqueue\<close>: the set \<open>queued\<close> and the list \<open>order\<close> are extended together, so the list says both.\<close>

definition enqueue :: "PlanPreview \<Rightarrow> PlanRef \<Rightarrow> string list \<Rightarrow> string list" where
  "enqueue plan r order =
     (case r of
        None \<Rightarrow> order
      | Some i \<Rightarrow> if ob_get (pl_nodes plan) i \<noteq> None \<and> i \<notin> set order then order @ [i] else order)"

definition index_of :: "string list \<Rightarrow> string \<Rightarrow> nat" where
  "index_of xs x = length (takeWhile (\<lambda>y. y \<noteq> x) xs)"

definition earlier :: "nat \<Rightarrow> string list \<Rightarrow> PlanRef \<Rightarrow> bool" where
  "earlier i order r = (case r of None \<Rightarrow> False | Some t \<Rightarrow> t \<in> set order \<and> index_of order t \<le> i)"

fun branch_all :: "IvrNode list \<Rightarrow> PlanPreview \<Rightarrow> nat \<Rightarrow> (string \<times> PlanRef) list \<Rightarrow> string list \<Rightarrow> TranscriptBranch list
    \<Rightarrow> JsError + (string list \<times> TranscriptBranch list)" where
  "branch_all nodes plan i [] order bs = Inr (order, bs)"
| "branch_all nodes plan i ((label, r) # cs) order bs =
     (case titleOf nodes r of
        Inl err \<Rightarrow> Inl err
      | Inr title \<Rightarrow>
          branch_all nodes plan i cs (enqueue plan r order)
            (bs @ [\<lparr>tb_label = label, tb_toId = r, tb_toTitle = title, tb_earlier = earlier i order r\<rparr>]))"

text \<open>The body of the loop for the block at place \<open>i\<close> of the order.\<close>

definition describe_one :: "IvrNode list \<Rightarrow> PlanPreview \<Rightarrow> TranscriptContext \<Rightarrow> nat \<Rightarrow> string list
    \<Rightarrow> JsError + (string list \<times> TranscriptEntry list)" where
  "describe_one nodes plan ctx i order =
     (let j = order ! i in
      case (ob_get (pl_nodes plan) j, byId nodes j) of
        (Some p, Some node) \<Rightarrow>
          (case says_of ctx node p of
             Inl err \<Rightarrow> Inl err
           | Inr says \<Rightarrow>
               (case branch_all nodes plan i (choices p) order [] of
                  Inl err \<Rightarrow> Inl err
                | Inr (order', bs) \<Rightarrow>
                    (case blockTitle node of
                       Inl err \<Rightarrow> Inl err
                     | Inr title \<Rightarrow>
                         Inr (order', [\<lparr>te_nodeId = j, te_type = type_of node, te_title = title, te_says = says,
                                        te_branches = bs\<rparr>]))))
      | _ \<Rightarrow> Inr (order, []))"

lemma enqueue_cases: "enqueue plan r order = order
    \<or> (\<exists>i. r = Some i \<and> i \<in> set (ob_keys (pl_nodes plan)) \<and> i \<notin> set order \<and> enqueue plan r order = order @ [i])"
  by (auto simp: enqueue_def dest: get_in_keys simp del: set_map split: option.splits)

text \<open>What is enqueued moves from the plan's nodes not yet in line to the line.\<close>

definition not_in_line :: "PlanPreview \<Rightarrow> string list \<Rightarrow> nat" where
  "not_in_line plan order = card (set (ob_keys (pl_nodes plan)) - set order)"

lemma enqueue_moves: "not_in_line plan (enqueue plan r order) + length (enqueue plan r order) = not_in_line plan order + length order"
  using enqueue_cases [of plan r order]
proof
  assume "\<exists>i. r = Some i \<and> i \<in> set (ob_keys (pl_nodes plan)) \<and> i \<notin> set order \<and> enqueue plan r order = order @ [i]"
  then obtain i where i: "i \<in> set (ob_keys (pl_nodes plan)) - set order" "enqueue plan r order = order @ [i]" by blast
  have "set (ob_keys (pl_nodes plan)) - set (order @ [i]) = (set (ob_keys (pl_nodes plan)) - set order) - {i}" by auto
  then have "Suc (not_in_line plan (order @ [i])) = not_in_line plan order"
    unfolding not_in_line_def using card_Suc_Diff1 [OF _ i(1)] by simp
  then show ?thesis unfolding i(2) by simp
qed simp

lemma branch_all_moves:
  "branch_all nodes plan i cs order bs = Inr (order', bs') \<Longrightarrow>
     not_in_line plan order' + length order' = not_in_line plan order + length order"
  by (induction nodes plan i cs order bs rule: branch_all.induct) (auto simp: enqueue_moves split: sum.splits)

lemma describe_one_moves:
  "describe_one nodes plan ctx i order = Inr (order', es) \<Longrightarrow>
     not_in_line plan order' + length order' = not_in_line plan order + length order"
  by (auto simp: describe_one_def Let_def dest: branch_all_moves split: option.splits sum.splits prod.splits)

function describe_loop :: "IvrNode list \<Rightarrow> PlanPreview \<Rightarrow> TranscriptContext \<Rightarrow> nat \<Rightarrow> string list \<Rightarrow> TranscriptEntry list
    \<Rightarrow> JsError + TranscriptEntry list" where
  "describe_loop nodes plan ctx i order out =
     (if i \<ge> length order then Inr out
      else case describe_one nodes plan ctx i order of
             Inl err \<Rightarrow> Inl err
           | Inr (order', es) \<Rightarrow> describe_loop nodes plan ctx (Suc i) order' (out @ es))"
  by auto

termination describe_loop
proof (relation "measure (\<lambda>(nodes, plan, ctx, i, order, out). not_in_line plan order + length order - i)", goal_cases)
  case (2 nodes plan ctx i order out x order' es)
  then show ?case using describe_one_moves [of nodes plan ctx i order order' es] by simp
qed simp

definition describePlan :: "IvrGraph \<Rightarrow> PlanPreview \<Rightarrow> TranscriptContext \<Rightarrow> JsError + TranscriptEntry list" where
  "describePlan g plan ctx = describe_loop (g_nodes g) plan ctx 0 (enqueue plan (pl_start plan) []) []"

definition typeLabel :: "IvrNodeType \<Rightarrow> string" where
  "typeLabel t = bm_label (BLOCKS t)"

end
