(* ===== verification/Transcript_Props.thy ===== *)
theory Transcript_Props
  imports Transcript Compile_Props
begin

text \<open>
  The transcript of a flow: the walk over the plan ends, describes each block a caller can hear exactly once and
  with all its choices, and for an accepted flow that is the whole plan. The walk keeps the line of blocks still to
  be described behind those already described (\<open>walked\<close>); that an accepted plan is heard in full follows the
  caller's path through the Go to blocks.
\<close>

section \<open>The walk\<close>

lemma index_of_le: "t \<in> set xs \<and> index_of xs t \<le> i \<longleftrightarrow> t \<in> set (take (Suc i) xs)"
proof (induction xs arbitrary: i)
  case (Cons x xs)
  then show ?case by (cases i) (auto simp: index_of_def)
qed (simp add: index_of_def)

lemma earlier_iff: "earlier i order r \<longleftrightarrow> (\<exists>t. r = Some t \<and> t \<in> set (take (Suc i) order))"
  unfolding earlier_def using index_of_le [where xs = order and i = i] by (auto split: option.splits)

text \<open>A branch of the block at place \<open>k\<close>: it says whether its target was described by then, and its target is in
  line when the plan has it.\<close>

definition branch_ok :: "PlanPreview \<Rightarrow> string list \<Rightarrow> nat \<Rightarrow> TranscriptBranch \<Rightarrow> bool" where
  "branch_ok plan order k b \<longleftrightarrow>
     (tb_earlier b \<longleftrightarrow> (\<exists>t. tb_toId b = Some t \<and> t \<in> set (take (Suc k) order)))
     \<and> (\<forall>t. tb_toId b = Some t \<longrightarrow> t \<in> set (ob_keys (pl_nodes plan)) \<longrightarrow> t \<in> set order)"

abbreviation choice_of :: "TranscriptBranch \<Rightarrow> string \<times> PlanRef" where
  "choice_of b \<equiv> (tb_label b, tb_toId b)"

lemma branch_ok_longer: "branch_ok plan order k b \<Longrightarrow> k < length order \<Longrightarrow> branch_ok plan (order @ rest) k b"
  by (auto simp: branch_ok_def)

lemma key_get: "k \<in> set (ob_keys ob) \<Longrightarrow> \<exists>v. ob_get ob k = Some v"
  by (induction ob) auto

lemma enqueue_extends:
  "\<exists>rest. enqueue plan r order = order @ rest \<and> (distinct order \<longrightarrow> distinct (order @ rest))
     \<and> set rest \<subseteq> {t \<in> set (ob_keys (pl_nodes plan)). r = Some t}
     \<and> (\<forall>t. r = Some t \<longrightarrow> t \<in> set (ob_keys (pl_nodes plan)) \<longrightarrow> t \<in> set (order @ rest))"
  by (cases r) (auto simp: enqueue_def dest: get_in_keys key_get simp del: set_map)

lemma branch_all_describes:
  assumes "\<forall>(l, r) \<in> set cs. \<exists>t. titleOf nodes r = Inr t" and "i < length order" and "distinct order"
  shows "\<exists>rest bs'. branch_all nodes plan i cs order bs = Inr (order @ rest, bs @ bs') \<and> map choice_of bs' = cs
     \<and> distinct (order @ rest) \<and> set rest \<subseteq> {t \<in> set (ob_keys (pl_nodes plan)). Some t \<in> snd ` set cs}
     \<and> (\<forall>b \<in> set bs'. branch_ok plan (order @ rest) i b)"
  using assms
proof (induction cs arbitrary: order bs)
  case (Cons c cs)
  obtain l r where c: "c = (l, r)" by force
  obtain title where t: "titleOf nodes r = Inr title" using Cons.prems(1) c by auto
  obtain m1 where m1: "enqueue plan r order = order @ m1" "distinct (order @ m1)"
    "set m1 \<subseteq> {t \<in> set (ob_keys (pl_nodes plan)). r = Some t}"
    "\<forall>t. r = Some t \<longrightarrow> t \<in> set (ob_keys (pl_nodes plan)) \<longrightarrow> t \<in> set (order @ m1)"
    using enqueue_extends [of plan r order] Cons.prems(3) by blast
  define b where "b = \<lparr>tb_label = l, tb_toId = r, tb_toTitle = title, tb_earlier = earlier i order r\<rparr>"
  obtain m2 bs2 where IH: "branch_all nodes plan i cs (order @ m1) (bs @ [b]) = Inr ((order @ m1) @ m2, (bs @ [b]) @ bs2)"
    "map choice_of bs2 = cs" "distinct ((order @ m1) @ m2)" "set m2 \<subseteq> {t \<in> set (ob_keys (pl_nodes plan)). Some t \<in> snd ` set cs}"
    "\<forall>b \<in> set bs2. branch_ok plan ((order @ m1) @ m2) i b"
    using Cons.IH [of "order @ m1" "bs @ [b]"] Cons.prems(1,2) m1(2) by auto
  have "branch_ok plan (order @ m1) i b"
    using m1(4) Cons.prems(2) by (auto simp: branch_ok_def b_def earlier_iff)
  then have b: "branch_ok plan ((order @ m1) @ m2) i b"
    by (rule branch_ok_longer) (use Cons.prems(2) in simp)
  show ?case
  proof (intro exI conjI)
    show "branch_all nodes plan i (c # cs) order bs = Inr (order @ (m1 @ m2), bs @ (b # bs2))"
      using IH(1) by (simp add: c t m1(1) b_def)
    show "map choice_of (b # bs2) = c # cs" using IH(2) by (simp add: b_def c)
    show "set (m1 @ m2) \<subseteq> {t \<in> set (ob_keys (pl_nodes plan)). Some t \<in> snd ` set (c # cs)}"
      using m1(3) IH(4) by (auto simp: c simp del: set_map)
  qed (use IH b in auto)
qed simp

section \<open>The transcript\<close>

definition entry_ok :: "PlanPreview \<Rightarrow> string list \<Rightarrow> nat \<Rightarrow> TranscriptEntry \<Rightarrow> bool" where
  "entry_ok plan order k e \<longleftrightarrow>
     (\<exists>p. ob_get (pl_nodes plan) (te_nodeId e) = Some p \<and> map choice_of (te_branches e) = choices p)
     \<and> (\<forall>b \<in> set (te_branches e). branch_ok plan order k b)"

lemma entry_ok_longer: "entry_ok plan order k e \<Longrightarrow> k < length order \<Longrightarrow> entry_ok plan (order @ rest) k e"
  unfolding entry_ok_def using branch_ok_longer by blast

definition plan_steps :: "PlanPreview \<Rightarrow> (string \<times> string) set" where
  "plan_steps plan = {(i, t). \<exists>p. ob_get (pl_nodes plan) i = Some p \<and> Some t \<in> snd ` set (choices p)}"

definition heard :: "PlanPreview \<Rightarrow> string set" where
  "heard plan = {t. \<exists>s. pl_start plan = Some s \<and> (s, t) \<in> (plan_steps plan)\<^sup>* \<and> t \<in> set (ob_keys (pl_nodes plan))}"

text \<open>The loop's invariant: what was described is the beginning of the line.\<close>

definition walked :: "PlanPreview \<Rightarrow> string list \<Rightarrow> TranscriptEntry list \<Rightarrow> bool" where
  "walked plan order out \<longleftrightarrow>
     map te_nodeId out = take (length out) order \<and> length out \<le> length order \<and> distinct order \<and> set order \<subseteq> heard plan
     \<and> (\<forall>k < length out. entry_ok plan order k (out ! k))"

lemma says_known: "\<exists>s. says_of ctx (Known n) p = Inr s"
  by (cases p) auto

lemma title_known: "\<exists>t. blockTitle (Known n) = Inr t"
  by (auto simp: blockTitle_def split: option.splits)

lemma titles_known:
  assumes "\<forall>x \<in> set nodes. \<exists>n. x = Known n"
  shows "\<exists>t. titleOf nodes r = Inr t"
proof (cases "Option.bind r (byId nodes)")
  case (Some x)
  then obtain n where "x = Known n" using assms by (cases r) (auto dest!: byId_in)
  then show ?thesis using Some title_known by (simp add: titleOf_def)
qed (simp add: titleOf_def)

lemma heard_key: "t \<in> heard plan \<Longrightarrow> t \<in> set (ob_keys (pl_nodes plan))"
  by (auto simp: heard_def simp del: set_map)

lemma heard_step:
  assumes "i \<in> heard plan" "ob_get (pl_nodes plan) i = Some p" "Some t \<in> snd ` set (choices p)" "t \<in> set (ob_keys (pl_nodes plan))"
  shows "t \<in> heard plan"
proof -
  obtain s where "pl_start plan = Some s" "(s, i) \<in> (plan_steps plan)\<^sup>*" using assms(1) by (auto simp: heard_def)
  moreover have "(i, t) \<in> plan_steps plan" using assms(2,3) by (simp add: plan_steps_def)
  ultimately show ?thesis using assms(4) unfolding heard_def by (blast intro: rtrancl_into_rtrancl)
qed

text \<open>One round of the loop keeps the invariant and describes one block rest.\<close>

lemma describe_one_walked:
  assumes known: "\<forall>x \<in> set nodes. \<exists>n. x = Known n"
    and keys: "\<forall>k \<in> set (ob_keys (pl_nodes plan)). byId nodes k \<noteq> None"
    and w: "walked plan order out" and i: "length out < length order"
  shows "\<exists>rest e. describe_one nodes plan ctx (length out) order = Inr (order @ rest, [e]) \<and> walked plan (order @ rest) (out @ [e])"
proof -
  define j where "j = order ! length out"
  have j: "j \<in> heard plan" using w i unfolding j_def walked_def by (meson nth_mem subsetD)
  then obtain p where p: "ob_get (pl_nodes plan) j = Some p" using key_get heard_key by metis
  obtain x where x: "byId nodes j = Some x" using keys heard_key [OF j] by blast
  then obtain n where n: "x = Known n" using known by (auto dest!: byId_in)
  obtain s where s: "says_of ctx x p = Inr s" using says_known n by blast
  obtain t where t: "blockTitle x = Inr t" using title_known n by blast
  have "\<forall>(l, r) \<in> set (choices p). \<exists>t. titleOf nodes r = Inr t" using titles_known [OF known] by blast
  moreover have "distinct order" using w by (simp add: walked_def)
  ultimately obtain rest bs where b: "branch_all nodes plan (length out) (choices p) order [] = Inr (order @ rest, bs)"
      "map choice_of bs = choices p" "distinct (order @ rest)"
      "set rest \<subseteq> {t \<in> set (ob_keys (pl_nodes plan)). Some t \<in> snd ` set (choices p)}"
      "\<forall>b \<in> set bs. branch_ok plan (order @ rest) (length out) b"
    using branch_all_describes [OF _ i, of "choices p" nodes plan "[]"] by (simp del: set_map) blast
  define e where "e = \<lparr>te_nodeId = j, te_type = type_of x, te_title = t, te_says = s, te_branches = bs\<rparr>"
  have new: "entry_ok plan (order @ rest) (length out) e" using b p by (simp add: entry_ok_def e_def)
  have old: "entry_ok plan (order @ rest) k (out ! k)" if "k < length out" for k
    using w that i entry_ok_longer by (auto simp: walked_def)
  have ids: "map te_nodeId (out @ [e]) = take (length (out @ [e])) (order @ rest)"
    using w i by (simp add: walked_def e_def j_def take_Suc_conv_app_nth)
  have heard: "set (order @ rest) \<subseteq> heard plan"
    using w b(4) heard_step [OF j p] by (auto simp: walked_def simp del: set_map)
  have "walked plan (order @ rest) (out @ [e])"
    unfolding walked_def using ids heard b(3) i new old by (auto simp: nth_append less_Suc_eq)
  moreover have "describe_one nodes plan ctx (length out) order = Inr (order @ rest, [e])"
    by (simp add: describe_one_def Let_def j_def [symmetric] p x s t b(1) e_def)
  ultimately show ?thesis by blast
qed

lemma describe_loop_walked:
  assumes known: "\<forall>x \<in> set nodes. \<exists>n. x = Known n"
    and keys: "\<forall>k \<in> set (ob_keys (pl_nodes plan)). byId nodes k \<noteq> None"
  shows "walked plan order out \<Longrightarrow>
     \<exists>order' es. describe_loop nodes plan ctx (length out) order out = Inr es \<and> walked plan order' es
       \<and> length es = length order' \<and> set order \<subseteq> set order'"
proof (induction "not_in_line plan order + length order - length out" arbitrary: order out rule: less_induct)
  case less
  show ?case
  proof (cases "length out < length order")
    case False
    then have "length out = length order" using less.prems by (simp add: walked_def)
    then show ?thesis using less.prems by (intro exI [of _ order] exI [of _ out]) (simp add: describe_loop.simps)
  next
    case True
    obtain rest e where m: "describe_one nodes plan ctx (length out) order = Inr (order @ rest, [e])" "walked plan (order @ rest) (out @ [e])"
      using describe_one_walked [OF known keys less.prems True] by blast
    have "not_in_line plan (order @ rest) + length (order @ rest) = not_in_line plan order + length order"
      by (rule describe_one_moves [OF m(1)])
    then have smaller: "not_in_line plan (order @ rest) + length (order @ rest) - length (out @ [e]) < not_in_line plan order + length order - length out"
      using True by simp
    have "describe_loop nodes plan ctx (length out) order out = describe_loop nodes plan ctx (length (out @ [e])) (order @ rest) (out @ [e])"
      using True m(1) by (subst describe_loop.simps) simp
    then show ?thesis using less.hyps [OF smaller m(2)] by fastforce
  qed
qed

lemma walk_from_start: "walked plan (enqueue plan (pl_start plan) []) []"
  using enqueue_extends [of plan "pl_start plan" "[]"] by (auto simp: walked_def heard_def simp del: set_map)

text \<open>The transcript lists the blocks heard from the start, each once and with its choices.\<close>

lemma describePlan_walks:
  assumes "\<forall>x \<in> set (g_nodes g). \<exists>n. x = Known n" and "\<forall>k \<in> set (ob_keys (pl_nodes plan)). byId (g_nodes g) k \<noteq> None"
  shows "\<exists>es. describePlan g plan ctx = Inr es \<and> distinct (map te_nodeId es) \<and> set (map te_nodeId es) = heard plan
     \<and> (\<forall>k < length es. entry_ok plan (map te_nodeId es) k (es ! k))"
proof -
  obtain order es where l: "describePlan g plan ctx = Inr es" "walked plan order es" "length es = length order"
      "set (enqueue plan (pl_start plan) []) \<subseteq> set order"
    using describe_loop_walked [OF assms walk_from_start, of ctx] by (auto simp: describePlan_def)
  then have ids: "map te_nodeId es = order" by (simp add: walked_def)
  have ok: "\<forall>k < length es. entry_ok plan order k (es ! k)" using l(2) by (simp add: walked_def)
  have in_line: "t \<in> set order" if "(s, t) \<in> (plan_steps plan)\<^sup>*" "pl_start plan = Some s" "t \<in> set (ob_keys (pl_nodes plan))" for s t
    using that
  proof (induction rule: rtrancl_induct)
    case base
    then show ?case using l(4) key_get [of s "pl_nodes plan"] by (auto simp: enqueue_def simp del: set_map)
  next
    case (step y z)
    then obtain p where p: "ob_get (pl_nodes plan) y = Some p" "Some z \<in> snd ` set (choices p)" by (auto simp: plan_steps_def)
    then have "y \<in> set order" using step by (simp add: get_in_keys del: set_map)
    then obtain k where k: "k < length es" "order ! k = y" using l(3) by (auto simp: in_set_conv_nth)
    then have "te_nodeId (es ! k) = y" using ids by auto
    then have "entry_ok plan order k (es ! k)" "map choice_of (te_branches (es ! k)) = choices p"
      using ok k p(1) by (auto simp: entry_ok_def)
    then obtain b where "b \<in> set (te_branches (es ! k))" "tb_toId b = Some z" "branch_ok plan order k b"
      using p(2) unfolding entry_ok_def by (metis (no_types, lifting) image_iff list.set_map snd_conv)
    then show ?case using step.prems(2) by (simp add: branch_ok_def)
  qed
  then have "heard plan \<subseteq> set order" by (auto simp: heard_def)
  moreover have "set order \<subseteq> heard plan" "distinct order" using l(2) by (simp_all add: walked_def)
  ultimately show ?thesis using l(1) ok ids by blast
qed

section \<open>An accepted plan is heard in full\<close>

lemma get_fold_set: "ob_get (fold (\<lambda>d m. ob_set m d (f d)) ds m) k = (if k \<in> set ds then Some (f k) else ob_get m k)"
  by (induction ds arbitrary: m) (auto simp: ob_simps)

lemma menu_key_choice:
  assumes "d \<in> set DIGIT_ORDER" "ob_get ds d = Some r"
  shows "r \<in> snd ` set (choices (PMenu ps ds t re bad noi ni nm))"
proof -
  have "(''Press '' @ d, r) \<in> set (List.map_filter (\<lambda>d. map_option (Pair (''Press '' @ d)) (ob_get ds d)) DIGIT_ORDER)"
    unfolding in_map_filter by (rule bexI [OF _ assms(1)]) (simp only: assms(2) option.map)
  then have "(''Press '' @ d, r) \<in> set (choices (PMenu ps ds t re bad noi ni nm))" unfolding choices.simps set_append by blast
  then show ?thesis by (metis image_eqI snd_conv)
qed

lemma menu_other_choices: "ni \<in> snd ` set (choices (PMenu ps ds t re bad noi ni nm))" "nm \<in> snd ` set (choices (PMenu ps ds t re bad noi ni nm))"
  unfolding choices.simps set_append image_Un by (simp_all only: list.set image_insert snd_conv insert_iff Un_iff simp_thms)

lemma plan_of_choices:
  assumes "plan_of nodes slot ctx n = Some p"
  shows "pointer nodes slot (n_id n) ` set (node_exits n) \<subseteq> snd ` set (choices p)"
proof (cases "n_type n")
  case Menu
  note p = assms [unfolded plan_of_def Let_def Menu IvrNodeType.case option.inject, symmetric]
  show ?thesis
  proof (rule image_subsetI)
    fix h assume "h \<in> set (node_exits n)"
    then consider "h = NO_INPUT" | "h = NO_MATCH" | d where "h = digitHandle d" "d \<in> set (sortDigits (strs (ob_get (n_config n) ''digits'')))"
      unfolding Menu exits_Menu by auto
    then show "pointer nodes slot (n_id n) h \<in> snd ` set (choices p)"
    proof cases
      case 3
      then have d: "d \<in> set DIGIT_ORDER" "d \<in> set (menu_digits (n_config n))"
        unfolding sortDigits_def menu_digits_def isMenuDigit_def set_filter by simp_all
      show ?thesis unfolding p 3(1) by (rule menu_key_choice [OF d(1)]) (simp only: get_fold_set d(2) if_True)
    qed (simp_all only: p menu_other_choices)
  qed
qed (use assms in \<open>auto simp: plan_of_def Let_def handle_def split: if_splits option.splits\<close>)

text \<open>A step of the chain, and that without a circle the blocks seen before do not matter.\<close>

lemma resolve_goto:
  "byId nodes i = Some (Known n) \<Longrightarrow> n_type n = Goto \<Longrightarrow>
     resolve_loop nodes seen (Some i) =
       (if i \<in> set seen then (None, seen) else resolve_loop nodes (seen @ [i]) (no_empty (goto_target (n_config n))))"
  by (subst resolve_loop.simps) simp

lemma resolve_stays:
  "\<nexists>i n. target = Some i \<and> byId nodes i = Some (Known n) \<and> n_type n = Goto \<Longrightarrow>
     resolve_loop nodes seen target = resolve_loop nodes seen' target"
  by (subst (1 2) resolve_loop.simps) (simp split: option.splits IvrNode.splits)

lemma resolve_no_circle:
  "snd (resolve_loop nodes seen target) = [] \<Longrightarrow> set seen' \<subseteq> set seen \<Longrightarrow>
     resolve_loop nodes seen' target = resolve_loop nodes seen target"
proof (induction nodes seen target arbitrary: seen' rule: resolve_loop.induct)
  case (1 nodes seen target)
  show ?case
  proof (cases "\<exists>i n. target = Some i \<and> byId nodes i = Some (Known n) \<and> n_type n = Goto")
    case True
    then obtain i n where i: "target = Some i" "byId nodes i = Some (Known n)" "n_type n = Goto" by blast
    have out: "i \<notin> set seen" using "1.prems"(1) i(1) resolve_goto [OF i(2,3), of seen] by (auto split: if_splits)
    then have out': "i \<notin> set seen'" using "1.prems"(2) by blast
    note step = resolve_goto [OF i(2,3), of seen, folded i(1), unfolded if_not_P [OF out]]
      and step' = resolve_goto [OF i(2,3), of seen', folded i(1), unfolded if_not_P [OF out']]
    have "\<not> n_type n \<noteq> Goto" using i(3) by simp
    note IH = "1.IH" [OF i(1,2) refl this out, of "seen' @ [i]"]
    show ?thesis unfolding step step' by (rule IH) (use "1.prems" step in auto)
  qed (rule resolve_stays)
qed

lemma entry_unique:
  assumes "length (filter P xs) = 1" "x \<in> set xs" "P x" "List.find P xs = Some y"
  shows "x = y"
proof -
  have "y \<in> set (filter P xs)" "x \<in> set (filter P xs)" using find_Some_in [OF assms(4)] assms(2,3) by auto
  then show ?thesis using assms(1) by (cases "filter P xs") (auto split: if_splits)
qed

lemma reached_heard:
  assumes c: "compileIvr g ctx = Inr r" and ok: "cr_ok r" and d: "distinct (map node_id (g_nodes g))"
    and e: "List.find (is_type Entry) (g_nodes g) = Some e"
    and path: "(node_id e, t) \<in> (caller_steps (g_nodes g) (slots_of (g_nodes g) (g_edges g)))\<^sup>*"
  shows "byId (g_nodes g) t = Some (Known n) \<Longrightarrow> n_type n \<noteq> Entry \<Longrightarrow>
     \<exists>m. fst (resolve_loop (g_nodes g) [] (Some t)) = Some m \<and> m \<in> heard (cr_plan r)"
  using path
proof (induction arbitrary: n rule: rtrancl_induct)
  case base
  have "byId (g_nodes g) (node_id e) = Some e" using last_by_distinct [OF d] find_Some_in [OF e] by (simp add: byId_def)
  then have "e = Known n" using base(1) by simp
  then show ?case using base(2) find_Some_in [OF e] by simp
next
  case (step y z)
  let ?ns = "g_nodes g" and ?slot = "slots_of (g_nodes g) (g_edges g)"
  obtain k where k: "byId ?ns y = Some (Known k)" "z \<in> set (pushed ?ns ?slot k)" using step(2) by (auto simp: caller_steps_def)
  have id: "n_id k = y" "Known k \<in> set ?ns" using byId_in [OF k(1)] by simp_all
  have "cr_reachable r = reachable_from ?ns ?slot" by (rule compileIvr_Inr [OF c])
  then have y: "y \<in> cr_reachable r" using step(1) e k(1) by (simp add: reachable_from_def in_graph_def)
  show ?case
  proof (cases "n_type k = Goto")
    case True
    have z: "z = goto_target (n_config k)" "z \<noteq> ''''" using k(2) True by (auto simp: pushed_def handle_def map_filter_simps split: if_splits)
    obtain m where m: "fst (resolve_loop ?ns [] (Some y)) = Some m" "m \<in> heard (cr_plan r)"
      using step.IH [OF k(1)] True by auto
    have "snd (resolve_loop ?ns [] (Some y)) = []" using ok_facts(3) [OF c ok y k(1) True] by (simp add: goto_circle_def)
    moreover have "resolve_loop ?ns [] (Some y) = resolve_loop ?ns [y] (Some z)"
      using k(1) True z by (subst resolve_loop.simps) (simp add: no_empty_def)
    ultimately have "resolve_loop ?ns [] (Some z) = resolve_loop ?ns [] (Some y)"
      using resolve_no_circle [of ?ns "[y]" "Some z" "[]"] by simp
    then show ?thesis using m by simp
  next
    case no: False
    obtain h where h: "h \<in> set (node_exits k)" "ob_get ?slot (slotKey y h) = Some z"
      using k(2) no id(1) by (auto simp: pushed_def in_map_filter no_empty_def split: option.splits if_splits)
    have ptr: "pointer ?ns ?slot y h = fst (resolve_loop ?ns [] (Some z))" using h(2) by (simp add: pointer_def)
    obtain m where m: "pointer ?ns ?slot y h = Some m" "m \<in> set (ob_keys (pl_nodes (cr_plan r)))"
      using ok_pointer [OF c ok d y k(1) h(1)] h(2) by auto
    have "m \<in> heard (cr_plan r)"
    proof (cases "n_type k = Entry")
      case True
      have "length (filter (is_type Entry) ?ns) = 1" using ok_facts(1) [OF c ok] by (simp add: graph_ok_def)
      then have "Known k = e" using entry_unique id(2) True e by fastforce
      moreover have "h = NEXT" using h(1) True by (simp add: handle_def)
      moreover have "pl_start (cr_plan r) = start_ref ?ns ?slot" by (rule compileIvr_Inr [OF c])
      ultimately have "pl_start (cr_plan r) = Some m" using m(1) e id(1) by (auto simp: start_ref_def pointer_def)
      then show ?thesis using m(2) by (simp add: heard_def)
    next
      case False
      have "fst (resolve_loop ?ns [] (Some y)) = Some y" using k(1) no False id(1) by (subst resolve_loop.simps) simp
      then have yh: "y \<in> heard (cr_plan r)" using step.IH [OF k(1) False] by auto
      obtain p where p: "plan_of ?ns ?slot ctx k = Some p"
        using plan_of_ok [OF ok_facts(2) [OF c ok y k(1)] no False] by blast
      then have "ob_get (pl_nodes (cr_plan r)) y = Some p" using pl_nodes_get [OF c d, of y] k(1) y by simp
      moreover have "Some m \<in> snd ` set (choices p)" using plan_of_choices [OF p] h(1) m(1) id(1) by force
      ultimately show ?thesis using heard_step [OF yh] m(2) by blast
    qed
    then show ?thesis using m(1) ptr by simp
  qed
qed

lemma accepted_heard:
  assumes c: "compileIvr g ctx = Inr r" and ok: "cr_ok r" and d: "distinct (map node_id (g_nodes g))"
  shows "heard (cr_plan r) = set (ob_keys (pl_nodes (cr_plan r)))"
proof
  show "set (ob_keys (pl_nodes (cr_plan r))) \<subseteq> heard (cr_plan r)"
  proof
    fix t assume "t \<in> set (ob_keys (pl_nodes (cr_plan r)))"
    then obtain p where "(t, p) \<in> set (pl_nodes (cr_plan r))" by auto
    then obtain n where n: "byId (g_nodes g) t = Some (Known n)" "n_id n = t" "t \<in> cr_reachable r"
        "plan_of (g_nodes g) (slots_of (g_nodes g) (g_edges g)) ctx n = Some p"
      using iffD1 [OF pl_nodes_in [OF c d]] by blast
    have type: "n_type n \<noteq> Goto" "n_type n \<noteq> Entry" using n(4) by (auto simp: plan_of_def Let_def)
    have "cr_reachable r = reachable_from (g_nodes g) (slots_of (g_nodes g) (g_edges g))" by (rule compileIvr_Inr [OF c])
    then obtain e where e: "List.find (is_type Entry) (g_nodes g) = Some e"
        "(node_id e, t) \<in> (caller_steps (g_nodes g) (slots_of (g_nodes g) (g_edges g)))\<^sup>*"
      using n(3) by (auto simp: reachable_from_def split: option.splits)
    have "fst (resolve_loop (g_nodes g) [] (Some t)) = Some t" using n(1,2) type by (subst resolve_loop.simps) simp
    then show "t \<in> heard (cr_plan r)" using reached_heard [OF c ok d e n(1) type(2)] by auto
  qed
qed (auto dest: heard_key simp del: set_map)

section \<open>Properties\<close>

lemma plan_ids_known:
  assumes "compileIvr g ctx = Inr r" "distinct (map node_id (g_nodes g))"
  shows "\<forall>k \<in> set (ob_keys (pl_nodes (cr_plan r))). byId (g_nodes g) k \<noteq> None"
proof
  fix k assume "k \<in> set (ob_keys (pl_nodes (cr_plan r)))"
  then obtain p where "(k, p) \<in> set (pl_nodes (cr_plan r))" by auto
  then show "byId (g_nodes g) k \<noteq> None" using pl_nodes_in [OF assms] by auto
qed

text \<open>C12. What callers hear of a compiled flow is told, and told once: the transcript has one entry for each plan
  node that can be heard from the start, and for an accepted flow these are all nodes of the plan. Each entry has the
  choices of its node in order; a choice is marked as described earlier exactly when its target has an entry up to
  here, and a target the plan has is always among the entries.\<close>

theorem transcript_complete:
  assumes "compileIvr g ctx = Inr r" and "\<forall>x \<in> set (g_nodes g). \<exists>n. x = Known n" and "distinct (map node_id (g_nodes g))"
  shows "\<exists>es. describePlan g (cr_plan r) tc = Inr es
    \<and> distinct (map te_nodeId es) \<and> set (map te_nodeId es) = heard (cr_plan r)
    \<and> (cr_ok r \<longrightarrow> set (map te_nodeId es) = set (ob_keys (pl_nodes (cr_plan r))))
    \<and> (\<forall>k < length es. entry_ok (cr_plan r) (map te_nodeId es) k (es ! k))"
  using describePlan_walks [OF assms(2) plan_ids_known [OF assms(1,3)]] accepted_heard [OF assms(1) _ assms(3)] by metis

definition sample_names :: TranscriptContext where
  "sample_names = \<lparr>tc_promptName = (\<lambda>i. if i = 3 then Some ''Welcome'' else None), tc_destinations = None\<rparr>"

theorem transcript_complete_witness:
  "\<exists>es. describePlan sample_ivr (cr_plan sample_result) sample_names = Inr es \<and> distinct (map te_nodeId es)
     \<and> set (map te_nodeId es) = {''hello'', ''bye''}"
proof -
  have known: "\<forall>x \<in> set (g_nodes sample_ivr). \<exists>n. x = Known n" by (simp add: sample_ivr_def sample_block_def)
  obtain es where "describePlan sample_ivr (cr_plan sample_result) sample_names = Inr es" "distinct (map te_nodeId es)"
      "set (map te_nodeId es) = set (ob_keys (pl_nodes (cr_plan sample_result)))"
    using transcript_complete [OF compile_sample known sample_ids_distinct, of sample_names] sample_result_ok by blast
  then show ?thesis by (auto simp: sample_result_def)
qed

text \<open>The canvas and the transcript word a block that plays messages alike; a block that ends the call without a
  message they do not.\<close>

lemma same_words:
  assumes "n_type n = Play" "cfg_ids (n_config n) ''prompts'' = ps" "ps \<noteq> []" "sm_promptName sc = tc_promptName tc"
  shows "says_of tc node (PPlay ps next) = Inr (summarizeBlock n sc @ ''.'')"
  using assms by (simp add: summarizeBlock_def promptNames_def promptPhrase_def Let_def)

lemma hangup_words_differ:
  assumes "n_type n = Hangup" "cfg_ids (n_config n) ''prompts'' = []"
  shows "says_of tc node (PHangup []) = Inr ''Hangs up.''" "summarizeBlock n sc = ''Ends the call''"
  using assms by (simp_all add: summarizeBlock_def promptNames_def Let_def)

end
