(* ===== verification/Call_Records.thy ===== *)
theory Call_Records
  imports JS_Numbers Phone
begin

text \<open>
  Call records on the Calls & Quality page and in Call Activity: the voice-quality grade and its summary
  (\<open>pages/calls/quality.ts\<close>), carrier and trunk labels (\<open>pages/calls/callsFormat.ts\<close>), the outcome of a call
  (\<open>pages/rcf/callOutcome.ts\<close>, \<open>utils/callDuration.ts\<close>), money and rates (\<open>utils/format.ts\<close>), and the CSV export
  (\<open>utils/csv.ts\<close>). A status is the text that arrives, since the code allows for unknown ones; colours and tones are
  the names of the theme's entries.
\<close>

section \<open>Grades\<close>

datatype Grade = Great | Good | Fair | Poor

type_synonym QualityStatus = string

abbreviation em_dash :: string where
  "em_dash \<equiv> [CHR 0x97]"

definition GRADE_MOS_GREAT :: rat where
  "GRADE_MOS_GREAT = 434 / 100"

definition GRADE_MOS_GOOD :: rat where
  "GRADE_MOS_GOOD = 402 / 100"

definition GRADE_MOS_FAIR :: rat where
  "GRADE_MOS_FAIR = 36 / 10"

definition gradeForMos :: "jsnum option \<Rightarrow> Grade option" where
  "gradeForMos mos =
     (case mos of
        Some (Fin r) \<Rightarrow>
          (let m = of_int (round_half_up (r * 100)) / 100 in
           Some (if m \<ge> GRADE_MOS_GREAT then Great
                 else if m \<ge> GRADE_MOS_GOOD then Good
                 else if m \<ge> GRADE_MOS_FAIR then Fair
                 else Poor))
      | _ \<Rightarrow> None)"

fun GRADE_LABEL :: "Grade \<Rightarrow> string" where
  "GRADE_LABEL Great = ''Great''"
| "GRADE_LABEL Good = ''Good''"
| "GRADE_LABEL Fair = ''Fair''"
| "GRADE_LABEL Poor = ''Poor''"

definition gradeLabel :: "Grade option \<Rightarrow> QualityStatus option \<Rightarrow> string" where
  "gradeLabel grade status =
     (if status = Some ''no_rtp'' then ''One-way'' else case grade of Some g \<Rightarrow> GRADE_LABEL g | None \<Rightarrow> em_dash)"

definition isGrade :: "json \<Rightarrow> bool" where
  "isGrade v \<longleftrightarrow> v \<in> {JStr ''great'', JStr ''good'', JStr ''fair'', JStr ''poor''}"

datatype QualityColor = GOOD | WARN | BAD | INK_FAINT

fun gradeColor :: "Grade option \<Rightarrow> QualityColor" where
  "gradeColor (Some Great) = GOOD"
| "gradeColor (Some Good) = GOOD"
| "gradeColor (Some Fair) = WARN"
| "gradeColor (Some Poor) = BAD"
| "gradeColor None = INK_FAINT"

datatype QualityTone = TONE_GOOD | TONE_WARN | TONE_BAD | TONE_NONE

fun gradeTone :: "Grade option \<Rightarrow> QualityTone" where
  "gradeTone (Some Great) = TONE_GOOD"
| "gradeTone (Some Good) = TONE_GOOD"
| "gradeTone (Some Fair) = TONE_WARN"
| "gradeTone (Some Poor) = TONE_BAD"
| "gradeTone None = TONE_NONE"

definition mosColor :: "jsnum option \<Rightarrow> QualityColor" where
  "mosColor mos = gradeColor (gradeForMos mos)"

definition mosTone :: "jsnum option \<Rightarrow> QualityTone" where
  "mosTone mos = gradeTone (gradeForMos mos)"

section \<open>Why there is no grade\<close>

datatype ReasonAudience = Customer | Staff

definition STATUS_REASON :: "(string \<times> (string \<times> string)) list" where
  "STATUS_REASON =
     [(''no_rtp'', (''One-way audio '' @ em_dash @ '' no sound came through from one side'', ''One-way audio: no inbound media'')),
      (''no_media'', (''No audio either way '' @ em_dash @ '' the call never carried sound'',
         ''No media either direction (in < 10%, out < 50% of expected packets) '' @ em_dash @ '' not graded'')),
      (''short'', (''Not graded '' @ em_dash @ '' the call was under 5 seconds'', ''Not graded '' @ em_dash @ '' call under 5 s'')),
      (''low_sample'', (''Not graded '' @ em_dash @ '' too little sound to measure'', ''Too few packets'')),
      (''no_data'', (''Not graded '' @ em_dash @ '' no sound measurements for this call'', ''No media data'')),
      (''unanswered'', (''Not graded '' @ em_dash @ '' the call wasn'' @ [CHR 0x92] @ ''t answered'', ''Unanswered''))]"

definition for_audience :: "ReasonAudience \<Rightarrow> string \<times> string \<Rightarrow> string" where
  "for_audience audience r = (case audience of Customer \<Rightarrow> fst r | Staff \<Rightarrow> snd r)"

definition qualityStatusReason :: "QualityStatus option \<Rightarrow> ReasonAudience \<Rightarrow> string option" where
  "qualityStatusReason status audience =
     (if status = Some ''rated'' then None
      else case Option.bind status (map_of STATUS_REASON) of
             Some r \<Rightarrow> Some (for_audience audience r)
           | None \<Rightarrow> map_option (for_audience audience) (map_of STATUS_REASON ''no_data''))"

definition STATUS_SHORT :: "(string \<times> string) list" where
  "STATUS_SHORT =
     [(''short'', ''under 5 sec''), (''no_media'', ''no audio either way''), (''low_sample'', ''too little sound''),
      (''no_data'', ''no sound data''), (''unanswered'', ''not answered'')]"

definition qualityStatusShort :: "QualityStatus option \<Rightarrow> string option" where
  "qualityStatusShort status =
     (if status = Some ''rated'' \<or> status = Some ''no_rtp'' then None
      else case Option.bind status (map_of STATUS_SHORT) of
             Some t \<Rightarrow> Some t
           | None \<Rightarrow> map_of STATUS_SHORT ''no_data'')"

section \<open>Colours of raw numbers\<close>

definition rFactorColor :: "rat option \<Rightarrow> QualityColor" where
  "rFactorColor r = (case r of None \<Rightarrow> INK_FAINT | Some x \<Rightarrow> if x \<ge> 80 then GOOD else if x \<ge> 70 then WARN else BAD)"

definition packetLossColor :: "rat option \<Rightarrow> QualityColor" where
  "packetLossColor pct = (case pct of None \<Rightarrow> INK_FAINT | Some x \<Rightarrow> if x \<le> 4 then GOOD else if x \<le> 8 then WARN else BAD)"

definition jitterColor :: "rat option \<Rightarrow> QualityColor" where
  "jitterColor ms = (case ms of None \<Rightarrow> INK_FAINT | Some x \<Rightarrow> if x \<le> 20 then GOOD else if x \<le> 50 then WARN else BAD)"

definition goodShareColor :: "rat option \<Rightarrow> QualityColor" where
  "goodShareColor pct = (case pct of None \<Rightarrow> INK_FAINT | Some x \<Rightarrow> if x \<ge> 97 then GOOD else if x \<ge> 90 then WARN else BAD)"

section \<open>Summary\<close>

definition percentileCont :: "rat list \<Rightarrow> rat \<Rightarrow> rat option" where
  "percentileCont values p =
     (if values = [] then None
      else let sorted = sort values;
               clamped = min (max p 0) 1;
               rank = clamped * of_nat (length sorted - 1);
               lo = nat \<lfloor>rank\<rfloor>;
               hi = nat \<lceil>rank\<rceil>
           in Some (sorted ! lo + (sorted ! hi - sorted ! lo) * (rank - of_nat lo)))"

record CallQualityFields =
  call_quality_status :: "QualityStatus option"
  call_quality_grade :: "Grade option"
  call_mos :: "rat option"

record CallQualitySummary =
  graded :: nat
  goodOrBetter :: nat
  poor :: nat
  oneWay :: nat
  goodSharePct :: "rat option"
  medianMos :: "rat option"

text \<open>The counters of the loop and the scores collected, row by row.\<close>

definition count_row :: "'a CallQualityFields_scheme \<Rightarrow> nat \<times> nat \<times> nat \<times> nat \<times> rat list \<Rightarrow> nat \<times> nat \<times> nat \<times> nat \<times> rat list" where
  "count_row r st =
     (let (gr, gb, po, ow, moses) = st;
          ow = (if call_quality_status r = Some ''no_rtp'' then ow + 1 else ow)
      in case call_quality_grade r of
           None \<Rightarrow> (gr, gb, po, ow, moses)
         | Some g \<Rightarrow>
             (gr + 1,
              if g = Great \<or> g = Good then gb + 1 else gb,
              if g = Poor then po + 1 else po,
              ow,
              case call_mos r of
                Some m \<Rightarrow> if call_quality_status r = Some ''rated'' then moses @ [m] else moses
              | None \<Rightarrow> moses))"

definition summarizeCallQuality :: "('a CallQualityFields_scheme) list \<Rightarrow> CallQualitySummary" where
  "summarizeCallQuality rows =
     (let (gr, gb, po, ow, moses) = fold count_row rows (0, 0, 0, 0, [])
      in \<lparr>graded = gr, goodOrBetter = gb, poor = po, oneWay = ow,
          goodSharePct = (if gr > 0 then Some (of_nat gb / of_nat gr * 100) else None),
          medianMos = percentileCont moses (1 / 2)\<rparr>)"

definition fmtDurationShort :: "rat \<Rightarrow> string" where
  "fmtDurationShort sec =
     (if sec \<le> 0 then em_dash
      else let m = \<lfloor>sec / 60\<rfloor>; s = round_half_up (sec - 60 * of_int m)
           in if m > 0 then int_str m @ ''m '' @ int_str s @ ''s'' else int_str s @ ''s'')"

definition fmtBytes :: "rat option \<Rightarrow> string" where
  "fmtBytes bytes =
     (case bytes of
        None \<Rightarrow> em_dash
      | Some b \<Rightarrow>
          if b < 1024 then number_text b @ '' B''
          else if b < 1024 * 1024 then toFixed 1 (b / 1024) @ '' KB''
          else toFixed 2 (b / (1024 * 1024)) @ '' MB'')"

section \<open>Money, rates and durations\<close>

definition fmtMoneySmart :: "jsnum option \<Rightarrow> string" where
  "fmtMoneySmart value =
     (case value of
        Some (Fin v) \<Rightarrow>
          if v = 0 then ''$0.00''
          else
            (let a = \<bar>v\<bar>; roundedToCents = of_int (round_half_up (a * 100)) / 100;
                 subCentMatters = (a < 1 / 100 \<or> \<bar>a - roundedToCents\<bar> / a > 1 / 10);
                 decimals = (if subCentMatters then 4 else 2)
             in (if v < 0 then ''-'' else '''') @ ''$'' @ toFixed decimals a)
      | Some PosInf \<Rightarrow> ''$Infinity''
      | Some NegInf \<Rightarrow> ''-$Infinity''
      | _ \<Rightarrow> em_dash)"

definition fmtRate :: "rat \<Rightarrow> string" where
  "fmtRate ratePerMin =
     (let digits = rev (dropWhile (\<lambda>c. c = CHR ''0'') (rev (toFixed 6 ratePerMin)));
          formatted = (if digits \<noteq> [] \<and> last digits = CHR ''.'' then butlast digits else digits)
      in ''$'' @ formatted @ ''/min'')"

definition fmtDuration :: "rat \<Rightarrow> string" where
  "fmtDuration seconds =
     (if seconds < 60 then number_text seconds @ ''s''
      else let m = \<lfloor>seconds / 60\<rfloor>; s = seconds - 60 * of_int m
           in if s > 0 then int_str m @ ''m '' @ number_text s @ ''s'' else int_str m @ ''m'')"

section \<open>Laws\<close>

lemma short_rate: "fmtRate (1 / 2) = ''$0.5/min''"
proof -
  have "round_half_up (\<bar>1 / 2\<bar> * 10 ^ 6) = 500000" by (simp add: round_half_up_def floor_eq_iff)
  moreover have "nat_str 500000 = ''500000''" by (simp add: nat_str.simps digit_char_def)
  moreover have "nat_str 0 = ''0''" by (simp add: nat_str.simps digit_char_def)
  ultimately show ?thesis by (simp add: fmtRate_def toFixed_def Let_def padStart0_def)
qed

lemma sixty_seconds: "fmtDurationShort (1197 / 10) = ''1m 60s''"
proof -
  have "\<lfloor>1197 / 10 / 60 :: rat\<rfloor> = 1" by (simp add: floor_eq_iff)
  moreover have "round_half_up (1197 / 10 - 60 * of_int 1) = 60" by (simp add: round_half_up_def floor_eq_iff)
  moreover have "int_str 1 = ''1''" "int_str 60 = ''60''" by code_simp+
  ultimately show ?thesis by (simp add: fmtDurationShort_def Let_def)
qed

text \<open>A better score never has a worse grade, and the bands are those of the stored two decimals.\<close>

fun grade_rank :: "Grade \<Rightarrow> nat" where
  "grade_rank Poor = 0"
| "grade_rank Fair = 1"
| "grade_rank Good = 2"
| "grade_rank Great = 3"

lemma grade_monotone:
  assumes "x \<le> y" "gradeForMos (Some (Fin x)) = Some g" "gradeForMos (Some (Fin y)) = Some h"
  shows "grade_rank g \<le> grade_rank h"
proof -
  have "round_half_up (x * 100) \<le> round_half_up (y * 100)" unfolding round_half_up_def using assms(1) by (intro floor_mono) simp
  then have m: "of_int (round_half_up (x * 100)) / 100 \<le> (of_int (round_half_up (y * 100)) / 100 :: rat)"
    by (simp add: divide_right_mono)
  show ?thesis using assms(2,3) m
    by (auto simp: gradeForMos_def Let_def GRADE_MOS_GREAT_def GRADE_MOS_GOOD_def GRADE_MOS_FAIR_def split: if_splits)
qed

definition rated_mos :: "'a CallQualityFields_scheme \<Rightarrow> rat option" where
  "rated_mos r = (if call_quality_grade r \<noteq> None \<and> call_quality_status r = Some ''rated'' then call_mos r else None)"

lemma count_rows:
  "fold count_row rows (gr, gb, po, ow, moses) =
     (gr + length (filter (\<lambda>r. call_quality_grade r \<noteq> None) rows),
      gb + length (filter (\<lambda>r. call_quality_grade r \<in> {Some Great, Some Good}) rows),
      po + length (filter (\<lambda>r. call_quality_grade r = Some Poor) rows),
      ow + length (filter (\<lambda>r. call_quality_status r = Some ''no_rtp'') rows),
      moses @ List.map_filter rated_mos rows)"
proof (induction rows arbitrary: gr gb po ow moses)
  case (Cons r rows)
  show ?case
    unfolding fold_simps comp_def
    by (cases "call_quality_grade r"; cases "call_mos r"; cases "call_quality_status r = Some ''rated''")
      (simp_all add: count_row_def Let_def Cons.IH rated_mos_def map_filter_simps)
qed (simp add: map_filter_simps)

lemma summary_fields:
  "graded (summarizeCallQuality rows) = length (filter (\<lambda>r. call_quality_grade r \<noteq> None) rows)"
  "goodOrBetter (summarizeCallQuality rows) = length (filter (\<lambda>r. call_quality_grade r \<in> {Some Great, Some Good}) rows)"
  "poor (summarizeCallQuality rows) = length (filter (\<lambda>r. call_quality_grade r = Some Poor) rows)"
  "oneWay (summarizeCallQuality rows) = length (filter (\<lambda>r. call_quality_status r = Some ''no_rtp'') rows)"
  "goodSharePct (summarizeCallQuality rows) =
     (let q = summarizeCallQuality rows in if graded q > 0 then Some (of_nat (goodOrBetter q) / of_nat (graded q) * 100) else None)"
  "medianMos (summarizeCallQuality rows) = percentileCont (List.map_filter rated_mos rows) (1 / 2)"
  by (simp_all add: summarizeCallQuality_def count_rows Let_def)

lemma filters_split:
  "length (filter (\<lambda>r. call_quality_grade r \<noteq> None) rows) =
     length (filter (\<lambda>r. call_quality_grade r \<in> {Some Great, Some Good}) rows)
     + length (filter (\<lambda>r. call_quality_grade r = Some Fair) rows) + length (filter (\<lambda>r. call_quality_grade r = Some Poor) rows)"
proof (induction rows)
  case (Cons r rows)
  then show ?case by (cases "call_quality_grade r"; cases "the (call_quality_grade r)") auto
qed simp

text \<open>The value between two neighbours of a sorted list, and how many values lie on each side of it.\<close>

lemma take_count: "list_all P (take n xs) \<Longrightarrow> n \<le> length xs \<Longrightarrow> n \<le> length (filter P xs)"
proof (induction xs arbitrary: n)
  case (Cons x xs)
  then show ?case by (cases n) auto
qed simp

lemma drop_count: "list_all P (drop n xs) \<Longrightarrow> length xs - n \<le> length (filter P xs)"
proof (induction xs arbitrary: n)
  case (Cons x xs)
  show ?case
  proof (cases n)
    case 0
    then have "filter P (x # xs) = x # xs" using Cons.prems by (auto simp: list_all_iff filter_id_conv)
    then show ?thesis by (metis diff_le_self)
  next
    case (Suc k)
    then have "length xs - k \<le> length (filter P xs)" using Cons by simp
    then show ?thesis using Suc by auto
  qed
qed simp

lemma sorted_sides:
  assumes s: "sorted (xs :: rat list)" and lo: "lo \<le> hi" "hi < length xs" and m: "xs ! lo \<le> m" "m \<le> xs ! hi"
  shows "length (filter (\<lambda>x. x \<le> m) xs) \<ge> Suc lo" "length (filter (\<lambda>x. m \<le> x) xs) \<ge> length xs - hi"
proof -
  have low: "xs ! k \<le> m" if "k \<le> lo" for k
    using order_trans [OF sorted_nth_mono [OF s that le_less_trans [OF lo]] m(1)] .
  have high: "m \<le> xs ! k" if "hi \<le> k" "k < length xs" for k
    using order_trans [OF m(2) sorted_nth_mono [OF s that]] .
  show "length (filter (\<lambda>x. x \<le> m) xs) \<ge> Suc lo"
    by (rule take_count) (use low lo in \<open>auto simp: list_all_length\<close>)
  show "length (filter (\<lambda>x. m \<le> x) xs) \<ge> length xs - hi"
    by (rule drop_count) (use high in \<open>auto simp: list_all_length\<close>)
qed

lemma between_neighbours:
  fixes a b f :: rat
  assumes "a \<le> b" "0 \<le> f" "f \<le> 1"
  shows "a \<le> a + (b - a) * f" "a + (b - a) * f \<le> b"
proof -
  show "a \<le> a + (b - a) * f" using assms by simp
  have "(b - a) * f \<le> (b - a) * 1" using assms by (intro mult_left_mono) simp_all
  then show "a + (b - a) * f \<le> b" by simp
qed

lemma percentile_sides:
  assumes v: "percentileCont vs p = Some m"
  defines "rank \<equiv> min (max p 0) 1 * of_nat (length vs - 1)"
  shows "length (filter (\<lambda>x. x \<le> m) vs) \<ge> Suc (nat \<lfloor>rank\<rfloor>)" "length (filter (\<lambda>x. m \<le> x) vs) \<ge> length vs - nat \<lceil>rank\<rceil>"
proof -
  let ?xs = "sort vs" and ?lo = "nat \<lfloor>rank\<rfloor>" and ?hi = "nat \<lceil>rank\<rceil>"
  have ne: "vs \<noteq> []" using v by (auto simp: percentileCont_def)
  have r: "0 \<le> rank" "rank \<le> of_nat (length vs - 1)"
    unfolding rank_def by (auto intro: mult_left_le_one_le)
  then have hi: "?hi \<le> length vs - 1" by (simp add: ceiling_le_iff nat_le_iff)
  have lo: "?lo \<le> ?hi" using r(1) by (intro nat_mono floor_le_ceiling)
  have lt: "?hi < length ?xs" using hi ne by (cases vs) auto
  have m: "m = ?xs ! ?lo + (?xs ! ?hi - ?xs ! ?lo) * (rank - of_nat ?lo)"
    using v ne by (simp add: percentileCont_def Let_def rank_def)
  have "(of_nat ?lo :: rat) = of_int \<lfloor>rank\<rfloor>" using r(1) by simp
  then have f: "0 \<le> rank - of_nat ?lo" "rank - of_nat ?lo \<le> 1" using floor_correct [of rank] by simp_all
  have "?xs ! ?lo \<le> ?xs ! ?hi" using sorted_nth_mono [OF _ lo lt] by simp
  note mm = between_neighbours [OF this f, folded m]
  have "length (filter P vs) = length (filter P ?xs)" for P by (metis filter_sort length_sort)
  then show "length (filter (\<lambda>x. x \<le> m) vs) \<ge> Suc ?lo" "length (filter (\<lambda>x. m \<le> x) vs) \<ge> length vs - ?hi"
    using sorted_sides [OF _ lo lt mm] by simp_all
qed

lemma median_sides:
  assumes "percentileCont vs (1 / 2) = Some m"
  shows "2 * length (filter (\<lambda>x. x \<le> m) vs) \<ge> length vs" "2 * length (filter (\<lambda>x. m \<le> x) vs) \<ge> length vs"
proof -
  define k where "k = length vs - 1"
  have k: "length vs = Suc k" using assms by (cases vs) (auto simp: percentileCont_def k_def)
  have r: "min (max (1 / 2) 0) 1 * of_nat (length vs - 1) = (of_nat k / of_nat 2 :: rat)" by (simp add: k_def)
  have fl: "\<lfloor>of_nat k / of_nat 2 :: rat\<rfloor> = of_nat (k div 2)" by (rule floor_divide_of_nat_eq)
  have "(of_nat k :: rat) \<le> of_nat (2 * ((k + 1) div 2))" by (rule of_nat_mono) linarith
  then have "\<lceil>of_nat k / of_nat 2 :: rat\<rceil> \<le> int ((k + 1) div 2)" by (simp add: ceiling_le_iff field_simps)
  then have "2 * nat \<lceil>of_nat k / of_nat 2 :: rat\<rceil> \<le> length vs" unfolding k by linarith
  moreover have "2 * Suc (nat \<lfloor>of_nat k / of_nat 2 :: rat\<rfloor>) \<ge> length vs" unfolding fl k nat_int by presburger
  moreover note percentile_sides [OF assms, unfolded r]
  ultimately have sides: "2 * length (filter (\<lambda>x. x \<le> m) vs) \<ge> length vs \<and> 2 * length (filter (\<lambda>x. m \<le> x) vs) \<ge> length vs"
    using k by (intro conjI) linarith+
  then show "2 * length (filter (\<lambda>x. x \<le> m) vs) \<ge> length vs" "2 * length (filter (\<lambda>x. m \<le> x) vs) \<ge> length vs"
    by blast+
qed


definition sample_rows :: "CallQualityFields list" where
  "sample_rows =
     [\<lparr>call_quality_status = Some ''rated'', call_quality_grade = Some Great, call_mos = Some (44 / 10)\<rparr>,
      \<lparr>call_quality_status = Some ''no_rtp'', call_quality_grade = Some Poor, call_mos = None\<rparr>,
      \<lparr>call_quality_status = Some ''short'', call_quality_grade = None, call_mos = None\<rparr>]"


end
