(* ===== verification/Call_Export.thy ===== *)
theory Call_Export
  imports Call_Records
begin

text \<open>
  The rows of the Calls & Quality page: carrier and trunk labels (\<open>pages/calls/callsFormat.ts\<close>), duration and outcome
  (\<open>utils/callDuration.ts\<close>, \<open>pages/rcf/callOutcome.ts\<close>), and the CSV export (\<open>utils/csv.ts\<close>), which a reader of the format
  gives back cell by cell.
\<close>

section \<open>Records\<close>

record Cdr = CallQualityFields +
  cd_uuid :: string
  cd_start_time :: string
  cd_answer_time :: "string option"
  cd_caller_id :: string
  cd_destination :: string
  cd_customer_id :: rat
  cd_product_type :: string
  cd_direction :: string
  cd_duration_seconds :: "rat option"
  cd_billable_seconds :: "rat option"
  cd_duration_minutes :: "rat option"
  cd_total_cost :: "rat option"
  cd_carrier_cost :: "rat option"
  cd_margin :: "rat option"
  cd_hangup_cause :: "string option"
  cd_sip_code :: "rat option"
  cd_carrier_used :: "string option"
  cd_rated_at :: "string option"
  cd_trunk_id :: "string option"
  cd_inbound_carrier :: "string option"
  cd_inbound_carrier_pop :: "string option"
  cd_on_net :: "bool option"
  cd_leg :: "string option"
  cd_call_id :: "string option"
  cd_leg_attempt :: "rat option"

section \<open>Carrier and trunk\<close>

abbreviation EMPTY :: string where
  "EMPTY \<equiv> em_dash"

definition CARRIER_NAMES :: "(string \<times> string) list" where
  "CARRIER_NAMES = [(''bandwidth'', ''BW''), (''sinch'', ''Sinch'')]"

definition LEGACY_CARRIER_USED :: "(string \<times> string) list" where
  "LEGACY_CARRIER_USED =
     [(''carrier_primary'', ''BW'' @ [CHR 0xB7] @ ''Dallas''), (''carrier_secondary'', ''BW'' @ [CHR 0xB7] @ ''LA''), (''local'', ''On-net'')]"

definition capitalize :: "string \<Rightarrow> string" where
  "capitalize word = (case word of [] \<Rightarrow> [] | c # cs \<Rightarrow> toUpperCase [c] @ cs)"

text \<open>The pieces of \<open>raw.split(/[-_\s]+/)\<close> that are not empty.\<close>

fun pieces :: "string \<Rightarrow> string \<Rightarrow> string list" where
  "pieces word [] = (if word = [] then [] else [word])"
| "pieces word (c # s) =
     (if c = CHR ''-'' \<or> c = CHR ''_'' \<or> is_ws c then (if word = [] then pieces [] s else word # pieces [] s)
      else pieces (word @ [c]) s)"

definition popLabel :: "string \<Rightarrow> string" where
  "popLabel raw = join '' '' (map (\<lambda>w. if length w \<le> 2 then toUpperCase w else capitalize w) (pieces [] raw))"

definition carrierName :: "string \<Rightarrow> string" where
  "carrierName raw =
     (let key = toLowerCase raw in case map_of CARRIER_NAMES key of Some n \<Rightarrow> n | None \<Rightarrow> capitalize key)"

definition carrier_fold :: "string \<Rightarrow> string option \<Rightarrow> string" where
  "carrier_fold carrier pop =
     (case pop of
        Some (c # cs) \<Rightarrow> carrierName carrier @ [CHR 0xB7] @ popLabel (c # cs)
      | _ \<Rightarrow> carrierName carrier)"

definition isOnNetCall :: "Cdr \<Rightarrow> bool" where
  "isOnNetCall cdr \<longleftrightarrow> cd_on_net cdr = Some True \<or> cd_carrier_used cdr = Some ''local''"

definition trimmed :: "string option \<Rightarrow> string" where
  "trimmed s = (case s of Some t \<Rightarrow> trim t | None \<Rightarrow> '''')"

definition carrierLabel :: "Cdr \<Rightarrow> string" where
  "carrierLabel cdr =
     (if isOnNetCall cdr then ''On-net''
      else if cd_direction cdr = ''inbound''
      then (let carrier = trimmed (cd_inbound_carrier cdr)
            in carrier_fold (if carrier = '''' then ''bandwidth'' else carrier) (Some (trimmed (cd_inbound_carrier_pop cdr))))
      else
        (let used = trimmed (cd_carrier_used cdr) in
         if used = '''' then EMPTY
         else case map_of LEGACY_CARRIER_USED used of
                Some legacy \<Rightarrow> legacy
              | None \<Rightarrow>
                  if CHR ''-'' \<notin> set used then carrier_fold used None
                  else carrier_fold (before_char (CHR ''-'') used) (Some (tl (dropWhile (\<lambda>c. c \<noteq> CHR ''-'') used)))))"

definition trunkLabel :: "string option \<Rightarrow> (string \<times> string) list option \<Rightarrow> string" where
  "trunkLabel trunkId trunkNames =
     (case trunkId of
        None \<Rightarrow> EMPTY
      | Some i \<Rightarrow>
          if i = '''' then EMPTY
          else case Option.bind trunkNames (\<lambda>ns. map_of ns i) of Some n \<Rightarrow> n | None \<Rightarrow> ''#'' @ i)"

section \<open>Duration and outcome\<close>

definition hasExactDuration :: "Cdr \<Rightarrow> bool" where
  "hasExactDuration cdr \<longleftrightarrow> cd_duration_seconds cdr \<noteq> None"

definition or_zero :: "rat option \<Rightarrow> rat" where
  "or_zero x = (case x of Some r \<Rightarrow> r | None \<Rightarrow> 0)"

definition hasTalkTime :: "Cdr \<Rightarrow> bool" where
  "hasTalkTime cdr \<longleftrightarrow>
     (if hasExactDuration cdr then or_zero (cd_duration_seconds cdr) > 0 else or_zero (cd_duration_minutes cdr) > 0)"

definition fmtAvgMinutes :: "rat option \<Rightarrow> string" where
  "fmtAvgMinutes avgMinutes =
     (case avgMinutes of None \<Rightarrow> em_dash | Some a \<Rightarrow> if a \<le> 0 then em_dash else toFixed 1 a @ '' min'')"

definition fmtAvgCallDuration :: "Cdr list \<Rightarrow> (rat \<Rightarrow> string) \<Rightarrow> string" where
  "fmtAvgCallDuration rows fmtExact =
     (if rows = [] then em_dash
      else if list_all hasExactDuration rows
      then fmtExact (sum_list (map (\<lambda>r. or_zero (cd_duration_seconds r)) rows) / of_nat (length rows))
      else fmtAvgMinutes (Some (sum_list (map (\<lambda>r. or_zero (cd_duration_minutes r)) rows) / of_nat (length rows))))"

record CallQualityLabel =
  ql_text :: "string option"
  ql_color :: QualityColor
  ql_reason :: "string option"
  ql_short :: "string option"

definition callQualityLabel :: "Cdr \<Rightarrow> CallQualityLabel" where
  "callQualityLabel cdr =
     (let status = call_quality_status cdr in
      case call_quality_grade cdr of
        None \<Rightarrow> \<lparr>ql_text = None, ql_color = INK_FAINT, ql_reason = qualityStatusReason status Customer,
                 ql_short = qualityStatusShort status\<rparr>
      | Some g \<Rightarrow> \<lparr>ql_text = Some (gradeLabel (Some g) status), ql_color = gradeColor (Some g),
                   ql_reason = (if status = Some ''no_rtp'' then qualityStatusReason status Customer else None), ql_short = None\<rparr>)"

datatype StatusTone = StatusGood | StatusNeutral | StatusBad | StatusInfo

definition cause_status :: "string \<Rightarrow> bool \<Rightarrow> (string \<times> StatusTone) option" where
  "cause_status cause answered =
     (if cause = ''ORIGINATOR_CANCEL'' then Some (''Caller Hung Up'', StatusNeutral)
      else if cause = ''NO_ANSWER'' then Some (''No Answer'', StatusNeutral)
      else if cause = ''USER_BUSY'' then Some (''Busy'', StatusBad)
      else if cause = ''CALL_REJECTED'' then Some (''Rejected'', StatusBad)
      else if cause = ''NORMAL_TEMPORARY_FAILURE'' then Some (''Unavailable'', StatusBad)
      else if cause = ''UNALLOCATED_NUMBER'' then Some (''Invalid Number'', StatusBad)
      else if cause = ''NO_ROUTE_DESTINATION'' then Some (''No Route'', StatusBad)
      else if cause = ''RECOVERY_ON_TIMER_EXPIRE'' then Some (''Timed Out'', StatusBad)
      else if cause = ''NORMAL_CLEARING''
      then Some (if \<not> answered then (''Not Connected'', StatusNeutral) else (''Answered'', StatusGood))
      else None)"

definition callStatusInfo :: "Cdr \<Rightarrow> string \<times> StatusTone" where
  "callStatusInfo cdr =
     (let cause = toUpperCase (case cd_hangup_cause cdr of Some c \<Rightarrow> c | None \<Rightarrow> '''');
          answered = (cd_answer_time cdr \<noteq> None) in
      if cd_product_type cdr = ''voicemail'' \<and> answered then (''Voicemail'', StatusInfo)
      else if answered \<and> hasTalkTime cdr then (''Answered'', StatusGood)
      else case cause_status cause answered of
             Some info \<Rightarrow> info
           | None \<Rightarrow>
               (case cd_sip_code cdr of
                  Some code \<Rightarrow>
                    if code \<ge> 400
                    then (if code = 486 then (''Busy'', StatusBad)
                          else if code = 487 then (''Cancelled'', StatusNeutral)
                          else if code = 603 then (''Declined'', StatusBad)
                          else (''Failed'', StatusBad))
                    else if \<not> answered then (''No Answer'', StatusNeutral) else (''Answered'', StatusInfo)
                | None \<Rightarrow> if \<not> answered then (''No Answer'', StatusNeutral) else (''Answered'', StatusInfo)))"

section \<open>CSV\<close>

datatype Cell = CellText string | CellNum rat | CellNull

fun cell_text :: "Cell \<Rightarrow> string" where
  "cell_text (CellText s) = s"
| "cell_text (CellNum r) = number_text r"
| "cell_text CellNull = ''''"

abbreviation quote :: char where
  "quote \<equiv> CHR 0x22"

abbreviation newline :: char where
  "newline \<equiv> CHR 0x0A"

definition escapeCell :: "Cell \<Rightarrow> string" where
  "escapeCell v =
     (let str = cell_text v in
      if CHR '','' \<in> set str \<or> quote \<in> set str \<or> newline \<in> set str
      then [quote] @ replace_char quote [quote, quote] str @ [quote]
      else str)"

definition buildCsv :: "string list \<Rightarrow> Cell list list \<Rightarrow> string" where
  "buildCsv headers rows = join [newline] (map (\<lambda>row. join '','' (map escapeCell row)) (map CellText headers # rows))"

definition CDR_HEADERS :: "string list" where
  "CDR_HEADERS =
     [''UUID'', ''Time'', ''Direction'', ''From'', ''To'', ''Customer ID'', ''Product'', ''Duration (s)'', ''Billable (s)'',
      ''Cost Estimate'', ''Carrier Cost'', ''Margin'', ''Hangup Cause'', ''Carrier'', ''Trunk'', ''SIP Code'', ''Rated'',
      ''Leg'', ''Call ID'', ''Attempt'']"

definition blankIfEmpty :: "string \<Rightarrow> string" where
  "blankIfEmpty label = (if label = EMPTY then '''' else label)"

definition num_cell :: "rat option \<Rightarrow> Cell" where
  "num_cell x = (case x of Some r \<Rightarrow> CellNum r | None \<Rightarrow> CellText '''')"

definition text_cell :: "string option \<Rightarrow> Cell" where
  "text_cell x = (case x of Some s \<Rightarrow> CellText s | None \<Rightarrow> CellText '''')"

definition cdr_row :: "(string \<times> string) list option \<Rightarrow> Cdr \<Rightarrow> Cell list" where
  "cdr_row trunkNames c =
     [CellText (cd_uuid c), CellText (cd_start_time c), CellText (cd_direction c), CellText (cd_caller_id c), CellText (cd_destination c),
      CellNum (cd_customer_id c), CellText (cd_product_type c), num_cell (cd_duration_seconds c), num_cell (cd_billable_seconds c),
      num_cell (cd_total_cost c), num_cell (cd_carrier_cost c), num_cell (cd_margin c), text_cell (cd_hangup_cause c),
      CellText (blankIfEmpty (carrierLabel c)), CellText (blankIfEmpty (trunkLabel (cd_trunk_id c) trunkNames)),
      num_cell (cd_sip_code c), CellText (if cd_rated_at c \<noteq> None \<and> cd_rated_at c \<noteq> Some '''' then ''Yes'' else ''No''),
      text_cell (cd_leg c), text_cell (cd_call_id c), num_cell (cd_leg_attempt c)]"

text \<open>What is downloaded, and under which name on the day given.\<close>

definition exportCdrsCsv :: "Cdr list \<Rightarrow> (string \<times> string) list option \<Rightarrow> string \<Rightarrow> string \<times> string" where
  "exportCdrsCsv cdrs trunkNames today =
     (buildCsv CDR_HEADERS (map (cdr_row trunkNames) cdrs), ''cdrs_'' @ today @ ''.csv'')"

section \<open>Reading it back\<close>

text \<open>A reader of the format: a cell that begins with a quote goes to the closing quote, two quotes standing for one;
  other cells go to the next comma or line end.\<close>

fun quoted_rest :: "string \<Rightarrow> string \<times> string" where
  "quoted_rest [] = ([], [])"
| "quoted_rest (c # s) =
     (if c = quote
      then (case s of
              d # t \<Rightarrow> if d = quote then (let (cell, r) = quoted_rest t in (quote # cell, r)) else ([], s)
            | [] \<Rightarrow> ([], []))
      else (let (cell, r) = quoted_rest s in (c # cell, r)))"

abbreviation plain_char :: "char \<Rightarrow> bool" where
  "plain_char c \<equiv> c \<noteq> CHR '','' \<and> c \<noteq> newline"

definition read_cell :: "string \<Rightarrow> string \<times> string" where
  "read_cell s =
     (case s of
        c # t \<Rightarrow> if c = quote then quoted_rest t else (takeWhile plain_char s, dropWhile plain_char s)
      | [] \<Rightarrow> ([], []))"

lemma quoted_rest_shorter: "length (snd (quoted_rest s)) \<le> length s"
proof (induction s rule: length_induct)
  case (1 s)
  show ?case
  proof (cases s)
    case (Cons c t)
    have t: "length (snd (quoted_rest t)) \<le> length t" using 1 Cons by simp
    show ?thesis
    proof (cases "c = quote \<and> t \<noteq> [] \<and> hd t = quote")
      case True
      have "length (snd (quoted_rest (tl t))) \<le> length (tl t)" using 1 Cons by (cases t) auto
      then show ?thesis using True Cons by (cases t) (simp_all add: split_beta Let_def)
    next
      case False
      then show ?thesis using t Cons by (cases t) (simp_all add: split_beta Let_def)
    qed
  qed simp
qed

lemma read_cell_shorter: "length (snd (read_cell s)) \<le> length s"
proof (cases s)
  case (Cons c t)
  show ?thesis
  proof (cases "c = quote")
    case True
    then show ?thesis unfolding Cons read_cell_def using quoted_rest_shorter [of t] by simp
  next
    case False
    then have "snd (read_cell s) = dropWhile plain_char s" unfolding Cons read_cell_def by (simp only: list.case if_False snd_conv)
    then show ?thesis by (simp only: length_dropWhile_le)
  qed
qed (simp add: read_cell_def)

function csv_rows :: "string \<Rightarrow> string list list" where
  "csv_rows s =
     (let (cell, r) = read_cell s in
      case r of
        [] \<Rightarrow> [[cell]]
      | c # t \<Rightarrow> if c = newline then [cell] # csv_rows t
                  else (case csv_rows t of row # rows \<Rightarrow> (cell # row) # rows | [] \<Rightarrow> [[cell]]))"
  by auto

termination csv_rows
proof (relation "measure length", goal_cases)
  case (2 s x cell r c t)
  then show ?case using read_cell_shorter [of s] by (metis Suc_le_lessD in_measure length_Cons snd_conv)
next
  case (3 s x cell r c t)
  then show ?case using read_cell_shorter [of s] by (metis Suc_le_lessD in_measure length_Cons snd_conv)
qed simp

declare csv_rows.simps [simp del]

definition cell_end :: "string \<Rightarrow> bool" where
  "cell_end r \<longleftrightarrow> (case r of [] \<Rightarrow> True | c # t \<Rightarrow> c = CHR '','' \<or> c = newline)"

lemma quoted_rest_doubled:
  "cell_end r \<Longrightarrow> quoted_rest (replace_char quote [quote, quote] s @ quote # r) = (s, r)"
proof (induction s)
  case Nil
  then show ?case by (auto simp: replace_char_def cell_end_def split: list.splits)
next
  case (Cons c s)
  have "replace_char quote [quote, quote] (c # s) = (if c = quote then [quote, quote] else [c]) @ replace_char quote [quote, quote] s"
    by (simp add: replace_char_def)
  then show ?case using Cons by auto
qed

lemma read_escaped: "cell_end r \<Longrightarrow> read_cell (escapeCell v @ r) = (cell_text v, r)"
proof (cases "CHR '','' \<in> set (cell_text v) \<or> quote \<in> set (cell_text v) \<or> newline \<in> set (cell_text v)")
  case True
  assume "cell_end r"
  then show ?thesis using True by (simp add: escapeCell_def Let_def read_cell_def quoted_rest_doubled)
next
  case False
  assume r: "cell_end r"
  have esc: "escapeCell v = cell_text v" using False by (simp add: escapeCell_def)
  have plain: "\<forall>c \<in> set (cell_text v). plain_char c" using False by auto
  have "takeWhile plain_char (cell_text v @ r) = cell_text v" "dropWhile plain_char (cell_text v @ r) = r"
    using plain r by (auto simp: cell_end_def takeWhile_append dropWhile_append split: list.splits)
  moreover have "read_cell (cell_text v @ r) = (takeWhile plain_char (cell_text v @ r), dropWhile plain_char (cell_text v @ r))"
    using False r by (cases "cell_text v"; cases r) (auto simp: read_cell_def cell_end_def)
  ultimately show ?thesis unfolding esc by simp
qed

text \<open>A row of cells, at the end of the text and before another line.\<close>

lemma rows_last: "row \<noteq> [] \<Longrightarrow> csv_rows (join '','' (map escapeCell row)) = [map cell_text row]"
proof (induction row rule: list_nonempty_induct)
  case (single v)
  then show ?case using read_escaped [of "[]" v] by (subst csv_rows.simps) (simp add: cell_end_def)
next
  case (cons v row)
  have "read_cell (escapeCell v @ '','' @ join '','' (map escapeCell row)) = (cell_text v, '','' @ join '','' (map escapeCell row))"
    by (rule read_escaped) (simp add: cell_end_def)
  then show ?case using cons by (subst csv_rows.simps) (cases row; simp)
qed

lemma rows_more: "row \<noteq> [] \<Longrightarrow> csv_rows (join '','' (map escapeCell row) @ newline # s) = map cell_text row # csv_rows s"
proof (induction row rule: list_nonempty_induct)
  case (single v)
  then show ?case using read_escaped [of "newline # s" v] by (subst csv_rows.simps) (simp add: cell_end_def)
next
  case (cons v row)
  have "read_cell (escapeCell v @ '','' @ join '','' (map escapeCell row) @ newline # s)
      = (cell_text v, '','' @ join '','' (map escapeCell row) @ newline # s)"
    by (rule read_escaped) (simp add: cell_end_def)
  then show ?case using cons by (subst csv_rows.simps) (cases row; simp)
qed

lemma lines_read:
  "lns \<noteq> [] \<Longrightarrow> \<forall>row \<in> set lns. row \<noteq> [] \<Longrightarrow>
     csv_rows (join [newline] (map (\<lambda>row. join '','' (map escapeCell row)) lns)) = map (map cell_text) lns"
proof (induction lns rule: list_nonempty_induct)
  case (single row)
  then show ?case by (simp add: rows_last)
next
  case (cons row lns)
  then show ?case using rows_more [of row] by (cases lns) simp_all
qed

text \<open>C37. The export can be read back: from the text of a file, a reader of the format gets the headers and the
  text of every cell, whatever commas, quotes and line ends the cells have.\<close>

theorem csv_roundtrip:
  assumes "headers \<noteq> []" and "\<forall>row \<in> set rows. row \<noteq> []"
  shows "csv_rows (buildCsv headers rows) = headers # map (map cell_text) rows"
proof -
  have "csv_rows (buildCsv headers rows) = map (map cell_text) (map CellText headers # rows)"
    unfolding buildCsv_def by (rule lines_read) (use assms in auto)
  then show ?thesis by (simp add: comp_def)
qed

definition sample_cells :: "Cell list list" where
  "sample_cells = [[CellText [quote, CHR '','', newline], CellNull], [CellNum (5 / 2), CellText ''b'']]"

theorem csv_roundtrip_witness:
  "csv_rows (buildCsv [''h'', ''k''] sample_cells) = [[''h'', ''k''], [[quote, CHR '','', newline], ''''], [number_text (5 / 2), ''b'']]"
proof -
  have "\<forall>row \<in> set sample_cells. row \<noteq> []" by (simp add: sample_cells_def)
  from csv_roundtrip [OF _ this, of "[''h'', ''k'']"] show ?thesis by (simp add: sample_cells_def)
qed

text \<open>The exported call records: a line of twenty headers, and a line of twenty cells for each call.\<close>

lemma export_read:
  "csv_rows (fst (exportCdrsCsv cdrs names today)) = CDR_HEADERS # map (\<lambda>c. map cell_text (cdr_row names c)) cdrs"
proof -
  have "csv_rows (buildCsv CDR_HEADERS (map (cdr_row names) cdrs)) = map (map cell_text) (map CellText CDR_HEADERS # map (cdr_row names) cdrs)"
    unfolding buildCsv_def by (rule lines_read) (auto simp: cdr_row_def CDR_HEADERS_def)
  then show ?thesis by (simp add: exportCdrsCsv_def comp_def)
qed

lemma export_width: "length (cdr_row names c) = length CDR_HEADERS"
  by (simp add: cdr_row_def CDR_HEADERS_def)

end
