(* ===== verification/Analysis.thy ===== *)
theory Analysis
  imports Store_Props Assist Compile
begin

text \<open>
  What the builder derives from the draft (\<open>flow/useFlowAnalysis.ts\<close>): the findings of its own compiler beside those of
  the server's check, which is asked after a pause and may answer late. The hook's state is a record, the effect, the
  timer and the answers are its steps; as in the compiler, the wording of findings is left out.
\<close>

section \<open>Findings\<close>

datatype Source = FromClient | FromServer

record ShownIssue = ClientIssue +
  si_source :: Source

definition or_empty :: "string option \<Rightarrow> string" where
  "or_empty s = (case s of Some t \<Rightarrow> t | None \<Rightarrow> '''')"

definition locationKey :: "'a ClientIssue_scheme \<Rightarrow> string" where
  "locationKey i = or_empty (is_nodeId i) @ [CHR 0x00] @ or_empty (is_handle i)"

definition fromServer :: "Issue list \<Rightarrow> Severity \<Rightarrow> ShownIssue list" where
  "fromServer list severity =
     map (\<lambda>i. \<lparr>is_severity = severity, is_code = iss_code i, is_nodeId = Option.bind (iss_node_id i) no_empty,
               is_handle = Option.bind (iss_handle i) no_empty, si_source = FromServer\<rparr>) list"

definition own_issue :: "ClientIssue \<Rightarrow> ShownIssue" where
  "own_issue i = \<lparr>is_severity = is_severity i, is_code = is_code i, is_nodeId = is_nodeId i, is_handle = is_handle i, si_source = FromClient\<rparr>"

section \<open>The server's check\<close>

record ServerCheck =
  sv_seq :: nat
  sv_errors :: "Issue list"
  sv_warnings :: "Issue list"

text \<open>The hook's state: the last answer, the last failure, the content seen last, the debounce timer and the
  requests on their way, with the content each is about.\<close>

record Analysis =
  an_server :: "ServerCheck option"
  an_serverFailed :: "nat option"
  an_latest :: nat
  an_timer :: "(nat \<times> IvrGraph) option"
  an_sent :: "(nat \<times> IvrGraph) list"

definition SERVER_DEBOUNCE_MS :: nat where
  "SERVER_DEBOUNCE_MS = 2500"

definition useFlowAnalysis :: "nat \<Rightarrow> Analysis" where
  "useFlowAnalysis contentSeq = \<lparr>an_server = None, an_serverFailed = None, an_latest = contentSeq, an_timer = None, an_sent = []\<rparr>"

text \<open>The effect after the content changed; its clean-up cancels the timer before.\<close>

definition content_effect :: "bool \<Rightarrow> nat \<Rightarrow> IvrGraph \<Rightarrow> Analysis \<Rightarrow> Analysis" where
  "content_effect serverCheck contentSeq g a =
     a\<lparr>an_latest := contentSeq, an_timer := (if serverCheck then Some (contentSeq, g) else None)\<rparr>"

definition check_due :: "Analysis \<Rightarrow> Analysis" where
  "check_due a = (case an_timer a of None \<Rightarrow> a | Some req \<Rightarrow> a\<lparr>an_timer := None, an_sent := an_sent a @ [req]\<rparr>)"

text \<open>An answer, or its failure, to one of the requests on their way.\<close>

definition check_answered :: "nat \<times> IvrGraph \<Rightarrow> (Issue list \<times> Issue list) option \<Rightarrow> Analysis \<Rightarrow> Analysis" where
  "check_answered req answer a =
     (let a = a\<lparr>an_sent := remove1 req (an_sent a)\<rparr> in
      case answer of
        Some (errors, warnings) \<Rightarrow>
          if an_latest a \<noteq> fst req then a
          else a\<lparr>an_server := Some \<lparr>sv_seq = fst req, sv_errors = errors, sv_warnings = warnings\<rparr>, an_serverFailed := None\<rparr>
      | None \<Rightarrow> if an_latest a = fst req then a\<lparr>an_serverFailed := Some (fst req)\<rparr> else a)"

section \<open>What is shown\<close>

definition serverIssues :: "nat \<Rightarrow> Analysis \<Rightarrow> ShownIssue list" where
  "serverIssues contentSeq a =
     (case an_server a of
        Some v \<Rightarrow> if sv_seq v = contentSeq then fromServer (sv_errors v) Error @ fromServer (sv_warnings v) Warning else []
      | None \<Rightarrow> [])"

definition shown_issues :: "nat \<Rightarrow> CompileResult \<Rightarrow> Analysis \<Rightarrow> ShownIssue list" where
  "shown_issues contentSeq compiled a =
     (let ss = serverIssues contentSeq a; taken = locationKey ` set ss
      in ss @ map own_issue (filter (\<lambda>i. locationKey i \<notin> taken) (cr_issues compiled)))"

definition add_to_node :: "ShownIssue \<Rightarrow> (string \<times> ShownIssue list) list \<Rightarrow> (string \<times> ShownIssue list) list" where
  "add_to_node i m =
     (case Option.bind (is_nodeId i) no_empty of
        None \<Rightarrow> m
      | Some n \<Rightarrow> ob_set m n ((case ob_get m n of Some l \<Rightarrow> l | None \<Rightarrow> []) @ [i]))"

definition issuesByNode :: "ShownIssue list \<Rightarrow> (string \<times> ShownIssue list) list" where
  "issuesByNode shown = fold add_to_node shown []"

definition errorCount :: "ShownIssue list \<Rightarrow> nat" where
  "errorCount shown = length (filter (\<lambda>i. is_severity i = Error) shown)"

definition warningCount :: "ShownIssue list \<Rightarrow> nat" where
  "warningCount shown = length (filter (\<lambda>i. is_severity i = Warning) shown)"

datatype ServerState = ServerOff | ServerChecking | ServerCurrent | ServerUnavailable

definition server_state :: "bool \<Rightarrow> nat \<Rightarrow> Analysis \<Rightarrow> ServerState" where
  "server_state serverCheck contentSeq a =
     (if \<not> serverCheck then ServerOff
      else if (case an_server a of Some v \<Rightarrow> sv_seq v = contentSeq | None \<Rightarrow> False) then ServerCurrent
      else if an_serverFailed a = Some contentSeq then ServerUnavailable
      else ServerChecking)"

definition analysis_targets :: "('a WorkEdge_scheme) list \<Rightarrow> (string \<times> string) list" where
  "analysis_targets es = fold (\<lambda>e m. ob_set m (e_source e @ [CHR 0x00] @ e_sourceHandle e) (e_target e)) es []"

definition gotoJumps :: "('a NodeInput_scheme) list \<Rightarrow> (string \<times> string \<times> string) list" where
  "gotoJumps nodes =
     (let known = n_id ` set nodes in
      List.map_filter (\<lambda>n.
        let t = goto_target (n_config n) in
        if n_type n = Goto \<and> t \<noteq> '''' \<and> t \<noteq> n_id n \<and> t \<in> known then Some (''jump:'' @ n_id n, n_id n, t) else None) nodes)"

section \<open>Sessions\<close>

text \<open>The builder with the hook: the store, the hook's state, and the server's answers so far, each with the graph
  it was asked about. The effect runs after the drawing that follows a change, so the hook may lag behind the store.\<close>

type_synonym answers = "(nat \<times> IvrGraph \<times> Issue list \<times> Issue list) list"

definition drawn_effect :: "Store \<Rightarrow> Analysis \<Rightarrow> Analysis" where
  "drawn_effect s a = content_effect True (fs_contentSeq s) (fst (contentGraph s)) a"

inductive analysed :: "Env \<Rightarrow> Flow \<Rightarrow> Store \<Rightarrow> Analysis \<Rightarrow> answers \<Rightarrow> bool" for env :: Env and flow :: Flow where
  analysed_start: "s = createFlowStore (env_nano env) flow \<Longrightarrow>
    analysed env flow (snd (contentGraph s)) (drawn_effect s (useFlowAnalysis (fs_contentSeq s))) []"
| analysed_action: "analysed env flow s a told \<Longrightarrow> canvas_action act \<Longrightarrow> analysed env flow (perform env now act s) a told"
| analysed_drawn: "analysed env flow s a told \<Longrightarrow> analysed env flow (snd (contentGraph s)) (drawn_effect s a) told"
| analysed_due: "analysed env flow s a told \<Longrightarrow> analysed env flow s (check_due a) told"
| analysed_answer: "analysed env flow s a told \<Longrightarrow> req \<in> set (an_sent a) \<Longrightarrow>
    analysed env flow s (check_answered req (Some (errors, warnings)) a) (told @ [(fst req, snd req, errors, warnings)])"
| analysed_failure: "analysed env flow s a told \<Longrightarrow> req \<in> set (an_sent a) \<Longrightarrow> analysed env flow s (check_answered req None a) told"

text \<open>A numbered graph is about the store when its number is not ahead, and its call logic is the store's when the
  number is the store's.\<close>

definition about :: "Store \<Rightarrow> nat \<times> IvrGraph \<Rightarrow> bool" where
  "about s req \<longleftrightarrow> fst req \<le> fs_contentSeq s \<and> (fst req = fs_contentSeq s \<longrightarrow> logic_of (snd req) = logic_of (graph s))"

definition analysed_ok :: "Store \<Rightarrow> Analysis \<Rightarrow> answers \<Rightarrow> bool" where
  "analysed_ok s a told \<longleftrightarrow>
     an_latest a \<le> fs_contentSeq s
     \<and> list_all (about s) (an_sent a) \<and> pred_option (about s) (an_timer a)
     \<and> list_all (\<lambda>(q, g, _). about s (q, g)) told
     \<and> pred_option (\<lambda>v. sv_seq v \<le> an_latest a \<and> (\<exists>g. (sv_seq v, g, sv_errors v, sv_warnings v) \<in> set told)) (an_server a)"

lemma about_kept: "kept s s' \<Longrightarrow> about s req \<Longrightarrow> about s' req"
  by (auto simp: about_def kept_def)

lemma about_drawn [simp]: "about (snd (contentGraph s)) = about s" "fs_contentSeq (snd (contentGraph s)) = fs_contentSeq s"
  by (auto simp: fun_eq_iff about_def contentGraph_def graph_def split: option.splits)

lemma analysed_ok_kept: "kept s s' \<Longrightarrow> analysed_ok s a told \<Longrightarrow> analysed_ok s' a told"
  using about_kept [of s s'] unfolding analysed_ok_def kept_def
  by (auto simp: list_all_iff pred_option_def)

lemma analysed_ok_drawn: "analysed_ok (snd (contentGraph s)) a told = analysed_ok s a told"
  by (simp add: analysed_ok_def)

lemma analysed_ok_action:
  assumes "canvas_ok env" "canvas_action act" "analysed_ok s a told"
  shows "analysed_ok (perform env now act s) a told"
proof (cases "act = ContentGraph")
  case False
  then show ?thesis using analysed_ok_kept [OF perform_kept] assms by blast
qed (simp add: analysed_ok_drawn assms(3))

lemma analysed_run:
  "analysed env flow s a told \<Longrightarrow> run env (\<lambda>s a. canvas_action a) (createFlowStore (env_nano env) flow) s"
proof (induction rule: analysed.induct)
  case (analysed_start s)
  then show ?case using run_step [OF run_start, where a = ContentGraph] by simp
next
  case (analysed_drawn s a told)
  then show ?case using run_step [where a = ContentGraph] by fastforce
qed (auto intro: run_step)

lemma drawn_about: "cache_ok s \<Longrightarrow> about s (fs_contentSeq s, fst (contentGraph s))"
  by (auto simp: about_def cache_ok_def contentGraph_def split: option.splits)

lemma analysed_invariant:
  assumes "canvas_ok env"
  shows "analysed env flow s a told \<Longrightarrow> analysed_ok s a told"
proof (induction rule: analysed.induct)
  case (analysed_start s)
  then have "cache_ok s" using run_cache_ok [OF assms run_start] by blast
  then show ?case using drawn_about [of s] unfolding analysed_ok_drawn
    by (simp add: analysed_ok_def drawn_effect_def content_effect_def useFlowAnalysis_def)
next
  case (analysed_action s a told act now)
  then show ?case using analysed_ok_action [OF assms] by blast
next
  case (analysed_drawn s a told)
  then have "cache_ok s" using run_cache_ok [OF assms] analysed_run by blast
  then show ?case using drawn_about [of s] analysed_drawn.IH unfolding analysed_ok_drawn
    by (auto simp: analysed_ok_def drawn_effect_def content_effect_def pred_option_def)
next
  case (analysed_due s a told)
  then show ?case by (auto simp: analysed_ok_def check_due_def split: option.splits)
next
  case (analysed_answer s a told req errors warnings)
  then have "about s req" "set (remove1 req (an_sent a)) \<subseteq> set (an_sent a)"
    by (auto simp: analysed_ok_def list_all_iff set_remove1_subset)
  then show ?case using analysed_answer.IH unfolding analysed_ok_def check_answered_def
    by (auto simp: Let_def list_all_iff pred_option_def)
next
  case (analysed_failure s a told req)
  then have "set (remove1 req (an_sent a)) \<subseteq> set (an_sent a)" by (simp add: set_remove1_subset)
  then show ?case using analysed_failure.IH unfolding analysed_ok_def check_answered_def
    by (auto simp: Let_def list_all_iff pred_option_def)
qed

lemma own_issue_simps [simp]:
  "locationKey (own_issue i) = locationKey i" "si_source (own_issue i) = FromClient" "is_severity (own_issue i) = is_severity i"
  by (simp_all add: own_issue_def locationKey_def)

lemma serverIssues_source: "i \<in> set (serverIssues seq a) \<Longrightarrow> si_source i = FromServer"
  by (auto simp: serverIssues_def fromServer_def split: option.splits if_splits)

text \<open>The findings at a block: what \<open>issuesByNode\<close> keeps under its id.\<close>

lemma issuesByNode_get:
  assumes "n \<noteq> ''''"
  shows "(case ob_get (issuesByNode shown) n of Some l \<Rightarrow> l | None \<Rightarrow> []) = filter (\<lambda>i. is_nodeId i = Some n) shown"
proof -
  have "(case ob_get (fold add_to_node shown m) n of Some l \<Rightarrow> l | None \<Rightarrow> [])
      = (case ob_get m n of Some l \<Rightarrow> l | None \<Rightarrow> []) @ filter (\<lambda>i. is_nodeId i = Some n) shown" for m
  proof (induction shown arbitrary: m)
    case (Cons i shown)
    have "(case ob_get (add_to_node i m) n of Some l \<Rightarrow> l | None \<Rightarrow> [])
        = (case ob_get m n of Some l \<Rightarrow> l | None \<Rightarrow> []) @ (if is_nodeId i = Some n then [i] else [])"
      using assms by (cases "is_nodeId i") (auto simp: add_to_node_def no_empty_def ob_simps)
    then show ?case using Cons [of "add_to_node i m"] by simp
  qed simp
  from this [of "[]"] show ?thesis by (simp add: issuesByNode_def)
qed

lemma current_stays:
  assumes "analysed_ok s a told" "server_state True (fs_contentSeq s) a = ServerCurrent"
  shows "server_state True (fs_contentSeq s) (check_answered req answer a) = ServerCurrent"
proof -
  obtain v where v: "an_server a = Some v" "sv_seq v = fs_contentSeq s"
    using assms(2) by (auto simp: server_state_def split: option.splits if_splits)
  then have "an_latest a = fs_contentSeq s" using assms(1) by (simp add: analysed_ok_def)
  then show ?thesis using v by (cases answer) (auto simp: check_answered_def server_state_def Let_def)
qed

lemma shown_server: "i \<in> set (shown_issues seq compiled a) \<Longrightarrow> si_source i = FromServer \<Longrightarrow> i \<in> set (serverIssues seq a)"
  by (auto simp: shown_issues_def Let_def)

lemma shown_own:
  assumes "i \<in> set (cr_issues compiled)"
  shows "\<exists>j \<in> set (shown_issues seq compiled a). locationKey j = locationKey i"
  using assms unfolding shown_issues_def Let_def
  by (cases "locationKey i \<in> locationKey ` set (serverIssues seq a)") (auto intro: bexI [of _ "own_issue i"])

lemma shown_one_source:
  assumes "i \<in> set (shown_issues seq compiled a)" "j \<in> set (shown_issues seq compiled a)"
    and "si_source i = FromServer" "locationKey i = locationKey j"
  shows "si_source j = FromServer"
proof -
  have "locationKey j \<in> locationKey ` set (serverIssues seq a)" using shown_server [OF assms(1,3)] unfolding assms(4) [symmetric] by (rule imageI)
  then show ?thesis using assms(2) serverIssues_source unfolding shown_issues_def Let_def by auto
qed

lemma server_about:
  assumes "analysed_ok s a told" "i \<in> set (serverIssues (fs_contentSeq s) a)"
  shows "\<exists>q g errors warnings. (q, g, errors, warnings) \<in> set told \<and> logic_of g = logic_of (graph s)
    \<and> i \<in> set (fromServer errors Error @ fromServer warnings Warning)"
proof -
  obtain v where v: "an_server a = Some v" "sv_seq v = fs_contentSeq s"
      "i \<in> set (fromServer (sv_errors v) Error @ fromServer (sv_warnings v) Warning)"
    using assms(2) by (cases "an_server a") (auto simp: serverIssues_def split: if_splits)
  then obtain g where "(sv_seq v, g, sv_errors v, sv_warnings v) \<in> set told" "about s (sv_seq v, g)"
    using assms(1) by (auto simp: analysed_ok_def list_all_iff)
  then show ?thesis using v by (auto simp: about_def)
qed

text \<open>C10. Whatever the order of edits, drawings, timers and answers, the server's findings that the builder shows are
  the server's answer about the call logic of the draft as it is. Where the server found something, its findings stand
  in place of the builder's own; every other place keeps the builder's own, so no place with a finding goes blank, and each
  block carries exactly the findings shown for it. And once
  the check is current, no late answer or failure makes it less.\<close>

theorem analysis_truthful:
  assumes "canvas_ok env" and "analysed env flow s a told"
  shows "let shown = shown_issues (fs_contentSeq s) compiled a in
    (\<forall>i \<in> set shown. si_source i = FromServer \<longrightarrow>
       (\<exists>q g errors warnings. (q, g, errors, warnings) \<in> set told \<and> logic_of g = logic_of (graph s)
          \<and> i \<in> set (fromServer errors Error @ fromServer warnings Warning)))
    \<and> (\<forall>i \<in> set (cr_issues compiled). \<exists>j \<in> set shown. locationKey j = locationKey i)
    \<and> (\<forall>i \<in> set shown. \<forall>j \<in> set shown. si_source i = FromServer \<longrightarrow> locationKey i = locationKey j \<longrightarrow> si_source j = FromServer)
    \<and> (\<forall>n. n \<noteq> '''' \<longrightarrow> (case ob_get (issuesByNode shown) n of Some l \<Rightarrow> l | None \<Rightarrow> []) = filter (\<lambda>i. is_nodeId i = Some n) shown)
    \<and> (\<forall>req answer. server_state True (fs_contentSeq s) a = ServerCurrent \<longrightarrow>
         server_state True (fs_contentSeq s) (check_answered req answer a) = ServerCurrent)"
proof -
  have ok: "analysed_ok s a told" by (rule analysed_invariant [OF assms])
  show ?thesis unfolding Let_def
    using server_about [OF ok shown_server] shown_own shown_one_source current_stays [OF ok] issuesByNode_get by (intro conjI ballI impI allI) blast+
qed

text \<open>A session: the draft is drawn, the pause ends, the server is asked, the customer renames a block, the new draft
  is checked too and answered, and only then the first answer arrives.\<close>

definition sample_finding :: Issue where
  "sample_finding = \<lparr>iss_code = ''play_empty'', iss_message = ''Choose a greeting.'', iss_node_id = Some ''p'', iss_handle = None\<rparr>"

definition sample_renamed :: Store where
  "sample_renamed = perform sample_env 6 (SetLabel ''p'' ''Welcome'') (snd (contentGraph sample_store))"

definition sample_asked :: Analysis where
  "sample_asked = check_due (drawn_effect sample_renamed (check_due (drawn_effect sample_store (useFlowAnalysis (fs_contentSeq sample_store)))))"

definition sample_answers :: answers where
  "sample_answers = [(1, fst (contentGraph sample_renamed), [sample_finding], []), (0, fst (contentGraph sample_store), [], [])]"

definition sample_checked :: Analysis where
  "sample_checked = check_answered (0, fst (contentGraph sample_store)) (Some ([], []))
     (check_answered (1, fst (contentGraph sample_renamed)) (Some ([sample_finding], [])) sample_asked)"

lemma sample_seqs: "fs_contentSeq sample_store = 0" "fs_contentSeq sample_renamed = 1"
  by code_simp+

lemma sample_asked_sent: "an_sent sample_asked = [(0, fst (contentGraph sample_store)), (1, fst (contentGraph sample_renamed))]"
  by (simp add: sample_asked_def check_due_def drawn_effect_def content_effect_def useFlowAnalysis_def sample_seqs)

lemma sample_asked_session: "analysed sample_env sample_flow (snd (contentGraph sample_renamed)) sample_asked []"
  unfolding sample_asked_def sample_renamed_def
  by (intro analysed_due analysed_drawn analysed_action analysed_start) simp_all

lemma sample_checking: "analysed sample_env sample_flow (snd (contentGraph sample_renamed)) sample_checked sample_answers"
proof -
  let ?one = "check_answered (1, fst (contentGraph sample_renamed)) (Some ([sample_finding], [])) sample_asked"
  have "analysed sample_env sample_flow (snd (contentGraph sample_renamed)) ?one [(1, fst (contentGraph sample_renamed), [sample_finding], [])]"
    using analysed_answer [OF sample_asked_session, of "(1, fst (contentGraph sample_renamed))" "[sample_finding]" "[]"] by (simp add: sample_asked_sent)
  moreover have "(0, fst (contentGraph sample_store)) \<in> set (an_sent ?one)"
    by (simp add: check_answered_def sample_asked_sent sample_asked_def check_due_def drawn_effect_def content_effect_def useFlowAnalysis_def sample_seqs)
  ultimately show ?thesis unfolding sample_checked_def sample_answers_def using analysed_answer by fastforce
qed

theorem analysis_truthful_witness:
  "\<exists>q g errors warnings. (q, g, errors, warnings) \<in> set sample_answers \<and> logic_of g = logic_of (graph (snd (contentGraph sample_renamed)))
     \<and> sample_finding \<in> set errors"
proof -
  let ?s = "snd (contentGraph sample_renamed)"
  let ?i = "\<lparr>is_severity = Error, is_code = ''play_empty'', is_nodeId = Some ''p'', is_handle = None, si_source = FromServer\<rparr>"
  have "?i \<in> set (shown_issues (fs_contentSeq ?s) compiled sample_checked)" for compiled
    by (simp add: shown_issues_def serverIssues_def sample_checked_def check_answered_def sample_asked_def check_due_def drawn_effect_def
        content_effect_def useFlowAnalysis_def sample_seqs fromServer_def sample_finding_def no_empty_def Let_def)
  then have "\<exists>q g errors warnings. (q, g, errors, warnings) \<in> set sample_answers \<and> logic_of g = logic_of (graph ?s)
      \<and> ?i \<in> set (fromServer errors Error @ fromServer warnings Warning)"
    using analysis_truthful [OF sample_canvas sample_checking] unfolding Let_def by fastforce
  then have "logic_of (fst (contentGraph sample_renamed)) = logic_of (graph ?s)" by (auto simp: sample_answers_def fromServer_def)
  then show ?thesis unfolding sample_answers_def by (intro exI [of _ "1::nat"] exI [of _ "fst (contentGraph sample_renamed)"] exI) auto
qed

end
