(* ===== verification/Sip_Text.thy ===== *)
theory Sip_Text
  imports JS_Text
begin

text \<open>
  The text operations of the SIP parser (\<open>components/sip-ladder/sipUtils.ts\<close>): cutting at a character, the
  line and word splits by regular expressions, \<open>indexOf\<close> and \<open>parseInt\<close>, with the rules its proofs share.
\<close>

named_theorems sip_text

section \<open>Cutting\<close>

text \<open>\<open>indexOf(c)\<close> with the two \<open>slice\<close>s around it, and the same for \<open>lastIndexOf\<close>.\<close>

definition cut :: "char \<Rightarrow> string \<Rightarrow> (string \<times> string) option" where
  "cut c s = (if c \<in> set s then Some (takeWhile (\<lambda>x. x \<noteq> c) s, tl (dropWhile (\<lambda>x. x \<noteq> c) s)) else None)"

definition cut_last :: "char \<Rightarrow> string \<Rightarrow> (string \<times> string) option" where
  "cut_last c s = map_option (\<lambda>(b, a). (rev a, rev b)) (cut c (rev s))"

definition until_char :: "char \<Rightarrow> string \<Rightarrow> string" where
  "until_char c s = (case cut c s of Some (a, b) \<Rightarrow> a | None \<Rightarrow> s)"

definition endsWith :: "string \<Rightarrow> string \<Rightarrow> bool" where
  "endsWith s p \<longleftrightarrow> startsWith (rev s) (rev p)"

text \<open>\<open>s.indexOf(p)\<close>.\<close>

fun find_text :: "string \<Rightarrow> string \<Rightarrow> nat option" where
  "find_text p [] = (if p = [] then Some 0 else None)"
| "find_text p (c # s) = (if startsWith (c # s) p then Some 0 else map_option Suc (find_text p s))"

section \<open>Lines and words\<close>

definition CR :: char where
  "CR = CHR 0x0D"

definition LF :: char where
  "LF = CHR 0x0A"

text \<open>\<open>/\r?\n/\<close> at the beginning of a text, and \<open>split(/\r?\n/)\<close>.\<close>

definition eol :: "string \<Rightarrow> string option" where
  "eol s = (case s of [] \<Rightarrow> None
     | c # t \<Rightarrow> if c = LF then Some t else if c = CR then (case t of d # u \<Rightarrow> if d = LF then Some u else None | [] \<Rightarrow> None) else None)"

lemma eol_shorter: "eol s = Some t \<Longrightarrow> length t < length s"
  by (auto simp: eol_def split: list.splits if_splits)

function split_lines :: "string \<Rightarrow> string list" where
  "split_lines s =
     (case s of [] \<Rightarrow> [[]]
      | c # t \<Rightarrow>
          (case eol s of
             Some r \<Rightarrow> [] # split_lines r
           | None \<Rightarrow> (case split_lines t of [] \<Rightarrow> [[c]] | l # ls \<Rightarrow> (c # l) # ls)))"
  by pat_completeness auto
termination
  by (relation "measure length") (auto dest: eol_shorter)

declare split_lines.simps [simp del]

text \<open>\<open>split(/\s+/)\<close>.\<close>

function split_ws :: "string \<Rightarrow> string list" where
  "split_ws s =
     (let w = takeWhile (\<lambda>c. \<not> is_ws c) s; r = dropWhile (\<lambda>c. \<not> is_ws c) s
      in if r = [] then [w] else w # split_ws (dropWhile is_ws r))"
  by pat_completeness auto
termination
proof (relation "measure length")
  fix s :: string and w r assume r: "r = dropWhile (\<lambda>c. \<not> is_ws c) s" and a: "r \<noteq> []"
  then have "is_ws (hd r)" using hd_dropWhile by blast
  then have "length (dropWhile is_ws r) < length r"
    using a by (cases r) (auto intro: le_imp_less_Suc length_dropWhile_le)
  then show "(dropWhile is_ws r, s) \<in> measure length"
    using length_dropWhile_le [of "\<lambda>c. \<not> is_ws c" s] unfolding r by simp
qed simp

declare split_ws.simps [simp del]

text \<open>The element at an index, or the empty text: \<open>parts[i] || ''\<close>.\<close>

definition part :: "nat \<Rightarrow> string list \<Rightarrow> string" where
  "part i ps = (if i < length ps then ps ! i else '''')"

definition or_else :: "string \<Rightarrow> string \<Rightarrow> string" where
  "or_else s t = (if s = '''' then t else s)"

section \<open>Numbers\<close>

text \<open>\<open>parseInt(s, 10)\<close>; None is NaN.\<close>

definition unsigned_int :: "string \<Rightarrow> int option" where
  "unsigned_int s = (let ds = takeWhile is_digit s in if ds = '''' then None else Some (int (digits_val ds)))"

definition parseInt10 :: "string \<Rightarrow> int option" where
  "parseInt10 s =
     (case dropWhile is_ws s of
        [] \<Rightarrow> None
      | c # t \<Rightarrow>
          if c = CHR ''-'' then map_option uminus (unsigned_int t)
          else if c = CHR ''+'' then unsigned_int t
          else unsigned_int (c # t))"

definition all_digits :: "string \<Rightarrow> bool" where
  "all_digits s \<longleftrightarrow> s \<noteq> '''' \<and> list_all is_digit s"

definition is_word :: "char \<Rightarrow> bool" where
  "is_word c \<longleftrightarrow> c \<in> set ''ABCDEFGHIJKLMNOPQRSTUVWXYZabcdefghijklmnopqrstuvwxyz0123456789_''"

section \<open>Rules\<close>

lemma cut_append [sip_text]: "c \<notin> set a \<Longrightarrow> cut c (a @ c # b) = Some (a, b)"
proof -
  assume "c \<notin> set a"
  then have "takeWhile (\<lambda>x. x \<noteq> c) (a @ c # b) = a \<and> dropWhile (\<lambda>x. x \<noteq> c) (a @ c # b) = c # b" by (induction a) auto
  then show ?thesis by (simp add: cut_def)
qed

lemma cut_none [sip_text]: "c \<notin> set s \<Longrightarrow> cut c s = None"
  by (simp add: cut_def)

lemma cut_last_append [sip_text]: "c \<notin> set b \<Longrightarrow> cut_last c (a @ c # b) = Some (a, b)"
  using cut_append [of c "rev b" "rev a"] by (simp add: cut_last_def)

lemma until_char_append [sip_text]: "c \<notin> set a \<Longrightarrow> until_char c (a @ c # b) = a" "c \<notin> set a \<Longrightarrow> until_char c a = a"
  by (simp_all add: until_char_def sip_text)

lemma startsWith_iff: "startsWith s p \<longleftrightarrow> (\<exists>t. s = p @ t)"
  unfolding startsWith_def by (metis append_eq_conv_conj)

lemma startsWith_step [sip_text]: "startsWith (c # s) (d # p) \<longleftrightarrow> c = d \<and> startsWith s p" "startsWith s []" "\<not> startsWith [] (d # p)"
  by (auto simp: startsWith_iff)

text \<open>A text that cannot end in what stands before is not found there.\<close>

lemma find_text_append:
  assumes "\<And>k. k < length a \<Longrightarrow> \<not> startsWith (drop k (a @ p @ b)) p"
  shows "find_text p (a @ p @ b) = Some (length a)"
  using assms
proof (induction a)
  case Nil
  then show ?case by (cases "p @ b") (simp, metis append_Nil find_text.simps(2) list.size(3) startsWith_append)
next
  case (Cons c a)
  have "\<not> startsWith (c # a @ p @ b) p" using Cons.prems [of 0] by simp
  moreover have "find_text p (a @ p @ b) = Some (length a)"
    by (rule Cons.IH) (use Cons.prems [of "Suc k" for k] in simp)
  ultimately show ?case by simp
qed

lemma eol_plain: "LF \<notin> set l \<Longrightarrow> CR \<notin> set l \<Longrightarrow> eol (l @ CR # LF # s) = (if l = [] then Some s else None)"
  by (cases l) (auto simp: eol_def LF_def CR_def)

lemma split_lines_plain: "LF \<notin> set l \<Longrightarrow> CR \<notin> set l \<Longrightarrow> split_lines l = [l]"
proof (induction l)
  case (Cons c l)
  then have "eol (c # l) = None" by (auto simp: eol_def)
  then show ?case using Cons by (subst split_lines.simps) simp
qed (simp add: split_lines.simps)

lemma split_lines_line:
  assumes "LF \<notin> set l" "CR \<notin> set l"
  shows "split_lines (l @ CR # LF # s) = l # split_lines s"
  using assms
proof (induction l)
  case Nil
  show ?case by (subst split_lines.simps) (simp add: eol_def LF_def CR_def)
next
  case (Cons c l)
  then have "eol ((c # l) @ CR # LF # s) = None" using eol_plain [of "c # l" s] by simp
  then show ?case using Cons by (subst split_lines.simps) simp
qed

text \<open>Lines joined by line ends are split into themselves.\<close>

lemma split_join_lines:
  assumes "ls \<noteq> []" "list_all (\<lambda>l. LF \<notin> set l \<and> CR \<notin> set l) ls"
  shows "split_lines (join [CR, LF] ls) = ls"
  using assms
proof (induction ls rule: induct_list012)
  case (2 l)
  then show ?case by (simp add: split_lines_plain)
next
  case (3 l m ls)
  then show ?case by (simp add: split_lines_line)
qed simp

end
