(* ===== verification/Sip_Parse.thy ===== *)
theory Sip_Parse
  imports Sip_Text Ladder_Order JS_Numbers
begin

text \<open>
  The SIP parser (\<open>components/sip-ladder/sipUtils.ts\<close>): headers with folding and compact forms, lists of header values,
  Via, Contact, Route and authentication values, the start line, and the SDP body. A number the code parses and does
  not check may be NaN: such a field is an \<open>int option\<close> whose None is NaN, and where it may be null too, an option of it.
\<close>

section \<open>Data\<close>

record ViaInfo =
  vi_protocol :: string
  vi_transport :: string
  vi_host :: string
  vi_port :: string
  vi_branch :: string
  vi_received :: string
  vi_rport :: string
  vi_raw :: string

record ContactInfo =
  ci_displayName :: string
  ci_uri :: string
  ci_host :: string
  ci_port :: string
  ci_transport :: string
  ci_expires :: string
  ci_raw :: string

record RouteInfo =
  ri_uri :: string
  ri_host :: string
  ri_port :: string
  ri_lr :: bool
  ri_raw :: string

record AuthInfo =
  ai_scheme :: string
  ai_realm :: string
  ai_nonce :: string
  ai_algorithm :: string
  ai_qop :: string
  ai_opaque :: string
  ai_raw :: string

record CodecInfo =
  co_payloadType :: "int option"
  co_name :: string
  co_clockRate :: "int option"
  co_channels :: "int option option"
  co_fmtp :: string

record SDPMediaStream =
  ms_type :: string
  ms_port :: "int option"
  ms_protocol :: string
  ms_payloadTypes :: "int list"
  ms_codecs :: "CodecInfo list"
  ms_direction :: string
  ms_connectionAddress :: string
  ms_rtcpPort :: "int option"
  ms_rtcpMux :: bool
  ms_encryption :: string
  ms_iceUfrag :: string
  ms_icePwd :: string
  ms_candidates :: "string list"
  ms_bandwidth :: string
  ms_ptime :: "int option"
  ms_raw :: string

record SDPInfo =
  sd_version :: string
  sd_origin :: string
  sd_sessionName :: string
  sd_connectionAddress :: string
  sd_timing :: string
  sd_mediaStreams :: "SDPMediaStream list"
  sd_iceUfrag :: string
  sd_icePwd :: string
  sd_fingerprint :: string
  sd_setup :: string
  sd_raw :: string

record SIPMessageInfo =
  sm_isRequest :: bool
  sm_method :: string
  sm_requestUri :: string
  sm_statusCode :: "int option"
  sm_reasonPhrase :: string
  sm_sipVersion :: string
  sm_callId :: string
  sm_fromTag :: string
  sm_fromUri :: string
  sm_fromDisplay :: string
  sm_toTag :: string
  sm_toUri :: string
  sm_toDisplay :: string
  sm_cseq :: string
  sm_cseqMethod :: string
  sm_cseqNumber :: "int option"
  sm_maxForwards :: "int option option"
  sm_contentLength :: "int option option"
  sm_contentType :: string
  sm_vias :: "ViaInfo list"
  sm_contact :: "ContactInfo option"
  sm_recordRoutes :: "RouteInfo list"
  sm_routes :: "RouteInfo list"
  sm_authorization :: "AuthInfo option"
  sm_wwwAuthenticate :: "AuthInfo option"
  sm_proxyAuthenticate :: "AuthInfo option"
  sm_proxyAuthorization :: "AuthInfo option"
  sm_sessionExpires :: "int option"
  sm_sessionRefresher :: string
  sm_minSE :: "int option option"
  sm_userAgent :: string
  sm_server :: string
  sm_allow :: "string list"
  sm_supported :: "string list"
  sm_require :: "string list"
  sm_xCarrier :: string
  sm_pAssertedIdentity :: string
  sm_pPreferredIdentity :: string
  sm_diversion :: string
  sm_reasonHeader :: string
  sm_privacy :: string
  sm_sdp :: "SDPInfo option"
  sm_hasSDP :: bool
  sm_raw :: string
  sm_summary :: string
  sm_direction :: string

section \<open>Headers\<close>

definition compactForms :: "(string \<times> string) list" where
  "compactForms =
     [(''call-id'', ''i''), (''contact'', ''m''), (''content-encoding'', ''e''), (''content-length'', ''l''), (''content-type'', ''c''),
      (''from'', ''f''), (''subject'', ''s''), (''supported'', ''k''), (''to'', ''t''), (''via'', ''v''), (''allow-events'', ''u''),
      (''event'', ''o''), (''refer-to'', ''r'')]"

definition compactForms_all :: "(string \<times> string) list" where
  "compactForms_all = [(''via'', ''v''), (''contact'', ''m''), (''record-route'', ''''), (''route'', '''')]"

definition compact_of :: "(string \<times> string) list \<Rightarrow> string \<Rightarrow> string" where
  "compact_of forms lowerName = (case map_of forms lowerName of Some c \<Rightarrow> c | None \<Rightarrow> '''')"

definition headerName :: "string \<Rightarrow> string" where
  "headerName head = toLowerCase (trim head)"

definition names_header :: "string \<Rightarrow> string \<Rightarrow> string \<Rightarrow> bool" where
  "names_header lowerName short h \<longleftrightarrow> h = lowerName \<or> short \<noteq> '''' \<and> h = short"

definition is_folded :: "string \<Rightarrow> bool" where
  "is_folded l \<longleftrightarrow> startsWith l '' '' \<or> startsWith l [CHR 0x09]"

text \<open>A value with the continuation lines that follow it.\<close>

definition unfold_value :: "string \<Rightarrow> string list \<Rightarrow> string" where
  "unfold_value v following = foldl (\<lambda>value l. value @ '' '' @ trim l) (trim v) (takeWhile is_folded following)"

text \<open>The values of a header in the order of its lines.\<close>

fun header_values :: "string \<Rightarrow> string \<Rightarrow> string list \<Rightarrow> string list" where
  "header_values lowerName short [] = []"
| "header_values lowerName short (l # ls) =
     (case cut (CHR '':'') l of
        None \<Rightarrow> header_values lowerName short ls
      | Some (head, rest1) \<Rightarrow>
          if names_header lowerName short (headerName head)
          then unfold_value rest1 ls # header_values lowerName short ls
          else header_values lowerName short ls)"

definition getHeader :: "string \<Rightarrow> string \<Rightarrow> string" where
  "getHeader raw name =
     (let lowerName = toLowerCase name in
      case header_values lowerName (compact_of compactForms lowerName) (split_lines raw) of [] \<Rightarrow> '''' | v # vs \<Rightarrow> v)"

text \<open>The end of a value: kept when something is left of it.\<close>

definition push_value :: "string \<Rightarrow> string list \<Rightarrow> string list" where
  "push_value current rest = (if trim current = '''' then rest else trim current # rest)"

fun split_loop :: "char option \<Rightarrow> int \<Rightarrow> bool \<Rightarrow> string \<Rightarrow> string \<Rightarrow> string list" where
  "split_loop prev depth inQuote current [] = push_value current []"
| "split_loop prev depth inQuote current (ch # s) =
     (if ch = CHR 0x22 \<and> prev \<noteq> Some (CHR 0x5C) then split_loop (Some ch) depth (\<not> inQuote) (current @ [ch]) s
      else if \<not> inQuote \<and> ch = CHR ''<'' then split_loop (Some ch) (depth + 1) inQuote (current @ [ch]) s
      else if \<not> inQuote \<and> ch = CHR ''>'' then split_loop (Some ch) (depth - 1) inQuote (current @ [ch]) s
      else if \<not> inQuote \<and> depth = 0 \<and> ch = CHR '','' then push_value current (split_loop (Some ch) depth inQuote [] s)
      else split_loop (Some ch) depth inQuote (current @ [ch]) s)"

definition splitHeaderValues :: "string \<Rightarrow> string list" where
  "splitHeaderValues value = split_loop None 0 False [] value"

definition getAllHeaders :: "string \<Rightarrow> string \<Rightarrow> string list" where
  "getAllHeaders raw name =
     (let lowerName = toLowerCase name;
          vs = header_values lowerName (compact_of compactForms_all lowerName) (split_lines raw)
      in if lowerName \<noteq> ''contact'' then concat (map splitHeaderValues vs) else vs)"

section \<open>Parameters, addresses and hosts\<close>

definition until_end :: "string \<Rightarrow> string" where
  "until_end s =
     (if CHR '';'' \<in> set s then until_char (CHR '';'') s
      else if CHR '','' \<in> set s then until_char (CHR '','') s
      else until_char (CHR '' '') s)"

definition unquote :: "string \<Rightarrow> string" where
  "unquote v = (if startsWith v [CHR 0x22] \<and> endsWith v [CHR 0x22] then butlast (tl v) else v)"

definition extractParam :: "string \<Rightarrow> string \<Rightarrow> string" where
  "extractParam params name =
     (let key = toLowerCase name @ ''='' in
      case find_text key (toLowerCase params) of
        None \<Rightarrow> ''''
      | Some idx \<Rightarrow> unquote (trim (until_end (drop (idx + length key) params))))"

definition is_uri :: "string \<Rightarrow> bool" where
  "is_uri s \<longleftrightarrow> startsWith s ''sip:'' \<or> startsWith s ''sips:'' \<or> startsWith s ''tel:''"

text \<open>\<open>/<([^>]+)>/\<close>.\<close>

fun angle_bracket :: "string \<Rightarrow> string option" where
  "angle_bracket [] = None"
| "angle_bracket (c # s) =
     (case cut (CHR ''>'') s of
        Some (a, b) \<Rightarrow> if c = CHR ''<'' \<and> a \<noteq> '''' then Some a else angle_bracket s
      | None \<Rightarrow> None)"

definition extractUri :: "string \<Rightarrow> string" where
  "extractUri headerValue =
     (case angle_bracket headerValue of
        Some u \<Rightarrow> u
      | None \<Rightarrow>
          (case cut (CHR '';'') headerValue of
             Some (head, rest1) \<Rightarrow>
               if head \<noteq> '''' \<and> is_uri (trim head) then trim head else trim headerValue
           | None \<Rightarrow> trim headerValue))"

text \<open>\<open>/^"([^"]*)"[\s]*</\<close>.\<close>

definition quoted_name :: "string \<Rightarrow> string option" where
  "quoted_name s =
     (case s of
        [] \<Rightarrow> None
      | c # t \<Rightarrow>
          if c \<noteq> CHR 0x22 then None
          else (case cut (CHR 0x22) t of
                  Some (n, r) \<Rightarrow> if startsWith (dropWhile is_ws r) ''<'' then Some n else None
                | None \<Rightarrow> None))"

definition extractDisplayName :: "string \<Rightarrow> string" where
  "extractDisplayName headerValue =
     (case quoted_name headerValue of
        Some n \<Rightarrow> n
      | None \<Rightarrow>
          (case cut (CHR ''<'') headerValue of
             Some (head, rest1) \<Rightarrow>
               (let name = trim head in if name \<noteq> '''' \<and> \<not> startsWith name ''sip:'' \<and> \<not> startsWith name ''sips:'' then name else '''')
           | None \<Rightarrow> ''''))"

definition strip_prefix :: "string \<Rightarrow> string \<Rightarrow> string" where
  "strip_prefix p s = (if startsWith s p then drop (length p) s else s)"

text \<open>\<open>replace(/^sips?:/, '').replace(/^tel:/, '')\<close>.\<close>

definition strip_scheme :: "string \<Rightarrow> string" where
  "strip_scheme s = strip_prefix ''tel:'' (if startsWith s ''sips:'' then drop 5 s else strip_prefix ''sip:'' s)"

definition after_user :: "string \<Rightarrow> string" where
  "after_user s = (case cut (CHR ''@'') s of Some (u, h) \<Rightarrow> h | None \<Rightarrow> s)"

text \<open>Host and port without brackets: a port is digits after the last colon.\<close>

definition plain_host_port :: "string \<Rightarrow> string \<times> string" where
  "plain_host_port s =
     (case cut_last (CHR '':'') s of
        Some (h, p) \<Rightarrow> if all_digits p then (h, p) else (s, '''')
      | None \<Rightarrow> (s, ''''))"

definition bracketed :: "string \<Rightarrow> (string \<times> string) option" where
  "bracketed s = (if startsWith s ''['' then cut (CHR '']'') (tl s) else None)"

definition extractHostPort :: "string \<Rightarrow> string \<times> string" where
  "extractHostPort uri =
     (let cleaned = until_char (CHR '';'') (after_user (strip_scheme uri)) in
      case bracketed cleaned of
        Some (host, rest) \<Rightarrow> (host, case cut (CHR '':'') rest of Some (a, port) \<Rightarrow> port | None \<Rightarrow> '''')
      | None \<Rightarrow> plain_host_port cleaned)"

section \<open>Via\<close>

definition TRANSPORTS :: "string list" where
  "TRANSPORTS = [''UDP'', ''TCP'', ''TLS'', ''WSS'', ''WS'', ''SCTP'']"

text \<open>One of the transports, in any case, where what follows satisfies \<open>P\<close>.\<close>

definition transport_at :: "(string \<Rightarrow> bool) \<Rightarrow> string \<Rightarrow> (string \<times> string) option" where
  "transport_at P s =
     map_option (\<lambda>t. (toUpperCase (take (length t) s), drop (length t) s))
       (List.find (\<lambda>t. startsWith (fold_case s) t \<and> P (drop (length t) s)) TRANSPORTS)"

definition version_char :: "char \<Rightarrow> bool" where
  "version_char c \<longleftrightarrow> is_digit c \<or> c = CHR ''.''"

text \<open>\<open>/^(SIP\/[\d.]+)\/(UDP|TCP|TLS|WSS?|SCTP)\s+/i\<close>: protocol, transport and what follows.\<close>

definition via_protocol :: "string \<Rightarrow> (string \<times> string \<times> string) option" where
  "via_protocol raw =
     (let version = takeWhile version_char (drop 4 raw); r = dropWhile version_char (drop 4 raw) in
      if startsWith (fold_case raw) ''SIP/'' \<and> version \<noteq> '''' \<and> startsWith r ''/''
      then map_option (\<lambda>(t, rest). (take 4 raw @ version, t, dropWhile is_ws rest))
             (transport_at (\<lambda>u. u \<noteq> [] \<and> is_ws (hd u)) (tl r))
      else None)"

definition via_host_port :: "string \<Rightarrow> string \<times> string" where
  "via_host_port s =
     (if startsWith s ''[''
      then (case bracketed s of
              Some (host, rest) \<Rightarrow> (host, if startsWith rest '':'' then tl rest else '''')
            | None \<Rightarrow> (s, ''''))
      else plain_host_port s)"

definition via_rport :: "string \<Rightarrow> string" where
  "via_rport params =
     (case find_text ''rport'' (toLowerCase params) of
        None \<Rightarrow> ''''
      | Some i \<Rightarrow>
          (let rest1 = drop (i + 5) params in
           if startsWith rest1 ''='' then until_char (CHR '';'') (tl rest1) else ''present''))"

definition parseViaInfo :: "string \<Rightarrow> ViaInfo" where
  "parseViaInfo viaValue =
     (let raw = trim viaValue;
          (protocol, transport, afterProtocol) =
            (case via_protocol raw of Some m \<Rightarrow> m | None \<Rightarrow> (''SIP/2.0'', ''UDP'', raw));
          (hostPortStr, params) =
            (case cut (CHR '';'') afterProtocol of
               Some (h, p) \<Rightarrow> (trim h, CHR '';'' # p)
             | None \<Rightarrow> (trim afterProtocol, ''''));
          (host, port) = via_host_port hostPortStr
      in \<lparr>vi_protocol = protocol, vi_transport = transport, vi_host = host, vi_port = port,
          vi_branch = extractParam params ''branch'', vi_received = extractParam params ''received'',
          vi_rport = via_rport params, vi_raw = raw\<rparr>)"

section \<open>Contact, routes and authentication\<close>

text \<open>\<open>/transport=(UDP|TCP|TLS|WSS?|SCTP)/i\<close>.\<close>

fun transport_param :: "string \<Rightarrow> string" where
  "transport_param [] = ''''"
| "transport_param (c # s) =
     (case (if startsWith (fold_case (c # s)) ''TRANSPORT='' then transport_at (\<lambda>_. True) (drop 10 (c # s)) else None) of
        Some (t, rest) \<Rightarrow> t
      | None \<Rightarrow> transport_param s)"

definition parseContactInfo :: "string \<Rightarrow> ContactInfo" where
  "parseContactInfo contactValue =
     (let raw = trim contactValue in
      if raw = ''*''
      then \<lparr>ci_displayName = '''', ci_uri = ''*'', ci_host = '''', ci_port = '''', ci_transport = '''', ci_expires = '''', ci_raw = raw\<rparr>
      else let uri = extractUri raw; (host, port) = extractHostPort uri
           in \<lparr>ci_displayName = extractDisplayName raw, ci_uri = uri, ci_host = host, ci_port = port,
               ci_transport = transport_param raw, ci_expires = extractParam raw ''expires'', ci_raw = raw\<rparr>)"

definition parseRecordRoute :: "string \<Rightarrow> RouteInfo" where
  "parseRecordRoute value =
     (let raw = trim value; uri = extractUri raw; (host, port) = extractHostPort uri
      in \<lparr>ri_uri = uri, ri_host = host, ri_port = port,
          ri_lr = (has_text (toLowerCase raw) '';lr'' \<or> has_text (toLowerCase uri) '';lr''), ri_raw = raw\<rparr>)"

definition parseRoute :: "string \<Rightarrow> RouteInfo" where
  "parseRoute value =
     (let raw = trim value; uri = extractUri raw; (host, port) = extractHostPort uri
      in \<lparr>ri_uri = uri, ri_host = host, ri_port = port,
          ri_lr = (has_text (toLowerCase raw) '';lr'' \<or> has_text (toLowerCase uri) '';lr''), ri_raw = raw\<rparr>)"

definition parseAuthHeader :: "string \<Rightarrow> AuthInfo option" where
  "parseAuthHeader value =
     (if value = '''' then None
      else let raw = trim value; w = takeWhile is_word raw; r = dropWhile is_word raw;
               matched = (w \<noteq> '''' \<and> r \<noteq> '''' \<and> is_ws (hd r));
               params = (if matched then dropWhile is_ws r else raw)
           in Some \<lparr>ai_scheme = (if matched then w else ''''), ai_realm = extractParam params ''realm'',
                ai_nonce = extractParam params ''nonce'', ai_algorithm = extractParam params ''algorithm'',
                ai_qop = extractParam params ''qop'', ai_opaque = extractParam params ''opaque'', ai_raw = raw\<rparr>)"

section \<open>SDP\<close>

definition CODEC_REGISTRY :: "(int \<times> (string \<times> int \<times> int option)) list" where
  "CODEC_REGISTRY =
     [(0, (''PCMU'', 8000, Some 1)), (3, (''GSM'', 8000, Some 1)), (4, (''G723'', 8000, Some 1)),
      (5, (''DVI4'', 8000, Some 1)), (6, (''DVI4'', 16000, Some 1)), (7, (''LPC'', 8000, Some 1)),
      (8, (''PCMA'', 8000, Some 1)), (9, (''G722'', 8000, Some 1)), (10, (''L16'', 44100, Some 2)),
      (11, (''L16'', 44100, Some 1)), (12, (''QCELP'', 8000, Some 1)), (13, (''CN'', 8000, Some 1)),
      (14, (''MPA'', 90000, None)), (15, (''G728'', 8000, Some 1)), (16, (''DVI4'', 11025, Some 1)),
      (17, (''DVI4'', 22050, Some 1)), (18, (''G729'', 8000, Some 1)), (25, (''CelB'', 90000, None)),
      (26, (''JPEG'', 90000, None)), (28, (''nv'', 90000, None)), (31, (''H261'', 90000, None)), (32, (''MPV'', 90000, None)),
      (33, (''MP2T'', 90000, None)), (34, (''H263'', 90000, None)), (96, (''dynamic'', 0, None)),
      (97, (''dynamic'', 0, None)), (98, (''dynamic'', 0, None)), (99, (''dynamic'', 0, None)), (100, (''dynamic'', 0, None)),
      (101, (''telephone-event'', 8000, None)), (102, (''dynamic'', 0, None)), (103, (''dynamic'', 0, None)),
      (104, (''dynamic'', 0, None)), (105, (''dynamic'', 0, None)), (106, (''dynamic'', 0, None)),
      (107, (''dynamic'', 0, None)), (108, (''dynamic'', 0, None)), (109, (''dynamic'', 0, None))]"

definition parseSdpConnection :: "string \<Rightarrow> string" where
  "parseSdpConnection value = (let parts = split_ws value in if length parts \<ge> 3 then parts ! 2 else value)"

definition static_codec :: "int \<Rightarrow> CodecInfo" where
  "static_codec pt =
     (case map_of CODEC_REGISTRY pt of
        Some (name, clockRate, channels) \<Rightarrow>
          if name \<noteq> ''dynamic''
          then \<lparr>co_payloadType = Some pt, co_name = name, co_clockRate = Some clockRate, co_channels = map_option Some channels, co_fmtp = ''''\<rparr>
          else \<lparr>co_payloadType = Some pt, co_name = ''PT'' @ int_str pt, co_clockRate = Some 0, co_channels = None, co_fmtp = ''''\<rparr>
      | None \<Rightarrow> \<lparr>co_payloadType = Some pt, co_name = ''PT'' @ int_str pt, co_clockRate = Some 0, co_channels = None, co_fmtp = ''''\<rparr>)"

definition protocol_encryption :: "string \<Rightarrow> string" where
  "protocol_encryption protocol =
     (let u = toUpperCase protocol in
      if has_text u ''DTLS'' \<or> has_text u ''TLS'' then ''DTLS-SRTP''
      else if has_text u ''SAVPF'' \<or> has_text u ''SAVP'' then ''SRTP'' else ''none'')"

definition parseMediaLine :: "string \<Rightarrow> string \<Rightarrow> SDPMediaStream" where
  "parseMediaLine value sessionConnection =
     (let parts = split_ws value; protocol = part 2 parts;
          payloadTypes = List.map_filter parseInt10 (drop 3 parts)
      in \<lparr>ms_type = or_else (part 0 parts) ''unknown'', ms_port = parseInt10 (or_else (part 1 parts) ''0''), ms_protocol = protocol,
          ms_payloadTypes = payloadTypes, ms_codecs = map static_codec payloadTypes, ms_direction = ''sendrecv'',
          ms_connectionAddress = sessionConnection, ms_rtcpPort = None, ms_rtcpMux = False,
          ms_encryption = protocol_encryption protocol, ms_iceUfrag = '''', ms_icePwd = '''', ms_candidates = [],
          ms_bandwidth = '''', ms_ptime = None, ms_raw = ''m='' @ value\<rparr>)"

text \<open>\<open>===\<close> on numbers: NaN equals nothing.\<close>

definition same_number :: "int option \<Rightarrow> int option \<Rightarrow> bool" where
  "same_number a b \<longleftrightarrow> a \<noteq> None \<and> a = b"

text \<open>What the code does to the first codec of a payload type, where there is one.\<close>

fun update_codec :: "int option \<Rightarrow> (CodecInfo \<Rightarrow> CodecInfo) \<Rightarrow> CodecInfo list \<Rightarrow> CodecInfo list" where
  "update_codec pt f [] = []"
| "update_codec pt f (c # cs) = (if same_number (co_payloadType c) pt then f c # cs else c # update_codec pt f cs)"

definition apply_rtpmap :: "string \<Rightarrow> CodecInfo list \<Rightarrow> CodecInfo list" where
  "apply_rtpmap rtpmap codecs =
     (case cut (CHR '' '') rtpmap of
        Some (head, codecDesc) \<Rightarrow>
          if head = '''' then codecs
          else let pt = parseInt10 head; codecParts = split_on (CHR ''/'') codecDesc;
                   codecName = part 0 codecParts; clockRate = parseInt10 (or_else (part 1 codecParts) ''0'');
                   channels = (if part 2 codecParts \<noteq> '''' then Some (parseInt10 (part 2 codecParts)) else None)
               in if list_ex (\<lambda>c. same_number (co_payloadType c) pt) codecs
                  then update_codec pt (\<lambda>c. c\<lparr>co_name := codecName, co_clockRate := clockRate, co_channels := channels\<rparr>) codecs
                  else codecs @ [\<lparr>co_payloadType = pt, co_name = codecName, co_clockRate = clockRate, co_channels = channels, co_fmtp = ''''\<rparr>]
      | None \<Rightarrow> codecs)"

definition apply_fmtp :: "string \<Rightarrow> CodecInfo list \<Rightarrow> CodecInfo list" where
  "apply_fmtp fmtp codecs =
     (case cut (CHR '' '') fmtp of
        Some (head, params) \<Rightarrow> if head = '''' then codecs else update_codec (parseInt10 head) (\<lambda>c. c\<lparr>co_fmtp := params\<rparr>) codecs
      | None \<Rightarrow> codecs)"

definition apply_attribute :: "string \<Rightarrow> SDPMediaStream \<Rightarrow> SDPMediaStream" where
  "apply_attribute value m =
     (if startsWith value ''rtpmap:'' then m\<lparr>ms_codecs := apply_rtpmap (trim (drop 7 value)) (ms_codecs m)\<rparr>
      else if startsWith value ''fmtp:'' then m\<lparr>ms_codecs := apply_fmtp (trim (drop 5 value)) (ms_codecs m)\<rparr>
      else if value = ''sendrecv'' \<or> value = ''sendonly'' \<or> value = ''recvonly'' \<or> value = ''inactive'' then m\<lparr>ms_direction := value\<rparr>
      else if startsWith value ''rtcp:''
      then (case parseInt10 (part 0 (split_ws (trim (drop 5 value)))) of Some p \<Rightarrow> m\<lparr>ms_rtcpPort := Some p\<rparr> | None \<Rightarrow> m)
      else if value = ''rtcp-mux'' then m\<lparr>ms_rtcpMux := True\<rparr>
      else if startsWith value ''ice-ufrag:'' then m\<lparr>ms_iceUfrag := trim (drop 10 value)\<rparr>
      else if startsWith value ''ice-pwd:'' then m\<lparr>ms_icePwd := trim (drop 8 value)\<rparr>
      else if startsWith value ''candidate:'' then m\<lparr>ms_candidates := ms_candidates m @ [value]\<rparr>
      else if startsWith value ''crypto:'' then (if ms_encryption m = ''none'' then m\<lparr>ms_encryption := ''SRTP''\<rparr> else m)
      else if startsWith value ''fingerprint:'' then m\<lparr>ms_encryption := ''DTLS-SRTP''\<rparr>
      else if startsWith value ''ptime:''
      then (case parseInt10 (trim (drop 6 value)) of Some p \<Rightarrow> m\<lparr>ms_ptime := Some p\<rparr> | None \<Rightarrow> m)
      else m)"

definition applyMediaAttribute :: "SDPMediaStream \<Rightarrow> char \<Rightarrow> string \<Rightarrow> SDPMediaStream" where
  "applyMediaAttribute m type value =
     (if type = CHR ''c'' then m\<lparr>ms_connectionAddress := parseSdpConnection value\<rparr>
      else if type = CHR ''b'' then m\<lparr>ms_bandwidth := value\<rparr>
      else if type = CHR ''a'' then apply_attribute value m
      else m)"

definition session_attribute :: "char \<Rightarrow> string \<Rightarrow> SDPInfo \<Rightarrow> SDPInfo" where
  "session_attribute type value s =
     (if type = CHR ''v'' then s\<lparr>sd_version := value\<rparr>
      else if type = CHR ''o'' then s\<lparr>sd_origin := value\<rparr>
      else if type = CHR ''s'' then s\<lparr>sd_sessionName := value\<rparr>
      else if type = CHR ''c'' then s\<lparr>sd_connectionAddress := parseSdpConnection value\<rparr>
      else if type = CHR ''t'' then s\<lparr>sd_timing := value\<rparr>
      else if type = CHR ''a''
      then (if startsWith value ''ice-ufrag:'' then s\<lparr>sd_iceUfrag := trim (drop 10 value)\<rparr>
            else if startsWith value ''ice-pwd:'' then s\<lparr>sd_icePwd := trim (drop 8 value)\<rparr>
            else if startsWith value ''fingerprint:'' then s\<lparr>sd_fingerprint := trim (drop 12 value)\<rparr>
            else if startsWith value ''setup:'' then s\<lparr>sd_setup := trim (drop 6 value)\<rparr>
            else s)
      else s)"

text \<open>One line: the session read so far, with its finished streams, and the stream at work.\<close>

definition sdp_line :: "string \<Rightarrow> SDPInfo \<times> SDPMediaStream option \<Rightarrow> SDPInfo \<times> SDPMediaStream option" where
  "sdp_line line st =
     (let (s, current) = st; type = hd line; value = drop 2 line in
      if type = CHR ''m''
      then (case current of Some m \<Rightarrow> s\<lparr>sd_mediaStreams := sd_mediaStreams s @ [m]\<rparr> | None \<Rightarrow> s,
            Some (parseMediaLine value (sd_connectionAddress s)))
      else case current of
             Some m \<Rightarrow> (s, Some (applyMediaAttribute m type value))
           | None \<Rightarrow> (session_attribute type value s, None))"

definition inherit_session :: "SDPInfo \<Rightarrow> SDPMediaStream \<Rightarrow> SDPMediaStream" where
  "inherit_session s m =
     m\<lparr>ms_iceUfrag := or_else (ms_iceUfrag m) (sd_iceUfrag s), ms_icePwd := or_else (ms_icePwd m) (sd_icePwd s),
       ms_connectionAddress := or_else (ms_connectionAddress m) (sd_connectionAddress s)\<rparr>"

definition empty_sdp :: "string \<Rightarrow> SDPInfo" where
  "empty_sdp raw = \<lparr>sd_version = '''', sd_origin = '''', sd_sessionName = '''', sd_connectionAddress = '''', sd_timing = '''',
     sd_mediaStreams = [], sd_iceUfrag = '''', sd_icePwd = '''', sd_fingerprint = '''', sd_setup = '''', sd_raw = raw\<rparr>"

definition sdp_lines :: "string \<Rightarrow> string list" where
  "sdp_lines sdpText = filter (\<lambda>l. trim l \<noteq> '''') (split_lines sdpText)"

definition extractSDPInfo :: "string \<Rightarrow> SDPInfo" where
  "extractSDPInfo sdpText =
     (let (s, current) = fold sdp_line (sdp_lines sdpText) (empty_sdp sdpText, None);
          streams = sd_mediaStreams s @ (case current of Some m \<Rightarrow> [m] | None \<Rightarrow> [])
      in s\<lparr>sd_mediaStreams := map (inherit_session s) streams\<rparr>)"

section \<open>Messages\<close>

definition reason_phrases :: "(int \<times> string) list" where
  "reason_phrases =
     [(100, ''Trying''), (180, ''Ringing''), (181, ''Call Is Being Forwarded''), (182, ''Queued''),
      (183, ''Session Progress''), (199, ''Early Dialog Terminated''), (200, ''OK''), (202, ''Accepted''),
      (204, ''No Notification''), (300, ''Multiple Choices''), (301, ''Moved Permanently''), (302, ''Moved Temporarily''),
      (305, ''Use Proxy''), (380, ''Alternative Service''), (400, ''Bad Request''), (401, ''Unauthorized''),
      (402, ''Payment Required''), (403, ''Forbidden''), (404, ''Not Found''), (405, ''Method Not Allowed''),
      (406, ''Not Acceptable''), (407, ''Proxy Authentication Required''), (408, ''Request Timeout''), (410, ''Gone''),
      (412, ''Conditional Request Failed''), (413, ''Request Entity Too Large''), (414, ''Request-URI Too Long''),
      (415, ''Unsupported Media Type''), (416, ''Unsupported URI Scheme''), (417, ''Unknown Resource-Priority''),
      (420, ''Bad Extension''), (421, ''Extension Required''), (422, ''Session Interval Too Small''),
      (423, ''Interval Too Brief''), (424, ''Bad Location Information''), (428, ''Use Identity Header''),
      (429, ''Provide Referrer Identity''), (430, ''Flow Failed''), (433, ''Anonymity Disallowed''),
      (436, ''Bad Identity-Info''), (437, ''Unsupported Certificate''), (438, ''Invalid Identity Header''),
      (439, ''First Hop Lacks Outbound Support''), (440, ''Max-Breadth Exceeded''), (469, ''Bad Info Package''),
      (470, ''Consent Needed''), (480, ''Temporarily Unavailable''), (481, ''Call/Transaction Does Not Exist''),
      (482, ''Loop Detected''), (483, ''Too Many Hops''), (484, ''Address Incomplete''), (485, ''Ambiguous''),
      (486, ''Busy Here''), (487, ''Request Terminated''), (488, ''Not Acceptable Here''), (489, ''Bad Event''),
      (491, ''Request Pending''), (493, ''Undecipherable''), (494, ''Security Agreement Required''),
      (500, ''Server Internal Error''), (501, ''Not Implemented''), (502, ''Bad Gateway''), (503, ''Service Unavailable''),
      (504, ''Server Time-out''), (505, ''Version Not Supported''), (513, ''Message Too Large''),
      (555, ''Push Notification Service Not Supported''), (580, ''Precondition Failure''), (600, ''Busy Everywhere''),
      (603, ''Decline''), (604, ''Does Not Exist Anywhere''), (606, ''Not Acceptable''), (607, ''Unwanted''),
      (608, ''Rejected'')]"

definition getDefaultReasonPhrase :: "int \<Rightarrow> string" where
  "getDefaultReasonPhrase code = (case map_of reason_phrases code of Some p \<Rightarrow> p | None \<Rightarrow> ''Unknown'')"

definition generateSummary :: "bool \<Rightarrow> string \<Rightarrow> int option \<Rightarrow> string \<Rightarrow> string \<Rightarrow> string" where
  "generateSummary isRequest method statusCode reasonPhrase cseqMethod =
     (if isRequest then method
      else case statusCode of
             Some code \<Rightarrow> int_str code @ '' '' @ or_else reasonPhrase (getDefaultReasonPhrase code) @ '' ('' @ cseqMethod @ '')''
           | None \<Rightarrow> ''Unknown'')"

text \<open>The start line: request or not, method, request URI, status, reason and version.\<close>

record StartLine =
  sl_isRequest :: bool
  sl_method :: string
  sl_requestUri :: string
  sl_statusCode :: "int option"
  sl_reasonPhrase :: string
  sl_sipVersion :: string

text \<open>\<open>/^(SIP\/[\d.]+)/\<close>: the version and what follows.\<close>

definition version_at :: "string \<Rightarrow> (string \<times> string) option" where
  "version_at s =
     (let v = takeWhile version_char (drop 4 s) in
      if startsWith s ''SIP/'' \<and> v \<noteq> '''' then Some (''SIP/'' @ v, dropWhile version_char (drop 4 s)) else None)"

text \<open>\<open>/^(SIP\/[\d.]+)\s+(\d{3})\s*(.*)/\<close>.\<close>

definition responseMatch :: "string \<Rightarrow> (string \<times> string \<times> string) option" where
  "responseMatch firstLine =
     (case version_at firstLine of
        Some (v, r) \<Rightarrow>
          (let t = dropWhile is_ws r; code = take 3 t in
           if r \<noteq> '''' \<and> is_ws (hd r) \<and> length code = 3 \<and> list_all is_digit code
           then Some (v, code, takeWhile (\<lambda>c. c \<noteq> CR \<and> c \<noteq> LF) (dropWhile is_ws (drop 3 t)))
           else None)
      | None \<Rightarrow> None)"

text \<open>\<open>/^(\w+)\s+(\S+)\s+(SIP\/[\d.]+)/\<close>.\<close>

definition requestMatch :: "string \<Rightarrow> (string \<times> string \<times> string) option" where
  "requestMatch firstLine =
     (let w = takeWhile is_word firstLine; r = dropWhile is_word firstLine; t = dropWhile is_ws r;
          u = takeWhile (\<lambda>c. \<not> is_ws c) t; x = dropWhile (\<lambda>c. \<not> is_ws c) t
      in if w \<noteq> '''' \<and> r \<noteq> '''' \<and> is_ws (hd r) \<and> u \<noteq> '''' \<and> x \<noteq> ''''
         then map_option (\<lambda>(v, _). (w, u, v)) (version_at (dropWhile is_ws x))
         else None)"

definition start_line :: "string \<Rightarrow> StartLine" where
  "start_line firstLine =
     (case responseMatch firstLine of
        Some (v, code, reason) \<Rightarrow>
          (let status = int (digits_val code) in
           \<lparr>sl_isRequest = False, sl_method = '''', sl_requestUri = '''', sl_statusCode = Some status,
            sl_reasonPhrase = or_else reason (getDefaultReasonPhrase status), sl_sipVersion = v\<rparr>)
      | None \<Rightarrow>
          (case requestMatch firstLine of
             Some (w, uri, v) \<Rightarrow>
               \<lparr>sl_isRequest = True, sl_method = toUpperCase w, sl_requestUri = uri, sl_statusCode = None, sl_reasonPhrase = '''',
                sl_sipVersion = v\<rparr>
           | None \<Rightarrow>
               (let parts = split_ws firstLine in
                if startsWith firstLine ''SIP/''
                then \<lparr>sl_isRequest = False, sl_method = '''', sl_requestUri = '''',
                      sl_statusCode = (case parseInt10 (or_else (part 1 parts) ''0'') of Some n \<Rightarrow> if n = 0 then None else Some n | None \<Rightarrow> None),
                      sl_reasonPhrase = join '' '' (drop 2 parts), sl_sipVersion = or_else (part 0 parts) ''SIP/2.0''\<rparr>
                else \<lparr>sl_isRequest = True, sl_method = toUpperCase (part 0 parts), sl_requestUri = part 1 parts, sl_statusCode = None,
                      sl_reasonPhrase = '''', sl_sipVersion = or_else (part 2 parts) ''SIP/2.0''\<rparr>)))"

text \<open>The blank line \<open>/\r?\n\r?\n/\<close>: what stands before the first one and after it.\<close>

fun split_body :: "string \<Rightarrow> (string \<times> string) option" where
  "split_body [] = None"
| "split_body (c # s) =
     (case Option.bind (eol (c # s)) eol of
        Some body \<Rightarrow> Some ([], body)
      | None \<Rightarrow> map_option (\<lambda>(h, b). (c # h, b)) (split_body s))"

definition comma_list :: "string \<Rightarrow> string list" where
  "comma_list header = (if header = '''' then [] else filter (\<lambda>s. s \<noteq> '''') (map trim (split_on (CHR '','') header)))"

definition int_or_null :: "string \<Rightarrow> int option option" where
  "int_or_null s = (if s = '''' then None else Some (parseInt10 s))"

definition createEmptySIPInfo :: "string \<Rightarrow> SIPMessageInfo" where
  "createEmptySIPInfo raw =
     \<lparr>sm_isRequest = False, sm_method = '''', sm_requestUri = '''', sm_statusCode = None, sm_reasonPhrase = '''', sm_sipVersion = '''',
      sm_callId = '''', sm_fromTag = '''', sm_fromUri = '''', sm_fromDisplay = '''', sm_toTag = '''', sm_toUri = '''', sm_toDisplay = '''',
      sm_cseq = '''', sm_cseqMethod = '''', sm_cseqNumber = Some 0, sm_maxForwards = None, sm_contentLength = None, sm_contentType = '''',
      sm_vias = [], sm_contact = None, sm_recordRoutes = [], sm_routes = [], sm_authorization = None, sm_wwwAuthenticate = None,
      sm_proxyAuthenticate = None, sm_proxyAuthorization = None, sm_sessionExpires = None, sm_sessionRefresher = '''', sm_minSE = None,
      sm_userAgent = '''', sm_server = '''', sm_allow = [], sm_supported = [], sm_require = [], sm_xCarrier = '''',
      sm_pAssertedIdentity = '''', sm_pPreferredIdentity = '''', sm_diversion = '''', sm_reasonHeader = '''', sm_privacy = '''',
      sm_sdp = None, sm_hasSDP = False, sm_raw = raw, sm_summary = '''', sm_direction = ''request''\<rparr>"

definition extractSIPInfo :: "string \<Rightarrow> SIPMessageInfo" where
  "extractSIPInfo rawMessage =
     (let raw = trim rawMessage in
      if raw = '''' then createEmptySIPInfo raw
      else let
        (headerSection, bodySection) = (case split_body raw of Some hb \<Rightarrow> hb | None \<Rightarrow> (raw, ''''));
        sl = start_line (part 0 (split_lines headerSection));
        header = getHeader raw;
        fromHeader = header ''From''; toHeader = header ''To''; cseqHeader = header ''CSeq''; contentType = header ''Content-Type'';
        cseqParts = split_ws (trim cseqHeader);
        cseqMethod = toUpperCase (or_else (part 1 cseqParts) (sl_method sl));
        method = (if \<not> sl_isRequest sl \<and> sl_method sl = '''' then cseqMethod else sl_method sl);
        contactValue = header ''Contact'';
        sessionExpiresHeader = header ''Session-Expires''; minSEHeader = header ''Min-SE'';
        hasSDP = (trim bodySection \<noteq> '''' \<and> (has_text (toLowerCase contentType) ''application/sdp'' \<or> has_text bodySection ''v=0''))
      in
        \<lparr>sm_isRequest = sl_isRequest sl, sm_method = method, sm_requestUri = sl_requestUri sl, sm_statusCode = sl_statusCode sl,
         sm_reasonPhrase = sl_reasonPhrase sl, sm_sipVersion = sl_sipVersion sl, sm_callId = header ''Call-ID'',
         sm_fromTag = extractParam fromHeader ''tag'', sm_fromUri = extractUri fromHeader, sm_fromDisplay = extractDisplayName fromHeader,
         sm_toTag = extractParam toHeader ''tag'', sm_toUri = extractUri toHeader, sm_toDisplay = extractDisplayName toHeader,
         sm_cseq = cseqHeader, sm_cseqMethod = cseqMethod, sm_cseqNumber = parseInt10 (or_else (part 0 cseqParts) ''0''),
         sm_maxForwards = int_or_null (header ''Max-Forwards''), sm_contentLength = int_or_null (header ''Content-Length''),
         sm_contentType = contentType, sm_vias = map parseViaInfo (getAllHeaders raw ''Via''),
         sm_contact = (if contactValue = '''' then None else Some (parseContactInfo contactValue)),
         sm_recordRoutes = map parseRecordRoute (getAllHeaders raw ''Record-Route''), sm_routes = map parseRoute (getAllHeaders raw ''Route''),
         sm_authorization = parseAuthHeader (header ''Authorization''), sm_wwwAuthenticate = parseAuthHeader (header ''WWW-Authenticate''),
         sm_proxyAuthenticate = parseAuthHeader (header ''Proxy-Authenticate''),
         sm_proxyAuthorization = parseAuthHeader (header ''Proxy-Authorization''),
         sm_sessionExpires = (if sessionExpiresHeader = '''' then None else parseInt10 (trim (part 0 (split_on (CHR '';'') sessionExpiresHeader)))),
         sm_sessionRefresher = (if sessionExpiresHeader = '''' then '''' else extractParam sessionExpiresHeader ''refresher''),
         sm_minSE = (if minSEHeader = '''' then None else Some (parseInt10 (trim minSEHeader))),
         sm_userAgent = header ''User-Agent'', sm_server = header ''Server'', sm_allow = comma_list (header ''Allow''),
         sm_supported = comma_list (header ''Supported''), sm_require = comma_list (header ''Require''), sm_xCarrier = header ''X-Carrier'',
         sm_pAssertedIdentity = header ''P-Asserted-Identity'', sm_pPreferredIdentity = header ''P-Preferred-Identity'',
         sm_diversion = header ''Diversion'', sm_reasonHeader = header ''Reason'', sm_privacy = header ''Privacy'',
         sm_sdp = (if hasSDP then Some (extractSDPInfo bodySection) else None), sm_hasSDP = hasSDP, sm_raw = raw,
         sm_summary = generateSummary (sl_isRequest sl) method (sl_statusCode sl) (sl_reasonPhrase sl) cseqMethod,
         sm_direction = (if sl_isRequest sl then ''request'' else ''response'')\<rparr>)"

end
