(* ===== verification/Sip_Props.thy ===== *)
theory Sip_Props
  imports Sip_Parse
begin

text \<open>
  The SIP parser reads back what a message says: headers by full or compact name and across folded lines, lists of
  values, the chain of Via headers, and the media streams of an SDP body.
\<close>

section \<open>Messages as fields\<close>

text \<open>A field is a name and its value in pieces, one for each line it is folded over. The fields end with the
  message or with the blank line before a body.\<close>

type_synonym field = "string \<times> string list"

definition field_lines :: "field \<Rightarrow> string list" where
  "field_lines f = (case snd f of [] \<Rightarrow> [fst f @ '': ''] | p # ps \<Rightarrow> (fst f @ '': '' @ p) # map (Cons (CHR '' '')) ps)"

definition message_lines :: "string \<Rightarrow> field list \<Rightarrow> string list \<Rightarrow> string list" where
  "message_lines start fs body = start # concat (map field_lines fs) @ body"

definition message_text :: "string \<Rightarrow> field list \<Rightarrow> string list \<Rightarrow> string" where
  "message_text start fs body = join [CR, LF] (message_lines start fs body)"

definition field_value :: "field \<Rightarrow> string" where
  "field_value f = join '' '' (snd f)"

definition field_named :: "string \<Rightarrow> string \<Rightarrow> field \<Rightarrow> bool" where
  "field_named lowerName short f \<longleftrightarrow> names_header lowerName short (headerName (fst f))"

text \<open>A line that does not begin the header asked for.\<close>

definition other_line :: "string \<Rightarrow> string \<Rightarrow> string \<Rightarrow> bool" where
  "other_line lowerName short l \<longleftrightarrow>
     (case cut (CHR '':'') l of Some (h, v) \<Rightarrow> \<not> names_header lowerName short (headerName h) | None \<Rightarrow> True)"

definition one_line :: "string \<Rightarrow> bool" where
  "one_line l \<longleftrightarrow> LF \<notin> set l \<and> CR \<notin> set l"

definition field_ok :: "string \<Rightarrow> string \<Rightarrow> field \<Rightarrow> bool" where
  "field_ok lowerName short f \<longleftrightarrow>
     fst f \<noteq> [] \<and> \<not> is_ws (hd (fst f)) \<and> CHR '':'' \<notin> set (fst f) \<and> one_line (fst f)
     \<and> snd f \<noteq> [] \<and> list_all (\<lambda>p. trim p = p \<and> one_line p) (snd f)
     \<and> list_all (\<lambda>p. other_line lowerName short (CHR '' '' # p)) (tl (snd f))"

definition message_ok :: "string \<Rightarrow> string \<Rightarrow> string \<Rightarrow> field list \<Rightarrow> string list \<Rightarrow> bool" where
  "message_ok lowerName short start fs body \<longleftrightarrow>
     one_line start \<and> other_line lowerName short start \<and> list_all (field_ok lowerName short) fs
     \<and> (body = [] \<or> hd body = []) \<and> list_all (\<lambda>l. one_line l \<and> other_line lowerName short l) body"

lemma other_line_skip: "list_all (other_line n short) ls \<Longrightarrow> header_values n short (ls @ r) = header_values n short r"
  by (induction ls) (auto simp: other_line_def split: option.splits)

lemma is_folded_blank [simp]: "is_folded (CHR '' '' # l)" "\<not> is_folded []"
  by (simp_all add: is_folded_def sip_text)

lemma not_folded: "l \<noteq> [] \<Longrightarrow> \<not> is_ws (hd l) \<Longrightarrow> \<not> is_folded (l @ r)"
  by (cases l) (auto simp: is_folded_def is_ws_def sip_text)

lemma trim_blank [simp]: "trim (CHR '' '' # l) = trim l"
  by (simp add: trim_def is_ws_def)

lemma unfold_pieces:
  assumes "list_all (\<lambda>p. trim p = p) ps" "r = [] \<or> \<not> is_folded (hd r)"
  shows "foldl (\<lambda>value l. value @ '' '' @ trim l) v (takeWhile is_folded (map (Cons (CHR '' '')) ps @ r)) = join '' '' (v # ps)"
  using assms(1)
proof (induction ps arbitrary: v)
  case Nil
  then show ?case using assms(2) by (cases r) auto
next
  case (Cons p ps)
  then show ?case using Cons.IH [of "v @ CHR '' '' # p"] by (cases ps) auto
qed

lemma unfold_field:
  assumes "list_all (\<lambda>p. trim p = p) (p # ps)" "r = [] \<or> \<not> is_folded (hd r)"
  shows "unfold_value (CHR '' '' # p) (map (Cons (CHR '' '')) ps @ r) = join '' '' (p # ps)"
  using unfold_pieces [of ps r p] assms by (simp add: unfold_value_def)

lemma field_read:
  assumes "field_ok n short f" "r = [] \<or> \<not> is_folded (hd r)"
  shows "header_values n short (field_lines f @ r)
    = (if field_named n short f then [field_value f] else []) @ header_values n short r"
proof -
  obtain nm p ps where f: "f = (nm, p # ps)" using assms(1) by (cases f; cases "snd f") (auto simp: field_ok_def)
  have rest: "header_values n short (map (Cons (CHR '' '')) ps @ r) = header_values n short r"
    by (rule other_line_skip) (use assms(1) f in \<open>simp add: field_ok_def list_all_iff\<close>)
  have "cut (CHR '':'') (nm @ '': '' @ p) = Some (nm, CHR '' '' # p)"
    using assms(1) cut_append [of "CHR '':''" nm "CHR '' '' # p"] by (simp add: f field_ok_def)
  moreover have "unfold_value (CHR '' '' # p) (map (Cons (CHR '' '')) ps @ r) = field_value f"
    unfolding f field_value_def snd_conv
    by (rule unfold_field) (use assms f in \<open>auto simp: field_ok_def list_all_iff\<close>)
  ultimately show ?thesis using rest by (simp add: f field_lines_def field_named_def)
qed

lemma fields_read:
  assumes "list_all (field_ok n short) fs" "r = [] \<or> \<not> is_folded (hd r)"
  shows "header_values n short (concat (map field_lines fs) @ r)
    = map field_value (filter (field_named n short) fs) @ header_values n short r"
  using assms(1)
proof (induction fs)
  case (Cons f fs)
  let ?r = "concat (map field_lines fs) @ r"
  have "?r = [] \<or> \<not> is_folded (hd ?r)"
  proof (cases fs)
    case (Cons g gs)
    then have "field_ok n short g" using Cons.prems Cons by simp
    then have "fst g \<noteq> []" "\<not> is_ws (hd (fst g))" by (simp_all add: field_ok_def)
    then show ?thesis using not_folded by (auto simp: Cons field_lines_def split: list.splits)
  qed (use assms(2) in simp)
  then show ?case using Cons field_read [of n short f ?r] by simp
qed simp

lemma message_values:
  assumes "message_ok n short start fs body"
  shows "header_values n short (split_lines (message_text start fs body)) = map field_value (filter (field_named n short) fs)"
proof -
  have lines: "list_all one_line (field_lines f)" if "field_ok n short f" for f
    using that by (cases "snd f") (auto simp: field_ok_def field_lines_def one_line_def list_all_iff LF_def CR_def)
  have "list_all one_line (message_lines start fs body)"
    using assms lines by (force simp: message_ok_def message_lines_def list_all_iff one_line_def)
  then have "split_lines (message_text start fs body) = message_lines start fs body"
    unfolding message_text_def by (intro split_join_lines) (simp_all add: message_lines_def one_line_def [abs_def])
  moreover have "header_values n short (start # r) = header_values n short r" for r
    using assms other_line_skip [of n short "[start]" r] by (simp add: message_ok_def)
  moreover have "header_values n short body = []"
    using assms other_line_skip [of n short body "[]"] by (simp add: message_ok_def list_all_iff)
  moreover have "body = [] \<or> \<not> is_folded (hd body)" using assms by (auto simp: message_ok_def)
  ultimately show ?thesis using assms fields_read [of n short fs body] by (simp add: message_lines_def message_ok_def)
qed

section \<open>Lists of values\<close>

text \<open>A value with its quotes and angle brackets closed and no comma outside them.\<close>

fun closed_value :: "char option \<Rightarrow> int \<Rightarrow> bool \<Rightarrow> string \<Rightarrow> bool" where
  "closed_value prev depth inQuote [] \<longleftrightarrow> depth = 0 \<and> \<not> inQuote"
| "closed_value prev depth inQuote (ch # s) \<longleftrightarrow>
     (if ch = CHR 0x22 \<and> prev \<noteq> Some (CHR 0x5C) then closed_value (Some ch) depth (\<not> inQuote) s
      else if \<not> inQuote \<and> ch = CHR ''<'' then closed_value (Some ch) (depth + 1) inQuote s
      else if \<not> inQuote \<and> ch = CHR ''>'' then closed_value (Some ch) (depth - 1) inQuote s
      else if \<not> inQuote \<and> depth = 0 \<and> ch = CHR '','' then False
      else closed_value (Some ch) depth inQuote s)"

definition list_value :: "string \<Rightarrow> bool" where
  "list_value v \<longleftrightarrow> v \<noteq> '''' \<and> trim v = v \<and> closed_value None 0 False v"

lemma closed_prev: "prev \<noteq> Some (CHR 0x5C) \<Longrightarrow> closed_value prev d q v = closed_value None d q v"
  by (cases v) simp_all

lemma split_closed:
  "closed_value prev d q v \<Longrightarrow> \<exists>prev'. split_loop prev d q cur (v @ s) = split_loop prev' 0 False (cur @ v) s"
proof (induction v arbitrary: prev d q cur)
  case (Cons ch v)
  have "\<exists>prev'. split_loop (Some ch) d' q' (cur @ [ch]) (v @ s) = split_loop prev' 0 False (cur @ ch # v) s"
    if "closed_value (Some ch) d' q' v" for d' q'
    using Cons.IH [OF that, of "cur @ [ch]"] by simp
  then show ?case using Cons.prems by (cases q) (auto split: if_splits)
qed auto

lemma split_values:
  assumes "list_all list_value vs" "vs \<noteq> []" "prev \<noteq> Some (CHR 0x5C)" "cur = [] \<or> cur = '' ''"
  shows "split_loop prev 0 False cur (join '', '' vs) = vs"
  using assms
proof (induction vs arbitrary: prev cur rule: induct_list012)
  case (2 v)
  then have "closed_value prev 0 False v" "trim (cur @ v) = v" "v \<noteq> []"
    using closed_prev [of prev 0 False v] by (auto simp: list_value_def)
  with split_closed [of prev 0 False v cur "[]"] show ?case by (auto simp: push_value_def)
next
  case (3 v w vs)
  let ?r = "join '', '' (w # vs)"
  have v: "v \<noteq> []" "trim (cur @ v) = v" "closed_value prev 0 False v" 
    using "3.prems" closed_prev [of prev 0 False v] by (auto simp: list_value_def)
  obtain prev' where "split_loop prev 0 False cur (v @ CHR '','' # CHR '' '' # ?r) = split_loop prev' 0 False (cur @ v) (CHR '','' # CHR '' '' # ?r)"
    using split_closed [OF v(3)] by blast
  also have "\<dots> = v # split_loop (Some (CHR '' '')) 0 False '' '' ?r" using v(1,2) by (simp add: push_value_def)
  also have "split_loop (Some (CHR '' '')) 0 False '' '' ?r = w # vs" using "3.prems"(1) by (intro 3(2)) simp_all
  finally show ?case by simp
qed simp

lemma splitHeaderValues_join: "list_all list_value vs \<Longrightarrow> splitHeaderValues (join '', '' vs) = vs"
  by (cases vs) (simp_all add: splitHeaderValues_def split_values push_value_def trim_def)

section \<open>Via\<close>

text \<open>A Via as proxies write it; \<open>rport\<close> may be a flag without a value, and a host with a colon is in brackets.\<close>

record Via =
  v_transport :: string
  v_host :: string
  v_port :: string
  v_rport :: "string option"
  v_branch :: string
  v_received :: "string option"

definition host_text :: "string \<Rightarrow> string" where
  "host_text h = (if CHR '':'' \<in> set h then ''['' @ h @ '']'' else h)"

definition via_params :: "Via \<Rightarrow> string" where
  "via_params v =
     '';rport'' @ (case v_rport v of Some p \<Rightarrow> ''='' @ p | None \<Rightarrow> '''') @ '';branch='' @ v_branch v
     @ (case v_received v of Some r \<Rightarrow> '';received='' @ r | None \<Rightarrow> '''')"

definition via_text :: "Via \<Rightarrow> string" where
  "via_text v = ''SIP/2.0/'' @ v_transport v @ '' '' @ host_text (v_host v) @ '':'' @ v_port v @ via_params v"

definition via_info :: "Via \<Rightarrow> ViaInfo" where
  "via_info v =
     \<lparr>vi_protocol = ''SIP/2.0'', vi_transport = v_transport v, vi_host = v_host v, vi_port = v_port v, vi_branch = v_branch v,
      vi_received = (case v_received v of Some r \<Rightarrow> r | None \<Rightarrow> ''''),
      vi_rport = (case v_rport v of Some p \<Rightarrow> p | None \<Rightarrow> ''present''), vi_raw = via_text v\<rparr>"

definition token_char :: "char \<Rightarrow> bool" where
  "token_char c \<longleftrightarrow> is_word c \<or> c \<in> set ''.-:''"

definition token :: "string \<Rightarrow> bool" where
  "token s \<longleftrightarrow> s \<noteq> '''' \<and> list_all token_char s"

definition via_ok :: "Via \<Rightarrow> bool" where
  "via_ok v \<longleftrightarrow> v_transport v \<in> set TRANSPORTS \<and> token (v_host v) \<and> all_digits (v_port v) \<and> pred_option all_digits (v_rport v)
     \<and> token (v_branch v) \<and> pred_option token (v_received v)"

text \<open>What the parser gives a meaning to is not in a token, in any case of letters.\<close>

lemma token_char_plain:
  "token_char c \<Longrightarrow> c \<notin> set [CHR ''='', CHR '';'', CHR '','', CHR '' '', CHR 0x22, CHR ''<'', CHR ''>'', CHR ''['', CHR '']''] \<and> \<not> is_ws c"
  by (auto simp: token_char_def is_word_def is_ws_def)

lemma lower_token: "token_char c \<Longrightarrow> lower_char c \<noteq> CHR ''=''"
  by (auto simp: token_char_def is_word_def lower_char_def char_of_eq_iff)

lemma digit_token: "is_digit c \<Longrightarrow> token_char c \<and> c \<noteq> CHR '':''"
  by (auto simp: is_digit_def token_char_def is_word_def)

lemma tokens:
  assumes "token s"
  shows "CHR ''='' \<notin> set s" "CHR '';'' \<notin> set s" "CHR '','' \<notin> set s" "CHR '' '' \<notin> set s" "CHR 0x22 \<notin> set s"
    "CHR ''<'' \<notin> set s" "CHR ''>'' \<notin> set s" "CHR '']'' \<notin> set s" "CHR ''['' \<notin> set s" "\<forall>c \<in> set s. \<not> is_ws c" "s \<noteq> []"
    "CHR ''='' \<notin> set (toLowerCase s)"
  using assms token_char_plain lower_token unfolding token_def list_all_iff toLowerCase_def by fastforce+

lemma digits_token: "all_digits s \<Longrightarrow> token s \<and> CHR '':'' \<notin> set s"
  using digit_token by (auto simp: all_digits_def token_def list_all_iff)

text \<open>Finding a parameter: the place of \<open>key=\<close> among texts whose equals signs are known.\<close>

lemma find_text_none: "find_text p s = None \<longleftrightarrow> \<not> sublist p s"
proof (induction s)
  case (Cons c s)
  have "startsWith (c # s) p \<longleftrightarrow> prefix p (c # s)" by (auto simp: startsWith_iff prefix_def)
  then show ?case using Cons by (simp add: sublist_Cons_right)
qed simp

lemma sublist_key:
  assumes "CHR ''='' \<notin> set b"
  shows "sublist (k @ ''='') (a @ CHR ''='' # b) \<longleftrightarrow> sublist (k @ ''='') a \<or> suffix k a"
proof
  assume "sublist (k @ ''='') (a @ CHR ''='' # b)"
  then obtain u v where "a @ CHR ''='' # b = (u @ k) @ CHR ''='' # v" by (auto simp: sublist_def)
  then consider t where "a = (u @ k) @ t" "t @ CHR ''='' # b = CHR ''='' # v" | t where "a @ t = u @ k" "CHR ''='' # b = t @ CHR ''='' # v"
    by (auto simp only: append_eq_append_conv2)
  then show "sublist (k @ ''='') a \<or> suffix k a"
  proof cases
    case 1
    then show ?thesis by (cases t) (auto simp: suffix_def sublist_def)
  next
    case 2
    then have "t = []" using assms by (cases t) auto
    then show ?thesis using 2 by (auto simp: suffix_def)
  qed
next
  assume "sublist (k @ ''='') a \<or> suffix k a"
  then show "sublist (k @ ''='') (a @ CHR ''='' # b)"
    by (auto simp: suffix_def sublist_def) (metis append.assoc append_Cons append_Nil)+
qed

lemma find_key:
  assumes "CHR ''='' \<notin> set k" "\<not> sublist (k @ ''='') a"
  shows "find_text (k @ ''='') (a @ (k @ ''='') @ b) = Some (length a)"
proof (rule find_text_append)
  fix j assume j: "j < length a"
  show "\<not> startsWith (drop j (a @ (k @ ''='') @ b)) (k @ ''='')"
  proof
    assume "startsWith (drop j (a @ (k @ ''='') @ b)) (k @ ''='')"
    then obtain t where t: "drop j a @ k @ CHR ''='' # b = k @ CHR ''='' # t" using j by (auto simp: startsWith_iff)
    show False
    proof (cases "length k < length (drop j a)")
      case True
      then have "take (Suc (length k)) (drop j a) = k @ ''=''" using arg_cong [OF t, of "take (Suc (length k))"] by simp
      then have "sublist (k @ ''='') a" by (metis sublist_drop sublist_order.order.trans sublist_take)
      then show False using assms(2) by simp
    next
      case False
      define i where "i = length k - length (drop j a)"
      have i: "i < length k" using False j by (simp add: i_def)
      have "(k @ CHR ''='' # b) ! i = CHR ''=''"
        using False arg_cong [OF t, of "\<lambda>l. l ! length k"] unfolding i_def nth_append by simp
      then show False using assms(1) nth_mem [OF i] i by (simp add: nth_append)
    qed
  qed
qed

lemma trim_same_ends: "s \<noteq> [] \<Longrightarrow> \<not> is_ws (hd s) \<Longrightarrow> \<not> is_ws (last s) \<Longrightarrow> trim s = s"
proof -
  assume "s \<noteq> []" "\<not> is_ws (hd s)" "\<not> is_ws (last s)"
  then have "dropWhile is_ws s = s" by (cases s) auto
  moreover have "dropWhile is_ws (rev s) = rev s" using \<open>s \<noteq> []\<close> \<open>\<not> is_ws (last s)\<close> by (cases s rule: rev_cases) auto
  ultimately show ?thesis by (simp add: trim_def)
qed

lemma until_end_token: "token t \<Longrightarrow> until_end (t @ CHR '';'' # r) = t" "token t \<Longrightarrow> until_end t = t"
  by (simp_all add: until_end_def sip_text tokens)

lemma unquote_token: "token t \<Longrightarrow> unquote t = t"
  by (cases t) (use tokens(5) [of t] in \<open>auto simp: unquote_def startsWith_step\<close>)

lemma extractParam_here:
  assumes "toLowerCase k = k" "CHR ''='' \<notin> set k" "\<not> sublist (k @ ''='') (toLowerCase a)" "token t" "r = [] \<or> hd r = CHR '';''"
  shows "extractParam (a @ k @ ''='' @ t @ r) k = t"
proof -
  have "toLowerCase (a @ k @ ''='' @ t @ r) = toLowerCase a @ (k @ ''='') @ toLowerCase (t @ r)"
    using assms(1) by (simp add: toLowerCase_def lower_char_def)
  then have "find_text (k @ ''='') (toLowerCase (a @ k @ ''='' @ t @ r)) = Some (length a)"
    using find_key [OF assms(2,3)] by (simp add: toLowerCase_def)
  moreover have "until_end (t @ r) = t" using assms(4,5) by (cases r) (auto simp: until_end_token)
  moreover have "trim t = t" using tokens(10) [OF assms(4)] by (rule trim_no_ws)
  ultimately show ?thesis using assms(1,4) by (simp add: extractParam_def Let_def unquote_token)
qed

lemma lower_append [simp]: "toLowerCase (a @ b) = toLowerCase a @ toLowerCase b" "toLowerCase [] = []" "toLowerCase (c # s) = lower_char c # toLowerCase s"
  by (simp_all add: toLowerCase_def)

lemma no_suffix: "k \<noteq> [] \<Longrightarrow> last k \<noteq> last a \<Longrightarrow> \<not> suffix k a"
  by (auto simp: suffix_def)

definition rport_text :: "Via \<Rightarrow> string" where
  "rport_text v = '';rport'' @ (case v_rport v of Some p \<Rightarrow> ''='' @ p | None \<Rightarrow> '''')"

definition received_text :: "Via \<Rightarrow> string" where
  "received_text v = (case v_received v of Some r \<Rightarrow> '';received='' @ r | None \<Rightarrow> '''')"

lemma via_params_parts: "via_params v = rport_text v @ '';branch='' @ v_branch v @ received_text v"
  by (simp add: via_params_def rport_text_def received_text_def)

lemma no_key_rport:
  assumes "via_ok v" "k \<noteq> []" "CHR ''='' \<notin> set b" "\<not> sublist (k @ ''='') ('';rport'' @ b)" "\<not> suffix k '';rport''"
  shows "\<not> sublist (k @ ''='') (toLowerCase (rport_text v) @ b)"
proof (cases "v_rport v")
  case None
  then show ?thesis using assms(4) by (simp add: rport_text_def lower_char_def)
next
  case (Some p)
  then have "CHR ''='' \<notin> set (toLowerCase p @ b)" using assms(1,3) digits_token tokens(12) by (auto simp: via_ok_def)
  moreover have "\<not> sublist (k @ ''='') '';rport''" using assms(4) by (metis append.assoc sublist_def)
  ultimately have "\<not> sublist (k @ ''='') ('';rport'' @ CHR ''='' # toLowerCase p @ b)" using sublist_key assms(5) by blast
  then show ?thesis by (simp add: rport_text_def Some lower_char_def)
qed

lemma via_branch_read: "via_ok v \<Longrightarrow> extractParam (via_params v) ''branch'' = v_branch v"
proof -
  assume v: "via_ok v"
  have "\<not> sublist (''branch'' @ ''='') (toLowerCase (rport_text v) @ '';'')"
    by (rule no_key_rport [OF v]) (simp, simp, code_simp, code_simp)
  then have "extractParam ((rport_text v @ '';'') @ ''branch'' @ ''='' @ v_branch v @ received_text v) ''branch'' = v_branch v"
    using v by (intro extractParam_here) (auto simp: via_ok_def received_text_def lower_char_def split: option.splits)
  then show ?thesis by (simp add: via_params_parts)
qed

lemma via_received_read: "via_ok v \<Longrightarrow> extractParam (via_params v) ''received'' = (case v_received v of Some r \<Rightarrow> r | None \<Rightarrow> '''')"
proof -
  assume v: "via_ok v"
  let ?a = "toLowerCase (rport_text v) @ '';branch''"
  have b: "CHR ''='' \<notin> set (toLowerCase (v_branch v))" using v tokens(12) by (auto simp: via_ok_def)
  have "\<not> sublist (''received'' @ ''='') ?a" by (rule no_key_rport [OF v]) (simp, simp, code_simp, code_simp)
  moreover have "\<not> suffix ''received'' ?a" by (rule no_suffix) simp_all
  ultimately have no: "\<not> sublist (''received'' @ ''='') (?a @ CHR ''='' # toLowerCase (v_branch v) @ s)" if "CHR ''='' \<notin> set s" for s
    using sublist_key [of "toLowerCase (v_branch v) @ s" "''received''" ?a] b that by auto
  show ?thesis
  proof (cases "v_received v")
    case None
    then have "find_text ''received='' (toLowerCase (via_params v)) = None"
      using no [of "[]"] by (simp add: find_text_none via_params_parts received_text_def lower_char_def)
    then show ?thesis using None by (simp add: extractParam_def lower_char_def)
  next
    case (Some r)
    have "extractParam ((rport_text v @ '';branch='' @ v_branch v @ '';'') @ ''received'' @ ''='' @ r @ []) ''received'' = r"
    proof (rule extractParam_here)
      show "\<not> sublist (''received'' @ ''='') (toLowerCase (rport_text v @ '';branch='' @ v_branch v @ '';''))"
        using no [of "'';''"] by (simp add: lower_char_def)
    qed (use v Some in \<open>auto simp: via_ok_def lower_char_def\<close>)
    then show ?thesis by (simp add: via_params_parts received_text_def Some)
  qed
qed

lemma via_rport_read: "via_ok v \<Longrightarrow> via_rport (via_params v) = (case v_rport v of Some p \<Rightarrow> p | None \<Rightarrow> ''present'')"
proof -
  assume v: "via_ok v"
  have "find_text ''rport'' (toLowerCase (via_params v)) = Some 1" by (simp add: via_params_def lower_char_def sip_text)
  moreover have "until_char (CHR '';'') (p @ CHR '';'' # s) = p" if "v_rport v = Some p" for p s
    using v that digits_token tokens(2) by (auto simp: via_ok_def sip_text)
  ultimately show ?thesis by (cases "v_rport v") (auto simp: via_rport_def via_params_def sip_text Let_def)
qed

lemma transports: "t \<in> set TRANSPORTS \<Longrightarrow> t = ''UDP'' \<or> t = ''TCP'' \<or> t = ''TLS'' \<or> t = ''WSS'' \<or> t = ''WS'' \<or> t = ''SCTP''"
  by (simp add: TRANSPORTS_def)

lemma transport_texts:
  assumes "t \<in> set TRANSPORTS"
  shows "toUpperCase t = t" "fold_case (t @ s) = t @ fold_case s"
proof -
  have "toUpperCase ''UDP'' = ''UDP''" "toUpperCase ''TCP'' = ''TCP''" "toUpperCase ''TLS'' = ''TLS''" "toUpperCase ''WSS'' = ''WSS''"
    "toUpperCase ''WS'' = ''WS''" "toUpperCase ''SCTP'' = ''SCTP''" by code_simp+
  then show "toUpperCase t = t" using transports [OF assms] by (elim disjE) simp_all
  have "fold_case t = t" using transports [OF assms] by (elim disjE) (simp_all add: fold_case_def)
  then show "fold_case (t @ s) = t @ fold_case s" by (simp add: fold_case_def)
qed

lemma transport_read:
  assumes "t \<in> set TRANSPORTS" "P (CHR '' '' # h)"
  shows "transport_at P (t @ CHR '' '' # h) = Some (t, CHR '' '' # h)"
proof -
  have "fold_case (CHR '' '' # h) = CHR '' '' # fold_case h" by (simp add: fold_case_def)
  then have "List.find (\<lambda>u. startsWith (fold_case (t @ CHR '' '' # h)) u \<and> P (drop (length u) (t @ CHR '' '' # h))) TRANSPORTS = Some t"
    using transports [OF assms(1)] assms(2) unfolding transport_texts(2) [OF assms(1)]
    by (elim disjE) (simp_all add: TRANSPORTS_def startsWith_step)
  then show ?thesis using transport_texts(1) [OF assms(1)] by (simp add: transport_at_def)
qed

lemma via_protocol_read:
  assumes "t \<in> set TRANSPORTS" "h \<noteq> []" "\<not> is_ws (hd h)"
  shows "via_protocol (''SIP/2.0/'' @ t @ '' '' @ h) = Some (''SIP/2.0'', t, h)"
proof -
  have ws: "is_ws (CHR '' '')" by code_simp
  moreover have "startsWith (fold_case (''SIP/2.0/'' @ s)) ''SIP/''" for s by (simp add: fold_case_def startsWith_step)
  moreover have "takeWhile version_char (''2.0/'' @ s) = ''2.0''" "dropWhile version_char (''2.0/'' @ s) = ''/'' @ s" for s
    by (simp_all add: version_char_def is_digit_def)
  moreover have "dropWhile is_ws h = h" using assms(2,3) by (cases h) auto
  ultimately show ?thesis
    using transport_read [OF assms(1), of "\<lambda>u. u \<noteq> [] \<and> is_ws (hd u)" h] by (simp add: via_protocol_def Let_def startsWith_step)
qed

lemma via_host_read:
  assumes "token h" "all_digits p"
  shows "via_host_port (host_text h @ '':'' @ p) = (h, p)"
proof -
  have p: "CHR '':'' \<notin> set p" using digits_token [OF assms(2)] by simp
  have "cut (CHR '']'') (h @ CHR '']'' # CHR '':'' # p) = Some (h, CHR '':'' # p)" by (rule cut_append) (rule tokens(8) [OF assms(1)])
  moreover have "\<not> startsWith (h @ s) ''[''" for s using tokens(9,11) [OF assms(1)] by (cases h) (auto simp: sip_text)
  ultimately show ?thesis
    using cut_last_append [OF p, of h] assms(2) by (simp add: host_text_def via_host_port_def bracketed_def plain_host_port_def sip_text)
qed

lemma via_text_read:
  assumes "via_ok v"
  shows "parseViaInfo (via_text v) = via_info v"
proof -
  let ?hp = "host_text (v_host v) @ '':'' @ v_port v"
  have ok: "v_transport v \<in> set TRANSPORTS" "token (v_host v)" "all_digits (v_port v)" "token (v_branch v)" "pred_option token (v_received v)"
    using assms by (simp_all add: via_ok_def)
  note port = digits_token [OF ok(3)]
  have hp: "\<forall>c \<in> set ?hp. \<not> is_ws c \<and> c \<noteq> CHR '';''"
    using tokens(2,10) [OF ok(2)] tokens(2,10) port by (auto simp: host_text_def is_ws_def)
  have "last (via_params v) \<in> set (v_branch v) \<union> \<Union> (set ` set_option (v_received v))"
    using tokens(11) [OF ok(4)] ok(5) tokens(11) by (cases "v_received v") (auto simp: via_params_def)
  then have "\<not> is_ws (last (via_params v))" using tokens(10) ok(4,5) by (cases "v_received v") auto
  then have raw: "trim (via_text v) = via_text v"
    by (intro trim_same_ends) (simp_all add: via_text_def via_params_def is_ws_def)
  have h: "?hp @ via_params v \<noteq> []" "\<not> is_ws (hd (?hp @ via_params v))"
    using hp by (simp, cases ?hp, auto)
  obtain p where p: "via_params v = CHR '';'' # p" by (simp add: via_params_def)
  have "cut (CHR '';'') (?hp @ via_params v) = Some (?hp, p)" unfolding p by (rule cut_append) (use hp in blast)
  moreover have "trim ?hp = ?hp" by (rule trim_no_ws) (use hp in blast)
  moreover have "via_protocol (via_text v) = Some (''SIP/2.0'', v_transport v, ?hp @ via_params v)"
    using via_protocol_read [OF ok(1) h] by (simp add: via_text_def)
  ultimately show ?thesis
    using raw via_host_read [OF ok(2,3)] via_branch_read [OF assms] via_received_read [OF assms] via_rport_read [OF assms]
    unfolding parseViaInfo_def via_info_def by (simp add: p Let_def)
qed

lemma plain_closed: "list_all (\<lambda>c. c \<notin> set [CHR 0x22, CHR ''<'', CHR ''>'', CHR '','']) s \<Longrightarrow> closed_value prev 0 False s"
  by (induction s arbitrary: prev) simp_all

lemma via_list_value: "via_ok v \<Longrightarrow> list_value (via_text v)"
proof -
  assume v: "via_ok v"
  let ?plain = "\<lambda>c. c \<notin> set [CHR 0x22, CHR ''<'', CHR ''>'', CHR '','']"
  have tok: "token s \<Longrightarrow> list_all ?plain s" for s using tokens(3,5,6,7) [of s] by (auto simp: list_all_iff)
  have "list_all ?plain (v_transport v)" using v transports by (fastforce simp: via_ok_def)
  moreover have "list_all ?plain (host_text (v_host v))" using v tok by (auto simp: via_ok_def host_text_def)
  moreover have "list_all ?plain (v_port v)" using v tok digits_token by (auto simp: via_ok_def)
  moreover have "list_all ?plain (via_params v)"
    using v tok digits_token by (auto simp: via_ok_def via_params_def split: option.splits)
  ultimately have "list_all ?plain (via_text v)" by (simp add: via_text_def)
  then have "closed_value None 0 False (via_text v)" by (rule plain_closed)
  moreover have "trim (via_text v) = via_text v" using via_text_read [OF v] by (simp add: parseViaInfo_def via_info_def Let_def split: prod.splits)
  ultimately show ?thesis by (simp add: list_value_def via_text_def)
qed

section \<open>Media streams\<close>

text \<open>Every payload type of a stream has its codec: static entries stay, attributes only rename or add.\<close>

definition stream_ok :: "SDPMediaStream \<Rightarrow> bool" where
  "stream_ok m \<longleftrightarrow> (\<exists>extra. map co_payloadType (ms_codecs m) = map Some (ms_payloadTypes m) @ extra)"

lemma update_codec_types: "(\<And>c. co_payloadType (f c) = co_payloadType c) \<Longrightarrow> map co_payloadType (update_codec pt f cs) = map co_payloadType cs"
  by (induction cs) simp_all

lemma apply_rtpmap_types: "\<exists>extra. map co_payloadType (apply_rtpmap s cs) = map co_payloadType cs @ extra"
  by (auto simp: apply_rtpmap_def update_codec_types Let_def split: option.split)

lemma apply_fmtp_types: "map co_payloadType (apply_fmtp s cs) = map co_payloadType cs"
  by (auto simp: apply_fmtp_def update_codec_types split: option.split)

lemma attribute_frame:
  "ms_payloadTypes (applyMediaAttribute m t v) = ms_payloadTypes m" "ms_raw (applyMediaAttribute m t v) = ms_raw m"
  by (auto simp: applyMediaAttribute_def apply_attribute_def split: option.split)

lemma attribute_ok: "stream_ok m \<Longrightarrow> stream_ok (applyMediaAttribute m t v)"
proof -
  assume m: "stream_ok m"
  have "ms_codecs (applyMediaAttribute m t v) \<in> {ms_codecs m, apply_rtpmap (trim (drop 7 v)) (ms_codecs m), apply_fmtp (trim (drop 5 v)) (ms_codecs m)}"
    by (auto simp: applyMediaAttribute_def apply_attribute_def split: option.split)
  then have "\<exists>extra. map co_payloadType (ms_codecs (applyMediaAttribute m t v)) = map co_payloadType (ms_codecs m) @ extra"
    using apply_rtpmap_types apply_fmtp_types by fastforce
  then show ?thesis using m by (auto simp: stream_ok_def attribute_frame)
qed

lemma media_line_ok: "stream_ok (parseMediaLine v c)" "ms_raw (parseMediaLine v c) = ''m='' @ v"
proof -
  have "co_payloadType (static_codec pt) = Some pt" for pt by (simp add: static_codec_def split: option.split prod.split)
  then show "stream_ok (parseMediaLine v c)" by (simp add: stream_ok_def parseMediaLine_def Let_def comp_def)
qed (simp add: parseMediaLine_def Let_def)

abbreviation streams_of :: "SDPInfo \<times> SDPMediaStream option \<Rightarrow> SDPMediaStream list" where
  "streams_of st \<equiv> sd_mediaStreams (fst st) @ (case snd st of Some m \<Rightarrow> [m] | None \<Rightarrow> [])"

definition media_line :: "string \<Rightarrow> bool" where
  "media_line l \<longleftrightarrow> hd l = CHR ''m''"

lemma session_streams: "sd_mediaStreams (session_attribute t v s) = sd_mediaStreams s"
  by (simp add: session_attribute_def)

lemma sdp_line_streams:
  "map ms_raw (streams_of (sdp_line l st)) = map ms_raw (streams_of st) @ (if media_line l then [''m='' @ drop 2 l] else [])"
  "list_all stream_ok (streams_of st) \<Longrightarrow> list_all stream_ok (streams_of (sdp_line l st))"
  by (auto simp: sdp_line_def media_line_def session_streams attribute_frame attribute_ok media_line_ok Let_def split: prod.split option.split)

lemma sdp_fold_streams:
  "map ms_raw (streams_of (fold sdp_line ls st)) = map ms_raw (streams_of st) @ map (\<lambda>l. ''m='' @ drop 2 l) (filter media_line ls)"
  "list_all stream_ok (streams_of st) \<Longrightarrow> list_all stream_ok (streams_of (fold sdp_line ls st))"
  by (induction ls arbitrary: st) (simp_all only: fold_simps sdp_line_streams filter.simps list.map append_Nil2 if_True if_False append_assoc append_Cons append_Nil split: if_split, simp_all)

section \<open>Properties\<close>

lemma first_value: "(case map f (filter P xs) of [] \<Rightarrow> d | v # vs \<Rightarrow> v) = (case List.find P xs of Some x \<Rightarrow> f x | None \<Rightarrow> d)"
  by (induction xs) simp_all


definition sample_fields :: "field list" where
  "sample_fields = [(''v'', [''SIP/2.0/TLS [::1]:5061;rport;branch=z9hG4bK2,'', ''SIP/2.0/UDP pbx:5060;rport=99;branch=z9hG4bK1;received=10.0.0.9'']),
     (''Call-ID'', [''77@pbx'']), (''SUBJECT'', [''On'', ''two lines'']), (''Via'', [''SIP/2.0/WS edge:80;rport;branch=b0''])]"


lemma vias_of: "trim t = t \<Longrightarrow> t \<noteq> [] \<Longrightarrow> sm_vias (extractSIPInfo t) = map parseViaInfo (getAllHeaders t ''Via'')"
  by (simp add: extractSIPInfo_def Let_def split: prod.split)


definition sample_vias :: "Via list list" where
  "sample_vias =
     [[\<lparr>v_transport = ''TLS'', v_host = ''::1'', v_port = ''5061'', v_rport = None, v_branch = ''z9hG4bK2'', v_received = None\<rparr>,
       \<lparr>v_transport = ''UDP'', v_host = ''pbx'', v_port = ''5060'', v_rport = Some ''99'', v_branch = ''z9hG4bK1'', v_received = Some ''10.0.0.9''\<rparr>],
      [\<lparr>v_transport = ''WS'', v_host = ''edge'', v_port = ''80'', v_rport = None, v_branch = ''b0'', v_received = None\<rparr>]]"

lemma sample_vias_ok: "list_all via_ok (concat sample_vias)"
  by (simp add: sample_vias_def via_ok_def token_def token_char_def is_word_def all_digits_def is_digit_def TRANSPORTS_def)



end
