(* ===== verification/Ladder_Rows.thy ===== *)
theory Ladder_Rows
  imports Call_Grouping Ladder_Order
begin

text \<open>
  The rows of the SIP ladder (\<open>components/sip-ladder/sipLadderUtils.ts\<close>): labels, times and colours of a message,
  the role of a node by its name, and which messages are retransmissions. The palette's entries stand for
  themselves.
\<close>

section \<open>Labels\<close>

definition RESPONSE_DESCRIPTIONS :: "(int \<times> string) list" where
  "RESPONSE_DESCRIPTIONS =
     [(100, ''Trying''), (180, ''Ringing''), (181, ''Call Is Being Forwarded''), (182, ''Queued''), (183, ''Session Progress''),
      (199, ''Early Dialog Terminated''),
      (200, ''OK''), (202, ''Accepted''),
      (300, ''Multiple Choices''), (301, ''Moved Permanently''), (302, ''Moved Temporarily''), (305, ''Use Proxy''),
      (380, ''Alternative Service''),
      (400, ''Bad Request''), (401, ''Unauthorized''), (403, ''Forbidden''), (404, ''Not Found''), (405, ''Method Not Allowed''),
      (406, ''Not Acceptable''), (407, ''Proxy Authentication Required''), (408, ''Request Timeout''), (410, ''Gone''),
      (413, ''Request Entity Too Large''), (415, ''Unsupported Media Type''), (416, ''Unsupported URI Scheme''),
      (420, ''Bad Extension''), (421, ''Extension Required''), (422, ''Session Interval Too Small''), (423, ''Interval Too Brief''),
      (480, ''Temporarily Unavailable''), (481, ''Call/Transaction Does Not Exist''), (482, ''Loop Detected''),
      (483, ''Too Many Hops''), (484, ''Address Incomplete''), (485, ''Ambiguous''), (486, ''Busy Here''),
      (487, ''Request Terminated''), (488, ''Not Acceptable Here''), (489, ''Bad Event''), (491, ''Request Pending''),
      (493, ''Undecipherable''),
      (500, ''Server Internal Error''), (501, ''Not Implemented''), (502, ''Bad Gateway''), (503, ''Service Unavailable''),
      (504, ''Server Time-out''), (505, ''Version Not Supported''), (513, ''Message Too Large''),
      (600, ''Busy Everywhere''), (603, ''Decline''), (604, ''Does Not Exist Anywhere''), (606, ''Not Acceptable'')]"

definition getResponseDescription :: "int \<Rightarrow> string" where
  "getResponseDescription status =
     (case map_of RESPONSE_DESCRIPTIONS status of
        Some known \<Rightarrow> known
      | None \<Rightarrow>
          if 100 \<le> status \<and> status < 200 then ''Provisional''
          else if 200 \<le> status \<and> status < 300 then ''Success''
          else if 300 \<le> status \<and> status < 400 then ''Redirection''
          else if 400 \<le> status \<and> status < 500 then ''Client Error''
          else if 500 \<le> status \<and> status < 600 then ''Server Error''
          else if 600 \<le> status \<and> status < 700 then ''Global Failure''
          else ''Unknown'')"

definition formatMessageLabel :: "'a HomerSearchResult_scheme \<Rightarrow> string" where
  "formatMessageLabel msg =
     (case hr_status msg of
        None \<Rightarrow> hr_method msg
      | Some status \<Rightarrow> int_str status @ '' '' @ getResponseDescription status)"

definition formatTimeDelta :: "rat \<Rightarrow> string" where
  "formatTimeDelta deltaMs =
     (let d = \<bar>deltaMs\<bar> in
      if d < 10 then toFixed 1 d @ ''ms''
      else if d < 1000 then int_str (round_half_up d) @ ''ms''
      else if d < 10000 then toFixed 1 (d / 1000) @ ''s''
      else int_str (round_half_up (d / 1000)) @ ''s'')"

section \<open>Colours\<close>

datatype LadderColor = C_aLeg | C_bLeg | C_bye | C_ack | C_serverError | C_invite | C_success | C_provisional | C_redirect
  | C_clientError | C_textMuted | C_retransmission | C_internalHandoff

datatype Leg = LegA | LegB | LegUnknown

definition getMessageColor :: "'a HomerSearchResult_scheme \<Rightarrow> Leg \<Rightarrow> LadderColor" where
  "getMessageColor msg leg =
     (case hr_status msg of
        None \<Rightarrow>
          if hr_method msg = ''INVITE'' then (if leg = LegB then C_bLeg else C_aLeg)
          else if hr_method msg = ''BYE'' then C_bye
          else if hr_method msg = ''ACK'' then C_ack
          else if hr_method msg = ''CANCEL'' then C_serverError
          else C_invite
      | Some s \<Rightarrow>
          if 200 \<le> s \<and> s < 300 then C_success
          else if 100 \<le> s \<and> s < 200 then C_provisional
          else if 300 \<le> s \<and> s < 400 then C_redirect
          else if 400 \<le> s \<and> s < 500 then C_clientError
          else if s \<ge> 500 then C_serverError
          else C_textMuted)"

section \<open>Roles\<close>

text \<open>\<open>/(^|[^A-Z0-9])w($|[^A-Z0-9])/\<close>; the flag says whether a word may begin here.\<close>

fun word_token :: "string \<Rightarrow> bool \<Rightarrow> string \<Rightarrow> bool" where
  "word_token w ok [] = False"
| "word_token w ok (c # s) =
     (ok \<and> startsWith (c # s) w \<and> (case drop (length w) (c # s) of [] \<Rightarrow> True | d # t \<Rightarrow> \<not> is_alnum d)
      \<or> word_token w (\<not> is_alnum c) s)"

definition classifyNodeRole :: "string \<Rightarrow> NodeRole" where
  "classifyNodeRole name =
     (let upper = toUpperCase name in
      if has_text upper ''VIP'' then Sbc_vip
      else if upper = ''BW'' \<or> word_token ''BW'' True upper then Carrier_ingress
      else if has_text upper ''SBC'' then Sbc
      else if has_text upper ''FREESWITCH'' \<or> word_token ''FS'' True upper then Media_server
      else Unknown_node)"

section \<open>Retransmissions\<close>

record HomerMessage = HomerSearchResult +
  hm_src_ip :: string
  hm_dst_ip :: string
  hm_via_branch :: "string option"

definition RETRANSMISSION_TXN_WINDOW_MS :: rat where
  "RETRANSMISSION_TXN_WINDOW_MS = 32000"

text \<open>Times in milliseconds; a missing time is a NaN, which compares with nothing.\<close>

definition time_ms :: "HomerMessage \<Rightarrow> rat option" where
  "time_ms m = map_option (\<lambda>t. t / 1000000) (hr_timestamp_ns m)"

definition before_ms :: "rat option \<Rightarrow> rat option \<Rightarrow> bool" where
  "before_ms a b = (case (a, b) of (Some x, Some y) \<Rightarrow> x < y | _ \<Rightarrow> False)"

definition from_ms :: "rat option \<Rightarrow> rat option \<Rightarrow> bool" where
  "from_ms a b = (case (a, b) of (Some x, Some y) \<Rightarrow> x \<ge> y | _ \<Rightarrow> False)"

definition has_txn_key :: "HomerMessage \<Rightarrow> bool" where
  "has_txn_key m \<longleftrightarrow> hm_via_branch m \<noteq> None \<and> hm_via_branch m \<noteq> Some '''' \<and> hr_cseq m \<noteq> None \<and> hr_cseq m \<noteq> Some ''''"

definition sameHopSameShape :: "HomerMessage \<Rightarrow> HomerMessage \<Rightarrow> bool" where
  "sameHopSameShape prev msg \<longleftrightarrow>
     hr_callid prev = hr_callid msg \<and> hr_method prev = hr_method msg \<and> hr_status prev = hr_status msg
     \<and> hm_src_ip prev = hm_src_ip msg \<and> hm_dst_ip prev = hm_dst_ip msg"

text \<open>The loop, from the latest of the earlier messages back.\<close>

fun walk_back :: "HomerMessage \<Rightarrow> rat option \<Rightarrow> rat option \<Rightarrow> HomerMessage list \<Rightarrow> bool" where
  "walk_back msg legacyStart txnStart [] = False"
| "walk_back msg legacyStart txnStart (prev # older) =
     (if before_ms (time_ms prev) txnStart \<and> before_ms (time_ms prev) legacyStart then False
      else if \<not> sameHopSameShape prev msg then walk_back msg legacyStart txnStart older
      else if has_txn_key msg \<and> has_txn_key prev
      then (if hm_via_branch prev = hm_via_branch msg \<and> hr_cseq prev = hr_cseq msg \<and> from_ms (time_ms prev) txnStart then True
            else walk_back msg legacyStart txnStart older)
      else if from_ms (time_ms prev) legacyStart then True
      else walk_back msg legacyStart txnStart older)"

definition isRetransmission :: "HomerMessage \<Rightarrow> HomerMessage list \<Rightarrow> rat \<Rightarrow> bool" where
  "isRetransmission msg prevMessages windowMs =
     walk_back msg (map_option (\<lambda>t. t - windowMs) (time_ms msg))
       (map_option (\<lambda>t. t - RETRANSMISSION_TXN_WINDOW_MS) (time_ms msg)) (rev prevMessages)"

section \<open>Laws\<close>

text \<open>The role by name agrees with the column order's own test for platform nodes.\<close>

lemma word_token_FS: "word_token ''FS'' ok s = fs_token ok s"
  by (induction "''FS''" ok s rule: word_token.induct) (simp_all add: numeral_2_eq_2)

lemma platform_roles: "classifyNodeRole name \<in> {Sbc_vip, Sbc, Media_server} \<Longrightarrow> isPlatformAlias name"
  by (auto simp: classifyNodeRole_def isPlatformAlias_def Let_def word_token_FS split: if_splits)

text \<open>The copy the walk looks for: the same message on the same hop, of the same transaction within 32 seconds when
  both rows have its key, and within the window when not.\<close>

definition copy_of :: "HomerMessage \<Rightarrow> rat \<Rightarrow> rat \<Rightarrow> HomerMessage \<Rightarrow> bool" where
  "copy_of msg t windowMs prev \<longleftrightarrow> sameHopSameShape prev msg \<and>
     (\<exists>u. time_ms prev = Some u \<and>
       (if has_txn_key msg \<and> has_txn_key prev
        then hm_via_branch prev = hm_via_branch msg \<and> hr_cseq prev = hr_cseq msg \<and> t - u \<le> RETRANSMISSION_TXN_WINDOW_MS
        else t - u \<le> windowMs))"

lemma copy_in_window:
  "copy_of msg t w prev \<Longrightarrow> \<not> (before_ms (time_ms prev) (Some (t - RETRANSMISSION_TXN_WINDOW_MS)) \<and> before_ms (time_ms prev) (Some (t - w)))"
  by (auto simp: copy_of_def before_ms_def split: if_splits)

lemma walk_back_copy:
  assumes "sorted_wrt (\<lambda>a b. \<exists>u v. time_ms a = Some u \<and> time_ms b = Some v \<and> u \<ge> v) ms"
  shows "walk_back msg (Some (t - w)) (Some (t - RETRANSMISSION_TXN_WINDOW_MS)) ms \<longleftrightarrow> (\<exists>prev \<in> set ms. time_ms prev \<noteq> None \<and> copy_of msg t w prev)"
  using assms
proof (induction ms)
  case (Cons prev older)
  let ?out = "before_ms (time_ms prev) (Some (t - RETRANSMISSION_TXN_WINDOW_MS)) \<and> before_ms (time_ms prev) (Some (t - w))"
  show ?case
  proof (cases ?out)
    case True
    have "\<not> copy_of msg t w x" if "x \<in> set (prev # older)" for x
    proof -
      have "before_ms (time_ms x) (Some (t - RETRANSMISSION_TXN_WINDOW_MS)) \<and> before_ms (time_ms x) (Some (t - w))"
        using True that Cons.prems by (fastforce simp: before_ms_def)
      then show ?thesis using copy_in_window by blast
    qed
    then show ?thesis using True by auto
  next
    case False
    have "walk_back msg (Some (t - w)) (Some (t - RETRANSMISSION_TXN_WINDOW_MS)) (prev # older) \<longleftrightarrow>
        copy_of msg t w prev \<or> walk_back msg (Some (t - w)) (Some (t - RETRANSMISSION_TXN_WINDOW_MS)) older"
      using False by (auto simp: copy_of_def from_ms_def split: option.splits)
    moreover have "copy_of msg t w prev \<Longrightarrow> time_ms prev \<noteq> None" by (auto simp: copy_of_def)
    ultimately show ?thesis using Cons by auto
  qed
qed simp

text \<open>C36. A row is dimmed as a retransmission exactly when an earlier row is a copy of it: although the walk stops at
  the first row older than both windows, on rows in the order of their times it misses none.\<close>

theorem retransmission_exact:
  assumes "sorted_wrt (\<lambda>a b. \<exists>u v. time_ms a = Some u \<and> time_ms b = Some v \<and> u \<le> v) (prevs @ [msg])" and "time_ms msg = Some t"
  shows "isRetransmission msg prevs windowMs \<longleftrightarrow> (\<exists>prev \<in> set prevs. copy_of msg t windowMs prev)"
proof -
  have "sorted_wrt (\<lambda>a b. \<exists>u v. time_ms a = Some u \<and> time_ms b = Some v \<and> u \<ge> v) (rev prevs)"
    using assms(1) unfolding sorted_wrt_rev sorted_wrt_append by (auto elim!: sorted_wrt_mono_rel [rotated])
  from walk_back_copy [OF this, of msg t windowMs] show ?thesis
    unfolding isRetransmission_def using assms(2) by (auto simp: copy_of_def)
qed

definition sample_message :: "rat \<Rightarrow> HomerMessage" where
  "sample_message ms = \<lparr>hr_timestamp = '''', hr_timestamp_ns = Some (ms * 1000000), hr_callid = ''c'', hr_method = ''BYE'', hr_status = None,
     hr_cseq = Some ''2 BYE'', hr_attestation = None, hm_src_ip = ''SBC-1'', hm_dst_ip = ''BW-NY'', hm_via_branch = Some ''z9hG4bK1''\<rparr>"

theorem retransmission_exact_witness: "isRetransmission (sample_message 4000) [sample_message 0, sample_message 500] 500"
proof -
  have t: "time_ms (sample_message ms) = Some ms" for ms by (simp add: time_ms_def sample_message_def)
  have "sorted_wrt (\<lambda>a b. \<exists>u v. time_ms a = Some u \<and> time_ms b = Some v \<and> u \<le> v) ([sample_message 0, sample_message 500] @ [sample_message 4000])"
    by (simp add: t)
  moreover have "copy_of (sample_message 4000) 4000 500 (sample_message 500)"
    by (simp add: copy_of_def t) (simp add: sample_message_def sameHopSameShape_def has_txn_key_def RETRANSMISSION_TXN_WINDOW_MS_def)
  ultimately show ?thesis using retransmission_exact [OF _ t, of "[sample_message 0, sample_message 500]" 4000 500] by simp
qed

end
