(* ===== verification/Ladder_Layout.thy ===== *)
theory Ladder_Layout
  imports Ladder_Rows Sip_Parse
begin

text \<open>
  The layout of the SIP ladder (\<open>components/sip-ladder/sipLadderLayout.ts\<close>): the order of the rows, the call legs, the
  columns with the SBCs split by leg, the arrow of every row, and the connectors between a VIP and its SBC. The
  source's maps are ordered objects where it iterates them; a set of rows is a flag on each row, so that rows are
  told apart as the objects they are.
\<close>

section \<open>Data\<close>

record LadderWire = HomerMessage +
  lw_hairpin :: bool
  lw_ts_corrected :: bool
  lw_seq :: "jsnum option"
  lw_raw_msg :: "string option"

record LadderNode =
  ln_id :: string
  ln_displayLabel :: "string option"
  ln_role :: NodeRole
  ln_columnIndex :: int
  ln_legTag :: "Leg option"
  ln_endpointTag :: "EndpointTag option"

datatype Direction = ToRight | ToLeft

record LadderMessage =
  lm_id :: string
  lm_original :: LadderWire
  lm_sourceCol :: int
  lm_destCol :: int
  lm_direction :: Direction
  lm_color :: LadderColor
  lm_label :: string
  lm_isRetransmission :: bool
  lm_isHairpin :: bool
  lm_tsCorrected :: bool
  lm_leg :: Leg
  lm_timeDeltaMs :: "rat option"
  lm_directionInferred :: bool
  lm_internalHandoff :: bool

record LadderLayout =
  la_nodes :: "LadderNode list"
  la_messages :: "LadderMessage list"
  la_aLegCallIds :: "string set"
  la_bLegCallIds :: "string set"
  la_callDurationMs :: "rat option"

section \<open>The order of the rows\<close>

text \<open>The type of rows has a time always; 0 stands for a missing one.\<close>

definition ns :: "LadderWire \<Rightarrow> rat" where
  "ns m = (case hr_timestamp_ns m of Some t \<Rightarrow> t | None \<Rightarrow> 0)"

definition seq_of :: "LadderWire \<Rightarrow> rat option" where
  "seq_of m = (case lw_seq m of Some (Fin q) \<Rightarrow> Some q | _ \<Rightarrow> None)"

definition is_request :: "LadderWire \<Rightarrow> bool" where
  "is_request m \<longleftrightarrow> hr_status m = None"

definition transactionKey :: "LadderWire \<Rightarrow> string" where
  "transactionKey m =
     (let cseq = (case hr_cseq m of Some c \<Rightarrow> trim c | None \<Rightarrow> '''') in hr_callid m @ ''|'' @ or_else cseq (hr_method m))"

text \<open>The rows so far, each with whether it was moved; the transactions whose request is shown; the responses deferred.\<close>

record CausalState =
  ca_out :: "(LadderWire \<times> bool) list"
  ca_seen :: "string set"
  ca_deferred :: "(string \<times> LadderWire list) list"

definition waiting_for :: "string \<Rightarrow> (string \<times> LadderWire list) list \<Rightarrow> LadderWire list" where
  "waiting_for key d = (case ob_get d key of Some w \<Rightarrow> w | None \<Rightarrow> [])"

definition causal_step :: "string set \<Rightarrow> LadderWire \<Rightarrow> CausalState \<Rightarrow> CausalState" where
  "causal_step hasRequest m st =
     (let key = transactionKey m in
      if is_request m
      then (let st = st\<lparr>ca_out := ca_out st @ [(m, False)]\<rparr> in
            if key \<in> ca_seen st then st
            else st\<lparr>ca_seen := insert key (ca_seen st),
                    ca_out := ca_out st @ map (\<lambda>w. (w, True)) (waiting_for key (ca_deferred st)),
                    ca_deferred := filter (\<lambda>e. fst e \<noteq> key) (ca_deferred st)\<rparr>)
      else if key \<in> ca_seen st \<or> key \<notin> hasRequest then st\<lparr>ca_out := ca_out st @ [(m, False)]\<rparr>
      else st\<lparr>ca_deferred := ob_set (ca_deferred st) key (waiting_for key (ca_deferred st) @ [m])\<rparr>)"

definition enforceCausality :: "LadderWire list \<Rightarrow> (LadderWire \<times> bool) list" where
  "enforceCausality byTimestamp =
     (let hasRequest = transactionKey ` set (filter is_request byTimestamp);
          st = fold (causal_step hasRequest) byTimestamp \<lparr>ca_out = [], ca_seen = {}, ca_deferred = []\<rparr>
      in ca_out st @ map (\<lambda>w. (w, False)) (concat (map snd (ca_deferred st))))"

definition orderMessages :: "LadderWire list \<Rightarrow> (LadderWire \<times> bool) list" where
  "orderMessages messages =
     (if list_all (\<lambda>m. seq_of m \<noteq> None) messages then map (\<lambda>m. (m, False)) (sort_key (\<lambda>m. the (seq_of m)) messages)
      else enforceCausality (sort_key ns messages))"

section \<open>Nodes and call legs\<close>

definition add_new :: "string \<Rightarrow> string list \<Rightarrow> string list" where
  "add_new x xs = (if x \<in> set xs then xs else xs @ [x])"

definition discoverNodes :: "LadderWire list \<Rightarrow> string list" where
  "discoverNodes rows = fold (\<lambda>m xs. add_new (hm_dst_ip m) (add_new (hm_src_ip m) xs)) rows []"

definition is_invite :: "LadderWire \<Rightarrow> bool" where
  "is_invite m \<longleftrightarrow> hr_method m = ''INVITE'' \<and> hr_status m = None"

definition primaryInviteScore :: "LadderWire \<Rightarrow> nat" where
  "primaryInviteScore m =
     (case classifyNodeRole (hm_src_ip m) of
        Carrier_ingress \<Rightarrow> 0 | Carrier_egress \<Rightarrow> 0 | Sbc_vip \<Rightarrow> 1 | Media_server \<Rightarrow> 3 | _ \<Rightarrow> 2)"

text \<open>The loop for the primary INVITE: the best so far with its score.\<close>

fun primary_loop :: "(nat \<times> LadderWire) option \<Rightarrow> LadderWire list \<Rightarrow> LadderWire option" where
  "primary_loop best [] = map_option snd best"
| "primary_loop best (m # ms) =
     (if \<not> is_invite m then primary_loop best ms
      else let score = primaryInviteScore m in
           if (case best of None \<Rightarrow> True | Some (b, x) \<Rightarrow> score < b)
           then (if score = 0 then Some m else primary_loop (Some (score, m)) ms)
           else primary_loop best ms)"

definition correlated_ids :: "string \<Rightarrow> (string \<times> string list) list \<Rightarrow> string set" where
  "correlated_ids primary correlations =
     \<Union> ((\<lambda>(key, vals). insert key (set vals)) ` set (filter (\<lambda>(key, vals). key = primary \<or> primary \<in> set vals) correlations))"

definition place_call_id :: "LadderWire list \<Rightarrow> LadderWire \<Rightarrow> string \<Rightarrow> string set \<times> string set \<Rightarrow> string set \<times> string set" where
  "place_call_id rows firstInvite callId legs =
     (let (a, b) = legs in
      if callId \<in> a \<or> callId \<in> b then (a, b)
      else case List.find (\<lambda>m. hr_callid m = callId \<and> is_invite m) rows of
             Some m \<Rightarrow> if hm_src_ip m = hm_src_ip firstInvite then (insert callId a, b) else (a, insert callId b)
           | None \<Rightarrow> (a, insert callId b))"

definition classifyCallLegs :: "LadderWire list \<Rightarrow> (string \<times> string list) list \<Rightarrow> string set \<times> string set" where
  "classifyCallLegs rows correlations =
     (case primary_loop None rows of
        None \<Rightarrow> (case rows of m # ms \<Rightarrow> ({hr_callid m}, {}) | [] \<Rightarrow> ({}, {}))
      | Some firstInvite \<Rightarrow>
          fold (place_call_id rows firstInvite) (fold (\<lambda>m xs. add_new (hr_callid m) xs) rows [])
            ({hr_callid firstInvite}, correlated_ids (hr_callid firstInvite) correlations - {hr_callid firstInvite}))"

definition determineLeg :: "string \<Rightarrow> string set \<Rightarrow> string set \<Rightarrow> Leg" where
  "determineLeg callId a b = (if callId \<in> a then LegA else if callId \<in> b then LegB else LegUnknown)"

section \<open>Columns\<close>

definition isCarrierRole :: "NodeRole \<Rightarrow> bool" where
  "isCarrierRole r \<longleftrightarrow> r = Carrier_ingress \<or> r = Carrier_egress"

definition ends_of :: "LadderWire list \<Rightarrow> string set" where
  "ends_of ms = hm_src_ip ` set ms \<union> hm_dst_ip ` set ms"

definition a_rows :: "string set \<Rightarrow> LadderWire list \<Rightarrow> LadderWire list" where
  "a_rows a rows = filter (\<lambda>m. hr_callid m \<in> a) rows"

definition b_rows :: "string set \<Rightarrow> string set \<Rightarrow> LadderWire list \<Rightarrow> LadderWire list" where
  "b_rows a b rows = filter (\<lambda>m. hr_callid m \<notin> a \<and> hr_callid m \<in> b) rows"

definition refined_role :: "string set \<Rightarrow> string set \<Rightarrow> LadderWire list \<Rightarrow> string \<Rightarrow> NodeRole" where
  "refined_role a b rows name =
     (let r = classifyNodeRole name in
      if \<not> isCarrierRole r then r
      else if name \<in> hm_src_ip ` set (filter is_invite (a_rows a rows)) \<or> name \<in> ends_of (a_rows a rows) then Carrier_ingress
      else if name \<in> hm_dst_ip ` set (filter is_invite (b_rows a b rows)) \<or> name \<in> ends_of (b_rows a b rows) then Carrier_egress
      else r)"

definition orderNodes :: "LadderWire list \<Rightarrow> string list \<Rightarrow> string set \<Rightarrow> string set \<Rightarrow> LadderNode list \<times> nat" where
  "orderNodes rows names a b =
     (let role = refined_role a b rows;
          out = orderLadderColumns (map (\<lambda>i. \<lparr>op_id = i, op_role = role i\<rparr>) names)
                  (map (\<lambda>m. \<lparr>om_src = hm_src_ip m, om_dst = hm_dst_ip m, om_isInviteRequest = is_invite m\<rparr>) rows)
      in (map (\<lambda>(k, i). \<lparr>ln_id = i, ln_displayLabel = None, ln_role = role i, ln_columnIndex = int k, ln_legTag = None,
                         ln_endpointTag = endpointTags out i\<rparr>) (enumerate 0 (orderedIds out)),
          bLegInsertIndex out))"

definition BLEG_SUFFIX :: string where
  "BLEG_SUFFIX = ''__bleg''"

text \<open>\<open>findIndex\<close>: -1 when there is none.\<close>

definition find_index :: "('a \<Rightarrow> bool) \<Rightarrow> 'a list \<Rightarrow> int" where
  "find_index P xs = (if list_ex P xs then int (index_or_end P xs) else - 1)"

definition nodes_to_split :: "LadderNode list \<Rightarrow> LadderWire list \<Rightarrow> string set \<Rightarrow> string set \<Rightarrow> string set" where
  "nodes_to_split nodes rows a b =
     (let pivot = find_index (\<lambda>n. ln_role n = Media_server) nodes;
          both = ends_of (a_rows a rows) \<inter> ends_of (b_rows a b rows)
      in ln_id ` snd ` {(k, n) \<in> set (enumerate 0 nodes).
           ln_id n \<in> both \<and> (ln_role n = Sbc \<or> ln_role n = Unknown_node \<and> pivot \<ge> 0 \<and> int k < pivot)})"

definition index_b_leg :: "LadderNode list \<Rightarrow> (string \<times> int) list" where
  "index_b_leg nodes =
     fold (\<lambda>(k, n) m. if endsWith (ln_id n) BLEG_SUFFIX then ob_set m (take (length (ln_id n) - length BLEG_SUFFIX) (ln_id n)) (int k) else m)
       (enumerate 0 nodes) []"

definition splitDualLegNodes ::
  "LadderNode list \<Rightarrow> LadderWire list \<Rightarrow> string set \<Rightarrow> string set \<Rightarrow> nat \<Rightarrow> LadderNode list \<times> (string \<times> int) list" where
  "splitDualLegNodes orderedNodes rows a b insertAt =
     (let cut_ids = nodes_to_split orderedNodes rows a b in
      if cut_ids = {} then (orderedNodes, [])
      else let tagged = map (\<lambda>n. if ln_id n \<in> cut_ids then n\<lparr>ln_legTag := Some LegA\<rparr> else n) orderedNodes;
               clones = map (\<lambda>n. \<lparr>ln_id = ln_id n @ BLEG_SUFFIX, ln_displayLabel = Some (ln_id n), ln_role = ln_role n, ln_columnIndex = - 1,
                                  ln_legTag = Some LegB, ln_endpointTag = None\<rparr>) (filter (\<lambda>n. ln_id n \<in> cut_ids) orderedNodes);
               spliceAt = min insertAt (length tagged);
               final = map (\<lambda>(k, n). n\<lparr>ln_columnIndex := int k\<rparr>) (enumerate 0 (take spliceAt tagged @ clones @ drop spliceAt tagged))
           in (final, index_b_leg final))"

section \<open>Arrows\<close>

record HostColumnIndex =
  hi_aLeg :: "(string \<times> int) list"
  hi_bLeg :: "(string \<times> int) list"
  hi_any :: "(string \<times> int) list"

record ResolveContext =
  rc_columnIndex :: "(string \<times> int) list"
  rc_bLegColumnIndex :: "(string \<times> int) list"
  rc_hostColumnIndex :: HostColumnIndex
  rc_mediaCol :: int
  rc_nodeCount :: int

record ResolvedDirection =
  rd_sourceCol :: int
  rd_destCol :: int
  rd_inferred :: bool

definition index_columns :: "LadderNode list \<Rightarrow> (string \<times> int) list" where
  "index_columns nodes = fold (\<lambda>(k, n) m. ob_set m (ln_id n) (int k)) (enumerate 0 nodes) []"

definition record_host :: "string \<Rightarrow> int \<Rightarrow> Leg \<Rightarrow> HostColumnIndex \<Rightarrow> HostColumnIndex" where
  "record_host hostKey col leg h =
     (let key = toLowerCase hostKey;
          h = (if leg = LegB then h\<lparr>hi_bLeg := ob_set (hi_bLeg h) key col\<rparr> else h\<lparr>hi_aLeg := ob_set (hi_aLeg h) key col\<rparr>)
      in if ob_get (hi_any h) key = None then h\<lparr>hi_any := ob_set (hi_any h) key col\<rparr> else h)"

definition record_seen :: "(string \<times> int) list \<Rightarrow> string \<Rightarrow> HostColumnIndex \<Rightarrow> HostColumnIndex" where
  "record_seen columns host h = (case ob_get columns host of Some col \<Rightarrow> record_host host col LegA h | None \<Rightarrow> h)"

definition buildHostColumnIndex :: "LadderWire list \<Rightarrow> (string \<times> int) list \<Rightarrow> (string \<times> int) list \<Rightarrow> HostColumnIndex" where
  "buildHostColumnIndex rows columns bColumns =
     fold (\<lambda>m h. record_seen columns (hm_dst_ip m) (record_seen columns (hm_src_ip m) h)) rows
       (fold (\<lambda>(i, col). record_host i col LegB) bColumns
         (fold (\<lambda>(i, col). record_host i col LegA) columns \<lparr>hi_aLeg = [], hi_bLeg = [], hi_any = []\<rparr>))"

definition lookupHostColumn :: "string \<Rightarrow> Leg \<Rightarrow> HostColumnIndex \<Rightarrow> int option" where
  "lookupHostColumn host leg h =
     (if host = '''' then None
      else let key = toLowerCase host in
           case ob_get (if leg = LegB then hi_bLeg h else hi_aLeg h) key of
             Some c \<Rightarrow> Some c
           | None \<Rightarrow> ob_get (hi_any h) key)"

definition resolveColumn :: "string \<Rightarrow> Leg \<Rightarrow> ResolveContext \<Rightarrow> int option" where
  "resolveColumn physicalId leg ctx =
     (case (if leg = LegB then ob_get (rc_bLegColumnIndex ctx) physicalId else None) of
        Some c \<Rightarrow> Some c
      | None \<Rightarrow> ob_get (rc_columnIndex ctx) physicalId)"

definition fallbackAnchorByLeg :: "Leg \<Rightarrow> ResolveContext \<Rightarrow> int" where
  "fallbackAnchorByLeg leg ctx =
     (if rc_mediaCol ctx \<ge> 0
      then (if leg = LegB then min (rc_mediaCol ctx + 1) (rc_nodeCount ctx - 1) else max (rc_mediaCol ctx - 1) 0)
      else if leg = LegB then rc_nodeCount ctx - 1 else 0)"

text \<open>\<open>replace(/^sips?:/i, '').replace(/^tel:/i, '')\<close>.\<close>

definition strip_scheme_i :: "string \<Rightarrow> string" where
  "strip_scheme_i s =
     (let t = (if startsWith (fold_case s) ''SIPS:'' then drop 5 s else if startsWith (fold_case s) ''SIP:'' then drop 4 s else s)
      in if startsWith (fold_case t) ''TEL:'' then drop 4 t else t)"

definition splitUriHost :: "string \<Rightarrow> string" where
  "splitUriHost uri =
     (let cleaned = until_char (CHR '';'') (after_user (strip_scheme_i uri)) in
      case bracketed cleaned of
        Some (host, rest) \<Rightarrow> host
      | None \<Rightarrow> trim (fst (plain_host_port cleaned)))"

definition nonempty :: "string \<Rightarrow> string list" where
  "nonempty s = (if s = '''' then [] else [s])"

definition candidateHosts :: "LadderWire \<Rightarrow> SIPMessageInfo \<Rightarrow> string list" where
  "candidateHosts m info =
     (if sm_isRequest info \<or> hr_status m = None
      then (case sm_routes info of r # rs \<Rightarrow> nonempty (ri_host r) | [] \<Rightarrow> [])
           @ (if sm_requestUri info = '''' then [] else nonempty (splitUriHost (sm_requestUri info)))
           @ (case sm_contact info of Some c \<Rightarrow> nonempty (ci_host c) | None \<Rightarrow> [])
      else concat (map (\<lambda>via. nonempty (or_else (vi_received via) (vi_host via))) (sm_vias info)))"

fun first_other_column :: "Leg \<Rightarrow> int \<Rightarrow> HostColumnIndex \<Rightarrow> string list \<Rightarrow> int option" where
  "first_other_column leg anchor h [] = None"
| "first_other_column leg anchor h (host # hosts) =
     (case lookupHostColumn host leg h of
        Some col \<Rightarrow> if col \<noteq> anchor then Some col else first_other_column leg anchor h hosts
      | None \<Rightarrow> first_other_column leg anchor h hosts)"

definition resolvePeerColumnFromSip :: "LadderWire \<Rightarrow> Leg \<Rightarrow> int \<Rightarrow> ResolveContext \<Rightarrow> int option" where
  "resolvePeerColumnFromSip m leg anchorCol ctx =
     (case lw_raw_msg m of
        None \<Rightarrow> None
      | Some raw \<Rightarrow>
          if raw = '''' then None
          else first_other_column leg anchorCol (rc_hostColumnIndex ctx) (candidateHosts m (extractSIPInfo raw)))"

definition nearestAdjacentColumn :: "int \<Rightarrow> Leg \<Rightarrow> ResolveContext \<Rightarrow> int" where
  "nearestAdjacentColumn anchorCol leg ctx =
     (let last_col = rc_nodeCount ctx - 1 in
      if last_col \<le> 0 then anchorCol
      else let pivot = (if rc_mediaCol ctx \<ge> 0 then rc_mediaCol ctx else rc_nodeCount ctx div 2);
               towardRight = (if leg = LegB then True else anchorCol < pivot)
           in if towardRight \<and> anchorCol < last_col then anchorCol + 1
              else if \<not> towardRight \<and> anchorCol > 0 then anchorCol - 1
              else if anchorCol < last_col then anchorCol + 1 else anchorCol - 1)"

definition resolveMessageDirection :: "LadderWire \<Rightarrow> Leg \<Rightarrow> ResolveContext \<Rightarrow> ResolvedDirection" where
  "resolveMessageDirection m leg ctx =
     (let src = resolveColumn (hm_src_ip m) leg ctx; dst = resolveColumn (hm_dst_ip m) leg ctx in
      if src \<noteq> None \<and> dst \<noteq> None \<and> src \<noteq> dst then \<lparr>rd_sourceCol = the src, rd_destCol = the dst, rd_inferred = False\<rparr>
      else let anchorCol = (case src of Some c \<Rightarrow> c | None \<Rightarrow> (case dst of Some c \<Rightarrow> c | None \<Rightarrow> fallbackAnchorByLeg leg ctx)) in
           case resolvePeerColumnFromSip m leg anchorCol ctx of
             Some peer \<Rightarrow>
               if peer \<noteq> anchorCol then \<lparr>rd_sourceCol = anchorCol, rd_destCol = peer, rd_inferred = True\<rparr>
               else \<lparr>rd_sourceCol = anchorCol, rd_destCol = nearestAdjacentColumn anchorCol leg ctx, rd_inferred = True\<rparr>
           | None \<Rightarrow> \<lparr>rd_sourceCol = anchorCol, rd_destCol = nearestAdjacentColumn anchorCol leg ctx, rd_inferred = True\<rparr>)"

definition resolveHairpinColumn :: "LadderWire \<Rightarrow> Leg \<Rightarrow> ResolveContext \<Rightarrow> ResolvedDirection" where
  "resolveHairpinColumn m leg ctx =
     (let col =
        (if leg = LegB \<and> rc_bLegColumnIndex ctx \<noteq> [] then Min (snd ` set (rc_bLegColumnIndex ctx))
         else case resolveColumn (hm_src_ip m) leg ctx of
                Some c \<Rightarrow> c
              | None \<Rightarrow> (case resolveColumn (hm_dst_ip m) leg ctx of Some c \<Rightarrow> c | None \<Rightarrow> fallbackAnchorByLeg leg ctx))
      in \<lparr>rd_sourceCol = col, rd_destCol = col, rd_inferred = False\<rparr>)"

section \<open>Connectors\<close>

definition zonePrefixOfSbcName :: "string \<Rightarrow> string option" where
  "zonePrefixOfSbcName name = (let upper = toUpperCase name in map_option (\<lambda>i. take i upper) (find_text ''SBC'' upper))"

definition node_label :: "LadderNode \<Rightarrow> string" where
  "node_label n = (case ln_displayLabel n of Some l \<Rightarrow> l | None \<Rightarrow> ln_id n)"

definition node_at :: "LadderNode list \<Rightarrow> int \<Rightarrow> LadderNode option" where
  "node_at nodes col = (if 0 \<le> col \<and> nat col < length nodes then Some (nodes ! nat col) else None)"

fun sibling_loop :: "string \<Rightarrow> int \<Rightarrow> int option \<Rightarrow> (nat \<times> LadderNode) list \<Rightarrow> int option" where
  "sibling_loop zone vipCol best [] = best"
| "sibling_loop zone vipCol best ((i, n) # rest) =
     (if ln_role n = Sbc \<and> zonePrefixOfSbcName (node_label n) = Some zone
         \<and> (case best of None \<Rightarrow> True | Some b \<Rightarrow> \<bar>int i - vipCol\<bar> < \<bar>b - vipCol\<bar>)
      then sibling_loop zone vipCol (Some (int i)) rest
      else sibling_loop zone vipCol best rest)"

definition findSiblingSbcColumn :: "int \<Rightarrow> LadderNode list \<Rightarrow> int option" where
  "findSiblingSbcColumn vipCol nodes =
     (case Option.bind (node_at nodes vipCol) (\<lambda>n. zonePrefixOfSbcName (node_label n)) of
        Some zone \<Rightarrow> sibling_loop zone vipCol None (enumerate 0 nodes)
      | None \<Rightarrow> None)"

definition direction_of :: "int \<Rightarrow> int \<Rightarrow> Direction" where
  "direction_of source dest = (if source \<le> dest then ToRight else ToLeft)"

definition makeHandoffMessage :: "int \<Rightarrow> int \<Rightarrow> LadderMessage \<Rightarrow> string \<Rightarrow> LadderMessage" where
  "makeHandoffMessage fromCol toCol anchor idSuffix =
     \<lparr>lm_id = lm_id anchor @ ''-handoff-'' @ idSuffix, lm_original = (lm_original anchor)\<lparr>lw_raw_msg := None\<rparr>,
      lm_sourceCol = fromCol, lm_destCol = toCol, lm_direction = direction_of fromCol toCol, lm_color = C_internalHandoff,
      lm_label = ''internal loopback'', lm_isRetransmission = False, lm_isHairpin = False, lm_tsCorrected = False, lm_leg = lm_leg anchor,
      lm_timeDeltaMs = Some 0, lm_directionInferred = True, lm_internalHandoff = True\<rparr>"

text \<open>The positions of phase 1, by leg and column.\<close>

definition bump :: "Leg \<Rightarrow> int \<Rightarrow> nat \<Rightarrow> bool \<Rightarrow> (Leg \<times> int \<rightharpoonup> nat) \<Rightarrow> (Leg \<times> int \<rightharpoonup> nat)" where
  "bump leg col pos keepLatest store =
     (case store (leg, col) of
        None \<Rightarrow> store((leg, col) \<mapsto> pos)
      | Some cur \<Rightarrow> if (if keepLatest then cur < pos else pos < cur) then store((leg, col) \<mapsto> pos) else store)"

definition is_wire :: "LadderMessage \<Rightarrow> bool" where
  "is_wire m \<longleftrightarrow> \<not> lm_internalHandoff m \<and> \<not> lm_isHairpin m"

definition lastSrcPos :: "LadderMessage list \<Rightarrow> (Leg \<times> int \<rightharpoonup> nat)" where
  "lastSrcPos ms = fold (\<lambda>(i, m) s. if is_wire m then bump (lm_leg m) (lm_sourceCol m) i True s else s) (enumerate 0 ms) Map.empty"

definition firstDstPos :: "LadderMessage list \<Rightarrow> (Leg \<times> int \<rightharpoonup> nat)" where
  "firstDstPos ms = fold (\<lambda>(i, m) s. if is_wire m then bump (lm_leg m) (lm_destCol m) i False s else s) (enumerate 0 ms) Map.empty"

definition hasLaterSrc :: "LadderMessage list \<Rightarrow> Leg \<Rightarrow> int \<Rightarrow> nat \<Rightarrow> bool" where
  "hasLaterSrc ms leg col pos \<longleftrightarrow> (case lastSrcPos ms (leg, col) of Some p \<Rightarrow> pos < p | None \<Rightarrow> False)"

definition hasEarlierDst :: "LadderMessage list \<Rightarrow> Leg \<Rightarrow> int \<Rightarrow> nat \<Rightarrow> bool" where
  "hasEarlierDst ms leg col pos \<longleftrightarrow> (case firstDstPos ms (leg, col) of Some p \<Rightarrow> p < pos | None \<Rightarrow> False)"

text \<open>The keys of connectors: leg, source and destination, in place of their text.\<close>

type_synonym crossing = "Leg \<times> int \<times> int"

definition crossing_of :: "LadderMessage \<Rightarrow> crossing" where
  "crossing_of m = (lm_leg m, lm_sourceCol m, lm_destCol m)"

definition emitOnce :: "int \<Rightarrow> int \<Rightarrow> LadderMessage \<Rightarrow> string \<Rightarrow> crossing set \<Rightarrow> LadderMessage list \<times> crossing set" where
  "emitOnce from_col to_col anchor kind emitted =
     (if from_col = to_col \<or> (lm_leg anchor, from_col, to_col) \<in> emitted then ([], emitted)
      else ([makeHandoffMessage from_col to_col anchor (kind @ ''-'' @ int_str from_col @ ''-'' @ int_str to_col)],
            insert (lm_leg anchor, from_col, to_col) emitted))"

definition role_at :: "LadderNode list \<Rightarrow> int \<Rightarrow> NodeRole option" where
  "role_at nodes col = map_option ln_role (node_at nodes col)"

text \<open>The crossing a row asks for before it and after it.\<close>

definition response_out :: "LadderNode list \<Rightarrow> (Leg \<Rightarrow> int \<Rightarrow> bool) \<Rightarrow> LadderMessage \<Rightarrow> (int \<times> int) option" where
  "response_out nodes earlierDst m =
     (if \<not> lm_isHairpin m \<and> role_at nodes (lm_sourceCol m) = Some Sbc_vip
         \<and> role_at nodes (lm_destCol m) \<in> {Some Carrier_ingress, Some Carrier_egress}
      then (case findSiblingSbcColumn (lm_sourceCol m) nodes of
              Some sibling \<Rightarrow> if earlierDst (lm_leg m) sibling then Some (sibling, lm_sourceCol m) else None
            | None \<Rightarrow> None)
      else None)"

definition request_in :: "LadderNode list \<Rightarrow> (Leg \<Rightarrow> int \<Rightarrow> bool) \<Rightarrow> LadderMessage \<Rightarrow> (int \<times> int) option" where
  "request_in nodes laterSrc m =
     (if \<not> lm_isHairpin m \<and> role_at nodes (lm_destCol m) = Some Sbc_vip
      then (case findSiblingSbcColumn (lm_destCol m) nodes of
              Some sibling \<Rightarrow> if laterSrc (lm_leg m) sibling then Some (lm_destCol m, sibling) else None
            | None \<Rightarrow> None)
      else None)"

definition emit_for :: "(int \<times> int) option \<Rightarrow> LadderMessage \<Rightarrow> string \<Rightarrow> crossing set \<Rightarrow> LadderMessage list \<times> crossing set" where
  "emit_for c m kind emitted = (case c of Some (f, t) \<Rightarrow> emitOnce f t m kind emitted | None \<Rightarrow> ([], emitted))"

fun handoff_walk :: "LadderNode list \<Rightarrow> LadderMessage list \<Rightarrow> nat \<Rightarrow> LadderMessage list \<Rightarrow> crossing set \<Rightarrow> LadderMessage list" where
  "handoff_walk nodes all i [] emitted = []"
| "handoff_walk nodes all i (m # ms) emitted =
     (if lm_internalHandoff m then m # handoff_walk nodes all (Suc i) ms emitted
      else let (pre, emitted) = emit_for (response_out nodes (\<lambda>leg col. hasEarlierDst all leg col i) m) m ''out'' emitted;
               (post, emitted) = emit_for (request_in nodes (\<lambda>leg col. hasLaterSrc all leg col i) m) m ''in'' emitted
           in pre @ m # post @ handoff_walk nodes all (Suc i) ms emitted)"

definition injectInternalHandoffs :: "LadderMessage list \<Rightarrow> LadderNode list \<Rightarrow> LadderMessage list" where
  "injectInternalHandoffs messages nodes =
     (if \<not> list_ex (\<lambda>n. ln_role n = Sbc_vip) nodes then messages
      else handoff_walk nodes messages 0 messages (crossing_of ` set (filter lm_internalHandoff messages)))"

section \<open>The layout\<close>

definition is_hairpin :: "LadderWire \<Rightarrow> bool" where
  "is_hairpin m \<longleftrightarrow> lw_hairpin m \<or> hm_src_ip m \<noteq> '''' \<and> hm_src_ip m = hm_dst_ip m"

text \<open>A row: the message at place \<open>i\<close>, with the rows before it.\<close>

definition layout_row ::
  "ResolveContext \<Rightarrow> string set \<Rightarrow> string set \<Rightarrow> nat \<Rightarrow> LadderWire list \<Rightarrow> LadderWire \<times> bool \<Rightarrow> LadderMessage" where
  "layout_row ctx a b i prevs row =
     (let (m, moved) = row; leg = determineLeg (hr_callid m) a b;
          isRetransmit = isRetransmission (HomerMessage.truncate m) (map HomerMessage.truncate prevs) 500;
          resolved = (if is_hairpin m then resolveHairpinColumn m leg ctx else resolveMessageDirection m leg ctx)
      in \<lparr>lm_id = hr_callid m @ ''-'' @ number_text (ns m) @ ''-'' @ nat_str i, lm_original = m,
          lm_sourceCol = rd_sourceCol resolved, lm_destCol = rd_destCol resolved,
          lm_direction = direction_of (rd_sourceCol resolved) (rd_destCol resolved),
          lm_color = (if isRetransmit then C_retransmission else getMessageColor m leg), lm_label = formatMessageLabel m,
          lm_isRetransmission = isRetransmit, lm_isHairpin = is_hairpin m, lm_tsCorrected = (lw_ts_corrected m \<or> moved), lm_leg = leg,
          lm_timeDeltaMs = (if prevs = [] then None else Some ((ns m - ns (last prevs)) / 1000000)),
          lm_directionInferred = rd_inferred resolved, lm_internalHandoff = False\<rparr>)"

definition layout_rows :: "ResolveContext \<Rightarrow> string set \<Rightarrow> string set \<Rightarrow> (LadderWire \<times> bool) list \<Rightarrow> LadderMessage list" where
  "layout_rows ctx a b rows = map (\<lambda>i. layout_row ctx a b i (map fst (take i rows)) (rows ! i)) [0..<length rows]"

definition layout_context :: "LadderWire list \<Rightarrow> LadderNode list \<Rightarrow> (string \<times> int) list \<Rightarrow> ResolveContext" where
  "layout_context rows nodes bColumns =
     \<lparr>rc_columnIndex = index_columns nodes, rc_bLegColumnIndex = bColumns,
      rc_hostColumnIndex = buildHostColumnIndex rows (index_columns nodes) bColumns,
      rc_mediaCol = find_index (\<lambda>n. ln_role n = Media_server) nodes, rc_nodeCount = int (length nodes)\<rparr>"

definition computeLayout :: "LadderWire list \<Rightarrow> (string \<times> string list) list \<Rightarrow> LadderLayout" where
  "computeLayout messages correlations =
     (if messages = [] then \<lparr>la_nodes = [], la_messages = [], la_aLegCallIds = {}, la_bLegCallIds = {}, la_callDurationMs = None\<rparr>
      else let rows = orderMessages messages; ordered = map fst rows;
               (a, b) = classifyCallLegs ordered correlations;
               (orderedNodes, insertAt) = orderNodes ordered (discoverNodes ordered) a b;
               (finalNodes, bColumns) = splitDualLegNodes orderedNodes ordered a b insertAt;
               processed = layout_rows (layout_context ordered finalNodes bColumns) a b rows
           in \<lparr>la_nodes = finalNodes, la_messages = injectInternalHandoffs processed finalNodes, la_aLegCallIds = a, la_bLegCallIds = b,
               la_callDurationMs = (if length ordered \<ge> 2 then Some ((Max (ns ` set ordered) - Min (ns ` set ordered)) / 1000000) else None)\<rparr>)"

end
