(* ===== verification/Handoffs.thy ===== *)
theory Handoffs
  imports Ladder_Layout
begin

text \<open>
  The connectors between a VIP and its SBC (\<open>injectInternalHandoffs\<close> in \<open>components/sip-ladder/sipLadderLayout.ts\<close>): the
  pass looks at the rows before and after each row, adds each crossing once, and adds nothing on its own output.
\<close>

section \<open>Positions\<close>

definition sends :: "Leg \<Rightarrow> int \<Rightarrow> LadderMessage \<Rightarrow> bool" where
  "sends leg col m \<longleftrightarrow> is_wire m \<and> lm_leg m = leg \<and> lm_sourceCol m = col"

definition receives :: "Leg \<Rightarrow> int \<Rightarrow> LadderMessage \<Rightarrow> bool" where
  "receives leg col m \<longleftrightarrow> is_wire m \<and> lm_leg m = leg \<and> lm_destCol m = col"

lemma less_after:
  assumes "\<forall>k p. f k = Some p \<longrightarrow> p < n" "g k = (if b then Some n else f k)" "g k = Some p"
  shows "p < Suc n"
  using assms by (cases b) (auto simp only: if_True if_False option.inject intro: less_SucI)

lemma lastSrcPos_snoc:
  "(\<forall>k p. lastSrcPos ms k = Some p \<longrightarrow> p < length ms)
   \<and> lastSrcPos (ms @ [m]) (l, c) = (if sends l c m then Some (length ms) else lastSrcPos ms (l, c))"
proof (induction ms arbitrary: m l c rule: rev_induct)
  case Nil
  show ?case by (auto simp: lastSrcPos_def bump_def sends_def enumerate_eq_zip)
next
  case (snoc x ms)
  have step: "lastSrcPos (xs @ [y]) = (if is_wire y then bump (lm_leg y) (lm_sourceCol y) (length xs) True (lastSrcPos xs) else lastSrcPos xs)" for xs y
    by (simp add: lastSrcPos_def enumerate_append_eq)
  have bound: "lastSrcPos (ms @ [x]) k = Some p \<Longrightarrow> p < length (ms @ [x])" for k p
    using less_after [of "lastSrcPos ms" "length ms" "lastSrcPos (ms @ [x])" k "sends (fst k) (snd k) x"] snoc [of x "fst k" "snd k"] by simp
  then show ?case unfolding step [of "ms @ [x]"] by (auto simp: bump_def sends_def split: option.splits)
qed

lemma firstDstPos_snoc:
  "(\<forall>k p. firstDstPos ms k = Some p \<longrightarrow> p < length ms)
   \<and> firstDstPos (ms @ [m]) (l, c) = (if firstDstPos ms (l, c) = None \<and> receives l c m then Some (length ms) else firstDstPos ms (l, c))"
proof (induction ms arbitrary: m l c rule: rev_induct)
  case Nil
  show ?case by (auto simp: firstDstPos_def bump_def receives_def enumerate_eq_zip)
next
  case (snoc x ms)
  have step: "firstDstPos (xs @ [y]) = (if is_wire y then bump (lm_leg y) (lm_destCol y) (length xs) False (firstDstPos xs) else firstDstPos xs)" for xs y
    by (simp add: firstDstPos_def enumerate_append_eq)
  have bound: "firstDstPos (ms @ [x]) k = Some p \<Longrightarrow> p < length (ms @ [x])" for k p
    using less_after [of "firstDstPos ms" "length ms" "firstDstPos (ms @ [x])" k "firstDstPos ms k = None \<and> receives (fst k) (snd k) x"]
      snoc [of x "fst k" "snd k"] by simp
  then show ?case unfolding step [of "ms @ [x]"] by (fastforce simp: bump_def receives_def split: option.splits)
qed

lemma hasLaterSrc_iff: "hasLaterSrc ms leg col pos \<longleftrightarrow> (\<exists>i < length ms. pos < i \<and> sends leg col (ms ! i))"
proof (induction ms rule: rev_induct)
  case Nil
  show ?case by (simp add: hasLaterSrc_def lastSrcPos_def)
next
  case (snoc m ms)
  have bound: "lastSrcPos ms (leg, col) = Some p \<Longrightarrow> p < length ms" for p using lastSrcPos_snoc by blast
  have "lastSrcPos (ms @ [m]) (leg, col) = (if sends leg col m then Some (length ms) else lastSrcPos ms (leg, col))" using lastSrcPos_snoc by blast
  then show ?case using snoc bound unfolding hasLaterSrc_def
    by (auto simp: less_Suc_eq nth_append split: option.splits if_splits)
qed

lemma hasEarlierDst_iff: "hasEarlierDst ms leg col pos \<longleftrightarrow> (\<exists>i < length ms. i < pos \<and> receives leg col (ms ! i))"
proof (induction ms rule: rev_induct)
  case Nil
  show ?case by (simp add: hasEarlierDst_def firstDstPos_def)
next
  case (snoc m ms)
  have none: "firstDstPos ms (leg, col) = None \<longleftrightarrow> (\<forall>i < length ms. \<not> receives leg col (ms ! i))"
  proof (induction ms rule: rev_induct)
    case (snoc x xs)
    then show ?case using firstDstPos_snoc [of xs x leg col] by (auto simp: less_Suc_eq nth_append)
  qed (simp add: firstDstPos_def)
  have bound: "firstDstPos ms (leg, col) = Some p \<Longrightarrow> p < length ms" for p using firstDstPos_snoc by blast
  have "firstDstPos (ms @ [m]) (leg, col) =
      (if firstDstPos ms (leg, col) = None \<and> receives leg col m then Some (length ms) else firstDstPos ms (leg, col))" using firstDstPos_snoc by blast
  then show ?case using snoc bound none unfolding hasEarlierDst_def
    by (auto simp: less_Suc_eq nth_append split: option.splits if_splits)
qed

section \<open>The pass over rows before and after\<close>

fun handoffs :: "LadderNode list \<Rightarrow> LadderMessage list \<Rightarrow> LadderMessage list \<Rightarrow> crossing set \<Rightarrow> LadderMessage list" where
  "handoffs nodes pre [] emitted = []"
| "handoffs nodes pre (m # ms) emitted =
     (if lm_internalHandoff m then m # handoffs nodes (pre @ [m]) ms emitted
      else let (p, emitted) = emit_for (response_out nodes (\<lambda>l c. list_ex (receives l c) pre) m) m ''out'' emitted;
               (q, emitted) = emit_for (request_in nodes (\<lambda>l c. list_ex (sends l c) ms) m) m ''in'' emitted
           in p @ m # q @ handoffs nodes (pre @ [m]) ms emitted)"

lemma later_split: "\<not> lm_internalHandoff m \<Longrightarrow> hasLaterSrc (pre @ m # ms) l c (length pre) = list_ex (sends l c) ms"
proof
  assume "hasLaterSrc (pre @ m # ms) l c (length pre)"
  then obtain i where "i < length (pre @ m # ms)" "length pre < i" "sends l c ((pre @ m # ms) ! i)" unfolding hasLaterSrc_iff by blast
  then have "sends l c (ms ! (i - Suc (length pre)))" "i - Suc (length pre) < length ms" by (auto simp: nth_append nth_Cons')
  then show "list_ex (sends l c) ms" by (auto simp: list_ex_iff)
next
  assume "list_ex (sends l c) ms"
  then obtain j where "j < length ms" "sends l c (ms ! j)" by (auto simp: list_ex_iff in_set_conv_nth)
  then show "hasLaterSrc (pre @ m # ms) l c (length pre)" unfolding hasLaterSrc_iff
    by (intro exI [of _ "Suc (length pre) + j"]) (simp add: nth_append)
qed

lemma earlier_split: "hasEarlierDst (pre @ ms) l c (length pre) = list_ex (receives l c) pre"
proof
  assume "hasEarlierDst (pre @ ms) l c (length pre)"
  then show "list_ex (receives l c) pre" unfolding hasEarlierDst_iff by (auto simp: list_ex_iff nth_append)
next
  assume "list_ex (receives l c) pre"
  then obtain j where "j < length pre" "receives l c (pre ! j)" by (auto simp: list_ex_iff in_set_conv_nth)
  then show "hasEarlierDst (pre @ ms) l c (length pre)" unfolding hasEarlierDst_iff
    by (intro exI [of _ j]) (simp add: nth_append)
qed

lemma walk_handoffs: "handoff_walk nodes (pre @ ms) (length pre) ms emitted = handoffs nodes pre ms emitted"
proof (induction ms arbitrary: pre emitted)
  case (Cons m ms)
  have next_row: "handoff_walk nodes (pre @ m # ms) (Suc (length pre)) ms e = handoffs nodes (pre @ [m]) ms e" for e
    using Cons.IH [of "pre @ [m]" e] by simp
  then show ?case by (simp add: later_split earlier_split split: prod.split)
qed simp

text \<open>Only captured rows count.\<close>

lemma wire_rows: "filter is_wire xs = filter is_wire ys \<Longrightarrow> list_ex (sends l c) xs = list_ex (sends l c) ys \<and> list_ex (receives l c) xs = list_ex (receives l c) ys"
proof -
  assume "filter is_wire xs = filter is_wire ys"
  then have "set (filter is_wire xs) = set (filter is_wire ys)" by simp
  then show ?thesis unfolding list_ex_iff sends_def receives_def by auto
qed

lemma emit_for_cases:
  assumes "emit_for c m kind e = (p, e')"
  shows "e' = e \<union> crossing_of ` set p \<and> list_all lm_internalHandoff p"
    "\<And>e2. e' \<subseteq> e2 \<Longrightarrow> emit_for c m kind e2 = ([], e2)"
    "distinct (map crossing_of p) \<and> crossing_of ` set p \<inter> e = {}"
  using assms by (auto simp: emit_for_def emitOnce_def makeHandoffMessage_def crossing_of_def split: option.splits if_splits)

lemma not_wire: "list_all lm_internalHandoff p \<Longrightarrow> filter is_wire p = []"
  by (auto simp: filter_empty_conv list_all_iff is_wire_def)

text \<open>Without the connectors, what comes out is what went in.\<close>

lemma handoffs_filter:
  "(\<And>m. lm_internalHandoff m \<Longrightarrow> \<not> P m) \<Longrightarrow> filter P (handoffs nodes pre ms e) = filter P ms"
proof (induction ms arbitrary: pre e)
  case (Cons m ms)
  have "filter P p = []" if "emit_for c x k e1 = (p, e2)" for c x k e1 p e2
    using emit_for_cases(1) [OF that] Cons.prems by (auto simp: filter_empty_conv list_all_iff)
  then show ?case using Cons by (auto split: prod.split)
qed simp

lemma handoffs_pass: "list_all lm_internalHandoff p \<Longrightarrow> handoffs nodes pre (p @ ms) e = p @ handoffs nodes (pre @ p) ms e"
  by (induction p arbitrary: pre) simp_all

lemma handoffs_again:
  assumes "filter is_wire pre' = filter is_wire pre"
    and "e \<union> crossing_of ` set (filter lm_internalHandoff (handoffs nodes pre ms e)) \<subseteq> e'"
  shows "handoffs nodes pre' (handoffs nodes pre ms e) e' = handoffs nodes pre ms e"
  using assms
proof (induction ms arbitrary: pre pre' e)
  case (Cons m ms)
  show ?case
  proof (cases "lm_internalHandoff m")
    case True
    then show ?thesis using Cons.IH [of "pre' @ [m]" "pre @ [m]" e] Cons.prems by simp
  next
    case False
    obtain p e1 where p: "emit_for (response_out nodes (\<lambda>l c. list_ex (receives l c) pre) m) m ''out'' e = (p, e1)" by fastforce
    obtain q e2 where q: "emit_for (request_in nodes (\<lambda>l c. list_ex (sends l c) ms) m) m ''in'' e1 = (q, e2)" by fastforce
    let ?out = "handoffs nodes (pre @ [m]) ms e2"
    note P = emit_for_cases [OF p] and Q = emit_for_cases [OF q]
    have out: "handoffs nodes pre (m # ms) e = p @ m # q @ ?out" using False p q by simp
    have sub: "e \<union> crossing_of ` set p \<union> crossing_of ` set q \<union> crossing_of ` set (filter lm_internalHandoff ?out) \<subseteq> e'"
      using Cons.prems(2) P(1) Q(1) unfolding out by (auto simp: list_all_iff)
    have before: "list_ex (receives l c) (pre' @ p) = list_ex (receives l c) pre" for l c
      using wire_rows [of "pre' @ p" pre] Cons.prems(1) not_wire P(1) by simp
    have "filter is_wire ?out = filter is_wire ms" by (rule handoffs_filter) (simp add: is_wire_def)
    then have later: "list_ex (sends l c) (q @ ?out) = list_ex (sends l c) ms" for l c
      using wire_rows [of "q @ ?out" ms] not_wire Q(1) by simp
    have "e1 \<subseteq> e'" "e2 \<subseteq> e'" using sub P(1) Q(1) by auto
    then have "emit_for (response_out nodes (\<lambda>l c. list_ex (receives l c) (pre' @ p)) m) m ''out'' e' = ([], e')"
      "emit_for (request_in nodes (\<lambda>l c. list_ex (sends l c) (q @ ?out)) m) m ''in'' e' = ([], e')"
      unfolding before later using P(2) Q(2) by blast+
    then have "handoffs nodes (pre' @ p) (m # q @ ?out) e' = m # handoffs nodes (pre' @ p @ [m]) (q @ ?out) e'"
      by (simp only: handoffs.simps False if_False Let_def prod.case append_Nil append_assoc)
    also have "handoffs nodes (pre' @ p @ [m]) (q @ ?out) e' = q @ handoffs nodes (pre' @ p @ [m] @ q) ?out e'"
      using handoffs_pass [of q nodes "pre' @ p @ [m]"] Q(1) by simp
    also have "handoffs nodes (pre' @ p @ [m] @ q) ?out e' = ?out"
      by (rule Cons.IH) (use Cons.prems(1) not_wire P(1) Q(1) sub in auto)
    finally show ?thesis unfolding out using handoffs_pass [of p nodes pre'] P(1) by simp
  qed
qed simp

section \<open>What a connector joins\<close>

text \<open>A VIP column and the column of an SBC of the same zone; a connector is drawn as inferred and carries no packet.\<close>

definition bridges :: "LadderNode list \<Rightarrow> int \<Rightarrow> int \<Rightarrow> bool" where
  "bridges nodes vip sbc \<longleftrightarrow>
     (case (node_at nodes vip, node_at nodes sbc) of
        (Some a, Some b) \<Rightarrow> ln_role a = Sbc_vip \<and> ln_role b = Sbc \<and> zonePrefixOfSbcName (node_label a) = zonePrefixOfSbcName (node_label b)
      | _ \<Rightarrow> False)"

lemma sibling_loop_in:
  "sibling_loop zone v best xs = Some s \<Longrightarrow>
     best = Some s \<or> (\<exists>(i, n) \<in> set xs. s = int i \<and> ln_role n = Sbc \<and> zonePrefixOfSbcName (node_label n) = Some zone)"
  by (induction zone v best xs rule: sibling_loop.induct) (auto split: if_splits)

lemma sibling_bridges:
  assumes "findSiblingSbcColumn v nodes = Some s" "role_at nodes v = Some Sbc_vip"
  shows "bridges nodes v s"
proof -
  obtain a zone where a: "node_at nodes v = Some a" "zonePrefixOfSbcName (node_label a) = Some zone" "sibling_loop zone v None (enumerate 0 nodes) = Some s"
    using assms(1) by (auto simp: findSiblingSbcColumn_def split: option.splits bind_splits)
  from sibling_loop_in [OF a(3)] obtain i n where "(i, n) \<in> set (enumerate 0 nodes)" "s = int i" "ln_role n = Sbc" "zonePrefixOfSbcName (node_label n) = Some zone"
    by auto
  moreover from this have "node_at nodes s = Some n" by (auto simp: node_at_def in_set_enumerate_eq)
  ultimately show ?thesis using a assms(2) by (auto simp: bridges_def role_at_def)
qed

lemma asked_bridges:
  "response_out nodes earlier m = Some (f, t) \<Longrightarrow> bridges nodes t f" "request_in nodes later m = Some (f, t) \<Longrightarrow> bridges nodes f t"
  using sibling_bridges by (auto simp: response_out_def request_in_def split: if_splits option.splits)

definition connector_ok :: "LadderNode list \<Rightarrow> LadderMessage \<Rightarrow> bool" where
  "connector_ok nodes h \<longleftrightarrow> lm_directionInferred h \<and> lw_raw_msg (lm_original h) = None
     \<and> (bridges nodes (lm_sourceCol h) (lm_destCol h) \<or> bridges nodes (lm_destCol h) (lm_sourceCol h))"

lemma emit_connector:
  "emit_for c m kind e = (p, e') \<Longrightarrow> (\<And>f t. c = Some (f, t) \<Longrightarrow> bridges nodes f t \<or> bridges nodes t f) \<Longrightarrow> list_all (connector_ok nodes) p"
  by (auto simp: emit_for_def emitOnce_def makeHandoffMessage_def connector_ok_def split: option.splits if_splits)

lemma handoffs_connectors:
  assumes "list_all (\<lambda>m. \<not> lm_internalHandoff m) ms"
  shows "list_all (connector_ok nodes) (filter lm_internalHandoff (handoffs nodes pre ms e))
    \<and> distinct (map crossing_of (filter lm_internalHandoff (handoffs nodes pre ms e)))
    \<and> crossing_of ` set (filter lm_internalHandoff (handoffs nodes pre ms e)) \<inter> e = {}"
  using assms
proof (induction ms arbitrary: pre e)
  case (Cons m ms)
  obtain p e1 where p: "emit_for (response_out nodes (\<lambda>l c. list_ex (receives l c) pre) m) m ''out'' e = (p, e1)" by fastforce
  obtain q e2 where q: "emit_for (request_in nodes (\<lambda>l c. list_ex (sends l c) ms) m) m ''in'' e1 = (q, e2)" by fastforce
  note P = emit_for_cases [OF p] and Q = emit_for_cases [OF q]
  let ?h = "filter lm_internalHandoff (handoffs nodes (pre @ [m]) ms e2)"
  have "filter lm_internalHandoff p = p" "filter lm_internalHandoff q = q" using P(1) Q(1) by (simp_all add: filter_id_conv list_all_iff)
  then have h: "filter lm_internalHandoff (handoffs nodes pre (m # ms) e) = p @ q @ ?h" using Cons.prems p q by simp
  have "list_all (connector_ok nodes) p" by (rule emit_connector [OF p]) (use asked_bridges in blast)
  moreover have "list_all (connector_ok nodes) q" by (rule emit_connector [OF q]) (use asked_bridges in blast)
  ultimately show ?case unfolding h using Cons.IH [of "pre @ [m]" e2] Cons.prems P(1,3) Q(1,3) by auto
qed simp

lemma inject_handoffs:
  "injectInternalHandoffs ms nodes =
     (if list_ex (\<lambda>n. ln_role n = Sbc_vip) nodes then handoffs nodes [] ms (crossing_of ` set (filter lm_internalHandoff ms)) else ms)"
  using walk_handoffs [of nodes "[]" ms] by (simp add: injectInternalHandoffs_def)

lemma handoffs_keep: "set (filter lm_internalHandoff ms) \<subseteq> set (handoffs nodes pre ms e)"
proof (induction ms arbitrary: pre e)
  case (Cons m ms)
  obtain p e1 where p: "emit_for (response_out nodes (\<lambda>l c. list_ex (receives l c) pre) m) m ''out'' e = (p, e1)" by fastforce
  obtain q e2 where q: "emit_for (request_in nodes (\<lambda>l c. list_ex (sends l c) ms) m) m ''in'' e1 = (q, e2)" by fastforce
  show ?case using Cons.IH [of "pre @ [m]" e] Cons.IH [of "pre @ [m]" e2] p q by auto
qed simp

section \<open>Property\<close>


definition ladder_node :: "string \<Rightarrow> NodeRole \<Rightarrow> LadderNode" where
  "ladder_node i r = \<lparr>ln_id = i, ln_displayLabel = None, ln_role = r, ln_columnIndex = 0, ln_legTag = None, ln_endpointTag = None\<rparr>"

definition ladder_row :: "int \<Rightarrow> int \<Rightarrow> LadderMessage" where
  "ladder_row f t =
     \<lparr>lm_id = ''r'', lm_original =
        \<lparr>hr_timestamp = '''', hr_timestamp_ns = Some 0, hr_callid = '''', hr_method = ''INVITE'', hr_status = None, hr_cseq = None,
         hr_attestation = None, hm_src_ip = '''', hm_dst_ip = '''', hm_via_branch = None, lw_hairpin = False, lw_ts_corrected = False,
         lw_seq = None, lw_raw_msg = None\<rparr>,
      lm_sourceCol = f, lm_destCol = t, lm_direction = direction_of f t, lm_color = C_invite, lm_label = '''', lm_isRetransmission = False,
      lm_isHairpin = False, lm_tsCorrected = False, lm_leg = LegA, lm_timeDeltaMs = None, lm_directionInferred = False, lm_internalHandoff = False\<rparr>"

definition zone_nodes :: "LadderNode list" where
  "zone_nodes = [ladder_node ''BW-NY'' Carrier_ingress, ladder_node ''West-SBC-VIP'' Sbc_vip, ladder_node ''SBC-9'' Sbc, ladder_node ''West-SBC-1'' Sbc]"

definition zone_rows :: "LadderMessage list" where
  "zone_rows = [ladder_row 0 1, ladder_row 1 0, ladder_row 0 1, ladder_row 3 2, ladder_row 2 3, ladder_row 1 0]"


end
