(* ===== verification/Ladder_Layout_Props.thy ===== *)
theory Ladder_Layout_Props
  imports Handoffs Ladder_Props
begin

text \<open>
  The ladder's layout keeps what was captured: the rows are the captured messages in an order in which no response
  stands above its request, every row is an arrow between two columns of the ladder, and the connectors drawn in
  between are added once and change nothing else.
\<close>

section \<open>The order of the rows\<close>

definition request_keys :: "LadderWire list \<Rightarrow> string set" where
  "request_keys ms = transactionKey ` set (filter is_request ms)"

lemma request_keys_simps [simp]:
  "request_keys [] = {}" "request_keys (xs @ ys) = request_keys xs \<union> request_keys ys"
  "request_keys (m # ms) = (if is_request m then insert (transactionKey m) (request_keys ms) else request_keys ms)"
  by (auto simp: request_keys_def)

text \<open>No response of a transaction in \<open>H\<close> before a request of it; \<open>S\<close> holds the requests shown before.\<close>

fun causal :: "string set \<Rightarrow> string set \<Rightarrow> LadderWire list \<Rightarrow> bool" where
  "causal H S [] = True"
| "causal H S (m # ms) \<longleftrightarrow>
     (is_request m \<or> transactionKey m \<notin> H \<or> transactionKey m \<in> S)
     \<and> causal H (if is_request m then insert (transactionKey m) S else S) ms"

lemma causal_append: "causal H S (xs @ ys) \<longleftrightarrow> causal H S xs \<and> causal H (S \<union> request_keys xs) ys"
  by (induction xs arbitrary: S) auto

lemma causal_waiting: "list_all (\<lambda>w. \<not> is_request w \<and> transactionKey w \<in> S) ws \<Longrightarrow> causal H S ws"
  by (induction ws) auto

abbreviation held :: "CausalState \<Rightarrow> LadderWire list" where
  "held st \<equiv> concat (map snd (ca_deferred st))"

definition held_ok :: "string set \<Rightarrow> string set \<Rightarrow> (string \<times> LadderWire list) list \<Rightarrow> bool" where
  "held_ok H seen d \<longleftrightarrow> list_all (\<lambda>(k, ws). k \<in> H \<and> k \<notin> seen \<and> list_all (\<lambda>w. \<not> is_request w \<and> transactionKey w = k) ws) d"

definition causal_inv :: "string set \<Rightarrow> LadderWire list \<Rightarrow> CausalState \<Rightarrow> bool" where
  "causal_inv H xs st \<longleftrightarrow>
     mset (map fst (ca_out st)) + mset (held st) = mset xs
     \<and> ca_seen st = request_keys xs \<and> request_keys (map fst (ca_out st)) = request_keys xs
     \<and> distinct (ob_keys (ca_deferred st))
     \<and> held_ok H (request_keys xs) (ca_deferred st) \<and> causal H {} (map fst (ca_out st))
     \<and> subseq (map fst (filter (\<lambda>r. \<not> snd r) (ca_out st))) xs
     \<and> list_all (\<lambda>(m, moved). moved \<longrightarrow> \<not> is_request m) (ca_out st)"

lemma held_remove: "distinct (ob_keys d) \<Longrightarrow>
    mset (waiting_for k d) + mset (concat (map snd (filter (\<lambda>e. fst e \<noteq> k) d))) = mset (concat (map snd d))"
proof (induction d)
  case (Cons e d)
  show ?case
  proof (cases "fst e = k")
    case True
    then have "filter (\<lambda>e. fst e \<noteq> k) d = d" using Cons.prems by (auto simp: filter_id_conv rev_image_eqI)
    then show ?thesis using True by (cases e) (simp add: waiting_for_def)
  next
    case False
    then show ?thesis using Cons by (cases e) (simp add: waiting_for_def)
  qed
qed (simp add: waiting_for_def)

lemma held_add: "distinct (ob_keys d) \<Longrightarrow>
    mset (concat (map snd (ob_set d k (waiting_for k d @ [m])))) = add_mset m (mset (concat (map snd d)))"
proof (induction d)
  case (Cons e d)
  have "AList.update k x d = d @ [(k, x)]" if "k \<notin> set (ob_keys d)" for x using that by (induction d) auto
  then show ?case using Cons by (cases e) (auto simp: waiting_for_def)
qed (simp add: waiting_for_def)

lemma waiting_in: "waiting_for k d \<noteq> [] \<Longrightarrow> (k, waiting_for k d) \<in> set d"
  by (auto simp: waiting_for_def split: option.splits dest: map_of_SomeD)

lemma held_ok_get: "held_ok H seen d \<Longrightarrow> list_all (\<lambda>w. \<not> is_request w \<and> transactionKey w = k) (waiting_for k d)"
  using waiting_in [of k d] by (cases "waiting_for k d = []") (auto simp: held_ok_def list_all_iff)

lemma held_ok_set:
  assumes "held_ok H seen d" "k \<in> H" "k \<notin> seen" "list_all (\<lambda>w. \<not> is_request w \<and> transactionKey w = k) ws"
  shows "held_ok H seen (ob_set d k ws)"
  using assms by (induction d) (auto simp: held_ok_def)

lemma held_ok_drop: "held_ok H seen d \<Longrightarrow> held_ok H (insert k seen) (filter (\<lambda>e. fst e \<noteq> k) d)"
  by (auto simp: held_ok_def list_all_iff)

lemma unmoved_snoc: "subseq xs ys \<Longrightarrow> subseq (xs @ [m]) (ys @ [m])" "subseq xs ys \<Longrightarrow> subseq xs (ys @ [m])"
  by (simp_all add: list_emb_append_mono subseq_rev_drop_many)

lemma causal_inv_step:
  assumes inv: "causal_inv H xs st"
  shows "causal_inv H (xs @ [m]) (causal_step H m st)"
proof -
  let ?k = "transactionKey m" and ?d = "ca_deferred st"
  let ?w = "waiting_for ?k ?d"
  have i: "mset (map fst (ca_out st)) + mset (held st) = mset xs" "ca_seen st = request_keys xs"
    "request_keys (map fst (ca_out st)) = request_keys xs" "distinct (ob_keys ?d)" "held_ok H (request_keys xs) ?d"
    "causal H {} (map fst (ca_out st))" "subseq (map fst (filter (\<lambda>r. \<not> snd r) (ca_out st))) xs"
    "list_all (\<lambda>(m, moved). moved \<longrightarrow> \<not> is_request m) (ca_out st)"
    using inv unfolding causal_inv_def by blast+
  have w: "list_all (\<lambda>w. \<not> is_request w \<and> transactionKey w = ?k) ?w" using i held_ok_get by blast
  then have w0: "request_keys ?w = {}" by (auto simp: request_keys_def list_all_iff)
  consider (again) "is_request m" "?k \<in> ca_seen st" | (first) "is_request m" "?k \<notin> ca_seen st"
    | (place) "\<not> is_request m" "?k \<in> ca_seen st \<or> ?k \<notin> H" | (wait) "\<not> is_request m" "?k \<notin> ca_seen st" "?k \<in> H" by blast
  then show ?thesis
  proof cases
    case again
    then have st: "causal_step H m st = st\<lparr>ca_out := ca_out st @ [(m, False)]\<rparr>" by (simp add: causal_step_def Let_def)
    show ?thesis unfolding st causal_inv_def
      using i again by (simp add: causal_append unmoved_snoc insert_absorb)
  next
    case first
    then have st: "causal_step H m st = st\<lparr>ca_seen := insert ?k (ca_seen st), ca_out := ca_out st @ (m, False) # map (\<lambda>w. (w, True)) ?w,
        ca_deferred := filter (\<lambda>e. fst e \<noteq> ?k) ?d\<rparr>" by (simp add: causal_step_def Let_def)
    have "mset ?w + mset (concat (map snd (filter (\<lambda>e. fst e \<noteq> ?k) ?d))) = mset (held st)" using i held_remove by blast
    moreover have "causal H (insert ?k S) ?w" for S by (rule causal_waiting) (use w in \<open>auto simp: list_all_iff\<close>)
    moreover have "held_ok H (insert ?k (request_keys xs)) (filter (\<lambda>e. fst e \<noteq> ?k) ?d)" using i held_ok_drop by blast
    moreover have "list_all (\<lambda>(m, moved). moved \<longrightarrow> \<not> is_request m) (map (\<lambda>w. (w, True)) ?w)" using w by (simp add: list_all_iff)
    ultimately show ?thesis unfolding st causal_inv_def
      using i first w0 by (simp add: causal_append unmoved_snoc comp_def distinct_map_filter ac_simps)
  next
    case place
    then have st: "causal_step H m st = st\<lparr>ca_out := ca_out st @ [(m, False)]\<rparr>" by (auto simp: causal_step_def Let_def)
    show ?thesis unfolding st causal_inv_def
      using i place by (simp add: causal_append unmoved_snoc) blast
  next
    case wait
    then have st: "causal_step H m st = st\<lparr>ca_deferred := ob_set ?d ?k (?w @ [m])\<rparr>" by (simp add: causal_step_def Let_def)
    have "mset (concat (map snd (ob_set ?d ?k (?w @ [m])))) = add_mset m (mset (held st))" using i held_add by blast
    moreover have "held_ok H (request_keys xs) (ob_set ?d ?k (?w @ [m]))" using i w wait by (intro held_ok_set) simp_all
    ultimately show ?thesis unfolding st causal_inv_def
      using i wait by (simp add: unmoved_snoc distinct_update)
  qed
qed

lemma causal_inv_fold: "causal_inv H xs st \<Longrightarrow> causal_inv H (xs @ ms) (fold (causal_step H) ms st)"
proof (induction ms arbitrary: xs st)
  case (Cons m ms)
  show ?case using Cons.IH [OF causal_inv_step [OF Cons.prems, of m]] by simp
qed simp

lemma enforceCausality_facts:
  "mset (map fst (enforceCausality ms)) = mset ms" "causal (request_keys ms) {} (map fst (enforceCausality ms))"
  "subseq (map fst (filter (\<lambda>r. \<not> snd r) (enforceCausality ms))) ms"
  "list_all (\<lambda>(m, moved). moved \<longrightarrow> \<not> is_request m) (enforceCausality ms)"
proof -
  define st where "st = fold (causal_step (request_keys ms)) ms \<lparr>ca_out = [], ca_seen = {}, ca_deferred = []\<rparr>"
  have "causal_inv (request_keys ms) ([] @ ms) st" unfolding st_def
    by (rule causal_inv_fold) (simp add: causal_inv_def held_ok_def)
  then have inv: "causal_inv (request_keys ms) ms st" by simp
  then have "held_ok (request_keys ms) (request_keys ms) (ca_deferred st)" by (simp add: causal_inv_def)
  then have "ca_deferred st = []" by (cases "ca_deferred st") (auto simp: held_ok_def)
  moreover from this have "enforceCausality ms = ca_out st" 
    unfolding enforceCausality_def request_keys_def [symmetric] st_def [symmetric] Let_def by simp
  ultimately show "mset (map fst (enforceCausality ms)) = mset ms" "causal (request_keys ms) {} (map fst (enforceCausality ms))"
    "subseq (map fst (filter (\<lambda>r. \<not> snd r) (enforceCausality ms))) ms"
    "list_all (\<lambda>(m, moved). moved \<longrightarrow> \<not> is_request m) (enforceCausality ms)"
    using inv by (simp_all add: causal_inv_def)
qed

lemma subseq_sorted: "subseq xs ys \<Longrightarrow> sorted (map f ys) \<Longrightarrow> sorted (map f xs)"
proof (induction rule: list_emb.induct)
  case (list_emb_Cons2 x y xs ys)
  have "set xs \<subseteq> set ys" using list_emb_Cons2.hyps(2) by (fastforce elim: list_emb_set)
  then show ?case using list_emb_Cons2 by auto
qed auto

lemma causal_above:
  assumes "causal H {} (us @ r # vs)" "\<not> is_request r" "transactionKey r \<in> H"
  shows "\<exists>q \<in> set us. is_request q \<and> transactionKey q = transactionKey r"
  using assms by (auto simp: causal_append request_keys_def)

lemma orderMessages_perm: "mset (map fst (orderMessages ms)) = mset ms"
  using enforceCausality_facts(1) [of "sort_key ns ms"] by (auto simp: orderMessages_def multiset.map_comp comp_def)

text \<open>C25. The ladder shows the captured messages, each once. When every message has the server's sequence number they
  stand in that order. Otherwise, with clocks that may be wrong, no response stands above the first request of its
  transaction, only responses are moved, and the others keep the order of their times.\<close>

theorem rows_in_causal_order:
  "let rows = orderMessages ms; numbered = list_all (\<lambda>m. seq_of m \<noteq> None) ms in
     mset (map fst rows) = mset ms
     \<and> (numbered \<longrightarrow> sorted (map (\<lambda>r. the (seq_of (fst r))) rows) \<and> list_all (\<lambda>r. \<not> snd r) rows)
     \<and> (\<not> numbered \<longrightarrow>
          (\<forall>us r vs. map fst rows = us @ r # vs \<and> \<not> is_request r \<and> transactionKey r \<in> transactionKey ` set (filter is_request ms) \<longrightarrow>
             (\<exists>q \<in> set us. is_request q \<and> transactionKey q = transactionKey r))
          \<and> list_all (\<lambda>(m, moved). moved \<longrightarrow> \<not> is_request m) rows
          \<and> sorted (map ns (map fst (filter (\<lambda>r. \<not> snd r) rows))))"
proof (cases "list_all (\<lambda>m. seq_of m \<noteq> None) ms")
  case True
  have "sorted (map (\<lambda>m. the (seq_of m)) (sort_key (\<lambda>m. the (seq_of m)) ms))" by simp
  then show ?thesis using True by (simp add: orderMessages_def multiset.map_comp comp_def list_all_iff del: sorted_sort_key)
next
  case False
  let ?rows = "enforceCausality (sort_key ns ms)"
  have rows: "orderMessages ms = ?rows" using False by (auto simp: orderMessages_def)
  have keys: "request_keys (sort_key ns ms) = transactionKey ` set (filter is_request ms)" by (auto simp: request_keys_def)
  note facts = enforceCausality_facts [of "sort_key ns ms", unfolded keys]
  have "mset (map fst ?rows) = mset ms" using facts(1) by simp
  moreover have "sorted (map ns (map fst (filter (\<lambda>r. \<not> snd r) ?rows)))" by (rule subseq_sorted [OF facts(3)]) simp
  moreover have "\<exists>q \<in> set us. is_request q \<and> transactionKey q = transactionKey r"
    if "map fst ?rows = us @ r # vs" "\<not> is_request r" "transactionKey r \<in> transactionKey ` set (filter is_request ms)" for us r vs
    using causal_above [OF _ that(2,3)] facts(2) unfolding that(1) by blast
  ultimately show ?thesis unfolding Let_def rows using False facts(4) by blast
qed

definition wire_row :: "string \<Rightarrow> string \<Rightarrow> int option \<Rightarrow> string \<Rightarrow> string \<Rightarrow> string \<Rightarrow> rat \<Rightarrow> LadderWire" where
  "wire_row callid method status cseq src dst t =
     \<lparr>hr_timestamp = '''', hr_timestamp_ns = Some t, hr_callid = callid, hr_method = method, hr_status = status, hr_cseq = Some cseq,
      hr_attestation = None, hm_src_ip = src, hm_dst_ip = dst, hm_via_branch = None, lw_hairpin = False, lw_ts_corrected = False,
      lw_seq = None, lw_raw_msg = None\<rparr>"

definition sample_rows :: "LadderWire list" where
  "sample_rows = [wire_row ''a'' ''INVITE'' (Some 100) ''1 INVITE'' ''SBC-VIP'' ''BW-NY'' 5,
     wire_row ''a'' ''INVITE'' None ''1 INVITE'' ''BW-NY'' ''SBC-VIP'' 20, wire_row ''a'' ''INVITE'' None ''1 INVITE'' ''SBC-1'' ''FreeSWITCH'' 30,
     wire_row ''b'' ''INVITE'' None ''7 INVITE'' ''FreeSWITCH'' ''SBC-1'' 40, wire_row ''b'' ''INVITE'' None ''7 INVITE'' ''SBC-1'' ''BW-DAL'' 50,
     wire_row ''a'' ''INVITE'' (Some 200) ''1 INVITE'' ''FreeSWITCH'' ''SBC-1'' 60, wire_row ''a'' ''INVITE'' (Some 200) ''1 INVITE'' ''SBC-VIP'' ''BW-NY'' 70]"

theorem rows_in_causal_order_witness:
  "mset (map fst (orderMessages sample_rows)) = mset sample_rows
   \<and> sorted (map ns (map fst (filter (\<lambda>r. \<not> snd r) (orderMessages sample_rows))))"
proof -
  have "\<not> list_all (\<lambda>m. seq_of m \<noteq> None) sample_rows" by (simp add: sample_rows_def wire_row_def seq_of_def)
  then show ?thesis using rows_in_causal_order [of sample_rows] unfolding Let_def by blast
qed

section \<open>Arrows\<close>

definition col_ok :: "int \<Rightarrow> int \<Rightarrow> bool" where
  "col_ok n c \<longleftrightarrow> 0 \<le> c \<and> c < n"

definition cols_ok :: "int \<Rightarrow> (string \<times> int) list \<Rightarrow> bool" where
  "cols_ok n m \<longleftrightarrow> list_all (\<lambda>(k, c). col_ok n c) m"

lemma cols_ok_set: "cols_ok n m \<Longrightarrow> col_ok n c \<Longrightarrow> cols_ok n (ob_set m k c)"
  by (induction m) (auto simp: cols_ok_def)

lemma cols_ok_get: "cols_ok n m \<Longrightarrow> ob_get m k = Some c \<Longrightarrow> col_ok n c"
  by (auto simp: cols_ok_def list_all_iff dest!: map_of_SomeD)

lemma cols_ok_empty [simp]: "cols_ok n []"
  by (simp add: cols_ok_def)

text \<open>A fold that keeps \<open>P\<close> at each of its elements keeps it.\<close>

lemma fold_keeps: "P s \<Longrightarrow> (\<And>x s. x \<in> set xs \<Longrightarrow> P s \<Longrightarrow> P (f x s)) \<Longrightarrow> P (fold f xs s)"
  by (induction xs arbitrary: s) simp_all

lemma index_columns_ok: "cols_ok (int (length nodes)) (index_columns nodes)"
  unfolding index_columns_def by (rule fold_keeps [where P = "cols_ok (int (length nodes))"]) (auto simp: in_set_enumerate_eq col_ok_def intro!: cols_ok_set)

lemma index_b_leg_ok: "cols_ok (int (length nodes)) (index_b_leg nodes)"
  unfolding index_b_leg_def by (rule fold_keeps [where P = "cols_ok (int (length nodes))"]) (auto simp: in_set_enumerate_eq col_ok_def intro!: cols_ok_set)

definition hosts_ok :: "int \<Rightarrow> HostColumnIndex \<Rightarrow> bool" where
  "hosts_ok n h \<longleftrightarrow> cols_ok n (hi_aLeg h) \<and> cols_ok n (hi_bLeg h) \<and> cols_ok n (hi_any h)"

lemma record_host_ok: "hosts_ok n h \<Longrightarrow> col_ok n c \<Longrightarrow> hosts_ok n (record_host k c leg h)"
  by (simp add: record_host_def hosts_ok_def cols_ok_set Let_def)

lemma buildHost_ok:
  assumes "cols_ok n cs" "cols_ok n bs"
  shows "hosts_ok n (buildHostColumnIndex rows cs bs)"
proof -
  have seen: "hosts_ok n (record_seen cs x h)" if "hosts_ok n h" for x h
    using that by (cases "ob_get cs x") (simp_all add: record_seen_def record_host_ok cols_ok_get [OF assms(1)])
  have c: "col_ok n (snd e)" if "e \<in> set cs \<union> set bs" for e
    using that assms by (auto simp: cols_ok_def list_all_iff)
  have step: "hosts_ok n ((\<lambda>(i, col). record_host i col leg) e h)" if "e \<in> set cs \<union> set bs" "hosts_ok n h" for e leg h
    using c [OF that(1)] that(2) by (cases e) (simp add: record_host_ok)
  have "hosts_ok n (fold (\<lambda>(i, col). record_host i col LegA) cs \<lparr>hi_aLeg = [], hi_bLeg = [], hi_any = []\<rparr>)"
    by (rule fold_keeps [where P = "hosts_ok n"]) (simp add: hosts_ok_def, rule step, simp_all)
  then have "hosts_ok n (fold (\<lambda>(i, col). record_host i col LegB) bs
      (fold (\<lambda>(i, col). record_host i col LegA) cs \<lparr>hi_aLeg = [], hi_bLeg = [], hi_any = []\<rparr>))"
    by (rule fold_keeps [where P = "hosts_ok n"]) (rule step, simp_all)
  then show ?thesis unfolding buildHostColumnIndex_def by (rule fold_keeps [where P = "hosts_ok n"]) (intro seen)
qed

definition ctx_ok :: "ResolveContext \<Rightarrow> bool" where
  "ctx_ok ctx \<longleftrightarrow>
     cols_ok (rc_nodeCount ctx) (rc_columnIndex ctx) \<and> cols_ok (rc_nodeCount ctx) (rc_bLegColumnIndex ctx)
     \<and> hosts_ok (rc_nodeCount ctx) (rc_hostColumnIndex ctx) \<and> rc_mediaCol ctx < rc_nodeCount ctx \<and> 0 < rc_nodeCount ctx"

lemma resolve_ok: "ctx_ok ctx \<Longrightarrow> resolveColumn i leg ctx = Some c \<Longrightarrow> col_ok (rc_nodeCount ctx) c"
  using cols_ok_get by (auto simp: ctx_ok_def resolveColumn_def split: option.splits if_splits)

lemma fallback_ok: "ctx_ok ctx \<Longrightarrow> col_ok (rc_nodeCount ctx) (fallbackAnchorByLeg leg ctx)"
  by (auto simp: ctx_ok_def fallbackAnchorByLeg_def col_ok_def)

lemma peer_ok:
  assumes "ctx_ok ctx" "resolvePeerColumnFromSip m leg a ctx = Some c"
  shows "col_ok (rc_nodeCount ctx) c \<and> c \<noteq> a"
proof -
  have host: "col_ok (rc_nodeCount ctx) d" if "lookupHostColumn h leg (rc_hostColumnIndex ctx) = Some d" for h d
    using that assms(1) cols_ok_get by (auto simp: lookupHostColumn_def ctx_ok_def hosts_ok_def Let_def split: if_splits option.splits)
  have "first_other_column leg a (rc_hostColumnIndex ctx) hs = Some c \<Longrightarrow> col_ok (rc_nodeCount ctx) c \<and> c \<noteq> a" for hs
    by (induction hs) (auto split: option.splits if_splits dest: host)
  then show ?thesis using assms(2) by (auto simp: resolvePeerColumnFromSip_def split: option.splits if_splits)
qed

lemma adjacent_ok:
  assumes "ctx_ok ctx" "col_ok (rc_nodeCount ctx) a"
  shows "col_ok (rc_nodeCount ctx) (nearestAdjacentColumn a leg ctx) \<and> (2 \<le> rc_nodeCount ctx \<longrightarrow> nearestAdjacentColumn a leg ctx \<noteq> a)"
  using assms by (auto simp: nearestAdjacentColumn_def col_ok_def Let_def)

lemma direction_ok:
  assumes "ctx_ok ctx" "r = resolveMessageDirection m leg ctx"
  shows "col_ok (rc_nodeCount ctx) (rd_sourceCol r) \<and> col_ok (rc_nodeCount ctx) (rd_destCol r)
    \<and> (2 \<le> rc_nodeCount ctx \<longrightarrow> rd_sourceCol r \<noteq> rd_destCol r)
    \<and> (\<not> rd_inferred r \<longrightarrow> resolveColumn (hm_src_ip m) leg ctx = Some (rd_sourceCol r) \<and> resolveColumn (hm_dst_ip m) leg ctx = Some (rd_destCol r))"
proof -
  let ?s = "resolveColumn (hm_src_ip m) leg ctx" and ?d = "resolveColumn (hm_dst_ip m) leg ctx"
  let ?a = "case ?s of Some c \<Rightarrow> c | None \<Rightarrow> (case ?d of Some c \<Rightarrow> c | None \<Rightarrow> fallbackAnchorByLeg leg ctx)"
  have a: "col_ok (rc_nodeCount ctx) ?a" using resolve_ok fallback_ok assms(1) by (auto split: option.split)
  show ?thesis
  proof (cases "?s \<noteq> None \<and> ?d \<noteq> None \<and> ?s \<noteq> ?d")
    case True
    then show ?thesis using resolve_ok [OF assms(1)] assms(2) by (auto simp: resolveMessageDirection_def)
  next
    case False
    show ?thesis using assms(2) peer_ok [OF assms(1), of m leg ?a] adjacent_ok [OF assms(1) a, of leg] a
      unfolding resolveMessageDirection_def Let_def if_not_P [OF False] by (cases "resolvePeerColumnFromSip m leg ?a ctx") auto
  qed
qed

lemma hairpin_ok:
  assumes "ctx_ok ctx" "r = resolveHairpinColumn m leg ctx"
  shows "col_ok (rc_nodeCount ctx) (rd_sourceCol r) \<and> col_ok (rc_nodeCount ctx) (rd_destCol r)"
proof -
  have "col_ok (rc_nodeCount ctx) (Min (snd ` set (rc_bLegColumnIndex ctx)))" if "rc_bLegColumnIndex ctx \<noteq> []"
    using that assms(1) Min_in [of "snd ` set (rc_bLegColumnIndex ctx)"] by (fastforce simp: ctx_ok_def cols_ok_def list_all_iff)
  then show ?thesis using assms resolve_ok [OF assms(1)] fallback_ok [OF assms(1)]
    by (auto simp: resolveHairpinColumn_def Let_def split: option.split)
qed

lemma layout_context_ok: "nodes \<noteq> [] \<Longrightarrow> cols_ok (int (length nodes)) bs \<Longrightarrow> ctx_ok (layout_context rows nodes bs)"
proof -
  assume "nodes \<noteq> []" "cols_ok (int (length nodes)) bs"
  moreover have "list_ex P nodes \<Longrightarrow> index_or_end P nodes < length nodes" for P by (induction nodes) auto
  ultimately show ?thesis using index_columns_ok [of nodes] buildHost_ok
    by (auto simp: ctx_ok_def layout_context_def find_index_def)
qed

section \<open>Columns and their names\<close>

lemma enumerate_node: "e \<in> set (enumerate 0 nodes) \<Longrightarrow> node_at nodes (int (fst e)) = Some (snd e) \<and> snd e \<in> set nodes"
  by (cases e) (auto simp: in_set_enumerate_eq node_at_def)

lemma index_columns_name: "ob_get (index_columns nodes) x = Some c \<Longrightarrow> \<exists>n. node_at nodes c = Some n \<and> ln_id n = x"
proof -
  define P where "P m \<longleftrightarrow> (\<forall>x c. ob_get m x = Some c \<longrightarrow> (\<exists>n. node_at nodes c = Some n \<and> ln_id n = x))" for m
  have "P (index_columns nodes)" unfolding index_columns_def
    by (rule fold_keeps [where P = P]) (use enumerate_node [where nodes = nodes] in \<open>auto simp: P_def ob_simps split: if_splits\<close>)
  then show "ob_get (index_columns nodes) x = Some c \<Longrightarrow> ?thesis" by (simp add: P_def)
qed

lemma endsWith_split: "endsWith s p \<Longrightarrow> s = take (length s - length p) s @ p"
proof -
  assume "endsWith s p"
  then obtain t where "rev s = rev p @ t" by (auto simp: endsWith_def startsWith_iff)
  then have "s = rev t @ p" by (metis rev_append rev_rev_ident)
  then show ?thesis by simp
qed

lemma endsWith_append: "endsWith (s @ p) p"
  by (simp add: endsWith_def)

lemma index_b_leg_name: "ob_get (index_b_leg nodes) x = Some c \<Longrightarrow> \<exists>n. node_at nodes c = Some n \<and> ln_id n = x @ BLEG_SUFFIX"
proof -
  define P where "P m \<longleftrightarrow> (\<forall>x c. ob_get m x = Some c \<longrightarrow> (\<exists>n. node_at nodes c = Some n \<and> ln_id n = x @ BLEG_SUFFIX))" for m
  have "P (index_b_leg nodes)" unfolding index_b_leg_def
  proof (rule fold_keeps [where P = P])
    fix e m assume e: "e \<in> set (enumerate 0 nodes)" and m: "P m"
    obtain k n where kn: "e = (k, n)" "node_at nodes (int k) = Some n" using enumerate_node [OF e] by (cases e) auto
    show "P ((\<lambda>(k, n) m. if endsWith (ln_id n) BLEG_SUFFIX
        then ob_set m (take (length (ln_id n) - length BLEG_SUFFIX) (ln_id n)) (int k) else m) e m)"
      using m kn endsWith_split [of "ln_id n" BLEG_SUFFIX] by (auto simp: P_def ob_simps split: if_splits)
  qed (simp add: P_def)
  then show "ob_get (index_b_leg nodes) x = Some c \<Longrightarrow> ?thesis" by (simp add: P_def)
qed

text \<open>A column is a participant, or the B-leg clone of one that carries its name.\<close>

definition node_named :: "string set \<Rightarrow> LadderNode \<Rightarrow> bool" where
  "node_named names n \<longleftrightarrow>
     ln_displayLabel n = None \<and> ln_id n \<in> names \<or> (\<exists>p \<in> names. ln_displayLabel n = Some p \<and> ln_id n = p @ BLEG_SUFFIX)"

definition numbered :: "LadderNode list \<Rightarrow> bool" where
  "numbered nodes \<longleftrightarrow> map ln_columnIndex nodes = map int [0..<length nodes]"

lemma numbered_enumerate: "(\<And>k n. ln_columnIndex (f k n) = int k) \<Longrightarrow> numbered (map (\<lambda>(k, n). f k n) (enumerate 0 xs))"
  unfolding numbered_def by (rule nth_equalityI) (simp_all add: nth_enumerate_eq)

lemma split_nodes:
  assumes "splitDualLegNodes nodes rows a b k = (final, bs)" "numbered nodes" "list_all (\<lambda>n. ln_displayLabel n = None \<and> ln_id n \<in> names) nodes"
  shows "numbered final \<and> list_all (node_named names) final \<and> (bs = [] \<or> bs = index_b_leg final) \<and> length nodes \<le> length final"
proof (cases "nodes_to_split nodes rows a b = {}")
  case True
  then show ?thesis using assms by (auto simp: splitDualLegNodes_def node_named_def list_all_iff)
next
  case False
  define cut_ids where "cut_ids = nodes_to_split nodes rows a b"
  define tagged where "tagged = map (\<lambda>n. if ln_id n \<in> cut_ids then n\<lparr>ln_legTag := Some LegA\<rparr> else n) nodes"
  define clones where "clones = map (\<lambda>n. \<lparr>ln_id = ln_id n @ BLEG_SUFFIX, ln_displayLabel = Some (ln_id n), ln_role = ln_role n, ln_columnIndex = - 1,
      ln_legTag = Some LegB, ln_endpointTag = None\<rparr>) (filter (\<lambda>n. ln_id n \<in> cut_ids) nodes)"
  let ?i = "min k (length tagged)"
  have f: "final = map (\<lambda>(k, n). n\<lparr>ln_columnIndex := int k\<rparr>) (enumerate 0 (take ?i tagged @ clones @ drop ?i tagged))" "bs = index_b_leg final"
    using assms(1) False by (auto simp: splitDualLegNodes_def cut_ids_def [symmetric] tagged_def [symmetric] clones_def [symmetric] Let_def)
  have t: "node_named names n" if "n \<in> set tagged" for n
    using that assms(3) by (auto simp: tagged_def node_named_def list_all_iff)
  have c: "node_named names n" if "n \<in> set clones" for n
    using that assms(3) by (auto simp: clones_def node_named_def list_all_iff)
  have all: "node_named names n" if "n \<in> set (take ?i tagged @ clones @ drop ?i tagged)" for n
    using that t c by (auto dest: in_set_takeD in_set_dropD)
  have "node_named names (snd e\<lparr>ln_columnIndex := int (fst e)\<rparr>)" if "e \<in> set (enumerate 0 (take ?i tagged @ clones @ drop ?i tagged))" for e
    using all [of "snd e"] enumerate_node [OF that] by (simp add: node_named_def)
  then have "list_all (node_named names) final" unfolding f(1) by (force simp: list_all_iff)
  moreover have "length tagged = length nodes" by (simp add: tagged_def)
  then have "length nodes \<le> length final" unfolding f(1) by simp
  moreover have "numbered final" unfolding f(1) by (rule numbered_enumerate) simp
  ultimately show ?thesis using f(2) by blast
qed

lemma resolved_name:
  assumes "list_all (node_named names) nodes" "bs = [] \<or> bs = index_b_leg nodes" "\<forall>x \<in> insert i names. \<not> endsWith x BLEG_SUFFIX"
    and "resolveColumn i leg (layout_context rows nodes bs) = Some c"
  shows "\<exists>n. node_at nodes c = Some n \<and> node_label n = i"
proof -
  have named: "node_at nodes c = Some n \<Longrightarrow> node_named names n" for n
    using assms(1) by (auto simp: node_at_def list_all_iff split: if_splits)
  consider n where "node_at nodes c = Some n" "ln_id n = i" | n where "node_at nodes c = Some n" "ln_id n = i @ BLEG_SUFFIX"
    using assms(2,4) index_columns_name index_b_leg_name
    by (auto simp: resolveColumn_def layout_context_def split: option.splits if_splits) blast+
  then show ?thesis
  proof cases
    case 1
    then have "ln_displayLabel n = None" using named assms(3) endsWith_append by (fastforce simp: node_named_def)
    then show ?thesis using 1 by (auto simp: node_label_def)
  next
    case 2
    then have "ln_displayLabel n = Some i" using named assms(3) endsWith_append [of i BLEG_SUFFIX] by (auto simp: node_named_def)
    then show ?thesis using 2 by (auto simp: node_label_def)
  qed
qed

lemma discoverNodes_set: "set (discoverNodes rows) = ends_of rows"
proof -
  have "set (fold (\<lambda>m xs. add_new (hm_dst_ip m) (add_new (hm_src_ip m) xs)) rows xs) = set xs \<union> ends_of rows" for xs
    by (induction rows arbitrary: xs) (auto simp: ends_of_def add_new_def)
  then show ?thesis by (simp add: discoverNodes_def)
qed

lemma orderNodes_nodes:
  assumes "orderNodes rows names a b = (nodes, k)"
  shows "numbered nodes \<and> list_all (\<lambda>n. ln_displayLabel n = None \<and> ln_id n \<in> set names) nodes \<and> length nodes = length names"
proof -
  let ?out = "orderLadderColumns (map (\<lambda>i. \<lparr>op_id = i, op_role = refined_role a b rows i\<rparr>) names)
      (map (\<lambda>m. \<lparr>om_src = hm_src_ip m, om_dst = hm_dst_ip m, om_isInviteRequest = is_invite m\<rparr>) rows)"
  have "mset (orderedIds ?out) = mset names" by (simp add: ordered_perm multiset.map_comp comp_def)
  then have ids: "set (orderedIds ?out) = set names" "length (orderedIds ?out) = length names"
    by (rule mset_eq_setD, rule mset_eq_length)
  have nodes: "nodes = map (\<lambda>(k, i). \<lparr>ln_id = i, ln_displayLabel = None, ln_role = refined_role a b rows i, ln_columnIndex = int k, ln_legTag = None,
      ln_endpointTag = endpointTags ?out i\<rparr>) (enumerate 0 (orderedIds ?out))"
    using assms by (simp add: orderNodes_def Let_def)
  have "numbered nodes" unfolding nodes by (rule numbered_enumerate) simp
  moreover have "list_all (\<lambda>n. ln_displayLabel n = None \<and> ln_id n \<in> set names) nodes"
    unfolding nodes list_all_iff using ids(1) by (force simp: in_set_enumerate_eq)
  ultimately show ?thesis using ids(2) by (simp add: nodes)
qed

text \<open>A row of the layout: what is shown of a captured message.\<close>

definition row_ok :: "LadderNode list \<Rightarrow> LadderMessage \<Rightarrow> bool" where
  "row_ok nodes r \<longleftrightarrow>
     col_ok (int (length nodes)) (lm_sourceCol r) \<and> col_ok (int (length nodes)) (lm_destCol r)
     \<and> (2 \<le> length nodes \<and> \<not> lm_isHairpin r \<longrightarrow> lm_sourceCol r \<noteq> lm_destCol r)
     \<and> (\<not> lm_isHairpin r \<and> \<not> lm_directionInferred r \<longrightarrow>
          node_label (nodes ! nat (lm_sourceCol r)) = hm_src_ip (lm_original r) \<and> node_label (nodes ! nat (lm_destCol r)) = hm_dst_ip (lm_original r))"

lemma connector_row: "connector_ok nodes h \<Longrightarrow> row_ok nodes h"
  by (auto simp: connector_ok_def bridges_def row_ok_def node_at_def col_ok_def split: option.splits if_splits)

lemma captured_row:
  assumes nodes: "nodes \<noteq> []" "list_all (node_named names) nodes" "bs = [] \<or> bs = index_b_leg nodes"
    and names: "\<forall>x \<in> names. \<not> endsWith x BLEG_SUFFIX" "hm_src_ip m \<in> names" "hm_dst_ip m \<in> names"
  shows "row_ok nodes (layout_row (layout_context rows nodes bs) a b i prevs (m, moved))"
proof -
  let ?ctx = "layout_context rows nodes bs" and ?leg = "determineLeg (hr_callid m) a b"
  have "cols_ok (int (length nodes)) bs" using nodes(3) index_b_leg_ok by auto
  then have ctx: "ctx_ok ?ctx" by (rule layout_context_ok [OF nodes(1)])
  have n: "rc_nodeCount ?ctx = int (length nodes)" by (simp add: layout_context_def)
  have label: "node_label (nodes ! nat c) = x" if "resolveColumn x ?leg ?ctx = Some c" "x \<in> names" for x c
    using resolved_name [OF nodes(2,3), of x ?leg rows c] names(1) that by (auto simp: node_at_def split: if_splits)
  show ?thesis
    using direction_ok [OF ctx refl, of m ?leg] hairpin_ok [OF ctx refl, of m ?leg] label names(2,3) unfolding n row_ok_def
    by (simp add: layout_row_def Let_def)
qed

lemma layout_row_plain: "\<not> lm_internalHandoff (layout_row ctx a b i prevs row)"
  by (cases row) (simp add: layout_row_def Let_def)

lemma layout_parts:
  assumes "ms \<noteq> []"
  obtains rows a b nodes bs where "map fst rows = map fst (orderMessages ms)" "nodes \<noteq> []" "numbered nodes" "list_all (node_named (ends_of ms)) nodes"
    "bs = [] \<or> bs = index_b_leg nodes" "la_nodes (computeLayout ms corr) = nodes"
    "la_messages (computeLayout ms corr) = injectInternalHandoffs (layout_rows (layout_context (map fst rows) nodes bs) a b rows) nodes"
proof -
  let ?rows = "orderMessages ms"
  obtain a b where ab: "classifyCallLegs (map fst ?rows) corr = (a, b)" by fastforce
  obtain nodes k where o: "orderNodes (map fst ?rows) (discoverNodes (map fst ?rows)) a b = (nodes, k)" by fastforce
  obtain final bs where f: "splitDualLegNodes nodes (map fst ?rows) a b k = (final, bs)" by fastforce
  have "set (map fst ?rows) = set ms" using orderMessages_perm mset_eq_setD by blast
  then have names: "set (discoverNodes (map fst ?rows)) = ends_of ms" by (simp add: discoverNodes_set ends_of_def)
  note split_facts = split_nodes [OF f, of "ends_of ms"] orderNodes_nodes [OF o, unfolded names]
  have "discoverNodes (map fst ?rows) \<noteq> []" using names assms by (auto simp: ends_of_def simp flip: set_empty)
  then have "final \<noteq> []" using split_facts by auto
  moreover have "la_nodes (computeLayout ms corr) = final"
      "la_messages (computeLayout ms corr) = injectInternalHandoffs (layout_rows (layout_context (map fst ?rows) final bs) a b ?rows) final"
    using assms by (simp_all add: computeLayout_def ab o f Let_def)
  ultimately show thesis using that [of ?rows final bs a b] split_facts by blast
qed

lemma injected_rows:
  assumes plain: "list_all (\<lambda>m. \<not> lm_internalHandoff m) ms" and rows: "list_all (row_ok nodes) ms"
  shows "list_all (row_ok nodes) (injectInternalHandoffs ms nodes)"
proof (cases "list_ex (\<lambda>n. ln_role n = Sbc_vip) nodes")
  case True
  let ?e = "crossing_of ` set (filter lm_internalHandoff ms)"
  let ?out = "handoffs nodes [] ms ?e"
  have "filter (\<lambda>m. \<not> lm_internalHandoff m) ?out = filter (\<lambda>m. \<not> lm_internalHandoff m) ms" by (rule handoffs_filter) simp
  then have "list_all (row_ok nodes) (filter (\<lambda>m. \<not> lm_internalHandoff m) ?out)" using rows by (simp add: list_all_iff)
  moreover have "list_all (row_ok nodes) (filter lm_internalHandoff ?out)"
    using handoffs_connectors [OF plain, of nodes "[]" ?e] connector_row unfolding list_all_iff by blast
  ultimately have "list_all (row_ok nodes) ?out" unfolding list_all_iff set_filter by blast
  then show ?thesis using True by (simp add: inject_handoffs)
next
  case False
  then show ?thesis using rows by (simp add: inject_handoffs)
qed

text \<open>C24. Every row of the ladder is an arrow between two columns that exist; when there are two columns at all, only the rows
  marked as internal hops begin and end in the same one, so no message is drawn as a dot. An arrow not marked as inferred
  joins the columns named by the addresses on the wire. Names that end in the suffix kept for the B-leg columns are
  excluded.\<close>

theorem arrows_join_columns:
  assumes "list_all (\<lambda>m. \<not> endsWith (hm_src_ip m) BLEG_SUFFIX \<and> \<not> endsWith (hm_dst_ip m) BLEG_SUFFIX) ms"
  shows "let l = computeLayout ms corr in
    map ln_columnIndex (la_nodes l) = map int [0..<length (la_nodes l)] \<and> list_all (row_ok (la_nodes l)) (la_messages l)"
proof (cases "ms = []")
  case True
  then show ?thesis by (simp add: computeLayout_def)
next
  case False
  obtain rows a b nodes bs where p: "map fst rows = map fst (orderMessages ms)" "nodes \<noteq> []" "numbered nodes"
      "list_all (node_named (ends_of ms)) nodes" "bs = [] \<or> bs = index_b_leg nodes" "la_nodes (computeLayout ms corr) = nodes"
      "la_messages (computeLayout ms corr) = injectInternalHandoffs (layout_rows (layout_context (map fst rows) nodes bs) a b rows) nodes"
    by (rule layout_parts [OF False])
  let ?ctx = "layout_context (map fst rows) nodes bs"
  let ?shown = "layout_rows ?ctx a b rows"
  have names: "\<forall>x \<in> ends_of ms. \<not> endsWith x BLEG_SUFFIX" using assms by (auto simp: ends_of_def list_all_iff)
  have "set (map fst rows) = set ms" unfolding p(1) using orderMessages_perm mset_eq_setD by blast
  then have ends: "hm_src_ip m \<in> ends_of ms \<and> hm_dst_ip m \<in> ends_of ms" if "m \<in> set (map fst rows)" for m
    using that by (auto simp: ends_of_def)
  have "row_ok nodes (layout_row ?ctx a b i prevs row)" if "row \<in> set rows" for i prevs row
    using captured_row [OF p(2,4,5) names, of "fst row" "map fst rows" a b i prevs "snd row"] ends [of "fst row"] that by simp
  then have rows_ok: "list_all (row_ok nodes) ?shown" by (simp add: layout_rows_def list_all_iff)
  have plain: "list_all (\<lambda>m. \<not> lm_internalHandoff m) ?shown"
    by (simp add: layout_rows_def list_all_iff layout_row_plain)
  have "list_all (row_ok nodes) (injectInternalHandoffs ?shown nodes)" by (rule injected_rows [OF plain rows_ok])
  then show ?thesis using p(3) by (simp add: Let_def p(6,7) numbered_def)
qed

theorem arrows_join_columns_witness:
  "map ln_columnIndex (la_nodes (computeLayout sample_rows [(''a'', [''b''])])) = map int [0..<length (la_nodes (computeLayout sample_rows [(''a'', [''b''])]))]
   \<and> list_all (row_ok (la_nodes (computeLayout sample_rows [(''a'', [''b''])]))) (la_messages (computeLayout sample_rows [(''a'', [''b''])]))"
proof -
  have "list_all (\<lambda>m. \<not> endsWith (hm_src_ip m) BLEG_SUFFIX \<and> \<not> endsWith (hm_dst_ip m) BLEG_SUFFIX) sample_rows" by code_simp
  then show ?thesis using arrows_join_columns [of sample_rows "[(''a'', [''b''])]"] by (simp only: Let_def)
qed

end
