(* ===== verification/Spec2Isabelle.thy ===== *)
theory Spec2Isabelle
  imports Compile_Props Store_Props Assist_Props Ladder_Props Call_Props
    Autosave_Props Wav_Props Ip_Entry Transcript_Props Call_Export Analysis
    Sip_Props Ladder_Layout_Props
begin

text \<open>
  A verification library of the customer portal of the voice platform, the TypeScript sources under
  \<^verbatim>\<open>src/docker/ui/app/src/\<close> (paths below are relative to it). Its largest part is the IVR flow builder: a customer
  draws a call flow of blocks and connections, the builder keeps the draft with undo, saves it under an optimistic
  lock, mirrors the server's compiler to show what is wrong, tells what callers will hear, and takes proposals
  from the flow assistant. Around it stand the Troubleshooting page (grouping captured SIP messages into calls, reading
  them, and laying out the ladder), the Calls & Quality page, voicemail greetings, and the entry of phone numbers and IP addresses.

  \<^bold>\<open>How it is modelled.\<close> Pure functions are HOL functions with the names of the source. A store or a hook is a record,
  each of its actions a function from the record before to the record after. JSON is the datatype \<open>json\<close> of
  \<open>JS_Values\<close>, objects are association lists in insertion order (\<open>ob_get\<close>, \<open>ob_set\<close> in \<open>Prelude\<close>), since the sources
  print, compare and iterate objects in that order. Thrown errors are the left side of a sum. Numbers are exact
  rationals with the two infinities and NaN where the code meets them; texts are eight-bit characters (Windows-1252,
  so that the quotes and dashes of the interface are single characters); bytes of audio files are \<open>8 word\<close>.
  Every definition can be evaluated, and every property with a hypothesis is applied to a concrete input.

  \<^bold>\<open>Theories, sources and what is shown.\<close>
  \<^item> \<open>Prelude\<close>, \<open>JS_Values\<close>, \<open>JS_Text\<close>, \<open>JS_Numbers\<close>: ordered objects, JSON values, the string methods and number texts
    the sources use, with the rewrite rules the other theories share (\<open>ob_simps\<close> and others).
  \<^item> \<open>Blocks\<close> (\<open>flow/model/blocks.ts\<close>, \<open>types/ivr.ts\<close>): block types, defaults, limits and exits.
  \<^item> \<open>Graph\<close>, \<open>Graph_Laws\<close> (\<open>flow/model/graph.ts\<close>): reading any JSON as a working graph and writing it back. Reading
    establishes the builder's invariant, normalised configurations have their declared type, what is unknown survives,
    and loading what was stored changes nothing.
  \<^item> \<open>History\<close> (\<open>flow/model/history.ts\<close>): undo and redo over a timeline of snapshots (locale \<open>undo_history\<close>), bursts
    of typing as one step, and the bound of a hundred states.
  \<^item> \<open>Layout\<close> (\<open>flow/model/layout.ts\<close>): Tidy up never overlaps blocks and lists each once.
  \<^item> \<open>Search\<close>: the stack search that \<open>reaches\<close> and the compiler's reachability loop share, as locale \<open>stack_search\<close>.
  \<^item> \<open>Phone\<close> (\<open>utils/phone.ts\<close>, \<open>utils/format.ts\<close>, \<open>flow/compile/policy.ts\<close>) and \<open>Hours\<close> (the helpers of
    \<open>flow/compile/ivr.ts\<close>, \<open>flow/model/summary.ts\<close>): canonical numbers, the rule for outside transfers, merged opening
    hours and the calendar check.
  \<^item> \<open>Compile\<close>, \<open>Compile_Laws\<close>, \<open>Compile_Spec\<close>, \<open>Compile_Props\<close> (\<open>flow/compile/ivr.ts\<close>): the passes over mutable
    state, their effect step by step, and that together they compute the block by block translation \<open>plan_of\<close> of what
    a caller can reach; accepted plans are closed and within the switch's limits; the compiler always returns, and the
    one way it throws.
  \<^item> \<open>Transcript\<close>, \<open>Transcript_Props\<close> (\<open>describePlan\<close> in \<open>flow/compile/ivr.ts\<close>, \<open>flow/model/summary.ts\<close>): what callers hear
    is told once for each block that can be heard, which for an accepted flow is the whole plan.
  \<^item> \<open>Store\<close>, \<open>Store_Laws\<close>, \<open>Store_Invariants\<close>, \<open>Store_Changes\<close>, \<open>Store_Props\<close> (\<open>flow/store/flowStore.ts\<close>): every action of
    the builder's store. A property of drafts that satisfies the laws of locale \<open>draft_rules\<close> is kept by every action
    and every undo; it is interpreted for soundness of the draft and for the absence of circles.
  \<^item> \<open>Autosave\<close>, \<open>Autosave_Props\<close> (\<open>flow/useAutosave.ts\<close>, the error readers of \<open>pages/ivr/ivrData.ts\<close>): the hook as a
    step relation \<open>session\<close> over edits, timers and answers in any order; when it says saved, the server has the draft.
  \<^item> \<open>Analysis\<close> (\<open>flow/useFlowAnalysis.ts\<close>): the findings shown, as a step relation \<open>analysed\<close> over the store's actions,
    drawings, timers and answers: what is shown as the server's is about the call logic on the screen.
  \<^item> \<open>Assist\<close>, \<open>Conversation\<close>, \<open>Assist_Laws\<close>, \<open>Assist_Props\<close> (\<open>flow/assist/model.ts\<close>, \<open>flow/assist/conversation.ts\<close>): reading
    untrusted jobs, creating the messages of a proposal, replacing placeholders, and the panel's reducer.
  \<^item> \<open>Ladder_Order\<close>, \<open>Ladder_Props\<close> (\<open>components/sip-ladder/ladderOrder.ts\<close>) and \<open>Ladder_Rows\<close>
    (\<open>components/sip-ladder/sipLadderUtils.ts\<close>): the order of the ladder's columns, and the labels, colours and
    retransmissions of its rows.
  \<^item> \<open>Sip_Text\<close>, \<open>Sip_Parse\<close>, \<open>Sip_Props\<close> (\<open>components/sip-ladder/sipUtils.ts\<close>): the parser of captured messages. Headers
    are found under their full or compact names and across folded lines, the Via chain is read back value by value, and
    every media line of an SDP body becomes a stream whose payload types all have a codec.
  \<^item> \<open>Ladder_Layout\<close>, \<open>Handoffs\<close>, \<open>Ladder_Layout_Props\<close> (\<open>components/sip-ladder/sipLadderLayout.ts\<close>): the whole of
    \<open>computeLayout\<close>, on top of the column order, the rows and the parser: rows in causal order, call legs, SBCs split by
    leg, arrows, and the connectors between a VIP and its SBC. \<open>Handoffs\<close> first proves the positional lookups of the
    connector pass equal to questions about the rows before and after, then what the pass adds; \<open>Ladder_Layout_Props\<close>
    carries bounds on columns through every map of the layout.
  \<^item> \<open>Call_Grouping\<close>, \<open>Union_Find\<close>, \<open>Call_Props\<close> (\<open>pages/troubleshooting/callGrouping.ts\<close>): union-find with path
    compression (locales \<open>merging\<close> and \<open>merging_list\<close>, interpreted on the code's two loops) groups exactly the linked
    Call-IDs; an answered call is never shown as failed.
  \<^item> \<open>Call_Records\<close>, \<open>Call_Export\<close> (\<open>pages/calls/quality.ts\<close>, \<open>pages/calls/callsFormat.ts\<close>, \<open>pages/rcf/callOutcome.ts\<close>,
    \<open>utils/callDuration.ts\<close>, \<open>utils/csv.ts\<close>): grades and their summary, labels and outcomes, and an export that can be read
    back.
  \<^item> \<open>Wav\<close>, \<open>Wav_Props\<close> (\<open>pages/voicemail/audio/wav.ts\<close>): encoded greetings are parsed back, sample by sample.
  \<^item> \<open>Ip_Entry\<close> (\<open>utils/ip.ts\<close>): which addresses and blocks are accepted.

  \<^bold>\<open>Parameters and hypotheses.\<close> Code outside the sources is an argument: \<open>nanoid\<close> as a sequence of identifiers
  (hypothesis \<open>fresh_ids\<close> and its like: no identifier repeats), the canvas library's functions that apply node changes
  (\<open>canvas_ok\<close>: they change what the change names), the sort key of \<open>localeCompare\<close>, the callback that creates a
  message, the clock, and the answers of the server. Hypotheses such as distinct block ids are what \<open>Graph_Laws\<close> proves
  of every graph the builder reads.

  \<^bold>\<open>Loops.\<close> Recursion that is not structural has a measure: blocks not yet seen for the searches, Go to chains and
  the transcript's line; bytes left for the RIFF chunks and the CSV reader. The two \<open>while\<close> loops of union-find may
  run forever on a broken map, so they are partial functions into \<open>option\<close>; \<open>groups_are_calls\<close> shows that they return.
  The number texts print up to 17 digits after the point. There is no other fuel.

  \<^bold>\<open>Not modelled.\<close> React components, hooks that only fetch or play, and styles: rendering, not logic of their own. The
  wording of compile issues (their codes, blocks and exits are modelled). The troubleshooting hints of \<open>sipUtils.ts\<close>
  with \<open>isPrivateIP\<close>, \<open>isDockerIP\<close>, \<open>detectRoutingLoop\<close> and \<open>checkFragmentation\<close>, which nothing in the sources calls,
  and the colour mixing of the ladder's CSS texts. The report, dashboard and voicemail page formatters, which rest on
  the browser's locale and time zone. The API, Kamailio, FreeSWITCH, Postgres and infrastructure directories are other
  programs in other languages.
\<close>

end
